(* ===== verification/Prelude.thy ===== *)
theory Prelude
  imports Main "HOL-Library.List_Lexorder" "HOL-Library.Char_ord" "HOL-Library.Signed_Division"
begin

text \<open>
  Shared vocabulary of the development.

  \<^item> Faults: a Go \<open>panic\<close> and a returned Go \<open>error\<close> are both values of type \<open>fault\<close>;
    a fallible pure routine returns \<open>fault + 'a\<close> (type synonym \<open>res\<close>) and is chained with
    \<open>rbind\<close>, which stops at the first fault exactly as an early return or an unwinding panic does.
  \<^item> Stateful code: \<open>('s, 'a) sm\<close> threads a state record and keeps the state that a fault
    leaves behind, so that partial writes before an error are visible in the model.
  \<^item> Decimal text of integers (the parts of \<open>math/big\<close> that the sources use for printing and
    parsing), string splitting and padding.
  \<^item> Generic facts on truncated division, sorted key lists and association lists.
\<close>

section \<open>Fallible computations\<close>

datatype fault = Panic string | Err string

type_synonym 'a res = "fault + 'a"

definition rbind :: "'a res \<Rightarrow> ('a \<Rightarrow> 'b res) \<Rightarrow> 'b res" where
  "rbind m f = (case m of Inl e \<Rightarrow> Inl e | Inr x \<Rightarrow> f x)"

text \<open>The Go idiom \<open>if err != nil { panic(err) }\<close>.\<close>

definition must :: "'a res \<Rightarrow> 'a res" where
  "must m = (case m of Inl (Err e) \<Rightarrow> Inl (Panic e) | _ \<Rightarrow> m)"

definition guard_res :: "bool \<Rightarrow> fault \<Rightarrow> unit res" where
  "guard_res b e = (if b then Inr () else Inl e)"

fun rfold :: "('b \<Rightarrow> 'a \<Rightarrow> 'b res) \<Rightarrow> 'b \<Rightarrow> 'a list \<Rightarrow> 'b res" where
  "rfold f acc [] = Inr acc"
| "rfold f acc (x # xs) = rbind (f acc x) (\<lambda>acc'. rfold f acc' xs)"

fun rmap :: "('a \<Rightarrow> 'b res) \<Rightarrow> 'a list \<Rightarrow> 'b list res" where
  "rmap f [] = Inr []"
| "rmap f (x # xs) = rbind (f x) (\<lambda>y. rbind (rmap f xs) (\<lambda>ys. Inr (y # ys)))"

text \<open>Loops that return early with a verdict: \<open>for ... { if !ok { return false } }; return true\<close>.\<close>

fun rall :: "('a \<Rightarrow> bool res) \<Rightarrow> 'a list \<Rightarrow> bool res" where
  "rall f [] = Inr True"
| "rall f (x # xs) = rbind (f x) (\<lambda>b. if b then rall f xs else Inr False)"

fun rany :: "('a \<Rightarrow> bool res) \<Rightarrow> 'a list \<Rightarrow> bool res" where
  "rany f [] = Inr False"
| "rany f (x # xs) = rbind (f x) (\<lambda>b. if b then Inr True else rany f xs)"

named_theorems res_simps "inversion and computation rules of the fault monad"

lemma rbind_simps [simp]:
  "rbind (Inl e) f = Inl e" "rbind (Inr x) f = f x"
  by (simp_all add: rbind_def)

lemma rbind_Inr_iff [res_simps]: "rbind m f = Inr y \<longleftrightarrow> (\<exists>x. m = Inr x \<and> f x = Inr y)"
  by (cases m) auto

lemma rbind_Inl_iff: "rbind m f = Inl e \<longleftrightarrow> m = Inl e \<or> (\<exists>x. m = Inr x \<and> f x = Inl e)"
  by (cases m) auto

lemma rbind_assoc: "rbind (rbind m f) g = rbind m (\<lambda>x. rbind (f x) g)"
  by (cases m) auto

lemma must_Inr [simp]: "must (Inr x) = Inr x"
  by (simp add: must_def)

lemma must_Inr_iff [res_simps]: "must m = Inr x \<longleftrightarrow> m = Inr x"
  by (auto simp: must_def split: sum.splits fault.splits)

lemma must_Err [simp]: "must (Inl (Err e)) = Inl (Panic e)" "must (Inl (Panic e)) = Inl (Panic e)"
  by (simp_all add: must_def)

lemma guard_res_Inr_iff [res_simps]: "guard_res b e = Inr u \<longleftrightarrow> b"
  by (simp add: guard_res_def)

lemma guard_res_simps [simp]: "guard_res True e = Inr ()" "guard_res False e = Inl e"
  by (simp_all add: guard_res_def)

lemma rfold_append: "rfold f acc (xs @ ys) = rbind (rfold f acc xs) (\<lambda>acc'. rfold f acc' ys)"
  by (induction xs arbitrary: acc) (auto simp: rbind_assoc)

lemma rfold_invariant:
  assumes "rfold f acc xs = Inr acc'" and "I acc"
    and "\<And>a x b. x \<in> set xs \<Longrightarrow> I a \<Longrightarrow> f a x = Inr b \<Longrightarrow> I b"
  shows "I acc'"
  using assms
proof (induction xs arbitrary: acc)
  case Nil
  then show ?case by simp
next
  case (Cons x xs)
  from Cons.prems(1) obtain b where b: "f acc x = Inr b" and r: "rfold f b xs = Inr acc'"
    by (auto simp: res_simps)
  have "I b" using Cons.prems(3) [OF _ Cons.prems(2) b] by simp
  then show ?case using Cons.IH [OF r] Cons.prems(3) by (meson list.set_intros(2))
qed

lemma rmap_Inr_iff: "rmap f xs = Inr ys \<longleftrightarrow> list_all2 (\<lambda>x y. f x = Inr y) xs ys"
  by (induction xs arbitrary: ys) (auto simp: res_simps list_all2_Cons1)

lemma rmap_total: "(\<And>x. x \<in> set xs \<Longrightarrow> f x = Inr (g x)) \<Longrightarrow> rmap f xs = Inr (map g xs)"
  by (induction xs) auto

lemma rall_total: "(\<And>x. x \<in> set xs \<Longrightarrow> f x = Inr (g x)) \<Longrightarrow> rall f xs = Inr (\<forall>x \<in> set xs. g x)"
  by (induction xs) auto

lemma rany_total: "(\<And>x. x \<in> set xs \<Longrightarrow> f x = Inr (g x)) \<Longrightarrow> rany f xs = Inr (\<exists>x \<in> set xs. g x)"
  by (induction xs) auto

section \<open>Stateful computations\<close>

type_synonym ('s, 'a) sm = "'s \<Rightarrow> 'a res \<times> 's"

definition sret :: "'a \<Rightarrow> ('s, 'a) sm" where
  "sret x s = (Inr x, s)"

definition sfail :: "fault \<Rightarrow> ('s, 'a) sm" where
  "sfail e s = (Inl e, s)"

definition sbind :: "('s, 'a) sm \<Rightarrow> ('a \<Rightarrow> ('s, 'b) sm) \<Rightarrow> ('s, 'b) sm" where
  "sbind m f s = (case m s of (Inl e, s') \<Rightarrow> (Inl e, s') | (Inr x, s') \<Rightarrow> f x s')"

definition sgets :: "('s \<Rightarrow> 'a) \<Rightarrow> ('s, 'a) sm" where
  "sgets f s = (Inr (f s), s)"

definition smodify :: "('s \<Rightarrow> 's) \<Rightarrow> ('s, unit) sm" where
  "smodify f s = (Inr (), f s)"

text \<open>A pure fallible routine, run in a state.\<close>

definition slift :: "'a res \<Rightarrow> ('s, 'a) sm" where
  "slift m s = (m, s)"

fun sforeach :: "('a \<Rightarrow> ('s, unit) sm) \<Rightarrow> 'a list \<Rightarrow> ('s, unit) sm" where
  "sforeach f [] = sret ()"
| "sforeach f (x # xs) = sbind (f x) (\<lambda>_. sforeach f xs)"

fun sfold :: "('b \<Rightarrow> 'a \<Rightarrow> ('s, 'b) sm) \<Rightarrow> 'b \<Rightarrow> 'a list \<Rightarrow> ('s, 'b) sm" where
  "sfold f acc [] = sret acc"
| "sfold f acc (x # xs) = sbind (f acc x) (\<lambda>acc'. sfold f acc' xs)"

text \<open>A call whose returned error is dropped: what it wrote stays, and a panic is not caught.\<close>

definition ignore_error :: "('s, 'a) sm \<Rightarrow> ('s, unit) sm" where
  "ignore_error m s = (case m s of (Inl (Panic p), t) \<Rightarrow> (Inl (Panic p), t) | (_, t) \<Rightarrow> (Inr (), t))"

named_theorems sm_simps "computation and inversion rules of the state monad"

lemma sm_run [sm_simps]:
  "sret x s = (Inr x, s)" "sfail e s = (Inl e, s)" "sgets f s = (Inr (f s), s)"
  "smodify g s = (Inr (), g s)" "slift m s = (m, s)"
  by (simp_all add: sret_def sfail_def sgets_def smodify_def slift_def)

lemma sbind_Inr_iff [sm_simps]:
  "sbind m f s = (Inr y, s') \<longleftrightarrow> (\<exists>x t. m s = (Inr x, t) \<and> f x t = (Inr y, s'))"
  by (auto simp: sbind_def split: prod.splits sum.splits)

lemma sbind_run:
  "m s = (Inr x, t) \<Longrightarrow> sbind m f s = f x t"
  "m s = (Inl e, t) \<Longrightarrow> sbind m f s = (Inl e, t)"
  by (simp_all add: sbind_def)

lemma sbind_Inl_iff:
  "sbind m f s = (Inl e, s') \<longleftrightarrow>
     m s = (Inl e, s') \<or> (\<exists>x t. m s = (Inr x, t) \<and> f x t = (Inl e, s'))"
  by (auto simp: sbind_def split: prod.splits sum.splits)

lemma sbind_prim [simp]:
  "sbind (sret x) f = f x" "sbind (sfail e) f = sfail e"
  "sbind (sgets g) f s = f (g s) s" "sbind (smodify h) k s = k () (h s)"
  "sbind (slift (Inr x)) f = f x" "sbind (slift (Inl e)) f = sfail e"
  by (auto simp: sbind_def sm_run fun_eq_iff)

lemma sbind_sret [simp]: "sbind m sret = m"
  by (auto simp: sbind_def sm_run fun_eq_iff split: prod.splits sum.splits)

lemma sbind_assoc: "sbind (sbind m f) g = sbind m (\<lambda>x. sbind (f x) g)"
  by (auto simp: sbind_def fun_eq_iff split: prod.splits sum.splits)

lemma sforeach_invariant:
  assumes "sforeach f xs s = (r, s')" and "I s"
    and "\<And>x t r t'. x \<in> set xs \<Longrightarrow> I t \<Longrightarrow> f x t = (r, t') \<Longrightarrow> I t'"
  shows "I s'"
  using assms
proof (induction xs arbitrary: s)
  case Nil
  then show ?case by (simp add: sm_run)
next
  case (Cons x xs)
  obtain q t where q: "f x s = (q, t)" by fastforce
  have t: "I t" using Cons.prems(2,3) q by (meson list.set_intros(1))
  show ?case
  proof (cases q)
    case (Inl e)
    with Cons.prems(1) q t show ?thesis by (simp add: sbind_def)
  next
    case (Inr u)
    with Cons.prems(1) q have "sforeach f xs t = (r, s')" by (simp add: sbind_def)
    then show ?thesis using Cons.IH t Cons.prems(3) by (meson list.set_intros(2))
  qed
qed

text \<open>The zero value of \<open>time.Time\<close>, the first of January of the year 1.\<close>

definition time_zero :: int where
  "time_zero = - 62135596800 * 10 ^ 9"

section \<open>Truncated division\<close>

text \<open>Go's \<open>big.Int.Quo\<close> and \<open>Rem\<close> are the library's \<open>sdiv\<close> and \<open>smod\<close>.\<close>

lemma abs_sdiv_le: "\<bar>(a :: int) sdiv b\<bar> \<le> \<bar>a\<bar>"
proof (cases "b = 0")
  case True
  then show ?thesis by (simp add: signed_divide_int_def)
next
  case False
  have "\<bar>a\<bar> div \<bar>b\<bar> \<le> \<bar>a\<bar> div 1"
    using False by (intro zdiv_mono2) auto
  moreover have "\<bar>a sdiv b\<bar> \<le> \<bar>a\<bar> div \<bar>b\<bar>"
    by (simp add: signed_divide_int_def abs_mult abs_sgn_eq pos_imp_zdiv_nonneg_iff)
  ultimately show ?thesis by simp
qed

lemma sdiv_nonneg_eq: "0 \<le> (a :: int) \<Longrightarrow> 0 \<le> b \<Longrightarrow> a sdiv b = a div b"
  by (auto simp: signed_divide_int_def sgn_if)

lemma smod_nonneg_eq: "0 \<le> (a :: int) \<Longrightarrow> 0 \<le> b \<Longrightarrow> a smod b = a mod b"
  by (auto simp: signed_modulo_int_def sgn_if)

lemma abs_smod_less: "(b :: int) \<noteq> 0 \<Longrightarrow> \<bar>a smod b\<bar> < \<bar>b\<bar>"
  by (auto simp: signed_modulo_int_def abs_mult sgn_if)

lemma smod_sign: "0 \<le> (a smod b) * (a :: int)"
  by (cases "b = 0") (auto simp: signed_modulo_int_def sgn_if mult_nonneg_nonpos2 mult_nonneg_nonpos)

lemma nat_halves: "0 \<le> n \<Longrightarrow> nat n = 2 * nat (n div 2) + nat (n mod 2)"
  by (simp add: nat_div_distrib nat_mod_distrib)

end
