(* ===== verification/OrderedMap.thy ===== *)
theory OrderedMap
  imports Prelude
begin

text \<open>
  Association lists in strictly ascending key order: the abstract content of an ordered key-value
  container (a B-tree, an IAVL tree, a collection of a module's store).  \<open>om_set\<close> and \<open>om_del\<close> keep
  the order, lookup is \<open>map_of\<close>, iteration is the list itself.
\<close>

definition om_ok :: "('k :: linorder \<times> 'v) list \<Rightarrow> bool" where
  "om_ok xs \<longleftrightarrow> sorted_wrt (<) (map fst xs)"

fun om_set :: "'k :: linorder \<Rightarrow> 'v \<Rightarrow> ('k \<times> 'v) list \<Rightarrow> ('k \<times> 'v) list" where
  "om_set k v [] = [(k, v)]"
| "om_set k v ((x, y) # xs) =
     (if k < x then (k, v) # (x, y) # xs else if k = x then (k, v) # xs else (x, y) # om_set k v xs)"

fun om_del :: "'k :: linorder \<Rightarrow> ('k \<times> 'v) list \<Rightarrow> ('k \<times> 'v) list" where
  "om_del k [] = []"
| "om_del k ((x, y) # xs) = (if k = x then xs else (x, y) # om_del k xs)"

named_theorems om_simps "laws of ordered association lists"

lemma om_ok_simps [simp]:
  "om_ok []" "om_ok ((k, v) # xs) \<longleftrightarrow> (\<forall>x \<in> set xs. k < fst x) \<and> om_ok xs"
  by (auto simp: om_ok_def)

lemma om_ok_distinct: "om_ok xs \<Longrightarrow> distinct (map fst xs)"
  by (simp add: om_ok_def strict_sorted_iff)

lemma om_set_keys: "fst ` set (om_set k v xs) = insert k (fst ` set xs)"
  by (induction xs rule: om_set.induct) auto

lemma om_set_ok [simp]: "om_ok xs \<Longrightarrow> om_ok (om_set k v xs)"
proof (induction k v xs rule: om_set.induct)
  case (2 k v x y xs)
  then have "\<forall>z \<in> fst ` set (om_set k v xs). z = k \<or> x < z"
    by (auto simp: om_set_keys)
  with 2 show ?case by (auto simp: neq_iff)
qed simp

lemma map_of_om_set [om_simps]: "map_of (om_set k v xs) = (map_of xs)(k \<mapsto> v)"
  by (induction xs rule: om_set.induct) auto

lemma om_del_subset: "set (om_del k xs) \<subseteq> set xs"
  by (induction xs rule: om_del.induct) auto

lemma om_del_ok [simp]: "om_ok xs \<Longrightarrow> om_ok (om_del k xs)"
  by (induction xs rule: om_del.induct) (use om_del_subset in fastforce)+

lemma map_of_om_del [om_simps]: "om_ok xs \<Longrightarrow> map_of (om_del k xs) = (map_of xs)(k := None)"
proof (induction xs rule: om_del.induct)
  case (2 k x y xs)
  then have "map_of xs k = None" if "k = x" using that by (force simp: map_of_eq_None_iff)
  with 2 show ?case by auto
qed simp

lemma om_del_keys: "om_ok xs \<Longrightarrow> fst ` set (om_del k xs) = fst ` set xs - {k}"
  using map_of_om_del [of xs k] by (auto simp: dom_map_of_conv_image_fst [symmetric] dom_def split: if_splits)

lemma om_in_set: "om_ok xs \<Longrightarrow> (k, v) \<in> set xs \<longleftrightarrow> map_of xs k = Some v"
  using om_ok_distinct by (metis map_of_SomeD map_of_is_SomeI)

lemma om_ok_filter [simp]: "om_ok xs \<Longrightarrow> om_ok (filter P xs)"
  by (induction xs) auto

lemma om_from_keys: "om_ok xs \<Longrightarrow> map (\<lambda>k. (k, the (map_of xs k))) (map fst xs) = xs"
  unfolding map_map by (rule map_idI) (auto dest: om_ok_distinct)

lemma om_ok_unique:
  assumes "om_ok xs" "om_ok ys" "map_of xs = map_of ys"
  shows "xs = ys"
proof -
  have "map fst xs = map fst ys"
    using assms map_of_eq_dom [OF assms(3)] by (intro strict_sorted_equal) (auto simp: om_ok_def)
  then show ?thesis
    using om_from_keys [OF assms(1)] om_from_keys [OF assms(2)] assms(3) by simp
qed

text \<open>Storing the entries of a map one by one.\<close>

definition om_load :: "('k :: linorder \<times> 'v) list \<Rightarrow> ('k \<times> 'v) list \<Rightarrow> ('k \<times> 'v) list" where
  "om_load es xs = fold (\<lambda>(k, v). om_set k v) es xs"

lemma om_load_simps [simp]:
  "om_load [] xs = xs" "om_load ((k, v) # es) xs = om_load es (om_set k v xs)"
  by (simp_all add: om_load_def)

lemma om_load_ok [simp]: "om_ok xs \<Longrightarrow> om_ok (om_load es xs)"
  by (induction es arbitrary: xs) auto

lemma map_of_om_load: "distinct (map fst es) \<Longrightarrow> map_of (om_load es xs) = map_of xs ++ map_of es"
proof (induction es arbitrary: xs)
  case (Cons e es)
  then have "map_of es (fst e) = None" by (auto simp: map_of_eq_None_iff)
  with Cons show ?case by (cases e) (auto simp: om_simps map_add_def fun_eq_iff split: option.splits)
qed simp

lemma om_load_self: "om_ok xs \<Longrightarrow> om_load xs [] = xs"
  by (rule om_ok_unique) (simp_all add: map_of_om_load om_ok_distinct)

lemma sort_key_distinct: "distinct (map fst xs) \<Longrightarrow> distinct (map fst (sort_key fst xs))"
  by (simp add: distinct_map)

lemma om_set_sum:
  fixes f :: "'k :: linorder \<times> 'v \<Rightarrow> int"
  assumes "om_ok xs"
  shows "(\<Sum>x\<leftarrow>om_set k v xs. f x) =
    (\<Sum>x\<leftarrow>xs. f x) - (case map_of xs k of None \<Rightarrow> 0 | Some w \<Rightarrow> f (k, w)) + f (k, v)"
  using assms
proof (induction k v xs rule: om_set.induct)
  case (2 k v x y xs)
  have "k < x \<Longrightarrow> map_of xs k = None" using 2(2) by (force simp: map_of_eq_None_iff)
  with 2 show ?case by auto
qed simp

lemma om_del_sum:
  fixes f :: "'k :: linorder \<times> 'v \<Rightarrow> int"
  assumes "om_ok xs"
  shows "(\<Sum>x\<leftarrow>om_del k xs. f x) =
    (\<Sum>x\<leftarrow>xs. f x) - (case map_of xs k of None \<Rightarrow> 0 | Some w \<Rightarrow> f (k, w))"
  using assms by (induction k xs rule: om_del.induct) auto

end
