(* ===== verification/KVStore.thy ===== *)
theory KVStore
  imports OrderedMap
begin

text \<open>
  Key-value stores: the interface \<open>KVStore\<close> of \<open>src/store/types\<close> as a record of methods with its
  contract as the locale \<open>kv_store\<close>, key and value validity (\<open>types/validity.go\<close>), range ends
  (\<open>types/utils.go\<close>), the in-memory iterator (\<open>cachekv/internal/memiterator.go\<close>, which
  \<open>core/testing/memdb.go\<close> repeats), and the base store \<open>dbadapter.Store\<close> over \<open>MemDB\<close>.

  A byte slice is a \<open>string\<close>; a slice that may be nil is a \<open>bytes option\<close>.  The third-party B-tree
  is a parameter \<open>btree_ops\<close> whose documented behaviour is the locale \<open>btree_api\<close>; its iterator is a
  position in the ascending item sequence.  The lists of \<open>OrderedMap\<close> satisfy that contract.
\<close>

section \<open>Keys, values and ranges\<close>

type_synonym bytes = string
type_synonym kv_pair = "bytes \<times> bytes option"

definition MaxKeyLength :: nat where "MaxKeyLength = 131071"

definition MaxValueLength :: nat where "MaxValueLength = 2147483647"

definition AssertValidKey :: "bytes \<Rightarrow> unit res" where
  "AssertValidKey key =
     (if length key = 0 then Inl (Panic ''key is nil or empty'')
      else if length key > MaxKeyLength then Inl (Panic ''key is too large'') else Inr ())"

definition AssertValidValue :: "bytes option \<Rightarrow> unit res" where
  "AssertValidValue value =
     (case value of
        None \<Rightarrow> Inl (Panic ''value is nil'')
      | Some v \<Rightarrow> if length v > MaxValueLength then Inl (Panic ''value is too large'') else Inr ())"

text \<open>\<open>bytes.Compare\<close> treats a nil slice as empty.\<close>

definition nonnil :: "bytes option \<Rightarrow> bytes" where
  "nonnil b = (case b of None \<Rightarrow> [] | Some x \<Rightarrow> x)"

definition IsKeyInDomain :: "bytes \<Rightarrow> bytes option \<Rightarrow> bytes option \<Rightarrow> bool" where
  "IsKeyInDomain key start end =
     (if key < nonnil start then False
      else if (case end of None \<Rightarrow> False | Some e \<Rightarrow> e \<le> key) then False else True)"

text \<open>The loop of \<open>PrefixEndBytes\<close> runs from the last byte towards the first, here on the reversed prefix.\<close>

fun prefix_end_rev :: "bytes \<Rightarrow> bytes option" where
  "prefix_end_rev [] = None"
| "prefix_end_rev (b # bs) =
     (if (of_char b :: nat) \<noteq> 255 then Some (char_of (of_char b + 1 :: nat) # bs)
      else prefix_end_rev bs)"

definition PrefixEndBytes :: "bytes \<Rightarrow> bytes option" where
  "PrefixEndBytes prefix = (if length prefix = 0 then None else map_option rev (prefix_end_rev (rev prefix)))"

definition InclusiveEndBytes :: "bytes \<Rightarrow> bytes" where
  "InclusiveEndBytes b = b @ [CHR 0x00]"

section \<open>The interface\<close>

text \<open>\<open>kvIterator start end ascending\<close> is the sequence of items that \<open>Iterator\<close> or \<open>ReverseIterator\<close> yields.\<close>

record 's kv_ops =
  kvGet :: "bytes \<Rightarrow> ('s, bytes option) sm"
  kvHas :: "bytes \<Rightarrow> ('s, bool) sm"
  kvSet :: "bytes \<Rightarrow> bytes option \<Rightarrow> ('s, unit) sm"
  kvDelete :: "bytes \<Rightarrow> ('s, unit) sm"
  kvIterator :: "bytes option \<Rightarrow> bytes option \<Rightarrow> bool \<Rightarrow> ('s, kv_pair list) sm"

definition is_range :: "(bytes \<rightharpoonup> bytes) \<Rightarrow> bytes option \<Rightarrow> bytes option \<Rightarrow> kv_pair list \<Rightarrow> bool" where
  "is_range m start end xs \<longleftrightarrow> om_ok xs \<and>
     (\<forall>k v. (k, v) \<in> set xs \<longleftrightarrow> (\<exists>w. v = Some w \<and> m k = Some w) \<and> IsKeyInDomain k start end)"

definition in_order :: "bool \<Rightarrow> 'a list \<Rightarrow> 'a list" where
  "in_order ascending xs = (if ascending then xs else rev xs)"

lemma is_range_unique: "is_range m s e xs \<Longrightarrow> is_range m s e ys \<Longrightarrow> xs = ys"
proof -
  assume r: "is_range m s e xs" "is_range m s e ys"
  then have "set xs = set ys" unfolding is_range_def by auto
  moreover have "om_ok xs" "om_ok ys" using r by (simp_all add: is_range_def)
  ultimately show "xs = ys"
    by (metis om_ok_unique om_ok_distinct map_of_inject_set)
qed

lemma IsKeyInDomain_iff:
  "IsKeyInDomain k s e \<longleftrightarrow> nonnil s \<le> k \<and> (case e of None \<Rightarrow> True | Some x \<Rightarrow> k < x)"
  by (auto simp: IsKeyInDomain_def split: option.splits)

lemma IsKeyInDomain_all [simp]: "IsKeyInDomain k None None"
  by (simp add: IsKeyInDomain_iff nonnil_def)

text \<open>
  The contract of a store: \<open>kinv\<close> is its invariant, \<open>kabs\<close> its content as a finite map, \<open>kvalid\<close> the
  keys it accepts.  Reads and iterations leave the content alone, writes change it at one key, and an
  iteration yields exactly the pairs of the range, each once, in key order.
\<close>

locale kv_store =
  fixes ops :: "'s kv_ops" and kinv :: "'s \<Rightarrow> bool" and kabs :: "'s \<Rightarrow> bytes \<rightharpoonup> bytes"
    and kvalid :: "bytes \<Rightarrow> bool"
  assumes get: "kinv s \<Longrightarrow> kvalid k \<Longrightarrow>
      \<exists>s'. kvGet ops k s = (Inr (kabs s k), s') \<and> kinv s' \<and> kabs s' = kabs s"
    and has: "kinv s \<Longrightarrow> kvalid k \<Longrightarrow>
      \<exists>s'. kvHas ops k s = (Inr (kabs s k \<noteq> None), s') \<and> kinv s' \<and> kabs s' = kabs s"
    and set: "kinv s \<Longrightarrow> kvalid k \<Longrightarrow> length v \<le> MaxValueLength \<Longrightarrow>
      \<exists>s'. kvSet ops k (Some v) s = (Inr (), s') \<and> kinv s' \<and> kabs s' = (kabs s)(k \<mapsto> v)"
    and delete: "kinv s \<Longrightarrow> kvalid k \<Longrightarrow>
      \<exists>s'. kvDelete ops k s = (Inr (), s') \<and> kinv s' \<and> kabs s' = (kabs s)(k := None)"
    and iterator: "kinv s \<Longrightarrow> start \<noteq> Some [] \<Longrightarrow> end \<noteq> Some [] \<Longrightarrow>
      \<exists>s' xs. kvIterator ops start end asc s = (Inr (in_order asc xs), s') \<and>
        is_range (kabs s) start end xs \<and> kinv s' \<and> kabs s' = kabs s"
    and valid: "kvalid k \<Longrightarrow> AssertValidKey k = Inr ()"

text \<open>A client's use of a store: a sequence of calls.\<close>

datatype kv_call =
    CallGet bytes
  | CallHas bytes
  | CallSet bytes bytes
  | CallDelete bytes
  | CallIterate "bytes option" "bytes option" bool

fun run_call :: "'s kv_ops \<Rightarrow> kv_call \<Rightarrow> ('s, unit) sm" where
  "run_call P (CallGet k) = sbind (kvGet P k) (\<lambda>_. sret ())"
| "run_call P (CallHas k) = sbind (kvHas P k) (\<lambda>_. sret ())"
| "run_call P (CallSet k v) = kvSet P k (Some v)"
| "run_call P (CallDelete k) = kvDelete P k"
| "run_call P (CallIterate start end asc) = sbind (kvIterator P start end asc) (\<lambda>_. sret ())"

fun call_effect :: "kv_call \<Rightarrow> (bytes \<rightharpoonup> bytes) \<Rightarrow> (bytes \<rightharpoonup> bytes)" where
  "call_effect (CallSet k v) m = m(k \<mapsto> v)"
| "call_effect (CallDelete k) m = m(k := None)"
| "call_effect _ m = m"

fun valid_call :: "(bytes \<Rightarrow> bool) \<Rightarrow> kv_call \<Rightarrow> bool" where
  "valid_call kvalid (CallGet k) = kvalid k"
| "valid_call kvalid (CallHas k) = kvalid k"
| "valid_call kvalid (CallSet k v) = (kvalid k \<and> length v \<le> MaxValueLength)"
| "valid_call kvalid (CallDelete k) = kvalid k"
| "valid_call kvalid (CallIterate start end _) = (start \<noteq> Some [] \<and> end \<noteq> Some [])"

context kv_store
begin

lemma run_call_ok:
  assumes "kinv s" "valid_call kvalid c"
  shows "\<exists>s'. run_call ops c s = (Inr (), s') \<and> kinv s' \<and> kabs s' = call_effect c (kabs s)"
proof (cases c)
  case (CallGet k)
  with get [of s k] assms show ?thesis by (auto simp: sbind_def sm_run)
next
  case (CallHas k)
  with has [of s k] assms show ?thesis by (auto simp: sbind_def sm_run)
next
  case (CallIterate a b asc)
  with iterator [of s a b asc] assms show ?thesis by (auto simp: sbind_def sm_run)
qed (use set delete assms in auto)

lemma run_calls_ok:
  "kinv s \<Longrightarrow> list_all (valid_call kvalid) cs \<Longrightarrow>
     \<exists>s'. sforeach (run_call ops) cs s = (Inr (), s') \<and> kinv s' \<and> kabs s' = fold call_effect cs (kabs s)"
proof (induction cs arbitrary: s)
  case Nil
  then show ?case by (simp add: sm_run)
next
  case (Cons c cs)
  then obtain t where t: "run_call ops c s = (Inr (), t)" "kinv t" "kabs t = call_effect c (kabs s)"
    using run_call_ok [of s c] by auto
  with Cons.IH [of t] Cons.prems show ?case by (auto simp: sbind_def)
qed

end

section \<open>The ordered tree and its iterator\<close>

record 't btree_ops =
  btNew :: 't
  btSet :: "bytes \<Rightarrow> bytes option \<Rightarrow> 't \<Rightarrow> 't"
  btGet :: "bytes \<Rightarrow> 't \<Rightarrow> bytes option option"
  btDelete :: "bytes \<Rightarrow> 't \<Rightarrow> 't"
  btItems :: "'t \<Rightarrow> kv_pair list"

locale btree_api =
  fixes bt :: "'t btree_ops" and btok :: "'t \<Rightarrow> bool"
  assumes bt_new: "btok (btNew bt)" "btItems bt (btNew bt) = []"
    and bt_order: "btok t \<Longrightarrow> om_ok (btItems bt t)"
    and bt_set: "btok t \<Longrightarrow> btok (btSet bt k v t)"
      "btok t \<Longrightarrow> map_of (btItems bt (btSet bt k v t)) = (map_of (btItems bt t))(k \<mapsto> v)"
    and bt_get: "btok t \<Longrightarrow> btGet bt k t = map_of (btItems bt t) k"
    and bt_delete: "btok t \<Longrightarrow> btok (btDelete bt k t)"
      "btok t \<Longrightarrow> map_of (btItems bt (btDelete bt k t)) = (map_of (btItems bt t))(k := None)"

definition om_btree :: "kv_pair list btree_ops" where
  "om_btree = \<lparr> btNew = [], btSet = om_set, btGet = (\<lambda>k t. map_of t k), btDelete = om_del, btItems = id \<rparr>"

interpretation om: btree_api om_btree om_ok
  by unfold_locales (simp_all add: om_btree_def om_simps)

record memIterator =
  mi_items :: "kv_pair list"
  mi_pos :: nat
  mi_start :: "bytes option"
  mi_end :: "bytes option"
  mi_ascending :: bool
  mi_valid :: bool

definition iter_Seek :: "bytes \<Rightarrow> kv_pair list \<Rightarrow> nat" where
  "iter_Seek key items = length (takeWhile (\<lambda>x. fst x < key) items)"

definition keyInRange :: "memIterator \<Rightarrow> bytes \<Rightarrow> bool" where
  "keyInRange mi key =
     (if mi_ascending mi \<and> (case mi_end mi of None \<Rightarrow> False | Some e \<Rightarrow> e \<le> key) then False
      else if \<not> mi_ascending mi \<and> (case mi_start mi of None \<Rightarrow> False | Some s \<Rightarrow> key < s) then False
      else True)"

definition mi_item :: "memIterator \<Rightarrow> kv_pair" where
  "mi_item mi = mi_items mi ! mi_pos mi"

definition mi_check :: "memIterator \<Rightarrow> memIterator" where
  "mi_check mi = (if mi_valid mi then mi\<lparr>mi_valid := keyInRange mi (fst (mi_item mi))\<rparr> else mi)"

definition newMemIterator :: "bytes option \<Rightarrow> bytes option \<Rightarrow> kv_pair list \<Rightarrow> bool \<Rightarrow> memIterator" where
  "newMemIterator start end items ascending =
     (let n = length items;
          (pos, valid) =
            (if ascending then
               (case start of Some s \<Rightarrow> (iter_Seek s items, iter_Seek s items < n) | None \<Rightarrow> (0, 0 < n))
             else
               (case end of
                  Some e \<Rightarrow>
                    if \<not> iter_Seek e items < n then (n - 1, 0 < n)
                    else (iter_Seek e items - 1, 0 < iter_Seek e items)
                | None \<Rightarrow> (n - 1, 0 < n)))
      in mi_check \<lparr> mi_items = items, mi_pos = pos, mi_start = start, mi_end = end,
           mi_ascending = ascending, mi_valid = valid \<rparr>)"

definition mi_Next :: "memIterator \<Rightarrow> memIterator res" where
  "mi_Next mi =
     (if \<not> mi_valid mi then Inl (Panic ''invalid memIterator'')
      else Inr (mi_check
        (if mi_ascending mi
         then mi\<lparr>mi_pos := mi_pos mi + 1, mi_valid := mi_pos mi + 1 < length (mi_items mi)\<rparr>
         else mi\<lparr>mi_pos := mi_pos mi - 1, mi_valid := 0 < mi_pos mi\<rparr>)))"

text \<open>What a caller sees that reads the current item and calls \<open>Next\<close> while the iterator is valid.\<close>

fun mi_collect :: "nat \<Rightarrow> memIterator \<Rightarrow> kv_pair list" where
  "mi_collect 0 mi = []"
| "mi_collect (Suc n) mi =
     (if mi_valid mi
      then mi_item mi # (case mi_Next mi of Inl _ \<Rightarrow> [] | Inr mi' \<Rightarrow> mi_collect n mi') else [])"

definition mem_iterator :: "bytes option \<Rightarrow> bytes option \<Rightarrow> kv_pair list \<Rightarrow> bool \<Rightarrow> kv_pair list res" where
  "mem_iterator start end items ascending =
     (if (case start of None \<Rightarrow> False | Some s \<Rightarrow> length s = 0) \<or>
         (case end of None \<Rightarrow> False | Some e \<Rightarrow> length e = 0)
      then Inl (Err ''key cannot be empty'')
      else Inr (mi_collect (length items) (newMemIterator start end items ascending)))"

section \<open>The iterator yields the range\<close>

definition asc_at :: "bytes option \<Rightarrow> bytes option \<Rightarrow> kv_pair list \<Rightarrow> nat \<Rightarrow> memIterator" where
  "asc_at start end items p = mi_check \<lparr> mi_items = items, mi_pos = p, mi_start = start, mi_end = end,
     mi_ascending = True, mi_valid = p < length items \<rparr>"

text \<open>A descending iterator that has \<open>p\<close> items left below and at its position.\<close>

definition desc_at :: "bytes option \<Rightarrow> bytes option \<Rightarrow> kv_pair list \<Rightarrow> nat \<Rightarrow> memIterator" where
  "desc_at start end items p = mi_check \<lparr> mi_items = items, mi_pos = p - 1, mi_start = start, mi_end = end,
     mi_ascending = False, mi_valid = 0 < p \<rparr>"

lemma collect_asc:
  "length items - p \<le> n \<Longrightarrow> mi_collect n (asc_at start end items p) =
     takeWhile (\<lambda>x. case end of None \<Rightarrow> True | Some e \<Rightarrow> fst x < e) (drop p items)"
proof (induction n arbitrary: p)
  case 0
  then show ?case by simp
next
  case (Suc n)
  show ?case
  proof (cases "p < length items")
    case True
    have step: "mi_Next (asc_at start end items p) = Inr (asc_at start end items (p + 1))"
      if "mi_valid (asc_at start end items p)"
      using that by (simp add: asc_at_def mi_Next_def mi_check_def)
    have "mi_valid (asc_at start end items p) \<longleftrightarrow>
        (case end of None \<Rightarrow> True | Some e \<Rightarrow> fst (items ! p) < e)"
      using True by (auto simp: asc_at_def mi_check_def keyInRange_def mi_item_def split: option.splits)
    moreover have "mi_item (asc_at start end items p) = items ! p"
      by (simp add: asc_at_def mi_check_def mi_item_def)
    ultimately show ?thesis
      using Suc step True by (simp add: Cons_nth_drop_Suc [symmetric, OF True])
  next
    case False
    then show ?thesis by (simp add: asc_at_def mi_check_def)
  qed
qed

lemma collect_desc:
  "p \<le> length items \<Longrightarrow> p \<le> n \<Longrightarrow> mi_collect n (desc_at start end items p) =
     takeWhile (\<lambda>x. case start of None \<Rightarrow> True | Some s \<Rightarrow> s \<le> fst x) (rev (take p items))"
proof (induction n arbitrary: p)
  case 0
  then show ?case by simp
next
  case (Suc n)
  show ?case
  proof (cases p)
    case (Suc q)
    have step: "mi_Next (desc_at start end items p) = Inr (desc_at start end items q)"
      if "mi_valid (desc_at start end items p)"
      using that Suc by (simp add: desc_at_def mi_Next_def mi_check_def split: if_splits)
    have "mi_valid (desc_at start end items p) \<longleftrightarrow>
        (case start of None \<Rightarrow> True | Some s \<Rightarrow> s \<le> fst (items ! q))"
      using Suc by (auto simp: desc_at_def mi_check_def keyInRange_def mi_item_def split: option.splits)
    moreover have "mi_item (desc_at start end items p) = items ! q"
      using Suc by (simp add: desc_at_def mi_check_def mi_item_def)
    ultimately show ?thesis
      using Suc.IH [of q] Suc.prems step Suc by (simp add: take_Suc_conv_app_nth)
  qed (simp add: desc_at_def mi_check_def)
qed

lemma newMemIterator_at:
  "newMemIterator start end items True =
     asc_at start end items (case start of None \<Rightarrow> 0 | Some s \<Rightarrow> iter_Seek s items)"
  "newMemIterator start end items False =
     desc_at start end items (case end of None \<Rightarrow> length items | Some e \<Rightarrow> iter_Seek e items)"
proof -
  have full: "iter_Seek e items = length items" if "\<not> iter_Seek e items < length items" for e
    using that length_takeWhile_le [of "\<lambda>x. fst x < e" items] by (simp add: iter_Seek_def)
  show "newMemIterator start end items False =
     desc_at start end items (case end of None \<Rightarrow> length items | Some e \<Rightarrow> iter_Seek e items)"
    by (cases "end") (simp_all add: newMemIterator_def desc_at_def Let_def full)
qed (auto simp: newMemIterator_def asc_at_def split: option.splits)

lemma takeWhile_sorted:
  "om_ok xs \<Longrightarrow> (\<And>x y. x < y \<Longrightarrow> P y \<Longrightarrow> P x) \<Longrightarrow>
     takeWhile (\<lambda>x. P (fst x)) xs = filter (\<lambda>x. P (fst x)) xs"
proof (induction xs)
  case (Cons a xs)
  then have "\<not> P (fst a) \<Longrightarrow> filter (\<lambda>x. P (fst x)) xs = []"
    by (cases a) (auto simp: filter_empty_conv)
  with Cons show ?case by (cases a) simp
qed simp

lemma dropWhile_sorted:
  "om_ok xs \<Longrightarrow> (\<And>x y. x < y \<Longrightarrow> P y \<Longrightarrow> P x) \<Longrightarrow>
     dropWhile (\<lambda>x. P (fst x)) xs = filter (\<lambda>x. \<not> P (fst x)) xs"
proof (induction xs)
  case (Cons a xs)
  then have "\<not> P (fst a) \<Longrightarrow> filter (\<lambda>x. \<not> P (fst x)) xs = xs"
    by (cases a) (auto simp: filter_id_conv)
  with Cons show ?case by (cases a) simp
qed simp

lemma takeWhile_rev_sorted:
  "om_ok xs \<Longrightarrow> (\<And>x y. x < y \<Longrightarrow> P x \<Longrightarrow> P y) \<Longrightarrow>
     takeWhile (\<lambda>x. P (fst x)) (rev xs) = rev (filter (\<lambda>x. P (fst x)) xs)"
proof (induction xs)
  case (Cons a xs)
  then show ?case
    by (cases a) (auto simp: takeWhile_append filter_empty_conv)
qed simp

lemma mem_iterator_range:
  assumes ok: "om_ok items" and "start \<noteq> Some []" "end \<noteq> Some []"
  shows "mem_iterator start end items asc =
     Inr (in_order asc (filter (\<lambda>x. IsKeyInDomain (fst x) start end) items))"
proof (cases asc)
  case True
  let ?p = "case start of None \<Rightarrow> 0 | Some s \<Rightarrow> iter_Seek s items"
  have "drop ?p items = filter (\<lambda>x. nonnil start \<le> fst x) items"
    using dropWhile_sorted [OF ok, of "\<lambda>k. k < nonnil start"]
    by (auto simp: iter_Seek_def nonnil_def dropWhile_eq_drop not_less split: option.splits)
  moreover have "takeWhile (\<lambda>x. case end of None \<Rightarrow> True | Some e \<Rightarrow> fst x < e) xs =
      filter (\<lambda>x. case end of None \<Rightarrow> True | Some e \<Rightarrow> fst x < e) xs" if "om_ok xs" for xs :: "kv_pair list"
    using takeWhile_sorted [OF that, of "\<lambda>k. case end of None \<Rightarrow> True | Some e \<Rightarrow> k < e"]
    by (auto split: option.splits)
  ultimately have "mi_collect (length items) (newMemIterator start end items True) =
      filter (\<lambda>x. IsKeyInDomain (fst x) start end) items"
    using ok by (simp add: newMemIterator_at collect_asc IsKeyInDomain_iff conj_commute)
  with True assms show ?thesis
    by (auto simp: mem_iterator_def in_order_def split: option.splits)
next
  case False
  let ?p = "case end of None \<Rightarrow> length items | Some e \<Rightarrow> iter_Seek e items"
  have le: "?p \<le> length items" by (auto simp: iter_Seek_def length_takeWhile_le split: option.splits)
  have "take ?p items = filter (\<lambda>x. case end of None \<Rightarrow> True | Some e \<Rightarrow> fst x < e) items"
    using takeWhile_sorted [OF ok, of "\<lambda>k. case end of None \<Rightarrow> True | Some e \<Rightarrow> k < e"]
    by (auto simp: iter_Seek_def takeWhile_eq_take [symmetric] split: option.splits)
  moreover have "takeWhile (\<lambda>x. case start of None \<Rightarrow> True | Some s \<Rightarrow> s \<le> fst x) (rev xs) =
      rev (filter (\<lambda>x. nonnil start \<le> fst x) xs)" if "om_ok xs" for xs :: "kv_pair list"
    using takeWhile_rev_sorted [OF that, of "\<lambda>k. nonnil start \<le> k"]
    by (auto simp: nonnil_def split: option.splits)
  ultimately have "mi_collect (length items) (newMemIterator start end items False) =
      rev (filter (\<lambda>x. IsKeyInDomain (fst x) start end) items)"
    using ok le by (simp add: newMemIterator_at collect_desc IsKeyInDomain_iff conj_commute)
  with False assms show ?thesis
    by (auto simp: mem_iterator_def in_order_def split: option.splits)
qed

section \<open>The in-memory database and its adapter\<close>

text \<open>
  \<open>MemDB\<close> (\<open>core/testing/memdb.go\<close>) over a B-tree and \<open>dbadapter.Store\<close> over \<open>MemDB\<close>; the
  mutex that \<open>MemDB\<close> holds during each operation makes the operation one step.
\<close>

definition memkv_get :: "'t btree_ops \<Rightarrow> bytes \<Rightarrow> 't \<Rightarrow> bytes option" where
  "memkv_get bt key t = (case btGet bt key t of None \<Rightarrow> None | Some v \<Rightarrow> v)"

definition memkv_has :: "'t btree_ops \<Rightarrow> bytes \<Rightarrow> 't \<Rightarrow> bool" where
  "memkv_has bt key t \<longleftrightarrow> btGet bt key t \<noteq> None"

definition dbadapter_Get :: "'t btree_ops \<Rightarrow> bytes \<Rightarrow> ('t, bytes option) sm" where
  "dbadapter_Get bt key = sgets (memkv_get bt key)"

definition dbadapter_Has :: "'t btree_ops \<Rightarrow> bytes \<Rightarrow> ('t, bool) sm" where
  "dbadapter_Has bt key = sgets (memkv_has bt key)"

definition dbadapter_Set :: "'t btree_ops \<Rightarrow> bytes \<Rightarrow> bytes option \<Rightarrow> ('t, unit) sm" where
  "dbadapter_Set bt key value =
     sbind (slift (AssertValidKey key)) (\<lambda>_.
     sbind (slift (AssertValidValue value)) (\<lambda>_.
     smodify (btSet bt key value)))"

definition dbadapter_Delete :: "'t btree_ops \<Rightarrow> bytes \<Rightarrow> ('t, unit) sm" where
  "dbadapter_Delete bt key = smodify (btDelete bt key)"

definition dbadapter_Iterator ::
  "'t btree_ops \<Rightarrow> bytes option \<Rightarrow> bytes option \<Rightarrow> bool \<Rightarrow> ('t, kv_pair list) sm" where
  "dbadapter_Iterator bt start end ascending t =
     (must (mem_iterator start end (btItems bt t) ascending), t)"

definition dbadapter_ops :: "'t btree_ops \<Rightarrow> 't kv_ops" where
  "dbadapter_ops bt = \<lparr> kvGet = dbadapter_Get bt, kvHas = dbadapter_Has bt, kvSet = dbadapter_Set bt,
     kvDelete = dbadapter_Delete bt, kvIterator = dbadapter_Iterator bt \<rparr>"

text \<open>\<open>transient.Store\<close>: the same operations; \<open>Commit\<close> replaces the database by an empty one.\<close>

definition transient_Commit :: "'t btree_ops \<Rightarrow> ('t, unit) sm" where
  "transient_Commit bt = smodify (\<lambda>_. btNew bt)"

definition valid_key :: "bytes \<Rightarrow> bool" where
  "valid_key k \<longleftrightarrow> 0 < length k \<and> length k \<le> MaxKeyLength"

lemma AssertValidKey_iff: "AssertValidKey k = Inr () \<longleftrightarrow> valid_key k"
  by (auto simp: AssertValidKey_def valid_key_def)

lemma AssertValidKey_ok [simp]: "valid_key k \<Longrightarrow> AssertValidKey k = Inr ()"
  by (simp add: AssertValidKey_iff)

lemma AssertValidValue_ok [simp]: "length v \<le> MaxValueLength \<Longrightarrow> AssertValidValue (Some v) = Inr ()"
  by (simp add: AssertValidValue_def)

definition mem_ok :: "'t btree_ops \<Rightarrow> ('t \<Rightarrow> bool) \<Rightarrow> 't \<Rightarrow> bool" where
  "mem_ok bt btok t \<longleftrightarrow> btok t \<and> None \<notin> ran (map_of (btItems bt t))"

definition mem_abs :: "'t btree_ops \<Rightarrow> 't \<Rightarrow> bytes \<rightharpoonup> bytes" where
  "mem_abs bt t k = (case map_of (btItems bt t) k of None \<Rightarrow> None | Some v \<Rightarrow> v)"

context btree_api
begin

lemma mem_abs_set: "btok t \<Longrightarrow> mem_abs bt (btSet bt k v t) = (mem_abs bt t)(k := v)"
  by (auto simp: mem_abs_def bt_set fun_eq_iff)

lemma mem_abs_delete: "btok t \<Longrightarrow> mem_abs bt (btDelete bt k t) = (mem_abs bt t)(k := None)"
  by (auto simp: mem_abs_def bt_delete fun_eq_iff)

lemma mem_abs_get: "btok t \<Longrightarrow> memkv_get bt k t = mem_abs bt t k"
  by (simp add: memkv_get_def mem_abs_def bt_get)

lemma mem_abs_has: "mem_ok bt btok t \<Longrightarrow> memkv_has bt k t \<longleftrightarrow> mem_abs bt t k \<noteq> None"
  by (auto simp: memkv_has_def mem_abs_def bt_get mem_ok_def ran_def split: option.splits)
    (metis option.exhaust)

lemma mem_range:
  assumes "mem_ok bt btok t"
  shows "is_range (mem_abs bt t) start end (filter (\<lambda>x. IsKeyInDomain (fst x) start end) (btItems bt t))"
  using assms bt_order [of t]
  by (auto simp: is_range_def mem_abs_def om_in_set mem_ok_def ran_def split: option.splits)
    (metis option.exhaust)

end

sublocale btree_api \<subseteq> adapter: kv_store "dbadapter_ops bt" "mem_ok bt btok" "mem_abs bt" valid_key
proof
  fix t and k v :: bytes and start "end" :: "bytes option" and asc
  assume t: "mem_ok bt btok t"
  then have bt: "btok t" by (simp add: mem_ok_def)
  show "\<exists>s'. kvGet (dbadapter_ops bt) k t = (Inr (mem_abs bt t k), s') \<and> mem_ok bt btok s' \<and>
      mem_abs bt s' = mem_abs bt t"
    using t bt by (simp add: dbadapter_ops_def dbadapter_Get_def sm_run mem_abs_get)
  show "\<exists>s'. kvHas (dbadapter_ops bt) k t = (Inr (mem_abs bt t k \<noteq> None), s') \<and> mem_ok bt btok s' \<and>
      mem_abs bt s' = mem_abs bt t"
    using t by (simp add: dbadapter_ops_def dbadapter_Has_def sm_run mem_abs_has)
  show "\<exists>s'. kvSet (dbadapter_ops bt) k (Some v) t = (Inr (), s') \<and> mem_ok bt btok s' \<and>
      mem_abs bt s' = (mem_abs bt t)(k \<mapsto> v)" if "valid_key k" "length v \<le> MaxValueLength"
  proof -
    have "AssertValidKey k = Inr ()" "AssertValidValue (Some v) = Inr ()" using that by simp_all
    with t bt show ?thesis
      by (auto simp: dbadapter_ops_def dbadapter_Set_def sm_run mem_abs_set mem_ok_def bt_set ran_def
          split: if_splits)
  qed
  show "\<exists>s'. kvDelete (dbadapter_ops bt) k t = (Inr (), s') \<and> mem_ok bt btok s' \<and>
      mem_abs bt s' = (mem_abs bt t)(k := None)"
    using t bt by (auto simp: dbadapter_ops_def dbadapter_Delete_def sm_run mem_abs_delete mem_ok_def
        bt_delete ran_def split: if_splits)
  show "\<exists>s' xs. kvIterator (dbadapter_ops bt) start end asc t = (Inr (in_order asc xs), s') \<and>
      is_range (mem_abs bt t) start end xs \<and> mem_ok bt btok s' \<and> mem_abs bt s' = mem_abs bt t"
    if "start \<noteq> Some []" "end \<noteq> Some []"
    using t bt_order [OF bt] mem_range [OF t] that
    by (auto simp: dbadapter_ops_def dbadapter_Iterator_def mem_iterator_range)
qed simp

end
