(* ===== verification/MergeIterator.thy ===== *)
theory MergeIterator
  imports KVStore
begin

text \<open>
  \<open>cacheMergeIterator\<close> (\<open>src/store/cachekv/internal/mergeiterator.go\<close>): the iterator of a branching
  store, which merges the parent's iterator with the iterator over the cached items, where a cached nil
  value stands for a deletion.  An iterator that is merged is the list of the items it has left.  The
  items read off the merge iterator are shown to be the parent's items overridden by the cached ones.
\<close>

section \<open>The merge iterator\<close>

definition cmp_lt :: "bool \<Rightarrow> bytes \<Rightarrow> bytes \<Rightarrow> bool" where
  "cmp_lt ascending a b \<longleftrightarrow> (if ascending then a < b else b < a)"

record cacheMergeIterator =
  mg_parent :: "kv_pair list"
  mg_cache :: "kv_pair list"
  mg_ascending :: bool
  mg_valid :: bool

fun skipCacheDeletes :: "bool \<Rightarrow> bytes option \<Rightarrow> kv_pair list \<Rightarrow> kv_pair list" where
  "skipCacheDeletes ascending until [] = []"
| "skipCacheDeletes ascending until ((k, v) # cache) =
     (if v = None \<and> (case until of None \<Rightarrow> True | Some u \<Rightarrow> cmp_lt ascending k u)
      then skipCacheDeletes ascending until cache else (k, v) # cache)"

lemma skipCacheDeletes_length: "length (skipCacheDeletes asc u cs) \<le> length cs"
  by (induction asc u cs rule: skipCacheDeletes.induct) auto

text \<open>The result is the pair of advanced iterators and whether the merge iterator is valid.\<close>

function skipUntilExistsOrInvalid ::
  "bool \<Rightarrow> kv_pair list \<Rightarrow> kv_pair list \<Rightarrow> kv_pair list \<times> kv_pair list \<times> bool" where
  "skipUntilExistsOrInvalid ascending parent cache =
     (case parent of
        [] \<Rightarrow> let cache' = skipCacheDeletes ascending None cache in ([], cache', cache' \<noteq> [])
      | (keyP, _) # parent' \<Rightarrow>
          (case cache of
             [] \<Rightarrow> (parent, cache, True)
           | (keyC, valueC) # cache' \<Rightarrow>
               if cmp_lt ascending keyP keyC then (parent, cache, True)
               else if keyP = keyC then
                 (if valueC = None then skipUntilExistsOrInvalid ascending parent' cache'
                  else (parent, cache, True))
               else
                 (if valueC = None
                  then skipUntilExistsOrInvalid ascending parent
                         (skipCacheDeletes ascending (Some keyP) cache')
                  else (parent, cache, True))))"
  by pat_completeness auto
termination
  by (relation "measure (\<lambda>(a, p, c). length p + length c)")
    (use skipCacheDeletes_length in \<open>auto simp: less_Suc_eq_le\<close>)

declare skipUntilExistsOrInvalid.simps [simp del]

definition mg_skip :: "cacheMergeIterator \<Rightarrow> cacheMergeIterator" where
  "mg_skip it =
     (case skipUntilExistsOrInvalid (mg_ascending it) (mg_parent it) (mg_cache it) of
        (p, c, v) \<Rightarrow> it\<lparr>mg_parent := p, mg_cache := c, mg_valid := v\<rparr>)"

definition NewCacheMergeIterator :: "kv_pair list \<Rightarrow> kv_pair list \<Rightarrow> bool \<Rightarrow> cacheMergeIterator" where
  "NewCacheMergeIterator parent cache ascending =
     mg_skip \<lparr> mg_parent = parent, mg_cache = cache, mg_ascending = ascending, mg_valid = False \<rparr>"

definition mg_assertValid :: "cacheMergeIterator \<Rightarrow> unit res" where
  "mg_assertValid it = (if \<not> mg_valid it then Inl (Panic ''invalid cacheMergeIterator'') else Inr ())"

definition mg_Key :: "cacheMergeIterator \<Rightarrow> bytes res" where
  "mg_Key it = rbind (mg_assertValid it) (\<lambda>_.
     case mg_parent it of
       [] \<Rightarrow> Inr (fst (hd (mg_cache it)))
     | (keyP, _) # _ \<Rightarrow>
         (case mg_cache it of
            [] \<Rightarrow> Inr keyP
          | (keyC, _) # _ \<Rightarrow>
              if cmp_lt (mg_ascending it) keyP keyC then Inr keyP
              else if keyP = keyC then Inr keyP else Inr keyC))"

definition mg_Value :: "cacheMergeIterator \<Rightarrow> bytes option res" where
  "mg_Value it = rbind (mg_assertValid it) (\<lambda>_.
     case mg_parent it of
       [] \<Rightarrow> Inr (snd (hd (mg_cache it)))
     | (keyP, valueP) # _ \<Rightarrow>
         (case mg_cache it of
            [] \<Rightarrow> Inr valueP
          | (keyC, valueC) # _ \<Rightarrow>
              if cmp_lt (mg_ascending it) keyP keyC then Inr valueP
              else if keyP = keyC then Inr valueC else Inr valueC))"

definition mg_advance :: "cacheMergeIterator \<Rightarrow> cacheMergeIterator" where
  "mg_advance it =
     (case mg_parent it of
        [] \<Rightarrow> it\<lparr>mg_cache := tl (mg_cache it)\<rparr>
      | (keyP, _) # parent' \<Rightarrow>
          (case mg_cache it of
             [] \<Rightarrow> it\<lparr>mg_parent := parent'\<rparr>
           | (keyC, _) # cache' \<Rightarrow>
               if cmp_lt (mg_ascending it) keyP keyC then it\<lparr>mg_parent := parent'\<rparr>
               else if keyP = keyC then it\<lparr>mg_parent := parent', mg_cache := cache'\<rparr>
               else it\<lparr>mg_cache := cache'\<rparr>))"

definition mg_Next :: "cacheMergeIterator \<Rightarrow> cacheMergeIterator res" where
  "mg_Next it = rbind (mg_assertValid it) (\<lambda>_. Inr (mg_skip (mg_advance it)))"

text \<open>The items a caller reads that calls \<open>Key\<close>, \<open>Value\<close> and \<open>Next\<close> while the iterator is valid.\<close>

fun mg_collect :: "nat \<Rightarrow> cacheMergeIterator \<Rightarrow> kv_pair list res" where
  "mg_collect 0 it = Inr []"
| "mg_collect (Suc n) it =
     (if \<not> mg_valid it then Inr []
      else rbind (mg_Key it) (\<lambda>k. rbind (mg_Value it) (\<lambda>v. rbind (mg_Next it) (\<lambda>it'.
           rbind (mg_collect n it') (\<lambda>xs. Inr ((k, v) # xs))))))"

section \<open>The merge iterator yields the merged sequence\<close>

text \<open>Reference: the parent's sequence overridden by the cache's, deletions dropped.\<close>

fun merge_ref :: "bool \<Rightarrow> kv_pair list \<Rightarrow> kv_pair list \<Rightarrow> kv_pair list" where
  "merge_ref asc [] cs = filter (\<lambda>x. snd x \<noteq> None) cs"
| "merge_ref asc (p # ps) [] = p # ps"
| "merge_ref asc (p # ps) (c # cs) =
     (if cmp_lt asc (fst p) (fst c) then p # merge_ref asc ps (c # cs)
      else if fst p = fst c then (if snd c = None then [] else [c]) @ merge_ref asc ps cs
      else (if snd c = None then [] else [c]) @ merge_ref asc (p # ps) cs)"

lemma cmp_lt_irrefl [simp]: "\<not> cmp_lt asc a a"
  by (auto simp: cmp_lt_def)

lemma cmp_lt_asym: "cmp_lt asc a b \<Longrightarrow> \<not> cmp_lt asc b a"
  by (auto simp: cmp_lt_def split: if_splits)

lemma cmp_lt_trans: "cmp_lt asc a b \<Longrightarrow> cmp_lt asc b c \<Longrightarrow> cmp_lt asc a c"
  by (auto simp: cmp_lt_def split: if_splits)

lemma cmp_lt_total: "\<not> cmp_lt asc a b \<Longrightarrow> a \<noteq> b \<Longrightarrow> cmp_lt asc b a"
  by (auto simp: cmp_lt_def split: if_splits)

lemma merge_ref_Nil2 [simp]: "merge_ref asc ps [] = ps"
  by (cases ps) simp_all

lemma merge_skip_none:
  "filter (\<lambda>x. snd x \<noteq> None) (skipCacheDeletes asc None cs) = filter (\<lambda>x. snd x \<noteq> None) cs \<and>
   (skipCacheDeletes asc None cs = [] \<or> snd (hd (skipCacheDeletes asc None cs)) \<noteq> None)"
  by (induction cs) auto

lemma merge_skip_until:
  "merge_ref asc (p # ps) (skipCacheDeletes asc (Some (fst p)) cs) = merge_ref asc (p # ps) cs"
  by (induction cs) (auto dest: cmp_lt_asym)

text \<open>
  What \<open>skipUntilExistsOrInvalid\<close> leaves: the same merged sequence, and a position at which the next
  item, if any, is the one \<open>Key\<close> and \<open>Value\<close> read.
\<close>

definition exposed :: "bool \<Rightarrow> kv_pair list \<Rightarrow> kv_pair list \<Rightarrow> bool" where
  "exposed asc ps cs \<longleftrightarrow>
     (case (ps, cs) of
        ([], []) \<Rightarrow> False
      | ([], c # _) \<Rightarrow> snd c \<noteq> None
      | (p # _, []) \<Rightarrow> True
      | (p # _, c # _) \<Rightarrow> cmp_lt asc (fst p) (fst c) \<or> snd c \<noteq> None)"

lemma skipUntil_Nil2: "skipUntilExistsOrInvalid asc (p # ps) [] = (p # ps, [], True)"
  by (cases p) (simp add: skipUntilExistsOrInvalid.simps)

lemma skipUntil_correct:
  "skipUntilExistsOrInvalid asc ps cs = (ps', cs', v) \<Longrightarrow>
     merge_ref asc ps' cs' = merge_ref asc ps cs \<and> length ps' + length cs' \<le> length ps + length cs \<and>
     (v \<longrightarrow> exposed asc ps' cs') \<and> (\<not> v \<longrightarrow> merge_ref asc ps' cs' = [])"
proof (induction asc ps cs arbitrary: ps' cs' v rule: skipUntilExistsOrInvalid.induct)
  case (1 asc ps cs)
  show ?case
  proof (cases ps)
    case Nil
    with "1.prems" have "ps' = []" "cs' = skipCacheDeletes asc None cs" "v \<longleftrightarrow> cs' \<noteq> []"
      by (auto simp: skipUntilExistsOrInvalid.simps [of asc "[]" cs] Let_def)
    with Nil show ?thesis
      using merge_skip_none [of asc cs] skipCacheDeletes_length [of asc None cs]
      by (auto simp: exposed_def split: list.splits)
  next
    case (Cons p qs)
    note ps = Cons
    show ?thesis
    proof (cases cs)
      case Nil
      with "1.prems" ps show ?thesis
        by (auto simp: skipUntil_Nil2 exposed_def)
    next
      case (Cons c ds)
      obtain kp vp kc vc where p: "p = (kp, vp)" and c: "c = (kc, vc)" by fastforce
      note unfold = skipUntilExistsOrInvalid.simps [of asc "(kp, vp) # qs" "(kc, vc) # ds"]
      consider "cmp_lt asc kp kc \<or> vc \<noteq> None" | "\<not> cmp_lt asc kp kc" "kp = kc" "vc = None"
        | "\<not> cmp_lt asc kp kc" "kp \<noteq> kc" "vc = None" by blast
      then show ?thesis
      proof cases
        case 1
        with "1.prems" ps Cons p c have "ps' = ps" "cs' = cs" "v"
          by (auto simp: unfold split: if_splits)
        with 1 ps Cons p c show ?thesis by (auto simp: exposed_def)
      next
        case 2
        with "1.prems" ps Cons p c have "skipUntilExistsOrInvalid asc qs ds = (ps', cs', v)"
          by (simp add: skipUntilExistsOrInvalid.simps [of asc "(kc, vp) # qs" "(kc, None) # ds"])
        with 2 "1.IH"(1) [OF ps p [symmetric] Cons c [symmetric]] ps Cons p c show ?thesis by auto
      next
        case 3
        with "1.prems" ps Cons p c have
          r: "skipUntilExistsOrInvalid asc ps (skipCacheDeletes asc (Some kp) ds) = (ps', cs', v)"
          by (simp add: skipUntilExistsOrInvalid.simps [of asc "(kp, vp) # qs" "(kc, None) # ds"])
        have m: "merge_ref asc ps (skipCacheDeletes asc (Some kp) ds) = merge_ref asc ps cs"
          using merge_skip_until [of asc p qs ds] 3 ps Cons p c by simp
        from r 3 "1.IH"(2) [OF ps p [symmetric] Cons c [symmetric]] m Cons
          skipCacheDeletes_length [of asc "Some kp" ds] show ?thesis by auto
      qed
    qed
  qed
qed

lemma mg_skip_fields [simp]: "mg_ascending (mg_skip it) = mg_ascending it"
  by (simp add: mg_skip_def split: prod.splits)

definition mg_rest :: "cacheMergeIterator \<Rightarrow> kv_pair list" where
  "mg_rest it = merge_ref (mg_ascending it) (mg_parent it) (mg_cache it)"

definition mg_ok :: "cacheMergeIterator \<Rightarrow> bool" where
  "mg_ok it \<longleftrightarrow> (if mg_valid it then exposed (mg_ascending it) (mg_parent it) (mg_cache it) else mg_rest it = [])"

definition mg_size :: "cacheMergeIterator \<Rightarrow> nat" where
  "mg_size it = length (mg_parent it) + length (mg_cache it)"

lemma mg_skip_correct: "mg_ok (mg_skip it) \<and> mg_rest (mg_skip it) = mg_rest it \<and> mg_size (mg_skip it) \<le> mg_size it"
proof -
  obtain ps cs v where r: "skipUntilExistsOrInvalid (mg_ascending it) (mg_parent it) (mg_cache it) = (ps, cs, v)"
    by (metis prod_cases3)
  from skipUntil_correct [OF r] show ?thesis
    by (auto simp: mg_skip_def mg_ok_def mg_rest_def mg_size_def r)
qed

lemma mg_step:
  assumes "mg_ok it" "mg_valid it"
  shows "\<exists>k v it'. mg_Key it = Inr k \<and> mg_Value it = Inr v \<and> mg_Next it = Inr it' \<and>
    mg_rest it = (k, v) # mg_rest it' \<and> mg_ok it' \<and> mg_size it' < mg_size it"
proof -
  have e: "exposed (mg_ascending it) (mg_parent it) (mg_cache it)"
    using assms by (simp add: mg_ok_def)
  have "mg_Next it = Inr (mg_skip (mg_advance it))" using assms(2) by (simp add: mg_Next_def mg_assertValid_def)
  moreover have "\<exists>k v. mg_Key it = Inr k \<and> mg_Value it = Inr v \<and>
      mg_rest it = (k, v) # mg_rest (mg_advance it) \<and> mg_size (mg_advance it) < mg_size it"
    using e assms(2)
    by (cases "mg_parent it"; cases "mg_cache it")
      (auto simp: exposed_def mg_advance_def mg_Key_def mg_Value_def mg_assertValid_def mg_size_def mg_rest_def)
  ultimately show ?thesis by (metis mg_skip_correct le_less_trans)
qed

lemma mg_collect_correct: "mg_ok it \<Longrightarrow> mg_size it \<le> n \<Longrightarrow> mg_collect n it = Inr (mg_rest it)"
proof (induction n arbitrary: it)
  case 0
  then show ?case by (auto simp: mg_ok_def mg_size_def exposed_def mg_rest_def)
next
  case (Suc n)
  show ?case
  proof (cases "mg_valid it")
    case True
    from mg_step [OF Suc.prems(1) True] obtain k v it' where
      "mg_Key it = Inr k" "mg_Value it = Inr v" "mg_Next it = Inr it'" "mg_rest it = (k, v) # mg_rest it'"
      "mg_ok it'" "mg_size it' < mg_size it" by blast
    with Suc True show ?thesis by simp
  next
    case False
    with Suc.prems show ?thesis by (simp add: mg_ok_def)
  qed
qed

lemma merge_iterator_collect:
  "mg_collect (length ps + length cs) (NewCacheMergeIterator ps cs asc) = Inr (merge_ref asc ps cs)"
  using mg_collect_correct [of "NewCacheMergeIterator ps cs asc" "length ps + length cs"]
    mg_skip_correct [of "\<lparr> mg_parent = ps, mg_cache = cs, mg_ascending = asc, mg_valid = False \<rparr>"]
  by (simp add: NewCacheMergeIterator_def mg_rest_def mg_size_def)

lemma sorted_lt_distinct: "sorted_wrt (cmp_lt asc) (map fst xs) \<Longrightarrow> distinct (map fst xs)"
  by (induction xs) auto

lemma merge_ref_subset: "set (merge_ref asc ps cs) \<subseteq> set ps \<union> set cs"
  by (induction asc ps cs rule: merge_ref.induct) auto

lemma merge_ref_sorted:
  "sorted_wrt (cmp_lt asc) (map fst ps) \<Longrightarrow> sorted_wrt (cmp_lt asc) (map fst cs) \<Longrightarrow>
     sorted_wrt (cmp_lt asc) (map fst (merge_ref asc ps cs))"
proof (induction asc ps cs rule: merge_ref.induct)
  case (1 asc cs)
  then show ?case by (simp add: sorted_wrt_map sorted_wrt_filter)
next
  case (3 asc p ps c cs)
  have above: "\<forall>x \<in> set (merge_ref asc qs ds). cmp_lt asc k (fst x)"
    if "\<forall>y \<in> set qs. cmp_lt asc k (fst y)" "\<forall>y \<in> set ds. cmp_lt asc k (fst y)"
    for qs ds k using that merge_ref_subset [of asc qs ds] by blast
  have tail: "\<forall>y \<in> set ps. cmp_lt asc (fst p) (fst y)" "\<forall>y \<in> set cs. cmp_lt asc (fst c) (fst y)"
    using "3.prems" by auto
  consider (less) "cmp_lt asc (fst p) (fst c)" | (eq) "fst p = fst c" | (greater) "cmp_lt asc (fst c) (fst p)"
    using cmp_lt_total by blast
  then show ?case
  proof cases
    case less
    have "sorted_wrt (cmp_lt asc) (map fst (merge_ref asc ps (c # cs)))"
      by (rule "3.IH"(1)) (use less "3.prems" in auto)
    moreover have "\<forall>x \<in> set (merge_ref asc ps (c # cs)). cmp_lt asc (fst p) (fst x)"
      by (rule above) (use less tail cmp_lt_trans [OF less] in auto)
    moreover have "merge_ref asc (p # ps) (c # cs) = p # merge_ref asc ps (c # cs)" using less by simp
    ultimately show ?thesis by simp
  next
    case eq
    have "sorted_wrt (cmp_lt asc) (map fst (merge_ref asc ps cs))"
      by (rule "3.IH"(2)) (use eq "3.prems" in auto)
    moreover have "\<forall>x \<in> set (merge_ref asc ps cs). cmp_lt asc (fst c) (fst x)"
      by (rule above) (use eq tail in auto)
    moreover have "merge_ref asc (p # ps) (c # cs) = (if snd c = None then [] else [c]) @ merge_ref asc ps cs"
      using eq by simp
    ultimately show ?thesis by simp
  next
    case greater
    note ng = cmp_lt_asym [OF greater]
    have ne: "fst p \<noteq> fst c" using greater by auto
    have "sorted_wrt (cmp_lt asc) (map fst (merge_ref asc (p # ps) cs))"
      by (rule "3.IH"(3)) (use ng ne "3.prems" in auto)
    moreover have "\<forall>x \<in> set (merge_ref asc (p # ps) cs). cmp_lt asc (fst c) (fst x)"
      by (rule above) (use greater tail cmp_lt_trans [OF greater] in auto)
    moreover have "merge_ref asc (p # ps) (c # cs) = (if snd c = None then [] else [c]) @ merge_ref asc (p # ps) cs"
      using ng ne by simp
    ultimately show ?thesis by (simp del: merge_ref.simps)
  qed
qed simp

lemma merge_ref_set:
  "sorted_wrt (cmp_lt asc) (map fst ps) \<Longrightarrow> sorted_wrt (cmp_lt asc) (map fst cs) \<Longrightarrow>
     (k, v) \<in> set (merge_ref asc ps cs) \<longleftrightarrow>
       (k, v) \<in> set cs \<and> v \<noteq> None \<or> (k, v) \<in> set ps \<and> (\<forall>w. (k, w) \<notin> set cs)"
proof (induction asc ps cs rule: merge_ref.induct)
  case (3 asc p ps c cs)
  obtain kp vp kc vc where pc: "p = (kp, vp)" "c = (kc, vc)" by fastforce
  have tail: "\<forall>y \<in> set ps. cmp_lt asc kp (fst y)" "\<forall>y \<in> set cs. cmp_lt asc kc (fst y)"
    using "3.prems" pc by auto
  then have after: "(kp, w) \<notin> set ps" "(kc, w) \<notin> set cs" for w by force+
  consider (less) "cmp_lt asc kp kc" | (eq) "kp = kc" | (greater) "cmp_lt asc kc kp"
    using cmp_lt_total by blast
  then show ?case
  proof cases
    case less
    have "(kp, w) \<notin> set cs" for w using tail(2) cmp_lt_asym [OF less] by force
    moreover have "(k, v) \<in> set (merge_ref asc ps (c # cs)) \<longleftrightarrow>
       (k, v) \<in> set (c # cs) \<and> v \<noteq> None \<or> (k, v) \<in> set ps \<and> (\<forall>w. (k, w) \<notin> set (c # cs))"
      by (rule "3.IH"(1)) (use less pc "3.prems" in auto)
    moreover have "merge_ref asc (p # ps) (c # cs) = p # merge_ref asc ps (c # cs)"
      using less pc by simp
    moreover have "kp \<noteq> kc" using less by auto
    ultimately show ?thesis using pc by auto
  next
    case eq
    have "(k, v) \<in> set (merge_ref asc ps cs) \<longleftrightarrow>
       (k, v) \<in> set cs \<and> v \<noteq> None \<or> (k, v) \<in> set ps \<and> (\<forall>w. (k, w) \<notin> set cs)"
      by (rule "3.IH"(2)) (use eq pc "3.prems" in auto)
    moreover have "merge_ref asc (p # ps) (c # cs) = (if snd c = None then [] else [c]) @ merge_ref asc ps cs"
      using eq pc by simp
    ultimately show ?thesis using eq pc after by auto
  next
    case greater
    note ng = cmp_lt_asym [OF greater]
    have ne: "kp \<noteq> kc" using greater by auto
    have "(kc, w) \<notin> set ps" for w using tail(1) ng by force
    moreover have "(k, v) \<in> set (merge_ref asc (p # ps) cs) \<longleftrightarrow>
       (k, v) \<in> set cs \<and> v \<noteq> None \<or> (k, v) \<in> set (p # ps) \<and> (\<forall>w. (k, w) \<notin> set cs)"
      by (rule "3.IH"(3)) (use ng ne pc "3.prems" in auto)
    moreover have "merge_ref asc (p # ps) (c # cs) = (if snd c = None then [] else [c]) @ merge_ref asc (p # ps) cs"
      using ng ne pc by simp
    ultimately show ?thesis using ne pc after by auto
  qed
qed auto

lemma in_order_set [simp]: "set (in_order asc xs) = set xs" "in_order asc (in_order asc xs) = xs"
  by (simp_all add: in_order_def)

lemma cmp_lt_fun: "cmp_lt True = (<)" "cmp_lt False = (\<lambda>x y. y < x)"
  by (auto simp: cmp_lt_def fun_eq_iff)

lemma in_order_sorted: "om_ok xs \<Longrightarrow> sorted_wrt (cmp_lt asc) (map fst (in_order asc xs))"
  by (cases asc) (auto simp: om_ok_def in_order_def cmp_lt_fun sorted_wrt_rev rev_map [symmetric])

lemma sorted_in_order: "sorted_wrt (cmp_lt asc) (map fst xs) \<Longrightarrow> om_ok (in_order asc xs)"
  by (cases asc) (auto simp: om_ok_def in_order_def cmp_lt_fun sorted_wrt_rev rev_map [symmetric])

end
