(* ===== verification/CacheKV.thy ===== *)
theory CacheKV
  imports MergeIterator "HOL-Library.AList"
begin

text \<open>
  The branching store \<open>cachekv.Store\<close> (\<open>src/store/cachekv/store.go\<close>).  Reads and writes go to an in-memory cache; \<open>Write\<close> replays the
  dirty entries on the parent.  Iteration moves the dirty keys of the range from the unsorted cache into
  a B-tree and merges that tree with the parent's iterator.

  The Go maps \<open>cache\<close> and \<open>unsortedCache\<close> are association lists with distinct keys.  Go visits a map in
  an unspecified order; every loop over one of these maps collects entries that are sorted by their
  (distinct) keys before they are used, so the order of the lists is immaterial.  The mutex makes every
  operation one step.
\<close>

section \<open>The store\<close>

record cValue =
  cv_value :: "bytes option"
  cv_dirty :: bool

record ('p, 't) CacheStore =
  ck_cache :: "(bytes \<times> cValue) list"
  ck_unsortedCache :: "bytes list"
  ck_sortedCache :: 't
  ck_parent :: 'p

definition cachekv_NewStore :: "'t btree_ops \<Rightarrow> 'p \<Rightarrow> ('p, 't) CacheStore" where
  "cachekv_NewStore bt parent =
     \<lparr> ck_cache = [], ck_unsortedCache = [], ck_sortedCache = btNew bt, ck_parent = parent \<rparr>"

text \<open>A call on the parent store.\<close>

definition on_parent :: "('p, 'a) sm \<Rightarrow> (('p, 't) CacheStore, 'a) sm" where
  "on_parent m s = (case m (ck_parent s) of (r, p) \<Rightarrow> (r, s\<lparr>ck_parent := p\<rparr>))"

definition setCacheValue :: "bytes \<Rightarrow> bytes option \<Rightarrow> bool \<Rightarrow> (('p, 't) CacheStore, unit) sm" where
  "setCacheValue key value dirty = smodify (\<lambda>s. s
     \<lparr> ck_cache := AList.update key \<lparr> cv_value = value, cv_dirty = dirty \<rparr> (ck_cache s),
       ck_unsortedCache := (if dirty then List.insert key (ck_unsortedCache s) else ck_unsortedCache s) \<rparr>)"

definition cachekv_Get :: "'p kv_ops \<Rightarrow> bytes \<Rightarrow> (('p, 't) CacheStore, bytes option) sm" where
  "cachekv_Get P key =
     sbind (slift (AssertValidKey key)) (\<lambda>_.
     sbind (sgets (\<lambda>s. map_of (ck_cache s) key)) (\<lambda>cacheValue.
     case cacheValue of
       None \<Rightarrow> sbind (on_parent (kvGet P key)) (\<lambda>value.
               sbind (setCacheValue key value False) (\<lambda>_. sret value))
     | Some c \<Rightarrow> sret (cv_value c)))"

definition cachekv_Set :: "bytes \<Rightarrow> bytes option \<Rightarrow> (('p, 't) CacheStore, unit) sm" where
  "cachekv_Set key value =
     sbind (slift (AssertValidKey key)) (\<lambda>_.
     sbind (slift (AssertValidValue value)) (\<lambda>_.
     setCacheValue key value True))"

definition cachekv_Has :: "'p kv_ops \<Rightarrow> bytes \<Rightarrow> (('p, 't) CacheStore, bool) sm" where
  "cachekv_Has P key = sbind (cachekv_Get P key) (\<lambda>value. sret (value \<noteq> None))"

definition cachekv_Delete :: "bytes \<Rightarrow> (('p, 't) CacheStore, unit) sm" where
  "cachekv_Delete key = sbind (slift (AssertValidKey key)) (\<lambda>_. setCacheValue key None True)"

definition resetCaches :: "'t btree_ops \<Rightarrow> (('p, 't) CacheStore, unit) sm" where
  "resetCaches bt = smodify (\<lambda>s. s
     \<lparr> ck_cache := [], ck_unsortedCache := [], ck_sortedCache := btNew bt \<rparr>)"

definition cachekv_Write :: "'t btree_ops \<Rightarrow> 'p kv_ops \<Rightarrow> (('p, 't) CacheStore, unit) sm" where
  "cachekv_Write bt P s =
     (if length (ck_cache s) = 0 \<and> length (ck_unsortedCache s) = 0
      then (Inr (), s\<lparr>ck_sortedCache := btNew bt\<rparr>)
      else let sortedCache = sort_key fst (filter (\<lambda>(k, v). cv_dirty v) (ck_cache s))
           in sbind (resetCaches bt) (\<lambda>_. sforeach (\<lambda>(key, val). on_parent
                (case cv_value val of Some v \<Rightarrow> kvSet P key (Some v) | None \<Rightarrow> kvDelete P key))
                sortedCache) s)"

section \<open>Dirty items of a range\<close>

definition minSortSize :: int where
  "minSortSize = 1024"

text \<open>Indices are Go \<open>int\<close>s bounded by the length of the slice; \<open>(left + right) >> 1\<close> is \<open>div 2\<close>.\<close>

text \<open>\<open>for i := mid - 1; i >= 0; i--\<close>: the loop returns one above the first index from the top that satisfies \<open>P\<close>.\<close>

fun scan_down :: "(bytes \<Rightarrow> bool) \<Rightarrow> bytes list \<Rightarrow> nat \<Rightarrow> int" where
  "scan_down P strL 0 = 0"
| "scan_down P strL (Suc i) = (if P (strL ! i) then int i + 1 else scan_down P strL i)"

function findStart_loop :: "bytes list \<Rightarrow> bytes \<Rightarrow> int \<Rightarrow> int \<Rightarrow> int" where
  "findStart_loop strL startQ left right =
     (if left \<le> right then
        let mid = (left + right) div 2; midStr = strL ! nat mid in
        if midStr = startQ then scan_down (\<lambda>x. x \<noteq> midStr) strL (nat mid)
        else if midStr < startQ then findStart_loop strL startQ (mid + 1) right
        else findStart_loop strL startQ left (mid - 1)
      else if left \<ge> 0 \<and> left < int (length strL) \<and> strL ! nat left \<ge> startQ then left
      else - 1)"
  by pat_completeness auto
termination
  by (relation "measure (\<lambda>(l, q, left, right). nat (right - left + 1))") auto

declare findStart_loop.simps [simp del]

definition findStartIndex :: "bytes list \<Rightarrow> bytes \<Rightarrow> int" where
  "findStartIndex strL startQ =
     (if length strL = 0 then - 1 else findStart_loop strL startQ 0 (int (length strL) - 1))"

fun scan_less :: "bytes list \<Rightarrow> bytes \<Rightarrow> nat \<Rightarrow> int" where
  "scan_less strL endQ 0 = - 1"
| "scan_less strL endQ (Suc i) = (if strL ! i < endQ then int i else scan_less strL endQ i)"

function findEnd_loop :: "bytes list \<Rightarrow> bytes \<Rightarrow> int \<Rightarrow> int \<Rightarrow> int" where
  "findEnd_loop strL endQ left right =
     (if left \<le> right then
        let mid = (left + right) div 2; midStr = strL ! nat mid in
        if midStr = endQ then scan_down (\<lambda>x. x < midStr) strL (nat mid)
        else if midStr < endQ then findEnd_loop strL endQ (mid + 1) right
        else findEnd_loop strL endQ left (mid - 1)
      else scan_less strL endQ (nat (right + 1)))"
  by pat_completeness auto
termination
  by (relation "measure (\<lambda>(l, q, left, right). nat (right - left + 1))") auto

declare findEnd_loop.simps [simp del]

definition findEndIndex :: "bytes list \<Rightarrow> bytes \<Rightarrow> int" where
  "findEndIndex strL endQ =
     (if length strL = 0 then - 1 else findEnd_loop strL endQ 0 (int (length strL) - 1))"

datatype sortState = stateUnsorted | stateAlreadySorted

definition clearUnsortedCacheSubset ::
  "'t btree_ops \<Rightarrow> kv_pair list \<Rightarrow> sortState \<Rightarrow> (('p, 't) CacheStore, unit) sm" where
  "clearUnsortedCacheSubset bt unsorted sortState = smodify (\<lambda>s.
     let unsortedCache' =
           (if length unsorted = length (ck_unsortedCache s) then []
            else fold (\<lambda>kv. removeAll (fst kv)) unsorted (ck_unsortedCache s));
         items = (if sortState = stateUnsorted then sort_key fst unsorted else unsorted)
     in s\<lparr> ck_unsortedCache := unsortedCache',
           ck_sortedCache := fold (\<lambda>(k, v). btSet bt k v) items (ck_sortedCache s) \<rparr>)"

text \<open>\<open>store.cache[key].value\<close>.\<close>

definition cached :: "('p, 't) CacheStore \<Rightarrow> bytes \<Rightarrow> kv_pair" where
  "cached s key = (key, cv_value (the (map_of (ck_cache s) key)))"

text \<open>The large case of \<open>dirtyItems\<close>: the slice of the sorted keys that is moved.\<close>

definition dirty_window :: "bytes list \<Rightarrow> bytes \<Rightarrow> bytes option \<Rightarrow> int \<times> int" where
  "dirty_window strL startStr end =
     (let n = int (length strL);
          s0 = findStartIndex strL startStr;
          startIndex = (if s0 < 0 then 0 else s0);
          e0 = (case end of None \<Rightarrow> n - 1 | Some e \<Rightarrow> findEndIndex strL e);
          endIndex = (if e0 < 0 then n - 1 else e0)
      in if endIndex - startIndex < minSortSize then
           let endIndex' = min (startIndex + minSortSize) (n - 1)
           in (if endIndex' - startIndex < minSortSize then max (endIndex' - minSortSize) 0 else startIndex,
               endIndex')
         else (startIndex, endIndex))"

definition dirtyItems ::
  "'t btree_ops \<Rightarrow> bytes option \<Rightarrow> bytes option \<Rightarrow> (('p, 't) CacheStore, unit) sm" where
  "dirtyItems bt start end s =
     (if (case end of None \<Rightarrow> False | Some e \<Rightarrow> nonnil start > e) then (Inr (), s)
      else if int (length (ck_unsortedCache s)) < minSortSize then
        clearUnsortedCacheSubset bt
          (map (cached s) (filter (\<lambda>key. IsKeyInDomain key start end) (ck_unsortedCache s)))
          stateUnsorted s
      else
        let strL = sort (ck_unsortedCache s);
            (startIndex, endIndex) = dirty_window strL (nonnil start) end
        in clearUnsortedCacheSubset bt
             (map (\<lambda>i. cached s (strL ! nat i)) [startIndex..endIndex]) stateAlreadySorted s)"

definition cachekv_Iterator ::
  "'t btree_ops \<Rightarrow> 'p kv_ops \<Rightarrow> bytes option \<Rightarrow> bytes option \<Rightarrow> bool \<Rightarrow> (('p, 't) CacheStore, kv_pair list) sm" where
  "cachekv_Iterator bt P start end ascending =
     sbind (dirtyItems bt start end) (\<lambda>_.
     sbind (sgets (\<lambda>s. btItems bt (ck_sortedCache s))) (\<lambda>isoSortedCache.
     sbind (on_parent (kvIterator P start end ascending)) (\<lambda>parent.
     sbind (slift (must (mem_iterator start end isoSortedCache ascending))) (\<lambda>cache.
     slift (mg_collect (length parent + length cache) (NewCacheMergeIterator parent cache ascending))))))"

definition cachekv_ops :: "'t btree_ops \<Rightarrow> 'p kv_ops \<Rightarrow> ('p, 't) CacheStore kv_ops" where
  "cachekv_ops bt P = \<lparr> kvGet = cachekv_Get P, kvHas = cachekv_Has P, kvSet = cachekv_Set,
     kvDelete = cachekv_Delete, kvIterator = cachekv_Iterator bt P \<rparr>"

section \<open>The binary searches cover the range\<close>

lemma scan_down_spec:
  "scan_down P xs m = r \<Longrightarrow> 0 \<le> r \<and> r \<le> int m \<and> (\<forall>j < m. P (xs ! j) \<longrightarrow> int j < r) \<and>
     (0 < r \<longrightarrow> P (xs ! nat (r - 1)))"
  by (induction P xs m arbitrary: r rule: scan_down.induct)
    (auto simp: less_Suc_eq nat_add_distrib split: if_splits)

lemma scan_less_spec:
  "scan_less xs q m = r \<Longrightarrow> - 1 \<le> r \<and> r < int m \<and> (\<forall>j < m. xs ! j < q \<longrightarrow> int j \<le> r)"
  by (induction xs q m arbitrary: r rule: scan_less.induct) (auto simp: less_Suc_eq split: if_splits)

lemma findStart_loop_spec:
  assumes "sorted xs" "0 \<le> left" "right < int (length xs)" "left \<le> right + 1"
    and "\<forall>i < length xs. int i < left \<longrightarrow> xs ! i < q"
  shows "- 1 \<le> findStart_loop xs q left right \<and> findStart_loop xs q left right < int (length xs) \<and>
    (\<forall>i < length xs. int i < findStart_loop xs q left right \<longrightarrow> xs ! i < q)"
  using assms
proof (induction xs q left right rule: findStart_loop.induct)
  case (1 xs q left right)
  define mid where "mid = (left + right) div 2"
  show ?case
  proof (cases "left \<le> right")
    case True
    with "1.prems" have mid: "left \<le> mid" "mid \<le> right" "0 \<le> mid" "nat mid < length xs"
      by (auto simp: mid_def)
    have below: "xs ! i \<le> xs ! nat mid" if "int i \<le> mid" for i
      using that mid "1.prems"(1) by (intro sorted_nth_mono) auto
    consider "xs ! nat mid = q" | "xs ! nat mid < q" | "xs ! nat mid > q" by force
    then show ?thesis
    proof cases
      case 1
      define r where "r = scan_down (\<lambda>x. x \<noteq> q) xs (nat mid)"
      have eq: "findStart_loop xs q left right = r"
        using True 1 by (simp add: findStart_loop.simps [of xs q left right] r_def mid_def Let_def)
      have r: "0 \<le> r" "r \<le> mid" "0 < r \<longrightarrow> xs ! nat (r - 1) \<noteq> q"
        using scan_down_spec [OF r_def [symmetric]] mid by auto
      have "xs ! i < q" if "int i < r" for i
      proof -
        have "xs ! i \<le> xs ! nat (r - 1)" using that r mid "1.prems"(1) by (intro sorted_nth_mono) auto
        moreover have "xs ! nat (r - 1) \<le> q" using below [of "nat (r - 1)"] r 1 that by auto
        ultimately show ?thesis using r that by auto
      qed
      with r mid show ?thesis unfolding eq by auto
    next
      case 2
      have "xs ! i < q" if "int i < mid + 1" "i < length xs" for i using below [of i] 2 that by auto
      moreover have "findStart_loop xs q left right = findStart_loop xs q (mid + 1) right"
        using True 2 less_imp_neq [OF 2]
        by (simp add: findStart_loop.simps [of xs q left right] mid_def [symmetric] Let_def)
      moreover have "- 1 \<le> findStart_loop xs q (mid + 1) right \<and>
          findStart_loop xs q (mid + 1) right < int (length xs) \<and>
          (\<forall>i < length xs. int i < findStart_loop xs q (mid + 1) right \<longrightarrow> xs ! i < q)"
        by (rule "1.IH"(1) [OF True mid_def refl]) (use 2 less_imp_neq [OF 2] mid "1.prems" calculation(1) in auto)
      ultimately show ?thesis by simp
    next
      case 3
      then have ne: "xs ! nat mid \<noteq> q" "\<not> xs ! nat mid < q" by auto
      then have "findStart_loop xs q left right = findStart_loop xs q left (mid - 1)"
        using True by (simp add: findStart_loop.simps [of xs q left right] mid_def [symmetric] Let_def)
      moreover have "- 1 \<le> findStart_loop xs q left (mid - 1) \<and>
          findStart_loop xs q left (mid - 1) < int (length xs) \<and>
          (\<forall>i < length xs. int i < findStart_loop xs q left (mid - 1) \<longrightarrow> xs ! i < q)"
        by (rule "1.IH"(2) [OF True mid_def refl]) (use ne mid "1.prems" in auto)
      ultimately show ?thesis by simp
    qed
  next
    case False
    with "1.prems" show ?thesis by (auto simp: findStart_loop.simps [of xs q left right])
  qed
qed

lemma findEnd_loop_spec:
  assumes "sorted xs" "0 \<le> left" "right < int (length xs)" "left \<le> right + 1"
    and "\<forall>i < length xs. right < int i \<longrightarrow> q < xs ! i"
  shows "- 1 \<le> findEnd_loop xs q left right \<and> findEnd_loop xs q left right < int (length xs) \<and>
    (\<forall>i < length xs. xs ! i < q \<longrightarrow> int i \<le> findEnd_loop xs q left right)"
  using assms
proof (induction xs q left right rule: findEnd_loop.induct)
  case (1 xs q left right)
  define mid where "mid = (left + right) div 2"
  show ?case
  proof (cases "left \<le> right")
    case True
    with "1.prems" have mid: "left \<le> mid" "mid \<le> right" "0 \<le> mid" "nat mid < length xs"
      by (auto simp: mid_def)
    have above: "xs ! nat mid \<le> xs ! i" if "mid \<le> int i" "i < length xs" for i
      using that mid "1.prems"(1) by (intro sorted_nth_mono) auto
    consider "xs ! nat mid = q" | "xs ! nat mid < q" | "xs ! nat mid > q" by force
    then show ?thesis
    proof cases
      case 1
      define r where "r = scan_down (\<lambda>x. x < q) xs (nat mid)"
      have eq: "findEnd_loop xs q left right = r"
        using True 1 by (simp add: findEnd_loop.simps [of xs q left right] r_def mid_def Let_def)
      have r: "0 \<le> r" "r \<le> mid" "\<forall>j < nat mid. xs ! j < q \<longrightarrow> int j < r"
        using scan_down_spec [OF r_def [symmetric]] mid by auto
      have "int i \<le> r" if "i < length xs" "xs ! i < q" for i
      proof -
        have "int i < mid" using above [of i] that 1 by force
        then have "i < nat mid" by simp
        then show ?thesis using r(3) that(2) by (meson less_imp_le)
      qed
      with r mid show ?thesis unfolding eq by auto
    next
      case 2
      then have ne: "xs ! nat mid \<noteq> q" by auto
      then have "findEnd_loop xs q left right = findEnd_loop xs q (mid + 1) right"
        using True 2 by (simp add: findEnd_loop.simps [of xs q left right] mid_def [symmetric] Let_def)
      moreover have "- 1 \<le> findEnd_loop xs q (mid + 1) right \<and>
          findEnd_loop xs q (mid + 1) right < int (length xs) \<and>
          (\<forall>i < length xs. xs ! i < q \<longrightarrow> int i \<le> findEnd_loop xs q (mid + 1) right)"
        by (rule "1.IH"(1) [OF True mid_def refl]) (use ne 2 mid "1.prems" in auto)
      ultimately show ?thesis by simp
    next
      case 3
      then have ne: "xs ! nat mid \<noteq> q" "\<not> xs ! nat mid < q" by auto
      have "q < xs ! i" if "mid - 1 < int i" "i < length xs" for i using above [of i] 3 that by auto
      moreover have "findEnd_loop xs q left right = findEnd_loop xs q left (mid - 1)"
        using True ne by (simp add: findEnd_loop.simps [of xs q left right] mid_def [symmetric] Let_def)
      moreover have "- 1 \<le> findEnd_loop xs q left (mid - 1) \<and>
          findEnd_loop xs q left (mid - 1) < int (length xs) \<and>
          (\<forall>i < length xs. xs ! i < q \<longrightarrow> int i \<le> findEnd_loop xs q left (mid - 1))"
        by (rule "1.IH"(2) [OF True mid_def refl]) (use ne mid "1.prems" calculation(1) in auto)
      ultimately show ?thesis by simp
    qed
  next
    case False
    define r where "r = scan_less xs q (nat (right + 1))"
    have eq: "findEnd_loop xs q left right = r"
      using False by (simp add: findEnd_loop.simps [of xs q left right] r_def)
    have r: "- 1 \<le> r" "r < int (nat (right + 1))" "\<forall>j < nat (right + 1). xs ! j < q \<longrightarrow> int j \<le> r"
      using scan_less_spec [OF r_def [symmetric]] by auto
    have "int i \<le> r" if "i < length xs" "xs ! i < q" for i
    proof -
      have "int i \<le> right" using "1.prems"(5) that by force
      then have "i < nat (right + 1)" by simp
      then show ?thesis using r(3) that(2) by blast
    qed
    with r "1.prems" False show ?thesis unfolding eq by auto
  qed
qed

lemma dirty_window_covers:
  assumes "sorted xs" "xs \<noteq> []" "dirty_window xs (nonnil start) end = (si, ei)"
  shows "0 \<le> si" "ei < int (length xs)"
    "i < length xs \<Longrightarrow> IsKeyInDomain (xs ! i) start end \<Longrightarrow> si \<le> int i \<and> int i \<le> ei"
proof -
  define n where "n = int (length xs)"
  define s0 where "s0 = findStartIndex xs (nonnil start)"
  define e0 where "e0 = (case end of None \<Rightarrow> n - 1 | Some e \<Rightarrow> findEndIndex xs e)"
  have n: "0 < n" using assms(2) by (simp add: n_def)
  have s0: "s0 < n" "i < length xs \<Longrightarrow> int i < s0 \<Longrightarrow> xs ! i < nonnil start" for i
    using findStart_loop_spec [of xs 0 "n - 1" "nonnil start"] assms(1,2)
    by (auto simp: s0_def findStartIndex_def n_def)
  have e0: "e0 < n" "i < length xs \<Longrightarrow> IsKeyInDomain (xs ! i) start end \<Longrightarrow> int i \<le> e0" for i
    using findEnd_loop_spec [of xs 0 "n - 1" "the end"] assms(1,2)
    by (auto simp: e0_def findEndIndex_def n_def IsKeyInDomain_iff split: option.splits)
  have win: "(si, ei) =
     (let startIndex = (if s0 < 0 then 0 else s0); endIndex = (if e0 < 0 then n - 1 else e0)
      in if endIndex - startIndex < minSortSize then
           let endIndex' = min (startIndex + minSortSize) (n - 1)
           in (if endIndex' - startIndex < minSortSize then max (endIndex' - minSortSize) 0 else startIndex,
               endIndex')
         else (startIndex, endIndex))"
    using assms(3) unfolding dirty_window_def s0_def [symmetric] n_def [symmetric] e0_def [symmetric] Let_def
    by simp
  have size: "minSortSize = 1024" by (simp add: minSortSize_def)
  show "0 \<le> si" "ei < int (length xs)"
    using win s0(1) e0(1) n unfolding n_def [symmetric] by (auto simp: Let_def size split: if_splits)
  show "si \<le> int i \<and> int i \<le> ei" if "i < length xs" "IsKeyInDomain (xs ! i) start end"
  proof -
    have "\<not> xs ! i < nonnil start" using that(2) by (simp add: IsKeyInDomain_iff not_less)
    then have "s0 \<le> int i" using s0(2) that(1) by force
    moreover have "int i \<le> e0" using e0(2) that by blast
    moreover have "int i < n" using that by (simp add: n_def)
    ultimately show ?thesis using win by (auto simp: Let_def size split: if_splits)
  qed
qed

section \<open>Invariant and content of the branching store\<close>

definition ck_dirty :: "('p, 't) CacheStore \<Rightarrow> bytes \<Rightarrow> bytes option \<Rightarrow> bool" where
  "ck_dirty s k v \<longleftrightarrow> (\<exists>c. map_of (ck_cache s) k = Some c \<and> cv_dirty c \<and> cv_value c = v)"

definition ck_abs :: "('p \<Rightarrow> bytes \<rightharpoonup> bytes) \<Rightarrow> ('p, 't) CacheStore \<Rightarrow> bytes \<rightharpoonup> bytes" where
  "ck_abs pabs s k = (case map_of (ck_cache s) k of Some c \<Rightarrow> cv_value c | None \<Rightarrow> pabs (ck_parent s) k)"

definition ck_entry_ok ::
  "('p \<Rightarrow> bytes \<rightharpoonup> bytes) \<Rightarrow> (bytes \<Rightarrow> bool) \<Rightarrow> 'p \<Rightarrow> bytes \<Rightarrow> cValue \<Rightarrow> bool" where
  "ck_entry_ok pabs pvalid p k c \<longleftrightarrow> pvalid k \<and>
     (if cv_dirty c then (case cv_value c of None \<Rightarrow> True | Some v \<Rightarrow> length v \<le> MaxValueLength)
      else cv_value c = pabs p k)"

definition ck_ok ::
  "'t btree_ops \<Rightarrow> ('t \<Rightarrow> bool) \<Rightarrow> ('p \<Rightarrow> bool) \<Rightarrow> ('p \<Rightarrow> bytes \<rightharpoonup> bytes) \<Rightarrow> (bytes \<Rightarrow> bool) \<Rightarrow>
     ('p, 't) CacheStore \<Rightarrow> bool" where
  "ck_ok bt btok pinv pabs pvalid s \<longleftrightarrow>
     pinv (ck_parent s) \<and> btok (ck_sortedCache s) \<and>
     distinct (map fst (ck_cache s)) \<and> distinct (ck_unsortedCache s) \<and>
     (\<forall>k \<in> set (ck_unsortedCache s). \<exists>v. ck_dirty s k v) \<and>
     (\<forall>k v. map_of (btItems bt (ck_sortedCache s)) k = Some v \<longrightarrow> (\<exists>w. ck_dirty s k w)) \<and>
     (\<forall>k v. ck_dirty s k v \<longrightarrow>
        k \<in> set (ck_unsortedCache s) \<or> map_of (btItems bt (ck_sortedCache s)) k = Some v) \<and>
     (\<forall>k c. map_of (ck_cache s) k = Some c \<longrightarrow> ck_entry_ok pabs pvalid (ck_parent s) k c)"

lemma map_of_alist_update: "map_of (AList.update k v al) = (map_of al)(k \<mapsto> v)"
  by (simp add: update_conv')

locale branch = kv_store P pinv pabs pvalid + btree_api bt btok
  for P :: "'p kv_ops" and pinv :: "'p \<Rightarrow> bool" and pabs :: "'p \<Rightarrow> bytes \<rightharpoonup> bytes"
    and pvalid :: "bytes \<Rightarrow> bool" and bt :: "'t btree_ops" and btok :: "'t \<Rightarrow> bool"
begin

abbreviation ok :: "('p, 't) CacheStore \<Rightarrow> bool" where
  "ok \<equiv> ck_ok bt btok pinv pabs pvalid"

abbreviation content :: "('p, 't) CacheStore \<Rightarrow> bytes \<rightharpoonup> bytes" where
  "content \<equiv> ck_abs pabs"

lemma ok_entry: "ok s \<Longrightarrow> map_of (ck_cache s) k = Some c \<Longrightarrow> ck_entry_ok pabs pvalid (ck_parent s) k c"
  by (simp add: ck_ok_def)

lemma new_store: "pinv p \<Longrightarrow> ok (cachekv_NewStore bt p) \<and> content (cachekv_NewStore bt p) = pabs p"
  by (auto simp: ck_ok_def ck_abs_def ck_dirty_def cachekv_NewStore_def bt_new fun_eq_iff)

lemma set_dirty:
  assumes "ok s" "pvalid k" "case v of None \<Rightarrow> True | Some x \<Rightarrow> length x \<le> MaxValueLength"
    and s': "setCacheValue k v True s = (r, s')"
  shows "r = Inr ()" "ok s'" "content s' = (content s)(k := v)" "ck_parent s' = ck_parent s"
proof -
  have s'_eq: "s' = s\<lparr> ck_cache := AList.update k \<lparr> cv_value = v, cv_dirty = True \<rparr> (ck_cache s),
      ck_unsortedCache := List.insert k (ck_unsortedCache s) \<rparr>" and r: "r = Inr ()"
    using s' by (simp_all add: setCacheValue_def sm_run)
  have d: "ck_dirty s' j w \<longleftrightarrow> (if j = k then w = v else ck_dirty s j w)" for j w
    by (auto simp: ck_dirty_def s'_eq map_of_alist_update)
  have dx: "(\<exists>w. ck_dirty s' j w) \<longleftrightarrow> j = k \<or> (\<exists>w. ck_dirty s j w)" for j
    by (auto simp: d)
  show "r = Inr ()" by (rule r)
  show "ck_parent s' = ck_parent s" by (simp add: s'_eq)
  show "content s' = (content s)(k := v)"
    by (auto simp: ck_abs_def s'_eq map_of_alist_update fun_eq_iff split: option.splits)
  have "ck_entry_ok pabs pvalid (ck_parent s) j c" if "map_of (ck_cache s') j = Some c" for j c
    using that assms(1-3) by (auto simp: s'_eq map_of_alist_update ck_ok_def ck_entry_ok_def split: if_splits)
  with assms(1) show "ok s'"
    unfolding ck_ok_def dx d by (auto simp: s'_eq distinct_update)
qed

lemma set_clean:
  assumes "ok s" "pvalid k" "map_of (ck_cache s) k = None" "v = pabs (ck_parent s) k"
    and s': "setCacheValue k v False s = (r, s')"
  shows "r = Inr ()" "ok s'" "content s' = content s" "ck_parent s' = ck_parent s"
proof -
  have s'_eq: "s' = s\<lparr> ck_cache := AList.update k \<lparr> cv_value = v, cv_dirty = False \<rparr> (ck_cache s) \<rparr>"
    and r: "r = Inr ()"
    using s' by (simp_all add: setCacheValue_def sm_run)
  have d: "ck_dirty s' j w \<longleftrightarrow> ck_dirty s j w" for j w
    using assms(3) by (auto simp: ck_dirty_def s'_eq map_of_alist_update)
  show "r = Inr ()" by (rule r)
  show "ck_parent s' = ck_parent s" by (simp add: s'_eq)
  show "content s' = content s"
    using assms(3,4) by (auto simp: ck_abs_def s'_eq map_of_alist_update fun_eq_iff split: option.splits)
  have "ck_entry_ok pabs pvalid (ck_parent s) j c" if "map_of (ck_cache s') j = Some c" for j c
    using that assms by (auto simp: s'_eq map_of_alist_update ck_ok_def ck_entry_ok_def split: if_splits)
  with assms(1) show "ok s'"
    unfolding ck_ok_def d by (auto simp: s'_eq distinct_update)
qed

lemma parent_read:
  assumes "ok s" "pinv p'" "pabs p' = pabs (ck_parent s)"
  shows "ok (s\<lparr>ck_parent := p'\<rparr>)" "content (s\<lparr>ck_parent := p'\<rparr>) = content s"
  using assms by (auto simp: ck_ok_def ck_abs_def ck_dirty_def ck_entry_ok_def fun_eq_iff split: option.splits)

lemma cache_get:
  assumes "ok s" "pvalid k"
  shows "\<exists>s'. cachekv_Get P k s = (Inr (content s k), s') \<and> ok s' \<and> content s' = content s \<and>
      pabs (ck_parent s') = pabs (ck_parent s)"
proof (cases "map_of (ck_cache s) k")
  case None
  have "pinv (ck_parent s)" using assms(1) by (simp add: ck_ok_def)
  from get [OF this assms(2)] obtain p' where p': "kvGet P k (ck_parent s) = (Inr (pabs (ck_parent s) k), p')"
      "pinv p'" "pabs p' = pabs (ck_parent s)" by blast
  let ?t = "s\<lparr>ck_parent := p'\<rparr>"
  obtain r s' where s': "setCacheValue k (pabs (ck_parent s) k) False ?t = (r, s')" by fastforce
  note t = parent_read [OF assms(1) p'(2,3)]
  note u = set_clean [OF t(1) assms(2) _ _ s']
  have "content s k = pabs (ck_parent s) k" using None by (simp add: ck_abs_def)
  moreover have "cachekv_Get P k s = (Inr (pabs (ck_parent s) k), s')"
    using assms(2) None p' s' u(1) valid
    by (simp add: cachekv_Get_def on_parent_def sbind_def sm_run)
  ultimately show ?thesis using None u t p' by simp
next
  case (Some c)
  then show ?thesis
    using assms valid [of k] by (simp add: cachekv_Get_def sm_run ck_abs_def)
qed

lemma cache_set:
  assumes "ok s" "pvalid k" "length v \<le> MaxValueLength"
  shows "\<exists>s'. cachekv_Set k (Some v) s = (Inr (), s') \<and> ok s' \<and> content s' = (content s)(k \<mapsto> v) \<and>
      pabs (ck_parent s') = pabs (ck_parent s)"
proof -
  obtain r s' where s': "setCacheValue k (Some v) True s = (r, s')" by fastforce
  from set_dirty [OF assms(1,2) _ s'] assms valid [of k] show ?thesis
    by (simp add: cachekv_Set_def s')
qed

lemma cache_delete:
  assumes "ok s" "pvalid k"
  shows "\<exists>s'. cachekv_Delete k s = (Inr (), s') \<and> ok s' \<and> content s' = (content s)(k := None) \<and>
      pabs (ck_parent s') = pabs (ck_parent s)"
proof -
  obtain r s' where s': "setCacheValue k None True s = (r, s')" by fastforce
  from set_dirty [OF assms(1,2) _ s'] assms valid [of k] show ?thesis
    by (simp add: cachekv_Delete_def s')
qed

lemma cache_has:
  assumes "ok s" "pvalid k"
  shows "\<exists>s'. cachekv_Has P k s = (Inr (content s k \<noteq> None), s') \<and> ok s' \<and> content s' = content s \<and>
      pabs (ck_parent s') = pabs (ck_parent s)"
  using cache_get [OF assms] by (auto simp: cachekv_Has_def sbind_def sm_run)

lemma fold_btSet:
  assumes "btok t" "\<forall>x \<in> set items. snd x = f (fst x)"
  shows "btok (fold (\<lambda>(k, v). btSet bt k v) items t) \<and>
    map_of (btItems bt (fold (\<lambda>(k, v). btSet bt k v) items t)) k =
      (if k \<in> fst ` set items then Some (f k) else map_of (btItems bt t) k)"
  using assms
proof (induction items arbitrary: t)
  case Nil
  then show ?case by simp
next
  case (Cons x items)
  obtain j where x: "x = (j, f j)" using Cons.prems(2) by (cases x) auto
  have "btok (btSet bt j (f j) t)" using Cons.prems(1) bt_set(1) by blast
  from Cons.IH [OF this] Cons.prems x show ?case by (auto simp: bt_set(2))
qed

lemma fold_removeAll: "set (fold (\<lambda>kv. removeAll (fst kv)) kvs ks) = set ks - fst ` set kvs"
  by (induction kvs arbitrary: ks) auto

lemma fold_removeAll_distinct: "distinct ks \<Longrightarrow> distinct (fold (\<lambda>kv. removeAll (fst kv)) kvs ks)"
  by (induction kvs arbitrary: ks) (auto simp: distinct_removeAll)

lemma clear_subset:
  assumes s: "ok s" and ks: "distinct ks" "set ks \<subseteq> set (ck_unsortedCache s)"
    and s': "clearUnsortedCacheSubset bt (map (cached s) ks) st s = (r, s')"
  shows "r = Inr ()" "ok s'" "content s' = content s" "ck_parent s' = ck_parent s"
    "set (ck_unsortedCache s') = set (ck_unsortedCache s) - set ks"
proof -
  define f where "f k = cv_value (the (map_of (ck_cache s) k))" for k
  let ?u = "if length ks = length (ck_unsortedCache s) then []
            else fold (\<lambda>kv. removeAll (fst kv)) (map (cached s) ks) (ck_unsortedCache s)"
  let ?items = "if st = stateUnsorted then sort_key fst (map (cached s) ks) else map (cached s) ks"
  let ?t = "fold (\<lambda>(k, v). btSet bt k v) ?items (ck_sortedCache s)"
  have s'_eq: "s' = s\<lparr>ck_unsortedCache := ?u, ck_sortedCache := ?t\<rparr>" and r: "r = Inr ()"
    using s' by (simp_all add: clearUnsortedCacheSubset_def sm_run Let_def)
  have keys: "fst ` set ?items = set ks" by (auto simp: cached_def image_image)
  have t: "btok ?t \<and> map_of (btItems bt ?t) k = (if k \<in> set ks then Some (f k)
      else map_of (btItems bt (ck_sortedCache s)) k)" for k
    using fold_btSet [of "ck_sortedCache s" ?items f k] s
    by (simp add: keys ck_ok_def) (auto simp: cached_def f_def)
  have "length ks = card (set ks)" "length (ck_unsortedCache s) = card (set (ck_unsortedCache s))"
    using s ks by (simp_all add: distinct_card ck_ok_def)
  then have full: "length ks = length (ck_unsortedCache s) \<Longrightarrow> set ks = set (ck_unsortedCache s)"
    using ks(2) by (simp add: card_subset_eq)
  show u: "set (ck_unsortedCache s') = set (ck_unsortedCache s) - set ks"
    using full by (auto simp: s'_eq fold_removeAll cached_def image_image)
  have du: "distinct (ck_unsortedCache s')"
    using s by (auto simp: s'_eq ck_ok_def intro: fold_removeAll_distinct)
  have d: "ck_dirty s' = ck_dirty s" by (auto simp: ck_dirty_def s'_eq fun_eq_iff)
  have f: "ck_dirty s k v \<Longrightarrow> f k = v" for k v by (auto simp: ck_dirty_def f_def)
  show "r = Inr ()" "content s' = content s" "ck_parent s' = ck_parent s"
    using r by (auto simp: s'_eq ck_abs_def fun_eq_iff split: option.splits)
  show "ok s'"
    unfolding ck_ok_def d u
  proof (intro conjI)
    show "\<forall>k v. map_of (btItems bt (ck_sortedCache s')) k = Some v \<longrightarrow> (\<exists>w. ck_dirty s k w)"
      using s t ks(2) by (auto simp: s'_eq ck_ok_def split: if_splits)
    show "\<forall>k v. ck_dirty s k v \<longrightarrow> k \<in> set (ck_unsortedCache s) - set ks \<or>
        map_of (btItems bt (ck_sortedCache s')) k = Some v"
      using s t f by (auto simp: s'_eq ck_ok_def)
  qed (use s t du in \<open>auto simp: s'_eq ck_ok_def\<close>)
qed

lemma dirty_items:
  assumes s: "ok s" and s': "dirtyItems bt start end s = (r, s')"
  shows "r = Inr ()" "ok s'" "content s' = content s" "ck_parent s' = ck_parent s"
    "\<forall>k \<in> set (ck_unsortedCache s'). \<not> IsKeyInDomain k start end"
proof -
  define ks where "ks =
     (if (case end of None \<Rightarrow> False | Some e \<Rightarrow> nonnil start > e) then []
      else if int (length (ck_unsortedCache s)) < minSortSize
      then filter (\<lambda>key. IsKeyInDomain key start end) (ck_unsortedCache s)
      else case dirty_window (sort (ck_unsortedCache s)) (nonnil start) end of (startIndex, endIndex) \<Rightarrow>
        map (\<lambda>i. sort (ck_unsortedCache s) ! nat i) [startIndex..endIndex])"
  let ?L = "sort (ck_unsortedCache s)"
  let ?none = "case end of None \<Rightarrow> False | Some e \<Rightarrow> nonnil start > e"
  have empty: "?none \<Longrightarrow> \<not> IsKeyInDomain k start end" for k
    by (auto simp: IsKeyInDomain_iff split: option.splits)
  have ks: "distinct ks \<and> set ks \<subseteq> set (ck_unsortedCache s) \<and>
      (\<forall>k \<in> set (ck_unsortedCache s) - set ks. \<not> IsKeyInDomain k start end)"
  proof (cases "?none \<or> int (length (ck_unsortedCache s)) < minSortSize")
    case True
    then show ?thesis using s empty by (auto simp: ks_def ck_ok_def)
  next
    case False
    obtain si ei where w: "dirty_window ?L (nonnil start) end = (si, ei)" by fastforce
    have "length ?L \<noteq> 0" using False unfolding minSortSize_def length_sort by linarith
    then have L: "?L \<noteq> []" by blast
    note win = dirty_window_covers [OF sorted_sort L w]
    have dL: "distinct ?L" using s by (simp add: ck_ok_def)
    have ks_eq: "ks = map (\<lambda>i. ?L ! nat i) [si..ei]" using False w by (simp add: ks_def)
    have "distinct ks" unfolding ks_eq distinct_map
      using win dL by (auto simp: inj_on_def nth_eq_iff_index_eq)
    moreover have "set ks \<subseteq> set ?L" using win by (auto simp: ks_eq simp del: set_sort intro!: nth_mem)
    moreover have "k \<in> set ks" if "k \<in> set ?L" "IsKeyInDomain k start end" for k
    proof -
      obtain i where i: "i < length ?L" "k = ?L ! i" using \<open>k \<in> set ?L\<close> by (metis in_set_conv_nth)
      then have "si \<le> int i \<and> int i \<le> ei" using win(3) [of i] that(2) by simp
      then show ?thesis using i by (auto simp: ks_eq intro!: image_eqI [of _ _ "int i"])
    qed
    ultimately show ?thesis by auto
  qed
  have run: "(r, s') = (if ?none then (Inr (), s) else clearUnsortedCacheSubset bt (map (cached s) ks)
      (if int (length (ck_unsortedCache s)) < minSortSize then stateUnsorted else stateAlreadySorted) s)"
    using s' by (auto simp: dirtyItems_def ks_def Let_def comp_def split: prod.splits if_splits)
  show "r = Inr ()" "ok s'" "content s' = content s" "ck_parent s' = ck_parent s"
    using run clear_subset [OF s, of ks _ r s'] ks s by (auto split: if_splits)
  show "\<forall>k \<in> set (ck_unsortedCache s'). \<not> IsKeyInDomain k start end"
    using run clear_subset(5) [OF s, of ks _ r s'] ks empty by (auto split: if_splits)
qed

lemma merged_range:
  assumes s: "ok s" and u: "\<forall>k \<in> set (ck_unsortedCache s). \<not> IsKeyInDomain k start end"
    and xs: "is_range (pabs (ck_parent s)) start end xs"
  shows "is_range (content s) start end (in_order asc (merge_ref asc (in_order asc xs)
     (in_order asc (filter (\<lambda>x. IsKeyInDomain (fst x) start end) (btItems bt (ck_sortedCache s))))))"
proof -
  let ?cs = "filter (\<lambda>x. IsKeyInDomain (fst x) start end) (btItems bt (ck_sortedCache s))"
  let ?m = "merge_ref asc (in_order asc xs) (in_order asc ?cs)"
  have ok: "om_ok xs" "om_ok ?cs" "om_ok (btItems bt (ck_sortedCache s))"
    using xs s bt_order by (auto simp: is_range_def ck_ok_def)
  note sorted = in_order_sorted [OF ok(1), of asc] in_order_sorted [OF ok(2), of asc]
  have cs: "(k, v) \<in> set ?cs \<longleftrightarrow> ck_dirty s k v" if "IsKeyInDomain k start end" for k v
  proof -
    have "k \<notin> set (ck_unsortedCache s)" using u that by blast
    then have "map_of (btItems bt (ck_sortedCache s)) k = Some w \<Longrightarrow> \<exists>w. ck_dirty s k w"
      "ck_dirty s k w \<Longrightarrow> map_of (btItems bt (ck_sortedCache s)) k = Some w" for w
      using s unfolding ck_ok_def by blast+
    then show ?thesis using that by (auto simp: om_in_set [OF ok(3)])
  qed
  have "(k, v) \<in> set ?m \<longleftrightarrow> (\<exists>w. v = Some w \<and> content s k = Some w) \<and> IsKeyInDomain k start end" for k v
  proof (cases "IsKeyInDomain k start end")
    case True
    have "(k, v) \<in> set ?m \<longleftrightarrow> ck_dirty s k v \<and> v \<noteq> None \<or> (k, v) \<in> set xs \<and> (\<forall>w. \<not> ck_dirty s k w)"
      by (simp only: merge_ref_set [OF sorted] in_order_set cs [OF True])
    also have "\<dots> \<longleftrightarrow> (\<exists>w. v = Some w \<and> content s k = Some w)"
    proof -
      have x: "(k, v) \<in> set xs \<longleftrightarrow> (\<exists>w. v = Some w \<and> pabs (ck_parent s) k = Some w)"
        using xs True by (simp add: is_range_def)
      show ?thesis
        using ok_entry [OF s, of k]
        by (cases "map_of (ck_cache s) k")
          (auto simp: ck_abs_def ck_dirty_def ck_entry_ok_def x split: if_splits)
    qed
    finally show ?thesis using True by simp
  next
    case False
    have "(k, v) \<notin> set ?cs" "(k, v) \<notin> set xs" for v using False xs by (auto simp: is_range_def)
    then show ?thesis using False merge_ref_set [OF sorted, of k v] by simp
  qed
  then show ?thesis
    using sorted_in_order [OF merge_ref_sorted [OF sorted]] by (simp add: is_range_def)
qed

lemma cache_iterator:
  assumes s: "ok s" and bounds: "start \<noteq> Some []" "end \<noteq> Some []"
  shows "\<exists>s' xs. cachekv_Iterator bt P start end asc s = (Inr (in_order asc xs), s') \<and>
      is_range (content s) start end xs \<and> ok s' \<and> content s' = content s \<and>
      pabs (ck_parent s') = pabs (ck_parent s)"
proof -
  obtain r t where t: "dirtyItems bt start end s = (r, t)" by fastforce
  note d = dirty_items [OF s t]
  have "pinv (ck_parent t)" using d(2) by (simp add: ck_ok_def)
  from iterator [OF this bounds, of asc] obtain p' xs where
    p': "kvIterator P start end asc (ck_parent t) = (Inr (in_order asc xs), p')"
      "is_range (pabs (ck_parent t)) start end xs" "pinv p'" "pabs p' = pabs (ck_parent t)" by blast
  let ?items = "btItems bt (ck_sortedCache t)"
  let ?m = "merge_ref asc (in_order asc xs)
     (in_order asc (filter (\<lambda>x. IsKeyInDomain (fst x) start end) ?items))"
  have "om_ok ?items" using d(2) bt_order by (simp add: ck_ok_def)
  from mem_iterator_range [OF this bounds] have
    "cachekv_Iterator bt P start end asc s = (Inr ?m, t\<lparr>ck_parent := p'\<rparr>)"
    using t d(1) p'(1)
    by (simp add: cachekv_Iterator_def sbind_def sm_run on_parent_def merge_iterator_collect)
  moreover have "is_range (content s) start end (in_order asc ?m)"
    using merged_range [OF d(2,5) p'(2)] d(3) by simp
  moreover note parent_read [OF d(2) p'(3,4)]
  ultimately show ?thesis using d(3,4) p'(4) by (intro exI [of _ "t\<lparr>ck_parent := p'\<rparr>"] exI [of _ "in_order asc ?m"]) simp
qed

text \<open>Replaying entries with distinct keys on the parent.\<close>

definition replay :: "bytes \<times> cValue \<Rightarrow> (('p, 't) CacheStore, unit) sm" where
  "replay = (\<lambda>(key, val). on_parent
     (case cv_value val of Some v \<Rightarrow> kvSet P key (Some v) | None \<Rightarrow> kvDelete P key))"

lemma replay_one:
  assumes "pinv (ck_parent s)" "pvalid k" "case cv_value c of None \<Rightarrow> True | Some v \<Rightarrow> length v \<le> MaxValueLength"
  shows "\<exists>p'. replay (k, c) s = (Inr (), s\<lparr>ck_parent := p'\<rparr>) \<and> pinv p' \<and>
    pabs p' = (pabs (ck_parent s))(k := cv_value c)"
proof (cases "cv_value c")
  case None
  with delete [OF assms(1,2)] show ?thesis by (auto simp: replay_def on_parent_def)
next
  case (Some v)
  with set [OF assms(1,2), of v] assms(3) show ?thesis by (auto simp: replay_def on_parent_def)
qed

lemma replay_all:
  assumes "pinv (ck_parent s)" "distinct (map fst es)"
    and "\<forall>(k, c) \<in> set es. pvalid k \<and> (case cv_value c of None \<Rightarrow> True | Some v \<Rightarrow> length v \<le> MaxValueLength)"
  shows "\<exists>p'. sforeach replay es s = (Inr (), s\<lparr>ck_parent := p'\<rparr>) \<and> pinv p' \<and>
    (\<forall>k. pabs p' k = (case map_of es k of Some c \<Rightarrow> cv_value c | None \<Rightarrow> pabs (ck_parent s) k))"
  using assms
proof (induction es arbitrary: s)
  case Nil
  then show ?case by (intro exI [of _ "ck_parent s"]) (simp add: sm_run)
next
  case (Cons e es)
  obtain k c where e: "e = (k, c)" by fastforce
  with Cons.prems replay_one [of s k c] obtain p' where
    p': "replay (k, c) s = (Inr (), s\<lparr>ck_parent := p'\<rparr>)" "pinv p'"
      "pabs p' = (pabs (ck_parent s))(k := cv_value c)" by auto
  have "\<exists>p''. sforeach replay es (s\<lparr>ck_parent := p'\<rparr>) = (Inr (), (s\<lparr>ck_parent := p'\<rparr>)\<lparr>ck_parent := p''\<rparr>) \<and>
      pinv p'' \<and> (\<forall>j. pabs p'' j =
        (case map_of es j of Some c \<Rightarrow> cv_value c | None \<Rightarrow> pabs (ck_parent (s\<lparr>ck_parent := p'\<rparr>)) j))"
    by (rule Cons.IH) (use Cons.prems p' e in auto)
  then obtain p'' where "sforeach replay es (s\<lparr>ck_parent := p'\<rparr>) = (Inr (), s\<lparr>ck_parent := p''\<rparr>)" "pinv p''"
    "\<forall>j. pabs p'' j = (case map_of es j of Some c \<Rightarrow> cv_value c | None \<Rightarrow> pabs p' j)"
    by (auto cong: option.case_cong)
  moreover have "map_of es k = None" using Cons.prems(2) e by (auto simp: map_of_eq_None_iff)
  ultimately show ?case
    using p' e by (intro exI [of _ p'']) (auto simp: sbind_def split: option.splits)
qed

lemma map_of_dirty: "distinct (map fst xs) \<Longrightarrow>
    map_of (sort_key fst (filter (\<lambda>(k, v). cv_dirty v) xs)) k =
      (case map_of xs k of Some c \<Rightarrow> if cv_dirty c then Some c else None | None \<Rightarrow> None)"
proof -
  assume d: "distinct (map fst xs)"
  let ?ys = "sort_key fst (filter (\<lambda>(k, v). cv_dirty v) xs)"
  have dy: "distinct (map fst ?ys)" using d by (intro sort_key_distinct distinct_map_filter)
  have iff: "map_of ?ys k = Some c \<longleftrightarrow> map_of xs k = Some c \<and> cv_dirty c" for c
    using map_of_eq_Some_iff [OF dy] map_of_eq_Some_iff [OF d] by auto
  show ?thesis
  proof (cases "map_of ?ys k")
    case None
    then have "\<not> (map_of xs k = Some c \<and> cv_dirty c)" for c unfolding iff [symmetric] by simp
    then show ?thesis by (cases "map_of xs k") (simp_all add: None)
  next
    case (Some c)
    then have "map_of xs k = Some c \<and> cv_dirty c" unfolding iff .
    with Some show ?thesis by simp
  qed
qed

lemma cache_write:
  assumes s: "ok s"
  shows "\<exists>p'. cachekv_Write bt P s = (Inr (), cachekv_NewStore bt p') \<and> pinv p' \<and> pabs p' = content s"
proof (cases "ck_cache s = [] \<and> ck_unsortedCache s = []")
  case True
  then show ?thesis
    using s by (intro exI [of _ "ck_parent s"])
      (auto simp: cachekv_Write_def cachekv_NewStore_def ck_ok_def ck_abs_def fun_eq_iff)
next
  case False
  let ?es = "sort_key fst (filter (\<lambda>(k, v). cv_dirty v) (ck_cache s))"
  let ?t = "s\<lparr> ck_cache := [], ck_unsortedCache := [], ck_sortedCache := btNew bt \<rparr>"
  have d: "distinct (map fst (ck_cache s))" using s by (simp add: ck_ok_def)
  have ds: "distinct (map fst ?es)"
    using d by (intro sort_key_distinct distinct_map_filter)
  have entry: "ck_entry_ok pabs pvalid (ck_parent s) k c" if "(k, c) \<in> set (ck_cache s)" for k c
    using ok_entry [OF s, of k c] that d by simp
  have "pvalid k \<and> (case cv_value c of None \<Rightarrow> True | Some v \<Rightarrow> length v \<le> MaxValueLength)"
    if "(k, c) \<in> set ?es" for k c
    using entry [of k c] that by (simp add: ck_entry_ok_def)
  then have vals: "\<forall>(k, c) \<in> set ?es. pvalid k \<and> (case cv_value c of None \<Rightarrow> True | Some v \<Rightarrow> length v \<le> MaxValueLength)"
    by blast
  have pt: "pinv (ck_parent ?t)" "ck_parent ?t = ck_parent s" using s by (simp_all add: ck_ok_def)
  from replay_all [OF pt(1) ds vals, unfolded pt(2)] obtain p' where p': "sforeach replay ?es ?t = (Inr (), ?t\<lparr>ck_parent := p'\<rparr>)" "pinv p'"
      "\<forall>k. pabs p' k = (case map_of ?es k of Some c \<Rightarrow> cv_value c | None \<Rightarrow> pabs (ck_parent s) k)"
    by blast
  have "pabs p' k = content s k" for k
    using p'(3) ok_entry [OF s, of k]
    by (cases "map_of (ck_cache s) k") (simp_all add: map_of_dirty [OF d] ck_abs_def ck_entry_ok_def)
  moreover have "cachekv_Write bt P s = (Inr (), ?t\<lparr>ck_parent := p'\<rparr>)"
    using p'(1) unfolding replay_def cachekv_Write_def length_0_conv
    by (simp only: False if_False resetCaches_def Let_def sbind_prim)
  ultimately show ?thesis
    using p'(2) by (intro exI [of _ p']) (auto simp: cachekv_NewStore_def fun_eq_iff)
qed

end


text \<open>A branch of a store is a store: branches can be stacked.\<close>

sublocale branch \<subseteq> cached: kv_store "cachekv_ops bt P" "ck_ok bt btok pinv pabs pvalid" "ck_abs pabs" pvalid
proof
  fix s :: "('p, 't) CacheStore" and k v :: bytes and start "end" :: "bytes option" and asc
  note ops = cachekv_ops_def
  assume s: "ck_ok bt btok pinv pabs pvalid s"
  show "\<exists>s'. kvGet (cachekv_ops bt P) k s = (Inr (content s k), s') \<and> ok s' \<and> content s' = content s"
    if "pvalid k" using cache_get [OF s that] by (auto simp: ops)
  show "\<exists>s'. kvHas (cachekv_ops bt P) k s = (Inr (content s k \<noteq> None), s') \<and> ok s' \<and> content s' = content s"
    if "pvalid k" using cache_has [OF s that] by (auto simp: ops)
  show "\<exists>s'. kvSet (cachekv_ops bt P) k (Some v) s = (Inr (), s') \<and> ok s' \<and> content s' = (content s)(k \<mapsto> v)"
    if "pvalid k" "length v \<le> MaxValueLength" using cache_set [OF s that] by (auto simp: ops)
  show "\<exists>s'. kvDelete (cachekv_ops bt P) k s = (Inr (), s') \<and> ok s' \<and> content s' = (content s)(k := None)"
    if "pvalid k" using cache_delete [OF s that] by (auto simp: ops)
  show "\<exists>s' xs. kvIterator (cachekv_ops bt P) start end asc s = (Inr (in_order asc xs), s') \<and>
      is_range (content s) start end xs \<and> ok s' \<and> content s' = content s"
    if "start \<noteq> Some []" "end \<noteq> Some []" using cache_iterator [OF s that, of asc] by (auto simp: ops)
qed (rule valid)

context branch
begin

lemma run_call_isolated:
  assumes "ok s" "valid_call pvalid c"
  shows "pabs (ck_parent (snd (run_call (cachekv_ops bt P) c s))) = pabs (ck_parent s)"
proof (cases c)
  case (CallGet k)
  with cache_get [of s k] assms show ?thesis by (auto simp: cachekv_ops_def sbind_def sm_run)
next
  case (CallHas k)
  with cache_has [of s k] assms show ?thesis by (auto simp: cachekv_ops_def sbind_def sm_run)
next
  case (CallSet k v)
  with cache_set [of s k v] assms show ?thesis by (auto simp: cachekv_ops_def)
next
  case (CallDelete k)
  with cache_delete [of s k] assms show ?thesis by (auto simp: cachekv_ops_def)
next
  case (CallIterate a b asc)
  with cache_iterator [of s a b asc] assms show ?thesis by (auto simp: cachekv_ops_def sbind_def sm_run)
qed

lemma run_calls_isolated:
  "ok s \<Longrightarrow> list_all (valid_call pvalid) cs \<Longrightarrow> sforeach (run_call (cachekv_ops bt P)) cs s = (Inr (), s') \<Longrightarrow>
     pabs (ck_parent s') = pabs (ck_parent s)"
proof (induction cs arbitrary: s)
  case Nil
  then show ?case by (simp add: sm_run)
next
  case (Cons c cs)
  then obtain t where t: "run_call (cachekv_ops bt P) c s = (Inr (), t)" "ok t"
    using cached.run_call_ok [of s c] by auto
  have "pabs (ck_parent t) = pabs (ck_parent s)" using run_call_isolated [of s c] Cons.prems t by auto
  moreover have "pabs (ck_parent s') = pabs (ck_parent t)"
    using Cons.IH [of t] Cons.prems t by (simp add: sbind_def)
  ultimately show ?case by simp
qed

lemma commit_after_calls:
  assumes "pinv p" "list_all (valid_call pvalid) cs"
  shows "\<exists>s p' q. sforeach (run_call (cachekv_ops bt P)) cs (cachekv_NewStore bt p) = (Inr (), s) \<and>
     pabs (ck_parent s) = pabs p \<and>
     cachekv_Write bt P s = (Inr (), cachekv_NewStore bt p') \<and>
     sforeach (run_call P) cs p = (Inr (), q) \<and> pabs p' = pabs q"
proof -
  have new: "ok (cachekv_NewStore bt p)" "content (cachekv_NewStore bt p) = pabs p"
    using new_store [OF assms(1)] by simp_all
  obtain s where s: "sforeach (run_call (cachekv_ops bt P)) cs (cachekv_NewStore bt p) = (Inr (), s)"
      "ok s" "content s = fold call_effect cs (pabs p)"
    using cached.run_calls_ok [OF new(1) assms(2)] new(2) by auto
  obtain q where q: "sforeach (run_call P) cs p = (Inr (), q)" "pabs q = fold call_effect cs (pabs p)"
    using run_calls_ok [OF assms] by auto
  obtain p' where p': "cachekv_Write bt P s = (Inr (), cachekv_NewStore bt p')" "pabs p' = content s"
    using cache_write [OF s(2)] by auto
  have "pabs (ck_parent s) = pabs p"
    using run_calls_isolated [OF new(1) assms(2) s(1)] by (simp add: cachekv_NewStore_def)
  with s q p' show ?thesis by auto
qed

end

text \<open>A branch over the in-memory database, and a branch of that branch.\<close>

interpretation membranch: branch "dbadapter_ops om_btree" "mem_ok om_btree om_ok" "mem_abs om_btree" valid_key
  om_btree om_ok
  by unfold_locales

interpretation membranch2: branch "cachekv_ops om_btree (dbadapter_ops om_btree)"
  "ck_ok om_btree om_ok (mem_ok om_btree om_ok) (mem_abs om_btree) valid_key" "ck_abs (mem_abs om_btree)"
  valid_key om_btree om_ok
  by unfold_locales

section \<open>Claims\<close>

text \<open>
  C29: a branching store over any store refines a finite map.  Whatever has been cached, \<open>Get\<close> and
  \<open>Has\<close> answer as the map does, \<open>Set\<close> and \<open>Delete\<close> change it at one key, all four keep the
  invariant of the three caches, and none of them changes what the parent holds.
\<close>

theorem cachekv_refines_map:
  assumes "branch P pinv pabs pvalid bt btok" and "ck_ok bt btok pinv pabs pvalid s"
    and "pvalid k" and "length v \<le> MaxValueLength"
  shows "(\<exists>s'. cachekv_Get P k s = (Inr (ck_abs pabs s k), s') \<and> ck_ok bt btok pinv pabs pvalid s' \<and>
           ck_abs pabs s' = ck_abs pabs s \<and> pabs (ck_parent s') = pabs (ck_parent s)) \<and>
         (\<exists>s'. cachekv_Has P k s = (Inr (ck_abs pabs s k \<noteq> None), s') \<and> ck_ok bt btok pinv pabs pvalid s' \<and>
           ck_abs pabs s' = ck_abs pabs s \<and> pabs (ck_parent s') = pabs (ck_parent s)) \<and>
         (\<exists>s'. cachekv_Set k (Some v) s = (Inr (), s') \<and> ck_ok bt btok pinv pabs pvalid s' \<and>
           ck_abs pabs s' = (ck_abs pabs s)(k \<mapsto> v) \<and> pabs (ck_parent s') = pabs (ck_parent s)) \<and>
         (\<exists>s'. cachekv_Delete k s = (Inr (), s') \<and> ck_ok bt btok pinv pabs pvalid s' \<and>
           ck_abs pabs s' = (ck_abs pabs s)(k := None) \<and> pabs (ck_parent s') = pabs (ck_parent s))"
  using branch.cache_get [OF assms(1,2,3)] branch.cache_has [OF assms(1,2,3)]
    branch.cache_set [OF assms] branch.cache_delete [OF assms(1,2,3)] by blast

theorem cachekv_refines_map_witness:
  "\<exists>s'. cachekv_Get (dbadapter_ops om_btree) ''a'' (cachekv_NewStore om_btree [(''a'', Some ''1'')]) =
     (Inr (Some ''1''), s')"
proof -
  have "ck_ok om_btree om_ok (mem_ok om_btree om_ok) (mem_abs om_btree) valid_key
      (cachekv_NewStore om_btree [(''a'', Some ''1'')])"
    using membranch.new_store [of "[(''a'', Some ''1'')]"]
    by (simp add: mem_ok_def om_btree_def om_ok_def)
  moreover have "valid_key ''a''" "length ''1'' \<le> MaxValueLength"
    by (simp_all add: valid_key_def MaxKeyLength_def MaxValueLength_def)
  ultimately show ?thesis
    using cachekv_refines_map [OF membranch.branch_axioms, of _ "''a''" "''1''"]
    by (fastforce simp: ck_abs_def cachekv_NewStore_def mem_abs_def om_btree_def)
qed

text \<open>
  C28: iterating over a range of a branching store, ascending or descending, yields exactly the pairs
  of its content whose keys lie in the range, each once and in key order: the binary searches that select
  the dirty keys miss none of them, cached deletions hide the parent's items, and cached values
  override them.
\<close>

theorem cachekv_iterator_exact:
  assumes "branch P pinv pabs pvalid bt btok" and "ck_ok bt btok pinv pabs pvalid s"
    and "start \<noteq> Some []" and "end \<noteq> Some []"
  shows "\<exists>s' xs. cachekv_Iterator bt P start end asc s = (Inr (if asc then xs else rev xs), s') \<and>
      sorted_wrt (<) (map fst xs) \<and>
      (\<forall>k v. (k, v) \<in> set xs \<longleftrightarrow> (\<exists>w. v = Some w \<and> ck_abs pabs s k = Some w) \<and> IsKeyInDomain k start end) \<and>
      ck_ok bt btok pinv pabs pvalid s' \<and> ck_abs pabs s' = ck_abs pabs s \<and>
      pabs (ck_parent s') = pabs (ck_parent s)"
  using branch.cache_iterator [OF assms, of asc] by (simp add: is_range_def om_ok_def in_order_def)

theorem cachekv_iterator_exact_witness:
  "\<exists>s' xs. cachekv_Iterator om_btree (dbadapter_ops om_btree) None (Some ''b'') False
     (cachekv_NewStore om_btree [(''a'', Some ''1''), (''b'', Some ''2'')]) = (Inr (rev xs), s') \<and>
     (''a'', Some ''1'') \<in> set xs"
proof -
  let ?s = "cachekv_NewStore om_btree [(''a'', Some ''1''), (''b'', Some ''2'')]"
  have "ck_ok om_btree om_ok (mem_ok om_btree om_ok) (mem_abs om_btree) valid_key ?s"
    using membranch.new_store [of "[(''a'', Some ''1''), (''b'', Some ''2'')]"]
    by (simp add: mem_ok_def om_btree_def om_ok_def)
  from cachekv_iterator_exact [OF membranch.branch_axioms this, of None "Some ''b''" False]
  obtain s' xs where r: "cachekv_Iterator om_btree (dbadapter_ops om_btree) None (Some ''b'') False ?s = (Inr (rev xs), s')"
    "\<forall>k v. (k, v) \<in> set xs \<longleftrightarrow>
       (\<exists>w. v = Some w \<and> ck_abs (mem_abs om_btree) ?s k = Some w) \<and> IsKeyInDomain k None (Some ''b'')"
    by auto
  moreover have "ck_abs (mem_abs om_btree) ?s ''a'' = Some ''1''"
    by (simp add: ck_abs_def cachekv_NewStore_def mem_abs_def om_btree_def)
  moreover have "IsKeyInDomain ''a'' None (Some ''b'')" by (simp add: IsKeyInDomain_def nonnil_def)
  ultimately show ?thesis by blast
qed

text \<open>
  C27: a transaction on a branch is atomic.  Any sequence of store calls on a fresh branch leaves the
  parent's content untouched, and \<open>Write\<close> then leaves the branch empty and the parent with exactly
  the content it would have if the calls had been made on it directly.
\<close>

theorem cachekv_commit_atomic:
  assumes "branch P pinv pabs pvalid bt btok" and "pinv p" and "list_all (valid_call pvalid) cs"
  shows "\<exists>s p' q. sforeach (run_call (cachekv_ops bt P)) cs (cachekv_NewStore bt p) = (Inr (), s) \<and>
     pabs (ck_parent s) = pabs p \<and>
     cachekv_Write bt P s = (Inr (), cachekv_NewStore bt p') \<and>
     sforeach (run_call P) cs p = (Inr (), q) \<and> pabs p' = pabs q"
  using branch.commit_after_calls [OF assms] .

theorem cachekv_commit_atomic_witness:
  "\<exists>s p'. sforeach (run_call (cachekv_ops om_btree (dbadapter_ops om_btree)))
       [CallSet ''a'' ''1'', CallDelete ''b'', CallIterate None None True] (cachekv_NewStore om_btree []) = (Inr (), s) \<and>
     cachekv_Write om_btree (dbadapter_ops om_btree) s = (Inr (), cachekv_NewStore om_btree p')"
proof -
  have "mem_ok om_btree om_ok []" by (simp add: mem_ok_def om_btree_def)
  then show ?thesis
    using cachekv_commit_atomic [OF membranch.branch_axioms, of "[]"
        "[CallSet ''a'' ''1'', CallDelete ''b'', CallIterate None None True]"]
    by (auto simp: valid_key_def MaxKeyLength_def MaxValueLength_def)
qed

end
