(* ===== verification/PrefixStore.thy ===== *)
theory PrefixStore
  imports CacheKV "HOL-Library.Sublist"
begin

text \<open>
  \<open>prefix.Store\<close> (\<open>src/store/prefix/store.go\<close>): the part of a parent store whose keys start with a
  given prefix, seen as a store of its own, and \<open>PrefixEndBytes\<close>, the end of the range of all keys
  with a prefix.  A prefix view of a store meets the contract \<open>kv_store\<close> again.
\<close>

section \<open>The store\<close>

text \<open>\<open>Store.key\<close>: a nil key panics, an empty one is the prefix itself.\<close>

definition prefix_key :: "bytes \<Rightarrow> bytes option \<Rightarrow> bytes res" where
  "prefix_key pre key =
     (case key of None \<Rightarrow> Inl (Panic ''nil key on Store'') | Some k \<Rightarrow> Inr (pre @ k))"

definition prefix_Get :: "'p kv_ops \<Rightarrow> bytes \<Rightarrow> bytes \<Rightarrow> ('p, bytes option) sm" where
  "prefix_Get P pre key = sbind (slift (prefix_key pre (Some key))) (kvGet P)"

definition prefix_Has :: "'p kv_ops \<Rightarrow> bytes \<Rightarrow> bytes \<Rightarrow> ('p, bool) sm" where
  "prefix_Has P pre key = sbind (slift (prefix_key pre (Some key))) (kvHas P)"

definition prefix_Set :: "'p kv_ops \<Rightarrow> bytes \<Rightarrow> bytes \<Rightarrow> bytes option \<Rightarrow> ('p, unit) sm" where
  "prefix_Set P pre key value =
     sbind (slift (AssertValidKey key)) (\<lambda>_.
     sbind (slift (AssertValidValue value)) (\<lambda>_.
     sbind (slift (prefix_key pre (Some key))) (\<lambda>k. kvSet P k value)))"

definition prefix_Delete :: "'p kv_ops \<Rightarrow> bytes \<Rightarrow> bytes \<Rightarrow> ('p, unit) sm" where
  "prefix_Delete P pre key = sbind (slift (prefix_key pre (Some key))) (kvDelete P)"

record prefixIterator =
  pi_prefix :: bytes
  pi_iter :: "kv_pair list"
  pi_valid :: bool

definition newPrefixIterator :: "bytes \<Rightarrow> kv_pair list \<Rightarrow> prefixIterator" where
  "newPrefixIterator pre parent =
     \<lparr> pi_prefix = pre, pi_iter = parent, pi_valid = (parent \<noteq> [] \<and> prefix pre (fst (hd parent))) \<rparr>"

definition pi_Valid :: "prefixIterator \<Rightarrow> bool" where
  "pi_Valid it \<longleftrightarrow> pi_valid it \<and> pi_iter it \<noteq> []"

definition pi_Next :: "prefixIterator \<Rightarrow> prefixIterator res" where
  "pi_Next it =
     (if \<not> pi_valid it then Inl (Panic ''prefixIterator invalid, cannot call Next()'')
      else let iter = tl (pi_iter it) in
           Inr (it\<lparr> pi_iter := iter,
                    pi_valid := (if iter = [] \<or> \<not> prefix (pi_prefix it) (fst (hd iter)) then False
                                 else pi_valid it) \<rparr>))"

definition stripPrefix :: "bytes \<Rightarrow> bytes \<Rightarrow> bytes res" where
  "stripPrefix key pre =
     (if length key < length pre \<or> take (length pre) key \<noteq> pre then Inl (Panic ''should not happen'')
      else Inr (drop (length pre) key))"

definition pi_Key :: "prefixIterator \<Rightarrow> bytes res" where
  "pi_Key it =
     (if \<not> pi_valid it then Inl (Panic ''prefixIterator invalid, cannot call Key()'')
      else stripPrefix (fst (hd (pi_iter it))) (pi_prefix it))"

definition pi_Value :: "prefixIterator \<Rightarrow> bytes option res" where
  "pi_Value it =
     (if \<not> pi_valid it then Inl (Panic ''prefixIterator invalid, cannot call Value()'')
      else Inr (snd (hd (pi_iter it))))"

fun pi_collect :: "nat \<Rightarrow> prefixIterator \<Rightarrow> kv_pair list res" where
  "pi_collect 0 it = Inr []"
| "pi_collect (Suc n) it =
     (if \<not> pi_Valid it then Inr []
      else rbind (pi_Key it) (\<lambda>k. rbind (pi_Value it) (\<lambda>v. rbind (pi_Next it) (\<lambda>it'.
           rbind (pi_collect n it') (\<lambda>xs. Inr ((k, v) # xs))))))"

definition prefix_Iterator ::
  "'p kv_ops \<Rightarrow> bytes \<Rightarrow> bytes option \<Rightarrow> bytes option \<Rightarrow> bool \<Rightarrow> ('p, kv_pair list) sm" where
  "prefix_Iterator P pre start end ascending =
     (let newstart = pre @ nonnil start;
          newend = (case end of None \<Rightarrow> PrefixEndBytes pre | Some e \<Rightarrow> Some (pre @ e))
      in sbind (kvIterator P (Some newstart) newend ascending) (\<lambda>iter.
         slift (pi_collect (length iter) (newPrefixIterator pre iter))))"

definition prefix_ops :: "'p kv_ops \<Rightarrow> bytes \<Rightarrow> 'p kv_ops" where
  "prefix_ops P pre = \<lparr> kvGet = prefix_Get P pre, kvHas = prefix_Has P pre, kvSet = prefix_Set P pre,
     kvDelete = prefix_Delete P pre, kvIterator = prefix_Iterator P pre \<rparr>"

section \<open>The end of a prefix range\<close>

text \<open>The same end, computed from the first byte on.\<close>

fun prefix_end :: "bytes \<Rightarrow> bytes option" where
  "prefix_end [] = None"
| "prefix_end (b # bs) =
     (case prefix_end bs of
        Some e \<Rightarrow> Some (b # e)
      | None \<Rightarrow> if (of_char b :: nat) \<noteq> 255 then Some [char_of (of_char b + 1 :: nat)] else None)"

lemma prefix_end_rev_snoc:
  "prefix_end_rev (bs @ [b]) = (case prefix_end_rev bs of Some e \<Rightarrow> Some (e @ [b])
     | None \<Rightarrow> if (of_char b :: nat) \<noteq> 255 then Some [char_of (of_char b + 1 :: nat)] else None)"
  by (induction bs) auto

lemma PrefixEndBytes_eq: "PrefixEndBytes p = prefix_end p"
proof -
  have "map_option rev (prefix_end_rev (rev p)) = prefix_end p"
    by (induction p) (auto simp: prefix_end_rev_snoc split: option.splits)
  then show ?thesis by (cases p) (simp_all add: PrefixEndBytes_def)
qed

lemma prefix_end_nonempty: "prefix_end p \<noteq> Some []"
  by (cases p) (auto split: option.splits)

lemma char_le_255: "(of_char c :: nat) \<le> 255"
  using nat_of_char_less_256 [of c] by linarith

lemma char_less_incr:
  assumes "(of_char c :: nat) \<noteq> 255"
  shows "d < char_of (of_char c + 1 :: nat) \<longleftrightarrow> d \<le> c"
proof -
  have "(of_char c :: nat) + 1 < 256" using assms char_le_255 [of c] by simp
  then have "(of_char (char_of (of_char c + 1 :: nat)) :: nat) = of_char c + 1" by simp
  then show ?thesis unfolding less_char_def less_eq_char_def by auto
qed

lemma in_prefix_range:
  "p \<le> k \<and> (case prefix_end p of None \<Rightarrow> True | Some e \<Rightarrow> k < e) \<longleftrightarrow> prefix p k"
proof (induction p arbitrary: k)
  case Nil
  then show ?case by simp
next
  case (Cons c cs)
  show ?case
  proof (cases k)
    case Nil
    then show ?thesis by simp
  next
    case (Cons d ds)
    have top: "\<not> c < d" if "(of_char c :: nat) = 255"
      using that char_le_255 [of d] unfolding less_char_def by auto
    show ?thesis
      using Cons.IH [of ds] Cons top char_less_incr [of c d]
      by (cases "prefix_end cs") (auto simp: Cons)
  qed
qed

lemma append_order: "(p @ a :: bytes) \<le> p @ b \<longleftrightarrow> a \<le> b" "(p @ a :: bytes) < p @ b \<longleftrightarrow> a < b"
  by (induction p) auto

lemma between_has_prefix: "(p @ a :: bytes) \<le> k \<Longrightarrow> k < p @ b \<Longrightarrow> prefix p k"
proof (induction p arbitrary: k)
  case (Cons c cs)
  then show ?case by (cases k) auto
qed simp

section \<open>A prefix view is a store\<close>

lemma pi_collect_prefixed:
  assumes "\<forall>x \<in> set items. prefix pre (fst x)"
  shows "pi_collect (length items) (newPrefixIterator pre items) =
    Inr (map (\<lambda>(k, v). (drop (length pre) k, v)) items)"
  using assms
proof (induction items)
  case Nil
  then show ?case by simp
next
  case (Cons x items)
  then have "take (length pre) (fst x) = pre" "\<not> length (fst x) < length pre"
    by (auto simp: prefix_def)
  moreover have "pi_Next (newPrefixIterator pre (x # items)) = Inr (newPrefixIterator pre items)"
    using Cons.prems by (cases items) (auto simp: pi_Next_def newPrefixIterator_def)
  ultimately show ?case
    using Cons
    by (cases x) (simp add: pi_Valid_def pi_Key_def pi_Value_def stripPrefix_def newPrefixIterator_def)
qed

locale prefixed_store = kv_store P pinv pabs pvalid
  for P :: "'p kv_ops" and pinv and pabs :: "'p \<Rightarrow> bytes \<rightharpoonup> bytes" and pvalid +
  fixes pre :: bytes
  assumes pre: "pre \<noteq> []"
begin

definition view :: "'p \<Rightarrow> bytes \<rightharpoonup> bytes" where
  "view s k = pabs s (pre @ k)"

definition accepts :: "bytes \<Rightarrow> bool" where
  "accepts k \<longleftrightarrow> valid_key k \<and> pvalid (pre @ k)"

definition range_end :: "bytes option \<Rightarrow> bytes option" where
  "range_end end = (case end of None \<Rightarrow> PrefixEndBytes pre | Some e \<Rightarrow> Some (pre @ e))"

lemma view_upd: "pabs s' = (pabs s)(pre @ k := v) \<Longrightarrow> view s' = (view s)(k := v)"
  by (auto simp: view_def fun_eq_iff)

lemma view_eq: "pabs s' = pabs s \<Longrightarrow> view s' = view s"
  by (simp add: view_def fun_eq_iff)

lemma bounds_ok: "Some (pre @ nonnil start) \<noteq> Some []" "range_end end \<noteq> Some []"
  using pre by (auto simp: range_end_def PrefixEndBytes_eq prefix_end_nonempty split: option.splits)

lemma in_view_range:
  "IsKeyInDomain k (Some (pre @ nonnil start)) (range_end end) \<longleftrightarrow>
     (\<exists>j. k = pre @ j \<and> IsKeyInDomain j start end)"
proof (cases "end")
  case None
  have "pre @ a \<le> pre @ j \<and> prefix pre (pre @ j) \<longleftrightarrow> a \<le> j" for a j by (simp add: append_order)
  moreover have "pre @ a \<le> k \<Longrightarrow> pre \<le> k" for a
    using append_order(1) [of pre "[]" a] by (metis Nil_le_Cons append_Nil2 dual_order.trans neq_Nil_conv order_refl)
  ultimately show ?thesis
    using None in_prefix_range [of pre k]
    by (auto simp: IsKeyInDomain_iff range_end_def PrefixEndBytes_eq nonnil_def prefix_def append_order)
next
  case (Some e)
  then show ?thesis
    using between_has_prefix [of pre "nonnil start" k e]
    by (auto simp: IsKeyInDomain_iff range_end_def nonnil_def prefix_def append_order)
qed

lemma view_range:
  assumes "is_range (pabs s) (Some (pre @ nonnil start)) (range_end end) xs"
  shows "is_range (view s) start end (map (\<lambda>(k, v). (drop (length pre) k, v)) xs)"
    and "\<forall>x \<in> set xs. prefix pre (fst x)"
proof -
  have mem: "(k, v) \<in> set xs \<longleftrightarrow> (\<exists>w. v = Some w \<and> pabs s k = Some w) \<and>
      (\<exists>j. k = pre @ j \<and> IsKeyInDomain j start end)" for k v
    using assms by (simp add: is_range_def in_view_range)
  show p: "\<forall>x \<in> set xs. prefix pre (fst x)" by (auto simp: mem)
  have strip: "(j, v) \<in> set (map (\<lambda>(k, v). (drop (length pre) k, v)) xs) \<longleftrightarrow> (pre @ j, v) \<in> set xs" for j v
    using p by (force simp: prefix_def)
  have "om_ok (map (\<lambda>(k, v). (drop (length pre) k, v)) ys)"
    if "om_ok ys" "\<forall>x \<in> set ys. prefix pre (fst x)" for ys :: "kv_pair list"
    using that
  proof (induction ys)
    case (Cons y ys)
    then show ?case by (cases y) (fastforce simp: prefix_def append_order)
  qed simp
  then have "om_ok (map (\<lambda>(k, v). (drop (length pre) k, v)) xs)"
    using assms p by (simp add: is_range_def)
  then show "is_range (view s) start end (map (\<lambda>(k, v). (drop (length pre) k, v)) xs)"
    unfolding is_range_def strip mem by (auto simp: view_def)
qed

lemma prefix_iterator:
  assumes "pinv s"
  shows "\<exists>s' xs. prefix_Iterator P pre start end asc s = (Inr (in_order asc xs), s') \<and>
      is_range (view s) start end xs \<and> pinv s' \<and> pabs s' = pabs s"
proof -
  from iterator [OF assms bounds_ok, of start "end" asc] obtain s' xs where
    r: "kvIterator P (Some (pre @ nonnil start)) (range_end end) asc s = (Inr (in_order asc xs), s')"
      "is_range (pabs s) (Some (pre @ nonnil start)) (range_end end) xs" "pinv s'" "pabs s' = pabs s"
    by blast
  let ?f = "\<lambda>(k, v). (drop (length pre) k, v)"
  have "\<forall>x \<in> set (in_order asc xs). prefix pre (fst x)" using view_range(2) [OF r(2)] by simp
  from pi_collect_prefixed [OF this] have
    "prefix_Iterator P pre start end asc s = (Inr (map ?f (in_order asc xs)), s')"
    using r(1) by (simp add: prefix_Iterator_def range_end_def sbind_def sm_run)
  moreover have "map ?f (in_order asc xs) = in_order asc (map ?f xs)"
    by (simp add: in_order_def rev_map)
  ultimately show ?thesis
    using view_range(1) [OF r(2)] r(3,4) by (intro exI [of _ s'] exI [of _ "map ?f xs"]) simp
qed

end

sublocale prefixed_store \<subseteq> prefixed: kv_store "prefix_ops P pre" pinv view accepts
proof
  fix s :: 'p and k v :: bytes and start "end" :: "bytes option" and asc
  note defs = prefix_ops_def prefix_key_def
  assume s: "pinv s"
  show "\<exists>s'. kvGet (prefix_ops P pre) k s = (Inr (view s k), s') \<and> pinv s' \<and> view s' = view s"
    if "accepts k" using get [OF s, of "pre @ k"] that
    by (auto simp: defs prefix_Get_def accepts_def view_def [of s] dest: view_eq)
  show "\<exists>s'. kvHas (prefix_ops P pre) k s = (Inr (view s k \<noteq> None), s') \<and> pinv s' \<and> view s' = view s"
    if "accepts k" using has [OF s, of "pre @ k"] that
    by (auto simp: defs prefix_Has_def accepts_def view_def [of s] dest: view_eq)
  show "\<exists>s'. kvSet (prefix_ops P pre) k (Some v) s = (Inr (), s') \<and> pinv s' \<and> view s' = (view s)(k \<mapsto> v)"
    if "accepts k" "length v \<le> MaxValueLength" using set [OF s, of "pre @ k" v] that
    by (auto simp: defs prefix_Set_def accepts_def dest: view_upd)
  show "\<exists>s'. kvDelete (prefix_ops P pre) k s = (Inr (), s') \<and> pinv s' \<and> view s' = (view s)(k := None)"
    if "accepts k" using delete [OF s, of "pre @ k"] that
    by (auto simp: defs prefix_Delete_def accepts_def dest: view_upd)
  show "\<exists>s' xs. kvIterator (prefix_ops P pre) start end asc s = (Inr (in_order asc xs), s') \<and>
      is_range (view s) start end xs \<and> pinv s' \<and> view s' = view s"
    using prefix_iterator [OF s, of start "end" asc] by (auto simp: defs dest: view_eq)
qed (simp add: accepts_def)

text \<open>A module's store: a prefix view of a branch of the in-memory database.\<close>

interpretation module_store: prefixed_store "cachekv_ops om_btree (dbadapter_ops om_btree)"
  "ck_ok om_btree om_ok (mem_ok om_btree om_ok) (mem_abs om_btree) valid_key" "ck_abs (mem_abs om_btree)"
  valid_key "''m''"
  by unfold_locales simp

section \<open>Claims\<close>

text \<open>
  \<open>PrefixEndBytes\<close> delimits exactly the keys with a prefix: a key lies in the range from the
  prefix to its end if and only if it starts with the prefix, also when the prefix ends in bytes 0xFF
  or consists of them.
\<close>

theorem PrefixEndBytes_range: "IsKeyInDomain k (Some p) (PrefixEndBytes p) \<longleftrightarrow> prefix p k"
  using in_prefix_range [of p k] by (simp add: IsKeyInDomain_iff PrefixEndBytes_eq nonnil_def)

text \<open>
  C30: iterating a prefix view of any store yields exactly the parent's pairs whose key is the prefix
  followed by a key of the range, with the prefix stripped, in key order; no key outside the prefix is
  ever seen, and writing through the view changes the parent at the prefixed key only.
\<close>

theorem prefix_store_exact:
  assumes "kv_store P pinv pabs pvalid" and "pre \<noteq> []" and "pinv s"
    and "valid_key k" and "pvalid (pre @ k)" and "length v \<le> MaxValueLength"
  shows "(\<exists>s' xs. prefix_Iterator P pre start end asc s = (Inr (if asc then xs else rev xs), s') \<and>
           sorted_wrt (<) (map fst xs) \<and> pabs s' = pabs s \<and>
           (\<forall>j w. (j, Some w) \<in> set xs \<longleftrightarrow> pabs s (pre @ j) = Some w \<and> IsKeyInDomain j start end)) \<and>
         (\<exists>s'. prefix_Set P pre k (Some v) s = (Inr (), s') \<and> pabs s' = (pabs s)(pre @ k \<mapsto> v))"
proof -
  have store: "prefixed_store P pinv pabs pvalid pre"
    using assms(1,2) by (simp add: prefixed_store_def prefixed_store_axioms_def)
  have "\<exists>s'. prefix_Set P pre k (Some v) s = (Inr (), s') \<and> pabs s' = (pabs s)(pre @ k \<mapsto> v)"
    using kv_store.set [OF assms(1,3,5,6)] assms(4,6)
    by (auto simp: prefix_Set_def prefix_key_def)
  moreover obtain s' xs where r: "prefix_Iterator P pre start end asc s = (Inr (in_order asc xs), s')"
      "is_range (prefixed_store.view pabs pre s) start end xs" "pabs s' = pabs s"
    using prefixed_store.prefix_iterator [OF store assms(3), of start "end" asc] by blast
  moreover have "sorted_wrt (<) (map fst xs)" using r(2) by (simp add: is_range_def om_ok_def)
  moreover have "(j, Some w) \<in> set xs \<longleftrightarrow> pabs s (pre @ j) = Some w \<and> IsKeyInDomain j start end" for j w
    using r(2) by (simp add: is_range_def prefixed_store.view_def [OF store])
  ultimately show ?thesis unfolding in_order_def by metis
qed

theorem prefix_store_exact_witness:
  "\<exists>s'. prefix_Set (dbadapter_ops om_btree) ''m'' ''k'' (Some ''1'') [] = (Inr (), s') \<and>
     mem_abs om_btree s' ''mk'' = Some ''1''"
proof -
  have "mem_ok om_btree om_ok []" by (simp add: mem_ok_def om_btree_def)
  then show ?thesis
    using prefix_store_exact [OF om.adapter.kv_store_axioms, of "''m''" "[]" "''k''" "''1''" None None True]
    by (auto simp: valid_key_def MaxKeyLength_def MaxValueLength_def)
qed

end
