(* ===== verification/Gas.thy ===== *)
theory Gas
  imports Prelude "HOL-Library.Word"
begin

text \<open>
  Gas meters (\<open>src/store/types/gas.go\<close>).  \<open>Gas\<close> is a 64-bit word.  The Go interface
  \<open>GasMeter\<close> is the record \<open>meter_ops\<close> of its methods; the contract its clients rely on is
  the locale \<open>gas_meter\<close>, interpreted on \<open>basicGasMeter\<close> and on \<open>infiniteGasMeter\<close>.
\<close>

section \<open>Faults and the interface\<close>

type_synonym gas = "64 word"

definition ErrorNegativeGasConsumed :: "string \<Rightarrow> fault" where
  "ErrorNegativeGasConsumed d = Panic (''ErrorNegativeGasConsumed '' @ d)"

definition ErrorOutOfGas :: "string \<Rightarrow> fault" where
  "ErrorOutOfGas d = Panic (''ErrorOutOfGas '' @ d)"

definition ErrorGasOverflow :: "string \<Rightarrow> fault" where
  "ErrorGasOverflow d = Panic (''ErrorGasOverflow '' @ d)"

definition MaxUint64 :: gas where
  "MaxUint64 = - 1"

record 'm meter_ops =
  GasConsumed :: "'m \<Rightarrow> gas"
  GasConsumedToLimit :: "'m \<Rightarrow> gas"
  GasRemaining :: "'m \<Rightarrow> gas"
  Limit :: "'m \<Rightarrow> gas"
  ConsumeGas :: "gas \<Rightarrow> string \<Rightarrow> ('m, unit) sm"
  RefundGas :: "gas \<Rightarrow> string \<Rightarrow> ('m, unit) sm"
  IsPastLimit :: "'m \<Rightarrow> bool"
  IsOutOfGas :: "'m \<Rightarrow> bool"

definition addUint64Overflow :: "gas \<Rightarrow> gas \<Rightarrow> gas \<times> bool" where
  "addUint64Overflow a b = (if MaxUint64 - a < b then (0, True) else (a + b, False))"

section \<open>The basic meter\<close>

record basicGasMeter =
  bg_limit :: gas
  bg_consumed :: gas

definition NewGasMeter :: "gas \<Rightarrow> basicGasMeter" where
  "NewGasMeter limit = \<lparr> bg_limit = limit, bg_consumed = 0 \<rparr>"

definition basic_IsPastLimit :: "basicGasMeter \<Rightarrow> bool" where
  "basic_IsPastLimit g \<longleftrightarrow> bg_consumed g > bg_limit g"

definition basic_IsOutOfGas :: "basicGasMeter \<Rightarrow> bool" where
  "basic_IsOutOfGas g \<longleftrightarrow> bg_consumed g \<ge> bg_limit g"

definition basic_GasRemaining :: "basicGasMeter \<Rightarrow> gas" where
  "basic_GasRemaining g = (if basic_IsPastLimit g then 0 else bg_limit g - bg_consumed g)"

definition basic_GasConsumedToLimit :: "basicGasMeter \<Rightarrow> gas" where
  "basic_GasConsumedToLimit g = (if basic_IsPastLimit g then bg_limit g else bg_consumed g)"

definition basic_ConsumeGas :: "gas \<Rightarrow> string \<Rightarrow> (basicGasMeter, unit) sm" where
  "basic_ConsumeGas amount descriptor g =
     (case addUint64Overflow (bg_consumed g) amount of (c, overflow) \<Rightarrow>
        if overflow then (Inl (ErrorGasOverflow descriptor), g\<lparr>bg_consumed := MaxUint64\<rparr>)
        else if c > bg_limit g then (Inl (ErrorOutOfGas descriptor), g\<lparr>bg_consumed := c\<rparr>)
        else (Inr (), g\<lparr>bg_consumed := c\<rparr>))"

definition basic_RefundGas :: "gas \<Rightarrow> string \<Rightarrow> (basicGasMeter, unit) sm" where
  "basic_RefundGas amount descriptor g =
     (if bg_consumed g < amount then (Inl (ErrorNegativeGasConsumed descriptor), g)
      else (Inr (), g\<lparr>bg_consumed := bg_consumed g - amount\<rparr>))"

definition basic_ops :: "basicGasMeter meter_ops" where
  "basic_ops = \<lparr> GasConsumed = bg_consumed, GasConsumedToLimit = basic_GasConsumedToLimit,
     GasRemaining = basic_GasRemaining, Limit = bg_limit, ConsumeGas = basic_ConsumeGas,
     RefundGas = basic_RefundGas, IsPastLimit = basic_IsPastLimit, IsOutOfGas = basic_IsOutOfGas \<rparr>"

section \<open>The infinite meter\<close>

record infiniteGasMeter =
  ig_consumed :: gas

definition NewInfiniteGasMeter :: infiniteGasMeter where
  "NewInfiniteGasMeter = \<lparr> ig_consumed = 0 \<rparr>"

text \<open>
  The receiver is assigned the first result of \<open>addUint64Overflow\<close> before the overflow flag is
  looked at: on an overflow the meter that panics holds 0.
\<close>

definition infinite_ConsumeGas :: "gas \<Rightarrow> string \<Rightarrow> (infiniteGasMeter, unit) sm" where
  "infinite_ConsumeGas amount descriptor g =
     (case addUint64Overflow (ig_consumed g) amount of (c, overflow) \<Rightarrow>
        (if overflow then Inl (ErrorGasOverflow descriptor) else Inr (), g\<lparr>ig_consumed := c\<rparr>))"

definition infinite_RefundGas :: "gas \<Rightarrow> string \<Rightarrow> (infiniteGasMeter, unit) sm" where
  "infinite_RefundGas amount descriptor g =
     (if ig_consumed g < amount then (Inl (ErrorNegativeGasConsumed descriptor), g)
      else (Inr (), g\<lparr>ig_consumed := ig_consumed g - amount\<rparr>))"

definition infinite_ops :: "infiniteGasMeter meter_ops" where
  "infinite_ops = \<lparr> GasConsumed = ig_consumed, GasConsumedToLimit = ig_consumed,
     GasRemaining = (\<lambda>_. MaxUint64), Limit = (\<lambda>_. MaxUint64), ConsumeGas = infinite_ConsumeGas,
     RefundGas = infinite_RefundGas, IsPastLimit = (\<lambda>_. False), IsOutOfGas = (\<lambda>_. False) \<rparr>"

section \<open>Store costs\<close>

record GasConfig =
  HasCost :: gas
  DeleteCost :: gas
  ReadCostFlat :: gas
  ReadCostPerByte :: gas
  WriteCostFlat :: gas
  WriteCostPerByte :: gas
  IterNextCostFlat :: gas

definition KVGasConfig :: GasConfig where
  "KVGasConfig = \<lparr> HasCost = 1000, DeleteCost = 1000, ReadCostFlat = 1000, ReadCostPerByte = 3,
     WriteCostFlat = 2000, WriteCostPerByte = 30, IterNextCostFlat = 30 \<rparr>"

definition TransientGasConfig :: GasConfig where
  "TransientGasConfig = \<lparr> HasCost = 100, DeleteCost = 100, ReadCostFlat = 100, ReadCostPerByte = 0,
     WriteCostFlat = 200, WriteCostPerByte = 3, IterNextCostFlat = 3 \<rparr>"

section \<open>Overflow\<close>

lemma unat_MaxUint64: "unat MaxUint64 = 2 ^ 64 - 1"
  by (simp add: MaxUint64_def unsigned_minus_1_eq_mask mask_eq_exp_minus_1)

lemma unat_le_Max: "unat (a :: gas) \<le> 2 ^ 64 - 1"
proof -
  have "unat a < 2 ^ LENGTH(64)" by (rule unsigned_less)
  then show ?thesis by simp
qed

lemma addUint64Overflow_spec:
  "addUint64Overflow a b = (if unat a + unat b < 2 ^ 64 then (a + b, False) else (0, True))"
proof -
  have "unat (MaxUint64 - a) = 2 ^ 64 - 1 - unat a"
    using unat_le_Max [of a] by (subst unat_sub) (simp_all add: word_le_nat_alt unat_MaxUint64)
  then show ?thesis
    using unat_le_Max [of a] by (auto simp: addUint64Overflow_def word_less_nat_alt)
qed

lemma unat_plus_noflow: "unat a + unat b < 2 ^ 64 \<Longrightarrow> unat (a + b :: gas) = unat a + unat b"
  by (subst unat_add_lem [THEN iffD1]) simp_all

section \<open>The contract of a gas meter\<close>

text \<open>
  What a client may rely on: an amount is charged exactly when it fits under the limit, a refused
  charge panics, refunding takes back exactly what was charged, and the limit never moves.
\<close>

locale gas_meter =
  fixes ops :: "'m meter_ops"
  assumes consume_ok: "unat (GasConsumed ops g) + unat a \<le> unat (Limit ops g) \<Longrightarrow>
      \<exists>g'. ConsumeGas ops a d g = (Inr (), g') \<and>
        unat (GasConsumed ops g') = unat (GasConsumed ops g) + unat a \<and> Limit ops g' = Limit ops g"
    and consume_refused: "unat (Limit ops g) < unat (GasConsumed ops g) + unat a \<Longrightarrow>
      \<exists>e g'. ConsumeGas ops a d g = (Inl (Panic e), g') \<and> Limit ops g' = Limit ops g"
    and refund_ok: "a \<le> GasConsumed ops g \<Longrightarrow>
      \<exists>g'. RefundGas ops a d g = (Inr (), g') \<and> GasConsumed ops g' = GasConsumed ops g - a \<and>
        Limit ops g' = Limit ops g"
    and refund_refused: "GasConsumed ops g < a \<Longrightarrow> \<exists>e. RefundGas ops a d g = (Inl (Panic e), g)"
begin

text \<open>A sequence of charges goes through exactly when their exact sum fits.\<close>

lemma charges_ok:
  assumes "unat (GasConsumed ops g) + sum_list (map (\<lambda>c. unat (fst c)) cs) \<le> unat (Limit ops g)"
  shows "\<exists>g'. sforeach (\<lambda>(a, d). ConsumeGas ops a d) cs g = (Inr (), g') \<and>
      unat (GasConsumed ops g') = unat (GasConsumed ops g) + sum_list (map (\<lambda>c. unat (fst c)) cs) \<and>
      Limit ops g' = Limit ops g"
  using assms
proof (induction cs arbitrary: g)
  case Nil
  then show ?case by (simp add: sm_run)
next
  case (Cons c cs)
  obtain a d where c: "c = (a, d)" by force
  from Cons.prems c have "unat (GasConsumed ops g) + unat a \<le> unat (Limit ops g)" by simp
  from consume_ok [OF this, of d] obtain t where t: "ConsumeGas ops a d g = (Inr (), t)"
      "unat (GasConsumed ops t) = unat (GasConsumed ops g) + unat a" "Limit ops t = Limit ops g"
    by auto
  have "\<exists>g'. sforeach (\<lambda>(a, d). ConsumeGas ops a d) cs t = (Inr (), g') \<and>
      unat (GasConsumed ops g') = unat (GasConsumed ops t) + sum_list (map (\<lambda>c. unat (fst c)) cs) \<and>
      Limit ops g' = Limit ops t"
    by (rule Cons.IH) (use Cons.prems c t in simp)
  with t c show ?case by (auto simp: sbind_def)
qed

lemma charges_refused:
  assumes "unat (Limit ops g) < unat (GasConsumed ops g) + sum_list (map (\<lambda>c. unat (fst c)) cs)"
    and "unat (GasConsumed ops g) \<le> unat (Limit ops g)"
  shows "\<exists>e g'. sforeach (\<lambda>(a, d). ConsumeGas ops a d) cs g = (Inl (Panic e), g')"
  using assms
proof (induction cs arbitrary: g)
  case Nil
  then show ?case by simp
next
  case (Cons c cs)
  obtain a d where c: "c = (a, d)" by force
  show ?case
  proof (cases "unat (GasConsumed ops g) + unat a \<le> unat (Limit ops g)")
    case True
    from consume_ok [OF this, of d] obtain t where t: "ConsumeGas ops a d g = (Inr (), t)"
        "unat (GasConsumed ops t) = unat (GasConsumed ops g) + unat a" "Limit ops t = Limit ops g"
      by auto
    have "\<exists>e g'. sforeach (\<lambda>(a, d). ConsumeGas ops a d) cs t = (Inl (Panic e), g')"
      by (rule Cons.IH) (use Cons.prems c t True in auto)
    with t c show ?thesis by (auto simp: sbind_def)
  next
    case False
    then obtain e t where t: "ConsumeGas ops a d g = (Inl (Panic e), t)"
      using consume_refused [of g a d] by auto
    with c show ?thesis by (auto simp: sbind_def)
  qed
qed

lemma refund_undoes:
  assumes "ConsumeGas ops a d g = (Inr (), g')"
  shows "\<exists>g''. RefundGas ops a d' g' = (Inr (), g'') \<and> GasConsumed ops g'' = GasConsumed ops g \<and>
      Limit ops g'' = Limit ops g"
proof -
  have fits: "unat (GasConsumed ops g) + unat a \<le> unat (Limit ops g)"
    using assms consume_refused [of g a d] by force
  with consume_ok [of g a d] assms have g': "unat (GasConsumed ops g') = unat (GasConsumed ops g) + unat a"
      "Limit ops g' = Limit ops g" by auto
  then have le: "a \<le> GasConsumed ops g'" by (simp add: word_le_nat_alt)
  moreover have "GasConsumed ops g' - a = GasConsumed ops g"
    using le g' by (simp add: word_unat_eq_iff unat_sub)
  ultimately show ?thesis using refund_ok [OF le, of d'] g' by auto
qed

end

interpretation bgas: gas_meter basic_ops
proof
  fix g :: basicGasMeter and a :: gas and d :: string
  let ?c = "bg_consumed g" and ?l = "bg_limit g"
  show "\<exists>g'. ConsumeGas basic_ops a d g = (Inr (), g') \<and>
      unat (GasConsumed basic_ops g') = unat (GasConsumed basic_ops g) + unat a \<and>
      Limit basic_ops g' = Limit basic_ops g"
    if "unat (GasConsumed basic_ops g) + unat a \<le> unat (Limit basic_ops g)"
    using that unat_le_Max [of ?l] unat_plus_noflow [of ?c a]
    by (simp add: basic_ops_def basic_ConsumeGas_def addUint64Overflow_spec word_less_nat_alt)
  show "\<exists>e g'. ConsumeGas basic_ops a d g = (Inl (Panic e), g') \<and> Limit basic_ops g' = Limit basic_ops g"
    if "unat (Limit basic_ops g) < unat (GasConsumed basic_ops g) + unat a"
    using that unat_plus_noflow [of ?c a]
    by (simp add: basic_ops_def basic_ConsumeGas_def addUint64Overflow_spec word_less_nat_alt
        ErrorOutOfGas_def ErrorGasOverflow_def)
qed (auto simp: basic_ops_def basic_RefundGas_def ErrorNegativeGasConsumed_def)

interpretation igas: gas_meter infinite_ops
proof
  fix g :: infiniteGasMeter and a :: gas and d :: string
  let ?c = "ig_consumed g"
  show "\<exists>g'. ConsumeGas infinite_ops a d g = (Inr (), g') \<and>
      unat (GasConsumed infinite_ops g') = unat (GasConsumed infinite_ops g) + unat a \<and>
      Limit infinite_ops g' = Limit infinite_ops g"
    if "unat (GasConsumed infinite_ops g) + unat a \<le> unat (Limit infinite_ops g)"
    using that unat_plus_noflow [of ?c a]
    by (simp add: infinite_ops_def infinite_ConsumeGas_def addUint64Overflow_spec unat_MaxUint64)
  show "\<exists>e g'. ConsumeGas infinite_ops a d g = (Inl (Panic e), g') \<and>
      Limit infinite_ops g' = Limit infinite_ops g"
    if "unat (Limit infinite_ops g) < unat (GasConsumed infinite_ops g) + unat a"
    using that
    by (simp add: infinite_ops_def infinite_ConsumeGas_def addUint64Overflow_spec unat_MaxUint64
        ErrorGasOverflow_def)
qed (auto simp: infinite_ops_def infinite_RefundGas_def ErrorNegativeGasConsumed_def)

lemma basic_remaining:
  "unat (bg_consumed g) \<le> unat (bg_limit g) \<Longrightarrow>
     unat (basic_GasRemaining g) = unat (bg_limit g) - unat (bg_consumed g) \<and> \<not> basic_IsPastLimit g"
  by (auto simp: basic_GasRemaining_def basic_IsPastLimit_def word_less_nat_alt word_le_nat_alt unat_sub)

section \<open>Claims\<close>

text \<open>
  C33: charging a fresh limited meter with any sequence of amounts succeeds exactly when their exact
  (unbounded) sum does not exceed the limit; the meter then reports that sum as consumed, the rest of
  the limit as remaining, and is not past its limit.  Otherwise some charge panics.
\<close>

theorem gas_charges_exact:
  "if (\<Sum>c\<leftarrow>cs. unat (fst c)) \<le> unat limit
   then \<exists>g. sforeach (\<lambda>(a, d). basic_ConsumeGas a d) cs (NewGasMeter limit) = (Inr (), g) \<and>
          unat (bg_consumed g) = (\<Sum>c\<leftarrow>cs. unat (fst c)) \<and>
          unat (basic_GasRemaining g) = unat limit - (\<Sum>c\<leftarrow>cs. unat (fst c)) \<and>
          \<not> basic_IsPastLimit g
   else \<exists>e g. sforeach (\<lambda>(a, d). basic_ConsumeGas a d) cs (NewGasMeter limit) = (Inl (Panic e), g)"
  using bgas.charges_ok [of "NewGasMeter limit" cs] bgas.charges_refused [of "NewGasMeter limit" cs]
  by (fastforce simp: basic_ops_def NewGasMeter_def basic_remaining)

text \<open>
  C34: what a single charge leaves in the meter.  The limited meter saturates at the largest word when
  the addition overflows and keeps the excess when only the limit is exceeded; the infinite meter
  panics on an overflow too, but its count restarts at 0.  What is reported up to the limit never
  exceeds it.
\<close>

theorem gas_charge_complete:
  "basic_ConsumeGas a d g =
     (if 2 ^ 64 \<le> unat (bg_consumed g) + unat a then (Inl (ErrorGasOverflow d), g\<lparr>bg_consumed := MaxUint64\<rparr>)
      else if unat (bg_limit g) < unat (bg_consumed g) + unat a
      then (Inl (ErrorOutOfGas d), g\<lparr>bg_consumed := bg_consumed g + a\<rparr>)
      else (Inr (), g\<lparr>bg_consumed := bg_consumed g + a\<rparr>)) \<and>
   infinite_ConsumeGas a d h =
     (if 2 ^ 64 \<le> unat (ig_consumed h) + unat a then (Inl (ErrorGasOverflow d), h\<lparr>ig_consumed := 0\<rparr>)
      else (Inr (), h\<lparr>ig_consumed := ig_consumed h + a\<rparr>)) \<and>
   basic_GasConsumedToLimit (snd (basic_ConsumeGas a d g)) \<le> bg_limit g"
  using unat_plus_noflow [of "bg_consumed g" a]
  by (cases "unat (bg_consumed g) + unat a < 2 ^ 64")
    (auto simp: basic_ConsumeGas_def infinite_ConsumeGas_def addUint64Overflow_spec
      basic_GasConsumedToLimit_def basic_IsPastLimit_def word_less_nat_alt word_le_nat_alt)

end
