(* ===== verification/GasKV.thy ===== *)
theory GasKV
  imports Gas CacheKV
begin

text \<open>
  \<open>gaskv.Store\<close> (\<open>src/store/gaskv/store.go\<close>): a store that charges a gas meter for every access to
  its parent.  The meter and the parent are interfaces; the results hold for every meter that meets
  \<open>gas_meter\<close> and every store that meets \<open>kv_store\<close>.
\<close>

section \<open>The store\<close>

record ('m, 'p) GasStore =
  gs_gasMeter :: 'm
  gs_parent :: 'p

definition on_meter :: "('m, 'a) sm \<Rightarrow> (('m, 'p) GasStore, 'a) sm" where
  "on_meter m s = (case m (gs_gasMeter s) of (r, g) \<Rightarrow> (r, s\<lparr>gs_gasMeter := g\<rparr>))"

definition on_gparent :: "('p, 'a) sm \<Rightarrow> (('m, 'p) GasStore, 'a) sm" where
  "on_gparent m s = (case m (gs_parent s) of (r, p) \<Rightarrow> (r, s\<lparr>gs_parent := p\<rparr>))"

text \<open>\<open>cost * types.Gas(len(b))\<close> in 64-bit arithmetic; a nil slice has length 0.\<close>

definition per_byte :: "gas \<Rightarrow> bytes \<Rightarrow> gas" where
  "per_byte cost b = cost * word_of_nat (length b)"

definition gaskv_Get :: "'m meter_ops \<Rightarrow> GasConfig \<Rightarrow> 'p kv_ops \<Rightarrow> bytes \<Rightarrow> (('m, 'p) GasStore, bytes option) sm" where
  "gaskv_Get M cfg P key =
     sbind (on_meter (ConsumeGas M (ReadCostFlat cfg) ''ReadFlat'')) (\<lambda>_.
     sbind (on_gparent (kvGet P key)) (\<lambda>value.
     sbind (on_meter (ConsumeGas M (per_byte (ReadCostPerByte cfg) key) ''ReadPerByte'')) (\<lambda>_.
     sbind (on_meter (ConsumeGas M (per_byte (ReadCostPerByte cfg) (nonnil value)) ''ReadPerByte'')) (\<lambda>_.
     sret value))))"

definition gaskv_Set ::
  "'m meter_ops \<Rightarrow> GasConfig \<Rightarrow> 'p kv_ops \<Rightarrow> bytes \<Rightarrow> bytes option \<Rightarrow> (('m, 'p) GasStore, unit) sm" where
  "gaskv_Set M cfg P key value =
     sbind (slift (AssertValidKey key)) (\<lambda>_.
     sbind (slift (AssertValidValue value)) (\<lambda>_.
     sbind (on_meter (ConsumeGas M (WriteCostFlat cfg) ''WriteFlat'')) (\<lambda>_.
     sbind (on_meter (ConsumeGas M (per_byte (WriteCostPerByte cfg) key) ''WritePerByte'')) (\<lambda>_.
     sbind (on_meter (ConsumeGas M (per_byte (WriteCostPerByte cfg) (nonnil value)) ''WritePerByte'')) (\<lambda>_.
     on_gparent (kvSet P key value))))))"

definition gaskv_Has :: "'m meter_ops \<Rightarrow> GasConfig \<Rightarrow> 'p kv_ops \<Rightarrow> bytes \<Rightarrow> (('m, 'p) GasStore, bool) sm" where
  "gaskv_Has M cfg P key =
     sbind (on_meter (ConsumeGas M (HasCost cfg) ''Has'')) (\<lambda>_. on_gparent (kvHas P key))"

definition gaskv_Delete :: "'m meter_ops \<Rightarrow> GasConfig \<Rightarrow> 'p kv_ops \<Rightarrow> bytes \<Rightarrow> (('m, 'p) GasStore, unit) sm" where
  "gaskv_Delete M cfg P key =
     sbind (on_meter (ConsumeGas M (DeleteCost cfg) ''Delete'')) (\<lambda>_. on_gparent (kvDelete P key))"

text \<open>\<open>consumeSeekGas\<close>: the current item, if the iterator is valid, and the flat cost of a step.\<close>

definition consumeSeekGas :: "'m meter_ops \<Rightarrow> GasConfig \<Rightarrow> kv_pair list \<Rightarrow> (('m, 'p) GasStore, unit) sm" where
  "consumeSeekGas M cfg items =
     sbind (case items of
         [] \<Rightarrow> sret ()
       | (key, value) # _ \<Rightarrow>
           sbind (on_meter (ConsumeGas M (per_byte (ReadCostPerByte cfg) key) ''ValuePerByte'')) (\<lambda>_.
           on_meter (ConsumeGas M (per_byte (ReadCostPerByte cfg) (nonnil value)) ''ValuePerByte''))) (\<lambda>_.
     on_meter (ConsumeGas M (IterNextCostFlat cfg) ''IterNextFlat''))"

text \<open>\<open>gasIterator.Next\<close> charges for the item it leaves and then advances.\<close>

definition gi_Next :: "'m meter_ops \<Rightarrow> GasConfig \<Rightarrow> kv_pair list \<Rightarrow> (('m, 'p) GasStore, kv_pair list) sm" where
  "gi_Next M cfg items = sbind (consumeSeekGas M cfg items) (\<lambda>_. sret (tl items))"

fun gi_collect :: "'m meter_ops \<Rightarrow> GasConfig \<Rightarrow> nat \<Rightarrow> kv_pair list \<Rightarrow> (('m, 'p) GasStore, kv_pair list) sm" where
  "gi_collect M cfg 0 items = sret []"
| "gi_collect M cfg (Suc n) items =
     (case items of
        [] \<Rightarrow> sret []
      | item # _ \<Rightarrow> sbind (gi_Next M cfg items) (\<lambda>items'.
                    sbind (gi_collect M cfg n items') (\<lambda>xs. sret (item # xs))))"

definition gaskv_Iterator ::
  "'m meter_ops \<Rightarrow> GasConfig \<Rightarrow> 'p kv_ops \<Rightarrow> bytes option \<Rightarrow> bytes option \<Rightarrow> bool \<Rightarrow>
     (('m, 'p) GasStore, kv_pair list) sm" where
  "gaskv_Iterator M cfg P start end ascending =
     sbind (on_gparent (kvIterator P start end ascending)) (\<lambda>parent.
     sbind (consumeSeekGas M cfg parent) (\<lambda>_. gi_collect M cfg (length parent) parent))"

section \<open>Charging\<close>

context gas_meter
begin

definition charges :: "gas list \<Rightarrow> nat" where
  "charges cs = (\<Sum>c\<leftarrow>cs. unat c)"

definition fits :: "gas list \<Rightarrow> ('m, 'p) GasStore \<Rightarrow> bool" where
  "fits cs s \<longleftrightarrow> unat (GasConsumed ops (gs_gasMeter s)) + charges cs \<le> unat (Limit ops (gs_gasMeter s))"

text \<open>The state after charging \<open>cs\<close>: only the meter has moved, by the exact sum.\<close>

definition charged :: "gas list \<Rightarrow> ('m, 'p) GasStore \<Rightarrow> ('m, 'p) GasStore \<Rightarrow> bool" where
  "charged cs s s' \<longleftrightarrow> gs_parent s' = gs_parent s \<and> Limit ops (gs_gasMeter s') = Limit ops (gs_gasMeter s) \<and>
     unat (GasConsumed ops (gs_gasMeter s')) = unat (GasConsumed ops (gs_gasMeter s)) + charges cs"

lemma charged_parent: "charged cs s s' \<Longrightarrow> gs_parent s' = gs_parent s"
  by (auto simp: charged_def)

lemma charged_refl: "charged [] s s"
  by (simp add: charged_def charges_def)

lemma charged_trans: "charged cs s s' \<Longrightarrow> charged ds s' s'' \<Longrightarrow> charged (cs @ ds) s s''"
  by (auto simp: charged_def charges_def)

lemma fits_after: "charged cs s s' \<Longrightarrow> fits ds s' \<longleftrightarrow> fits (cs @ ds) s"
  by (auto simp: charged_def fits_def charges_def)

lemma fits_prefix: "fits (cs @ ds) s \<Longrightarrow> fits cs s"
  by (simp add: fits_def charges_def)

definition charge_all :: "(gas \<times> string) list \<Rightarrow> (('m, 'p) GasStore, unit) sm" where
  "charge_all = sforeach (\<lambda>(c, d). on_meter (ConsumeGas ops c d))"

lemma charge_all_Cons: "charge_all ((c, d) # cds) = sbind (on_meter (ConsumeGas ops c d)) (\<lambda>_. charge_all cds)"
  and charge_all_Nil: "charge_all [] = sret ()"
  by (simp_all add: charge_all_def)

lemma charge_all_append: "charge_all (cds @ eds) = sbind (charge_all cds) (\<lambda>_. charge_all eds)"
  by (induction cds) (auto simp: charge_all_Cons charge_all_Nil sbind_assoc)

lemma charge_one:
  "fits [c] s \<Longrightarrow> \<exists>s'. on_meter (ConsumeGas ops c d) s = (Inr (), s') \<and> charged [c] s s'"
  using consume_ok [of "gs_gasMeter s" c d] by (auto simp: on_meter_def fits_def charged_def charges_def)

lemma charge_one_refused:
  "\<not> fits [c] s \<Longrightarrow> \<exists>e s'. on_meter (ConsumeGas ops c d) s = (Inl (Panic e), s') \<and> gs_parent s' = gs_parent s"
  using consume_refused [of "gs_gasMeter s" c d] by (auto simp: on_meter_def fits_def charges_def)

lemma charge_all_ok:
  "fits (map fst cds) s \<Longrightarrow> \<exists>s'. charge_all cds s = (Inr (), s') \<and> charged (map fst cds) s s'"
proof (induction cds arbitrary: s)
  case Nil
  then show ?case by (simp add: charge_all_Nil sm_run charged_refl)
next
  case (Cons x cds)
  obtain c d where x: "x = (c, d)" by fastforce
  have "fits [c] s" using Cons.prems x fits_prefix [of "[c]" "map fst cds" s] by simp
  from charge_one [OF this, of d] obtain t where
    t: "on_meter (ConsumeGas ops c d) s = (Inr (), t)" "charged [c] s t" by blast
  from Cons.IH [of t] fits_after [OF t(2)] Cons.prems x obtain s' where
    "charge_all cds t = (Inr (), s')" "charged (map fst cds) t s'" by auto
  with t x charged_trans [OF t(2)] show ?case by (auto simp: charge_all_Cons sbind_def)
qed

lemma charge_all_refused:
  "cds \<noteq> [] \<Longrightarrow> \<not> fits (map fst cds) s \<Longrightarrow>
     \<exists>e s'. charge_all cds s = (Inl (Panic e), s') \<and> gs_parent s' = gs_parent s"
proof (induction cds arbitrary: s)
  case (Cons x cds)
  obtain c d where x: "x = (c, d)" by fastforce
  show ?case
  proof (cases "fits [c] s")
    case True
    from charge_one [OF this, of d] obtain t where
      t: "on_meter (ConsumeGas ops c d) s = (Inr (), t)" "charged [c] s t" by blast
    have "cds \<noteq> []" using Cons.prems True x by auto
    with Cons.IH [of t] fits_after [OF t(2)] Cons.prems x t show ?thesis
      by (auto simp: charge_all_Cons sbind_def dest: charged_parent)
  next
    case False
    with charge_one_refused [OF this, of d] x show ?thesis by (auto simp: charge_all_Cons sbind_def)
  qed
qed simp

lemma charge_then:
  assumes "fits (map fst cds) s"
  shows "\<exists>s'. charged (map fst cds) s s' \<and> sbind (charge_all cds) (\<lambda>_. k) s = k s'"
  using charge_all_ok [OF assms] by (auto simp: sbind_def)

lemma charge_then_refused:
  assumes "\<not> fits (map fst cds) s" "cds \<noteq> []"
  shows "\<exists>e s'. sbind (charge_all cds) k s = (Inl (Panic e), s') \<and> gs_parent s' = gs_parent s"
  using charge_all_refused [OF assms(2,1)] by (auto simp: sbind_def)

end

section \<open>Metered access to a store\<close>

definition write_costs :: "GasConfig \<Rightarrow> bytes \<Rightarrow> bytes \<Rightarrow> gas list" where
  "write_costs cfg k v = [WriteCostFlat cfg, per_byte (WriteCostPerByte cfg) k, per_byte (WriteCostPerByte cfg) v]"

definition read_costs :: "GasConfig \<Rightarrow> bytes \<Rightarrow> bytes option \<Rightarrow> gas list" where
  "read_costs cfg k v =
     [ReadCostFlat cfg, per_byte (ReadCostPerByte cfg) k, per_byte (ReadCostPerByte cfg) (nonnil v)]"

definition seek_costs :: "GasConfig \<Rightarrow> kv_pair list \<Rightarrow> gas list" where
  "seek_costs cfg items =
     (case items of
        [] \<Rightarrow> []
      | (k, v) # _ \<Rightarrow> [per_byte (ReadCostPerByte cfg) k, per_byte (ReadCostPerByte cfg) (nonnil v)]) @
     [IterNextCostFlat cfg]"

fun step_costs :: "GasConfig \<Rightarrow> kv_pair list \<Rightarrow> gas list" where
  "step_costs cfg [] = []"
| "step_costs cfg (x # xs) = seek_costs cfg (x # xs) @ step_costs cfg xs"

locale gas_store = gas_meter M + kv_store P pinv pabs pvalid
  for M :: "'m meter_ops" and P :: "'p kv_ops" and pinv pabs pvalid
begin

lemma gas_set:
  assumes "pinv (gs_parent s)" "pvalid k" "length v \<le> MaxValueLength"
  shows "if fits (write_costs cfg k v) s
     then \<exists>t p'. gaskv_Set M cfg P k (Some v) s = (Inr (), t\<lparr>gs_parent := p'\<rparr>) \<and>
        charged (write_costs cfg k v) s t \<and> pinv p' \<and> pabs p' = (pabs (gs_parent s))(k \<mapsto> v)
     else \<exists>e s'. gaskv_Set M cfg P k (Some v) s = (Inl (Panic e), s') \<and> gs_parent s' = gs_parent s"
proof -
  define cds where "cds = [(WriteCostFlat cfg, ''WriteFlat''), (per_byte (WriteCostPerByte cfg) k, ''WritePerByte''),
      (per_byte (WriteCostPerByte cfg) v, ''WritePerByte'')]"
  have costs: "map fst cds = write_costs cfg k v" by (simp add: cds_def write_costs_def)
  have run: "gaskv_Set M cfg P k (Some v) = sbind (charge_all cds) (\<lambda>_. on_gparent (kvSet P k (Some v)))"
    using valid [OF assms(2)] assms(3)
    by (simp add: gaskv_Set_def cds_def charge_all_Cons charge_all_Nil sbind_assoc nonnil_def)
  show ?thesis
  proof (cases "fits (write_costs cfg k v) s")
    case True
    then obtain t where t: "charged (write_costs cfg k v) s t"
        "gaskv_Set M cfg P k (Some v) s = on_gparent (kvSet P k (Some v)) t"
      using charge_then [of cds s "on_gparent (kvSet P k (Some v))"] unfolding costs run by blast
    moreover obtain p' where "kvSet P k (Some v) (gs_parent t) = (Inr (), p')" "pinv p'"
        "pabs p' = (pabs (gs_parent s))(k \<mapsto> v)"
      using set [OF assms] charged_parent [OF t(1)] by auto
    ultimately show ?thesis using True by (auto simp: on_gparent_def)
  next
    case False
    then show ?thesis using charge_then_refused [of cds s] unfolding costs run by (simp add: cds_def)
  qed
qed

lemma seek_charges:
  "\<exists>cds. map fst cds = seek_costs cfg items \<and> consumeSeekGas M cfg items = (charge_all cds :: (('m, 'p) GasStore, unit) sm)"
proof -
  define cds where "cds = (case items of [] \<Rightarrow> [] | (k, v) # _ \<Rightarrow>
      [(per_byte (ReadCostPerByte cfg) k, ''ValuePerByte''), (per_byte (ReadCostPerByte cfg) (nonnil v), ''ValuePerByte'')]) @
      [(IterNextCostFlat cfg, ''IterNextFlat'')]"
  have "map fst cds = seek_costs cfg items"
    by (auto simp: cds_def seek_costs_def split: list.splits)
  moreover have "consumeSeekGas M cfg items = (charge_all cds :: (('m, 'p) GasStore, unit) sm)"
    by (auto simp: consumeSeekGas_def cds_def charge_all_Cons charge_all_Nil sbind_assoc split: list.splits)
  ultimately show ?thesis by blast
qed

lemma collect_charges:
  "fits (step_costs cfg items) (s :: ('m, 'p) GasStore) \<Longrightarrow>
     \<exists>s'. gi_collect M cfg (length items) items s = (Inr items, s') \<and> charged (step_costs cfg items) s s'"
proof (induction items arbitrary: s)
  case Nil
  then show ?case by (simp add: sm_run charged_refl)
next
  case (Cons x xs)
  obtain cds where cds: "map fst cds = seek_costs cfg (x # xs)" "consumeSeekGas M cfg (x # xs) = (charge_all cds :: (('m, 'p) GasStore, unit) sm)"
    using seek_charges by blast
  have f: "fits (seek_costs cfg (x # xs) @ step_costs cfg xs) s" using Cons.prems by simp
  then obtain t where t: "charge_all cds s = (Inr (), t)" "charged (seek_costs cfg (x # xs)) s t"
    using charge_all_ok [of cds s] cds fits_prefix by metis
  with f Cons.IH [of t] obtain s' where "gi_collect M cfg (length xs) xs t = (Inr xs, s')"
      "charged (step_costs cfg xs) t s'" using fits_after [OF t(2)] by auto
  with t cds charged_trans [OF t(2)] show ?case
    by (auto simp: gi_Next_def sbind_def sm_run)
qed

lemma gas_iterate:
  assumes "pinv (gs_parent s)" "start \<noteq> Some []" "end \<noteq> Some []"
  shows "\<exists>xs p'. is_range (pabs (gs_parent s)) start end xs \<and> pinv p' \<and> pabs p' = pabs (gs_parent s) \<and>
     (let items = in_order asc xs; costs = seek_costs cfg items @ step_costs cfg items in
      fits costs s \<longrightarrow>
        (\<exists>s'. gaskv_Iterator M cfg P start end asc s = (Inr items, s') \<and> gs_parent s' = p' \<and>
              charged costs (s\<lparr>gs_parent := p'\<rparr>) s'))"
proof -
  obtain p' xs where r: "kvIterator P start end asc (gs_parent s) = (Inr (in_order asc xs), p')"
      "is_range (pabs (gs_parent s)) start end xs" "pinv p'" "pabs p' = pabs (gs_parent s)"
    using iterator [OF assms] by blast
  define items where "items = in_order asc xs"
  let ?u = "s\<lparr>gs_parent := p'\<rparr>"
  obtain cds where cds: "map fst cds = seek_costs cfg items" "consumeSeekGas M cfg items = (charge_all cds :: (('m, 'p) GasStore, unit) sm)"
    using seek_charges by blast
  have "\<exists>s'. gaskv_Iterator M cfg P start end asc s = (Inr items, s') \<and> gs_parent s' = p' \<and>
      charged (seek_costs cfg items @ step_costs cfg items) ?u s'"
    if "fits (seek_costs cfg items @ step_costs cfg items) s"
  proof -
    have f: "fits (seek_costs cfg items @ step_costs cfg items) ?u" using that by (simp add: fits_def)
    then obtain t where t: "charge_all cds ?u = (Inr (), t)" "charged (seek_costs cfg items) ?u t"
      using charge_all_ok [of cds ?u] cds fits_prefix by metis
    then obtain s' where s': "gi_collect M cfg (length items) items t = (Inr items, s')"
        "charged (step_costs cfg items) t s'"
      using collect_charges [of cfg items t] f fits_after [OF t(2)] by auto
    with t cds r(1) show ?thesis
      using charged_trans [OF t(2) s'(2)]
      by (auto simp: gaskv_Iterator_def sbind_def on_gparent_def items_def [symmetric] dest: charged_parent)
  qed
  then show ?thesis using r(2-4) unfolding items_def Let_def by blast
qed

lemma gas_get:
  fixes s :: "('m, 'p) GasStore" and cfg :: GasConfig
  assumes "pinv (gs_parent s)" "pvalid k"
  defines "costs \<equiv> read_costs cfg k (pabs (gs_parent s) k)"
  shows "\<exists>p'. pinv p' \<and> pabs p' = pabs (gs_parent s) \<and>
     (if fits costs s
      then \<exists>s'. gaskv_Get M cfg P k s = (Inr (pabs (gs_parent s) k), s') \<and> charged costs (s\<lparr>gs_parent := p'\<rparr>) s'
      else \<exists>e s'. gaskv_Get M cfg P k s = (Inl (Panic e), s'))"
proof -
  define v where "v = pabs (gs_parent s) k"
  define b c where "b = per_byte (ReadCostPerByte cfg) k" and "c = per_byte (ReadCostPerByte cfg) (nonnil v)"
  obtain p' where p': "kvGet P k (gs_parent s) = (Inr v, p')" "pinv p'" "pabs p' = pabs (gs_parent s)"
    using get [OF assms(1,2)] by (auto simp: v_def)
  define cds where "cds = [(b, ''ReadPerByte''), (c, ''ReadPerByte'')]"
  have costs: "costs = [ReadCostFlat cfg] @ map fst cds"
    by (simp add: costs_def read_costs_def cds_def b_def c_def v_def)
  have run: "gaskv_Get M cfg P k s = sbind (on_meter (ConsumeGas M (ReadCostFlat cfg) ''ReadFlat'')) (\<lambda>_.
      sbind (on_gparent (kvGet P k)) (\<lambda>value. sbind (on_meter (ConsumeGas M b ''ReadPerByte'')) (\<lambda>_.
      sbind (on_meter (ConsumeGas M (per_byte (ReadCostPerByte cfg) (nonnil value)) ''ReadPerByte'')) (\<lambda>_.
      sret value)))) s"
    by (simp add: gaskv_Get_def b_def)
  show ?thesis
  proof (cases "fits [ReadCostFlat cfg] s")
    case False
    then have "\<not> fits costs s" using fits_prefix [of "[ReadCostFlat cfg]"] costs by metis
    with charge_one_refused [OF False, of "''ReadFlat''"] p' show ?thesis by (auto simp: run sbind_def)
  next
    case True
    from charge_one [OF this, of "''ReadFlat''"] obtain t where
      t: "on_meter (ConsumeGas M (ReadCostFlat cfg) ''ReadFlat'') s = (Inr (), t)" "charged [ReadCostFlat cfg] s t"
      by blast
    let ?u = "t\<lparr>gs_parent := p'\<rparr>"
    have u: "charged [ReadCostFlat cfg] (s\<lparr>gs_parent := p'\<rparr>) ?u" using t(2) by (auto simp: charged_def)
    have eq: "gaskv_Get M cfg P k s = sbind (charge_all cds) (\<lambda>_. sret v) ?u"
      using t p' charged_parent [OF t(2)]
      by (simp add: run cds_def charge_all_Cons charge_all_Nil sbind_assoc sbind_def [of "on_meter (ConsumeGas M (ReadCostFlat cfg) _)"]
          sbind_def [of "on_gparent _"] on_gparent_def c_def)
    have f: "fits costs s \<longleftrightarrow> fits (map fst cds) ?u"
      using fits_after [OF u, of "map fst cds"] costs by (simp add: fits_def)
    show ?thesis
    proof (cases "fits costs s")
      case True
      then obtain s' where "charged (map fst cds) ?u s'" "gaskv_Get M cfg P k s = sret v s'"
        using charge_then [of cds ?u "sret v"] f eq by auto
      with True p' charged_trans [OF u] costs show ?thesis by (auto simp: sm_run v_def)
    next
      case False
      then show ?thesis
        using charge_then_refused [of cds ?u "\<lambda>_. sret v"] f eq p' by (auto simp: cds_def)
    qed
  qed
qed

end

interpretation metered: gas_store basic_ops "dbadapter_ops om_btree" "mem_ok om_btree om_ok" "mem_abs om_btree" valid_key
  by unfold_locales

interpretation metered_branch: gas_store infinite_ops "cachekv_ops om_btree (dbadapter_ops om_btree)"
  "ck_ok om_btree om_ok (mem_ok om_btree om_ok) (mem_abs om_btree) valid_key" "ck_abs (mem_abs om_btree)" valid_key
  by unfold_locales

section \<open>Claims\<close>

text \<open>
  C31: a metered write is charged before it happens.  Writing a pair through any gas meter to any
  store succeeds exactly when the flat cost and the two per-byte costs together fit under the meter's
  limit; then the parent holds the pair and the meter has moved by exactly that sum.  Otherwise the call
  panics and the parent is untouched.
\<close>

theorem gaskv_Set_charged:
  assumes "gas_meter M" and "kv_store P pinv pabs pvalid"
    and "pinv (gs_parent s)" and "pvalid k" and "length v \<le> MaxValueLength"
  shows "if unat (GasConsumed M (gs_gasMeter s)) + (\<Sum>c\<leftarrow>write_costs cfg k v. unat c) \<le> unat (Limit M (gs_gasMeter s))
     then \<exists>s'. gaskv_Set M cfg P k (Some v) s = (Inr (), s') \<and>
        pabs (gs_parent s') = (pabs (gs_parent s))(k \<mapsto> v) \<and>
        unat (GasConsumed M (gs_gasMeter s')) =
          unat (GasConsumed M (gs_gasMeter s)) + (\<Sum>c\<leftarrow>write_costs cfg k v. unat c)
     else \<exists>e s'. gaskv_Set M cfg P k (Some v) s = (Inl (Panic e), s') \<and> gs_parent s' = gs_parent s"
proof -
  have st: "gas_store M P pinv pabs pvalid" using assms(1,2) by (simp add: gas_store_def)
  note gm = gas_meter.fits_def [OF assms(1)] gas_meter.charges_def [OF assms(1)] gas_meter.charged_def [OF assms(1)]
  show ?thesis
    using gas_store.gas_set [OF st assms(3-5), of cfg] unfolding gm by (auto split: if_splits)
qed

theorem gaskv_Set_charged_witness:
  "\<exists>s'. gaskv_Set basic_ops KVGasConfig (dbadapter_ops om_btree) ''k'' (Some ''v'')
     \<lparr> gs_gasMeter = NewGasMeter 3000, gs_parent = [] \<rparr> = (Inr (), s') \<and>
     mem_abs om_btree (gs_parent s') ''k'' = Some ''v'' \<and> unat (bg_consumed (gs_gasMeter s')) = 2060"
proof -
  have "mem_ok om_btree om_ok []" "valid_key ''k''" "length ''v'' \<le> MaxValueLength"
    by (simp_all add: mem_ok_def om_btree_def valid_key_def MaxKeyLength_def MaxValueLength_def)
  then show ?thesis
    using gaskv_Set_charged [OF bgas.gas_meter_axioms om.adapter.kv_store_axioms,
        of "\<lparr> gs_gasMeter = NewGasMeter 3000, gs_parent = [] \<rparr>" "''k''" "''v''" KVGasConfig]
    by (auto simp: write_costs_def KVGasConfig_def per_byte_def basic_ops_def NewGasMeter_def)
qed

text \<open>
  C32: a metered iteration is transparent and its price is known.  If the meter has room for it,
  reading a whole range yields the parent's items in order and charges the first item's bytes twice
  (once when the iterator is created and once when it is left), every other item's bytes once, and one
  flat step cost per item plus one.
\<close>

theorem gaskv_Iterator_charged:
  assumes "gas_meter M" and "kv_store P pinv pabs pvalid"
    and "pinv (gs_parent s)" and "start \<noteq> Some []" and "end \<noteq> Some []"
  shows "\<exists>xs. is_range (pabs (gs_parent s)) start end xs \<and>
     (let items = (if asc then xs else rev xs);
          cost = (\<Sum>c\<leftarrow>seek_costs cfg items @ step_costs cfg items. unat c)
      in unat (GasConsumed M (gs_gasMeter s)) + cost \<le> unat (Limit M (gs_gasMeter s)) \<longrightarrow>
         (\<exists>s'. gaskv_Iterator M cfg P start end asc s = (Inr items, s') \<and>
           pabs (gs_parent s') = pabs (gs_parent s) \<and>
           unat (GasConsumed M (gs_gasMeter s')) = unat (GasConsumed M (gs_gasMeter s)) + cost))"
proof -
  have st: "gas_store M P pinv pabs pvalid" using assms(1,2) by (simp add: gas_store_def)
  note gm = gas_meter.fits_def [OF assms(1)] gas_meter.charges_def [OF assms(1)] gas_meter.charged_def [OF assms(1)]
  obtain xs p' where xs: "is_range (pabs (gs_parent s)) start end xs" "pabs p' = pabs (gs_parent s)"
    "let items = in_order asc xs; costs = seek_costs cfg items @ step_costs cfg items in
      gas_meter.fits M costs s \<longrightarrow>
        (\<exists>s'. gaskv_Iterator M cfg P start end asc s = (Inr items, s') \<and> gs_parent s' = p' \<and>
              gas_meter.charged M costs (s\<lparr>gs_parent := p'\<rparr>) s')"
    using gas_store.gas_iterate [OF st assms(3-5), of asc cfg] by blast
  show ?thesis
    using xs unfolding gm Let_def in_order_def by (intro exI [of _ xs]) auto
qed

theorem gaskv_Iterator_charged_witness:
  "\<exists>s'. gaskv_Iterator basic_ops KVGasConfig (dbadapter_ops om_btree) None None True
     \<lparr> gs_gasMeter = NewGasMeter 100, gs_parent = [] \<rparr> = (Inr [], s') \<and>
     unat (bg_consumed (gs_gasMeter s')) = 30"
proof -
  have "is_range Map.empty None None xs \<longleftrightarrow> xs = []" for xs by (cases xs) (auto simp: is_range_def)
  moreover have "mem_ok om_btree om_ok []" "mem_abs om_btree [] = Map.empty"
    by (auto simp: mem_ok_def om_btree_def mem_abs_def)
  ultimately show ?thesis
    using gaskv_Iterator_charged [OF bgas.gas_meter_axioms om.adapter.kv_store_axioms,
        of "\<lparr> gs_gasMeter = NewGasMeter 100, gs_parent = [] \<rparr>" None None True KVGasConfig]
    by (auto simp: seek_costs_def KVGasConfig_def basic_ops_def NewGasMeter_def)
qed

end
