(* ===== verification/CoinSet.thy ===== *)
theory CoinSet
  imports OrderedMap "HOL-Library.Multiset"
begin

text \<open>
  What a set of coins means: a list of denominations with amounts stands for the function that gives
  every denomination its total amount.  Lists in strictly ascending order of denominations without
  zero amounts are canonical: two of them with the same amounts are the same list.

  The locale \<open>coin_set\<close> is the contract of a coin set type that its clients (bank, vesting, fee
  pools) rely on: checked addition and subtraction are exact on amounts and fail precisely when the
  result is not representable or would be negative.  \<open>sdk.Coins\<close> and \<open>sdk.DecCoins\<close> provide it.
\<close>

section \<open>Amounts\<close>

type_synonym amounts = "(string \<times> int) list"

definition amt :: "amounts \<Rightarrow> string \<Rightarrow> int" where
  "amt xs d = (\<Sum>x\<leftarrow>xs. if fst x = d then snd x else 0)"

definition canon :: "amounts \<Rightarrow> bool" where
  "canon xs \<longleftrightarrow> om_ok xs \<and> (\<forall>x \<in> set xs. snd x \<noteq> 0)"

named_theorems amt_simps "amounts of coin lists"

lemma amt_list [amt_simps, simp]:
  "amt [] d = 0" "amt (x # xs) d = (if fst x = d then snd x else 0) + amt xs d"
  "amt (xs @ ys) d = amt xs d + amt ys d"
  by (simp_all add: amt_def)

lemma amt_absent: "d \<notin> fst ` set xs \<Longrightarrow> amt xs d = 0"
  by (induction xs) auto

lemma amt_map_of:
  "distinct (map fst xs) \<Longrightarrow> amt xs d = (case map_of xs d of None \<Rightarrow> 0 | Some a \<Rightarrow> a)"
  by (induction xs) (auto simp: amt_absent)

lemma amt_in: "om_ok xs \<Longrightarrow> x \<in> set xs \<Longrightarrow> amt xs (fst x) = snd x"
  using om_in_set [of xs "fst x" "snd x"] amt_map_of [OF om_ok_distinct, of xs "fst x"] by simp

lemma amt_mset: "mset xs = mset ys \<Longrightarrow> amt xs = amt ys"
  by (simp add: amt_def fun_eq_iff flip: sum_mset_sum_list)

lemma amt_nonzero: "amt (filter (\<lambda>x. snd x \<noteq> 0) xs) = amt xs"
proof
  show "amt (filter (\<lambda>x. snd x \<noteq> 0) xs) d = amt xs d" for d by (induction xs) auto
qed

lemma amt_sign: "(\<And>x. x \<in> set xs \<Longrightarrow> 0 \<le> snd x) \<Longrightarrow> 0 \<le> amt xs d"
  by (induction xs) auto

lemma canon_simps [simp]:
  "canon []" "canon (x # xs) \<longleftrightarrow> snd x \<noteq> 0 \<and> (\<forall>y \<in> set xs. fst x < fst y) \<and> canon xs"
  by (cases x; auto simp: canon_def)+

lemma canon_in: "canon xs \<Longrightarrow> d \<in> fst ` set xs \<longleftrightarrow> amt xs d \<noteq> 0"
  using amt_absent [of d xs] amt_in [of xs "(d, b)" for b] by (force simp: canon_def)

lemma canon_ext:
  assumes "canon xs" "canon ys" "\<And>d. amt xs d = amt ys d"
  shows "xs = ys"
proof (rule om_ok_unique)
  show ok: "om_ok xs" "om_ok ys" using assms by (simp_all add: canon_def)
  have "map_of zs d = (if amt zs d = 0 then None else Some (amt zs d))" if "canon zs" for zs d
    using that canon_in [OF that, of d] amt_map_of [of zs d] om_ok_distinct [of zs]
    by (auto simp: canon_def map_of_eq_None_iff split: option.splits)
  then show "map_of xs = map_of ys" using assms by (simp add: fun_eq_iff)
qed

lemma canon_pos_iff: "canon xs \<Longrightarrow> (\<forall>x \<in> set xs. 0 < snd x) \<longleftrightarrow> (\<forall>d. 0 \<le> amt xs d)"
proof
  assume c: "canon xs" and nn: "\<forall>d. 0 \<le> amt xs d"
  show "\<forall>x \<in> set xs. 0 < snd x"
  proof
    fix x assume "x \<in> set xs"
    then show "0 < snd x"
      using c nn [rule_format, of "fst x"] amt_in [of xs x] by (auto simp: canon_def order_less_le)
  qed
qed (simp add: amt_sign less_imp_le)

lemma map_insort_key: "map g (insort_key (\<lambda>x. f (g x)) a xs) = insort_key f (g a) (map g xs)"
  by (induction xs) auto

lemma map_sort_key: "map g (sort_key (\<lambda>x. f (g x)) xs) = sort_key f (map g xs)"
  by (induction xs) (auto simp: map_insort_key)

lemma canon_sort_key:
  assumes "distinct (map fst xs)" "\<forall>x \<in> set xs. snd x \<noteq> 0"
  shows "canon (sort_key fst xs)"
  using assms by (simp add: canon_def om_ok_def strict_sorted_iff sort_key_distinct)

lemma amt_sort_key [simp]: "amt (sort_key fst xs) = amt xs"
  by (rule amt_mset) simp

lemma amt_map_values:
  assumes "om_ok xs" "f 0 = 0"
  shows "amt (map (\<lambda>x. (fst x, f (snd x))) xs) d = f (amt xs d)"
  using assms
proof (induction xs)
  case (Cons x xs)
  have "amt xs d = 0" if "d = fst x" using Cons.prems that by (intro amt_absent) (cases x; auto)
  with Cons show ?case by (cases x) auto
qed simp

lemma om_ok_map_values [simp]: "om_ok (map (\<lambda>x. (fst x, f (snd x))) xs) \<longleftrightarrow> om_ok xs"
  by (simp add: om_ok_def comp_def)

text \<open>One step of a binary search over a list that is strictly sorted by a key.\<close>

lemma sorted_halves:
  assumes "sorted_wrt (<) (map f xs)" "m < length xs"
  shows "sorted_wrt (<) (map f (take m xs))" "sorted_wrt (<) (map f (drop (Suc m) xs))"
    and "\<forall>x \<in> set (take m xs). f x < (f (xs ! m) :: 'k :: linorder)"
    and "\<forall>x \<in> set (drop (Suc m) xs). f (xs ! m) < f x"
    and "set xs = set (take m xs) \<union> {xs ! m} \<union> set (drop (Suc m) xs)"
proof -
  have split: "xs = take m xs @ xs ! m # drop (Suc m) xs" using assms(2) by (rule id_take_nth_drop)
  then have "map f xs = map f (take m xs) @ f (xs ! m) # map f (drop (Suc m) xs)"
    by (metis list.simps(9) map_append)
  then show "sorted_wrt (<) (map f (take m xs))" "sorted_wrt (<) (map f (drop (Suc m) xs))"
    "\<forall>x \<in> set (take m xs). f x < f (xs ! m)" "\<forall>x \<in> set (drop (Suc m) xs). f (xs ! m) < f x"
    using assms(1) by (simp_all add: sorted_wrt_append)
  show "set xs = set (take m xs) \<union> {xs ! m} \<union> set (drop (Suc m) xs)"
    using arg_cong [OF split, of set] by auto
qed

section \<open>The contract of a coin set\<close>

locale coin_set =
  fixes ok :: "'s \<Rightarrow> bool" and amount :: "'s \<Rightarrow> string \<Rightarrow> int" and fits :: "int \<Rightarrow> bool"
    and add sub :: "'s \<Rightarrow> 's \<Rightarrow> 's res"
  assumes ext: "ok a \<Longrightarrow> ok b \<Longrightarrow> (\<And>d. amount a d = amount b d) \<Longrightarrow> a = b"
    and nonneg: "ok a \<Longrightarrow> 0 \<le> amount a d"
    and ok_fits: "ok a \<Longrightarrow> fits (amount a d)"
    and fits_mono: "fits y \<Longrightarrow> 0 \<le> x \<Longrightarrow> x \<le> y \<Longrightarrow> fits x"
    and add_exact: "ok a \<Longrightarrow> ok b \<Longrightarrow> add a b = Inr c \<Longrightarrow> ok c \<and> (\<forall>d. amount c d = amount a d + amount b d)"
    and add_total: "ok a \<Longrightarrow> ok b \<Longrightarrow> (\<And>d. fits (amount a d + amount b d)) \<Longrightarrow> \<exists>c. add a b = Inr c"
    and sub_exact: "ok a \<Longrightarrow> ok b \<Longrightarrow> sub a b = Inr c \<Longrightarrow> ok c \<and> (\<forall>d. amount c d = amount a d - amount b d)"
    and sub_total: "ok a \<Longrightarrow> ok b \<Longrightarrow> (\<And>d. amount b d \<le> amount a d) \<Longrightarrow> \<exists>c. sub a b = Inr c"
begin

lemma add_iff:
  "ok a \<Longrightarrow> ok b \<Longrightarrow> add a b = Inr c \<longleftrightarrow> ok c \<and> (\<forall>d. amount c d = amount a d + amount b d)"
  using add_exact [of a b] add_total [of a b] ok_fits [of c] ext [of c] by metis

lemma sub_iff:
  "ok a \<Longrightarrow> ok b \<Longrightarrow> sub a b = Inr c \<longleftrightarrow> ok c \<and> (\<forall>d. amount c d = amount a d - amount b d)"
  using sub_exact [of a b] sub_total [of a b] nonneg [of c] ext [of c]
  by (metis diff_ge_0_iff_ge)

lemma add_fault_iff:
  assumes "ok a" "ok b"
  shows "(\<exists>e. add a b = Inl e) \<longleftrightarrow> (\<exists>d. \<not> fits (amount a d + amount b d))"
  using assms add_exact [OF assms] add_total [OF assms] ok_fits
  by (metis Inl_Inr_False obj_sumE)

lemma sub_fault_iff:
  assumes "ok a" "ok b"
  shows "(\<exists>e. sub a b = Inl e) \<longleftrightarrow> (\<exists>d. amount a d < amount b d)"
proof -
  have "\<not> (\<exists>d. amount a d < amount b d)" if "sub a b = Inr c" for c
    using sub_exact [OF assms that] nonneg [of c] by (metis diff_ge_0_iff_ge not_less)
  then show ?thesis
    using sub_total [OF assms] by (metis Inl_Inr_False not_less obj_sumE)
qed

lemma add_comm: "ok a \<Longrightarrow> ok b \<Longrightarrow> add a b = Inr c \<longleftrightarrow> add b a = Inr c"
  by (simp add: add_iff add.commute)

lemma add_assoc:
  assumes "ok a" "ok b" "ok c"
  shows "rbind (add a b) (\<lambda>x. add x c) = Inr r \<longleftrightarrow> rbind (add b c) (\<lambda>x. add a x) = Inr r"
proof -
  have part: "\<exists>z. add x y = Inr z" if "ok x" "ok y" "ok r" "\<And>d. amount x d + amount y d \<le> amount r d" for x y
    using that by (intro add_total) (auto intro: fits_mono [OF ok_fits] nonneg add_nonneg_nonneg)
  show ?thesis
  proof
    assume "rbind (add a b) (\<lambda>x. add x c) = Inr r"
    then obtain x where x: "add a b = Inr x" "add x c = Inr r" by (auto simp: res_simps)
    have sx: "ok x" "amount x d = amount a d + amount b d" for d using add_exact assms x by blast+
    have sr: "ok r" "amount r d = amount x d + amount c d" for d using add_exact sx assms x by blast+
    obtain y where y: "add b c = Inr y" using part [of b c] assms sx sr nonneg [of a] by auto
    have "ok y" "amount y d = amount b d + amount c d" for d using add_exact assms y by blast+
    then have "add a y = Inr r" using sx sr assms by (simp add: add_iff)
    then show "rbind (add b c) (\<lambda>x. add a x) = Inr r" using y by simp
  next
    assume "rbind (add b c) (\<lambda>x. add a x) = Inr r"
    then obtain x where x: "add b c = Inr x" "add a x = Inr r" by (auto simp: res_simps)
    have sx: "ok x" "amount x d = amount b d + amount c d" for d using add_exact assms x by blast+
    have sr: "ok r" "amount r d = amount a d + amount x d" for d using add_exact sx assms x by blast+
    obtain y where y: "add a b = Inr y" using part [of a b] assms sx sr nonneg [of c] by auto
    have "ok y" "amount y d = amount a d + amount b d" for d using add_exact assms y by blast+
    then have "add y c = Inr r" using sx sr assms by (simp add: add_iff)
    then show "rbind (add a b) (\<lambda>x. add x c) = Inr r" using y by simp
  qed
qed

lemma sub_add: "ok a \<Longrightarrow> ok b \<Longrightarrow> add a b = Inr c \<Longrightarrow> sub c b = Inr a"
  using add_exact [of a b c] by (simp add: sub_iff)

lemma add_sub: "ok a \<Longrightarrow> ok b \<Longrightarrow> sub a b = Inr c \<Longrightarrow> add c b = Inr a"
  using sub_exact [of a b c] by (simp add: add_iff)

end

end
