(* ===== verification/DecimalText.thy ===== *)
theory DecimalText
  imports Prelude
begin

text \<open>
  Decimal text of integers: the parts of Go's \<open>math/big\<close>, \<open>strings\<close> and \<open>strconv\<close> that the
  sources use.  \<open>nat_text\<close> and \<open>int_text\<close> are \<open>big.Int.String\<close> and \<open>MarshalText\<close>,
  \<open>SetString10\<close> is \<open>big.Int.SetString(s, 10)\<close> (one optional sign, at least one digit,
  nothing else), \<open>split_on\<close> is \<open>strings.Split\<close> with a one-character separator.
\<close>

definition digit_char :: "nat \<Rightarrow> char" where
  "digit_char d = char_of (48 + d)"

definition is_digit :: "char \<Rightarrow> bool" where
  "is_digit c \<longleftrightarrow> 48 \<le> (of_char c :: nat) \<and> (of_char c :: nat) \<le> 57"

definition digit_val :: "char \<Rightarrow> nat" where
  "digit_val c = of_char c - 48"

fun nat_text :: "nat \<Rightarrow> string" where
  "nat_text n = (if n < 10 then [digit_char n] else nat_text (n div 10) @ [digit_char (n mod 10)])"

declare nat_text.simps [simp del]

definition int_text :: "int \<Rightarrow> string" where
  "int_text i = (if i < 0 then CHR ''-'' # nat_text (nat (- i)) else nat_text (nat i))"

fun text_acc :: "nat \<Rightarrow> string \<Rightarrow> nat" where
  "text_acc acc [] = acc"
| "text_acc acc (c # cs) = text_acc (acc * 10 + digit_val c) cs"

definition text_nat :: "string \<Rightarrow> nat" where
  "text_nat s = text_acc 0 s"

definition parse_digits :: "string \<Rightarrow> int option" where
  "parse_digits s = (if s \<noteq> [] \<and> list_all is_digit s then Some (int (text_nat s)) else None)"

definition SetString10 :: "string \<Rightarrow> int option" where
  "SetString10 s =
     (case s of
        [] \<Rightarrow> None
      | c # cs \<Rightarrow>
          if c = CHR ''-'' then map_option uminus (parse_digits cs)
          else if c = CHR ''+'' then parse_digits cs
          else parse_digits s)"

fun split_on :: "char \<Rightarrow> string \<Rightarrow> string list" where
  "split_on sep [] = [[]]"
| "split_on sep (c # cs) =
     (if c = sep then [] # split_on sep cs
      else (case split_on sep cs of [] \<Rightarrow> [[c]] | w # ws \<Rightarrow> (c # w) # ws))"

subsection \<open>Digits\<close>

lemma is_digit_digit_char [simp]: "d < 10 \<Longrightarrow> is_digit (digit_char d)"
  by (simp add: is_digit_def digit_char_def)

lemma digit_val_digit_char [simp]: "d < 10 \<Longrightarrow> digit_val (digit_char d) = d"
  by (simp add: digit_val_def digit_char_def)

lemma not_is_digit [simp]:
  "\<not> is_digit (CHR ''-'')" "\<not> is_digit (CHR ''+'')" "\<not> is_digit (CHR ''.'')"
  by (simp_all add: is_digit_def)

lemma digit_zero [simp]: "is_digit (CHR ''0'')" "digit_val (CHR ''0'') = 0"
  by (simp_all add: is_digit_def digit_val_def)

lemma zeros_digits [simp]: "list_all is_digit (replicate k (CHR ''0''))"
  by (induction k) auto

lemma nat_text_nonempty [simp]: "nat_text n \<noteq> []"
  by (subst nat_text.simps) simp

lemma nat_text_digits [simp]: "list_all is_digit (nat_text n)"
proof (induction n rule: nat_text.induct)
  case (1 n)
  then show ?case by (cases "n < 10") (simp_all add: nat_text.simps [of n])
qed

lemma nat_text_no_nondigit: "\<not> is_digit c \<Longrightarrow> c \<notin> set (nat_text n)"
  using nat_text_digits [of n] by (auto simp: list_all_iff)

subsection \<open>Value of a digit string\<close>

lemma text_acc_shift: "text_acc acc s = acc * 10 ^ length s + text_acc 0 s"
proof (induction s arbitrary: acc)
  case (Cons c cs)
  show ?case
    using Cons.IH [of "acc * 10 + digit_val c"] Cons.IH [of "digit_val c"] by (simp add: algebra_simps)
qed simp

lemma text_nat_append: "text_nat (s @ t) = text_nat s * 10 ^ length t + text_nat t"
proof -
  have app: "text_acc acc (s @ t) = text_acc (text_acc acc s) t" for acc
    by (induction s arbitrary: acc) auto
  show ?thesis unfolding text_nat_def app by (subst text_acc_shift) simp
qed

lemma text_nat_single [simp]: "text_nat [c] = digit_val c"
  by (simp add: text_nat_def)

lemma text_nat_Nil [simp]: "text_nat [] = 0"
  by (simp add: text_nat_def)

lemma text_nat_zeros [simp]: "text_nat (replicate k (CHR ''0'')) = 0"
proof -
  have "text_acc 0 (replicate k (CHR ''0'')) = 0" by (induction k) auto
  then show ?thesis by (simp add: text_nat_def)
qed

lemma text_nat_nat_text [simp]: "text_nat (nat_text n) = n"
proof (induction n rule: nat_text.induct)
  case (1 n)
  then show ?case by (cases "n < 10") (simp_all add: nat_text.simps [of n] text_nat_append)
qed

lemma nat_text_length_le: "n < 10 ^ k \<Longrightarrow> 0 < k \<Longrightarrow> length (nat_text n) \<le> k"
proof (induction n arbitrary: k rule: nat_text.induct)
  case (1 n)
  show ?case
  proof (cases "n < 10")
    case True
    with "1.prems" show ?thesis by (simp add: nat_text.simps [of n])
  next
    case False
    then obtain j where k: "k = Suc j" "0 < j"
      using "1.prems" by (cases k; cases "k - 1") auto
    then have "n div 10 < 10 ^ j" using "1.prems" by auto
    with "1.IH" [OF False this] k False show ?thesis by (simp add: nat_text.simps [of n])
  qed
qed

lemma text_nat_bound: "list_all is_digit s \<Longrightarrow> text_nat s < 10 ^ length s"
proof (induction s rule: rev_induct)
  case (snoc c cs)
  then have "digit_val c < 10" and "text_nat cs < 10 ^ length cs"
    by (auto simp: is_digit_def digit_val_def)
  then show ?case by (simp add: text_nat_append)
qed simp

subsection \<open>Parsing inverts printing\<close>

lemma SetString10_digits:
  "list_all is_digit s \<Longrightarrow> s \<noteq> [] \<Longrightarrow> SetString10 s = Some (int (text_nat s))"
  by (cases s) (auto simp: SetString10_def parse_digits_def)

lemma SetString10_int_text [simp]: "SetString10 (int_text i) = Some i"
  by (auto simp: int_text_def SetString10_digits) (simp add: SetString10_def parse_digits_def)

lemma split_on_no_sep: "sep \<notin> set s \<Longrightarrow> split_on sep s = [s]"
  by (induction s) auto

lemma split_on_sep: "sep \<notin> set a \<Longrightarrow> split_on sep (a @ sep # b) = a # split_on sep b"
  by (induction a) auto

lemma split_on_nonempty [simp]: "split_on sep s \<noteq> []"
  by (induction s) (auto split: list.splits)

end
