(* ===== verification/SdkInt.thy ===== *)
theory SdkInt
  imports DecimalText
begin

text \<open>
  \<open>math.Int\<close> and \<open>math.Uint\<close> (\<open>src/math/int.go\<close>, \<open>src/math/uint.go\<close>): arbitrary precision
  integers confined to 256 bits.  A value is an \<open>int\<close>; the uninitialised \<open>Int{}\<close> whose
  pointer is nil is not a value of the model.  The two-stage overflow test of
  \<open>bigIntOverflows\<close> (word count first, bit length second) is modelled as written and shown
  equal to the range test \<open>2 ^ 256 \<le> \<bar>i\<bar>\<close>; every arithmetic operation is the exact
  operation on \<open>int\<close> followed by that test.
\<close>

section \<open>Bit lengths (math/big)\<close>

fun bit_len :: "nat \<Rightarrow> nat" where
  "bit_len n = (if n = 0 then 0 else Suc (bit_len (n div 2)))"

declare bit_len.simps [simp del]

definition BitLen :: "int \<Rightarrow> nat" where
  "BitLen i = bit_len (nat \<bar>i\<bar>)"

text \<open>\<open>len(i.Bits())\<close>: the number of 64-bit words of the normalised magnitude.\<close>

definition Bits_len :: "int \<Rightarrow> nat" where
  "Bits_len i = (BitLen i + 63) div 64"

definition MaxBitLen :: nat where
  "MaxBitLen = 256"

definition maxWordLen :: nat where
  "maxWordLen = MaxBitLen div 64"

definition bigIntOverflows :: "int \<Rightarrow> bool" where
  "bigIntOverflows i = (if Bits_len i > maxWordLen then BitLen i > MaxBitLen else False)"

definition IsInt64 :: "int \<Rightarrow> bool" where
  "IsInt64 i \<longleftrightarrow> - (2 ^ 63) \<le> i \<and> i < 2 ^ 63"

definition IsUint64 :: "int \<Rightarrow> bool" where
  "IsUint64 i \<longleftrightarrow> 0 \<le> i \<and> i < 2 ^ 64"

section \<open>math.Int\<close>

definition NewIntFromBigInt :: "int \<Rightarrow> int res" where
  "NewIntFromBigInt i =
     (if bigIntOverflows i then Inl (Panic ''NewIntFromBigInt() out of bound'') else Inr i)"

definition NewIntWithDecimal :: "int \<Rightarrow> int \<Rightarrow> int res" where
  "NewIntWithDecimal n dec =
     (if dec < 0 then Inl (Panic ''NewIntWithDecimal() decimal is negative'')
      else let i = n * 10 ^ nat dec
           in if bigIntOverflows i then Inl (Panic ''NewIntWithDecimal() out of bound'') else Inr i)"

definition Int_Int64 :: "int \<Rightarrow> int res" where
  "Int_Int64 i = (if \<not> IsInt64 i then Inl (Panic ''Int64() out of bound'') else Inr i)"

definition Int_Uint64 :: "int \<Rightarrow> int res" where
  "Int_Uint64 i = (if \<not> IsUint64 i then Inl (Panic ''Uint64() out of bounds'') else Inr i)"

definition Int_SafeAdd :: "int \<Rightarrow> int \<Rightarrow> int res" where
  "Int_SafeAdd i i2 =
     (let r = i + i2 in if bigIntOverflows r then Inl (Err ''ErrIntOverflow'') else Inr r)"

definition Int_Add :: "int \<Rightarrow> int \<Rightarrow> int res" where
  "Int_Add i i2 = must (Int_SafeAdd i i2)"

definition Int_SafeSub :: "int \<Rightarrow> int \<Rightarrow> int res" where
  "Int_SafeSub i i2 =
     (let r = i - i2 in if bigIntOverflows r then Inl (Err ''ErrIntOverflow'') else Inr r)"

definition Int_Sub :: "int \<Rightarrow> int \<Rightarrow> int res" where
  "Int_Sub i i2 = must (Int_SafeSub i i2)"

definition Int_SafeMul :: "int \<Rightarrow> int \<Rightarrow> int res" where
  "Int_SafeMul i i2 =
     (let r = i * i2 in if bigIntOverflows r then Inl (Err ''ErrIntOverflow'') else Inr r)"

definition Int_Mul :: "int \<Rightarrow> int \<Rightarrow> int res" where
  "Int_Mul i i2 = must (Int_SafeMul i i2)"

text \<open>\<open>big.Int.Quo\<close> truncates towards zero: the library's \<open>sdiv\<close>.\<close>

definition Int_SafeQuo :: "int \<Rightarrow> int \<Rightarrow> int res" where
  "Int_SafeQuo i i2 = (if i2 = 0 then Inl (Err ''ErrDivideByZero'') else Inr (i sdiv i2))"

definition Int_Quo :: "int \<Rightarrow> int \<Rightarrow> int res" where
  "Int_Quo i i2 =
     (case Int_SafeQuo i i2 of Inl _ \<Rightarrow> Inl (Panic ''Division by zero'') | Inr x \<Rightarrow> Inr x)"

text \<open>\<open>big.Int.Mod\<close> is the Euclidean modulus: the result lies in \<open>{0..<\<bar>i2\<bar>}\<close>.\<close>

definition Int_SafeMod :: "int \<Rightarrow> int \<Rightarrow> int res" where
  "Int_SafeMod i i2 = (if i2 = 0 then Inl (Err ''ErrDivideByZero'') else Inr (i mod \<bar>i2\<bar>))"

definition Int_Mod :: "int \<Rightarrow> int \<Rightarrow> int res" where
  "Int_Mod i i2 = must (Int_SafeMod i i2)"

definition Int_Neg :: "int \<Rightarrow> int" where
  "Int_Neg i = - i"

definition Int_Abs :: "int \<Rightarrow> int" where
  "Int_Abs i = \<bar>i\<bar>"

definition MinInt :: "int \<Rightarrow> int \<Rightarrow> int" where
  "MinInt i i2 = (if i > i2 then i2 else i)"

definition MaxInt :: "int \<Rightarrow> int \<Rightarrow> int" where
  "MaxInt i i2 = (if i < i2 then i2 else i)"

section \<open>math.Uint\<close>

definition UintOverflow :: "int \<Rightarrow> unit res" where
  "UintOverflow i =
     (if i < 0 then Inl (Err ''non-positive integer'')
      else if BitLen i > MaxBitLen then Inl (Err ''integer out of range'') else Inr ())"

definition checkNewUint :: "int \<Rightarrow> int res" where
  "checkNewUint i = rbind (UintOverflow i) (\<lambda>_. Inr i)"

definition NewUintFromBigInt :: "int \<Rightarrow> int res" where
  "NewUintFromBigInt i = must (checkNewUint i)"

definition Uint_Add :: "int \<Rightarrow> int \<Rightarrow> int res" where
  "Uint_Add u u2 = NewUintFromBigInt (u + u2)"

definition Uint_Sub :: "int \<Rightarrow> int \<Rightarrow> int res" where
  "Uint_Sub u u2 = NewUintFromBigInt (u - u2)"

definition Uint_Mul :: "int \<Rightarrow> int \<Rightarrow> int res" where
  "Uint_Mul u u2 = NewUintFromBigInt (u * u2)"

text \<open>\<open>big.Int.Quo\<close> panics on a zero divisor.\<close>

definition Uint_Quo :: "int \<Rightarrow> int \<Rightarrow> int res" where
  "Uint_Quo u u2 =
     (if u2 = 0 then Inl (Panic ''division by zero'') else NewUintFromBigInt (u sdiv u2))"

definition Uint_Mod :: "int \<Rightarrow> int \<Rightarrow> int res" where
  "Uint_Mod u u2 = (if u2 = 0 then Inl (Panic ''division-by-zero'') else Inr (u mod \<bar>u2\<bar>))"

definition Uint_Incr :: "int \<Rightarrow> int res" where
  "Uint_Incr u = Uint_Add u 1"

definition Uint_Decr :: "int \<Rightarrow> int res" where
  "Uint_Decr u = Uint_Sub u 1"

text \<open>The loop of \<open>RelativePow\<close>; \<open>n\<close> is halved in every round.\<close>

function relpow_loop :: "int \<Rightarrow> int \<Rightarrow> int \<Rightarrow> int \<Rightarrow> int \<Rightarrow> int res" where
  "relpow_loop b halfOfB x z n =
     (if n > 0 then
        rbind (Uint_Mul x x) (\<lambda>xSquared.
        rbind (Uint_Add xSquared halfOfB) (\<lambda>xSquaredRounded.
        rbind (Uint_Quo xSquaredRounded b) (\<lambda>x'.
        rbind (if n mod 2 = 1
               then rbind (Uint_Mul z x') (\<lambda>zx.
                    rbind (Uint_Add zx halfOfB) (\<lambda>zxRounded. Uint_Quo zxRounded b))
               else Inr z) (\<lambda>z'.
        relpow_loop b halfOfB x' z' (n div 2)))))
      else Inr z)"
  by pat_completeness auto
termination
  by (relation "measure (\<lambda>(b, h, x, z, n). nat n)") auto

declare relpow_loop.simps [simp del]

definition RelativePow :: "int \<Rightarrow> int \<Rightarrow> int \<Rightarrow> int res" where
  "RelativePow x n b =
     (if x = 0 then (if n = 0 then Inr 1 else Inr 0)
      else rbind (Uint_Mod n 2) (\<lambda>odd.
           rbind (Uint_Quo b 2) (\<lambda>halfOfB.
           rbind (Uint_Quo n 2) (\<lambda>n'.
           relpow_loop b halfOfB x (if odd = 0 then b else x) n'))))"

section \<open>Range facts\<close>

definition int256 :: "int \<Rightarrow> bool" where
  "int256 i \<longleftrightarrow> \<bar>i\<bar> < 2 ^ 256"

definition uint256 :: "int \<Rightarrow> bool" where
  "uint256 i \<longleftrightarrow> 0 \<le> i \<and> i < 2 ^ 256"

lemma bit_len_le_iff: "bit_len n \<le> k \<longleftrightarrow> n < 2 ^ k"
proof (induction n arbitrary: k rule: bit_len.induct)
  case (1 n)
  show ?case
  proof (cases "n = 0")
    case True
    then show ?thesis by (simp add: bit_len.simps)
  next
    case False
    with "1.IH" [of "k - 1"] show ?thesis
      by (cases k) (auto simp: bit_len.simps [of n])
  qed
qed

lemma BitLen_le_iff: "BitLen i \<le> k \<longleftrightarrow> \<bar>i\<bar> < 2 ^ k"
  by (simp add: BitLen_def bit_len_le_iff nat_less_iff flip: of_nat_less_iff [where 'a = int])

lemma bigIntOverflows_iff: "bigIntOverflows i \<longleftrightarrow> \<not> int256 i"
proof -
  have "BitLen i > 256 \<Longrightarrow> Bits_len i > 4" by (simp add: Bits_len_def)
  then show ?thesis
    using BitLen_le_iff [of i 256]
    by (auto simp: bigIntOverflows_def MaxBitLen_def maxWordLen_def int256_def)
qed

section \<open>Every operation is exact or faults\<close>

named_theorems sdkint "operations of math.Int and math.Uint as range-checked exact arithmetic"

lemma NewIntFromBigInt_eq [sdkint]:
  "NewIntFromBigInt i = (if int256 i then Inr i else Inl (Panic ''NewIntFromBigInt() out of bound''))"
  by (simp add: NewIntFromBigInt_def bigIntOverflows_iff)

lemma Int_arith_eq [sdkint]:
  "Int_Add a b = (if int256 (a + b) then Inr (a + b) else Inl (Panic ''ErrIntOverflow''))"
  "Int_Sub a b = (if int256 (a - b) then Inr (a - b) else Inl (Panic ''ErrIntOverflow''))"
  "Int_Mul a b = (if int256 (a * b) then Inr (a * b) else Inl (Panic ''ErrIntOverflow''))"
  by (simp_all add: Int_Add_def Int_SafeAdd_def Int_Sub_def Int_SafeSub_def Int_Mul_def
      Int_SafeMul_def Let_def bigIntOverflows_iff)

lemma Int_Quo_eq [sdkint]:
  "Int_Quo a b = (if b = 0 then Inl (Panic ''Division by zero'') else Inr (a sdiv b))"
  by (simp add: Int_Quo_def Int_SafeQuo_def)

lemma MinMaxInt_eq [sdkint]: "MinInt a b = min a b" "MaxInt a b = max a b"
  by (auto simp: MinInt_def MaxInt_def)

lemma NewUintFromBigInt_Inr [sdkint]: "NewUintFromBigInt i = Inr r \<longleftrightarrow> uint256 i \<and> r = i"
  using BitLen_le_iff [of i MaxBitLen]
  by (auto simp: NewUintFromBigInt_def checkNewUint_def UintOverflow_def uint256_def MaxBitLen_def
      res_simps split: if_splits)

lemma NewUintFromBigInt_ok: "uint256 i \<Longrightarrow> NewUintFromBigInt i = Inr i"
  by (simp add: NewUintFromBigInt_Inr)

lemma Int_Quo_bounds:
  assumes "b \<noteq> 0"
  shows "\<exists>q. Int_Quo a b = Inr q \<and> \<bar>q\<bar> \<le> \<bar>a\<bar> \<and> \<bar>a - q * b\<bar> < \<bar>b\<bar> \<and> 0 \<le> (a - q * b) * a"
  using assms abs_sdiv_le [of a b] abs_smod_less [of b a] smod_sign [of a b]
  by (simp add: Int_Quo_eq int256_def minus_sdiv_mult_eq_smod)

lemma Int_Mod_bounds:
  "b \<noteq> 0 \<Longrightarrow> \<exists>m. Int_Mod a b = Inr m \<and> 0 \<le> m \<and> m < \<bar>b\<bar> \<and> b dvd a - m"
  by (simp add: Int_Mod_def Int_SafeMod_def) (metis abs_dvd_iff dvd_minus_mod)

subsection \<open>RelativePow\<close>

lemma uint_ops_ok:
  "uint256 (a + b) \<Longrightarrow> Uint_Add a b = Inr (a + b)"
  "uint256 (a * b) \<Longrightarrow> Uint_Mul a b = Inr (a * b)"
  "0 < b \<Longrightarrow> uint256 a \<Longrightarrow> Uint_Quo a b = Inr (a div b)"
proof -
  assume "0 < b" "uint256 a"
  then have "a div b \<le> a" and "0 \<le> a div b"
    using zdiv_mono2 [of a 1 b] by (auto simp: uint256_def pos_imp_zdiv_nonneg_iff)
  then show "Uint_Quo a b = Inr (a div b)"
    using \<open>0 < b\<close> \<open>uint256 a\<close>
    by (auto simp: Uint_Quo_def sdiv_nonneg_eq uint256_def NewUintFromBigInt_Inr)
qed (simp_all add: Uint_Add_def Uint_Mul_def NewUintFromBigInt_ok)

lemma relpow_loop_exact:
  assumes "1 \<le> x" and "1 \<le> z" and "z * x ^ (2 * nat n) < 2 ^ 256"
  shows "relpow_loop 1 0 x z n = Inr (z * x ^ (2 * nat n))"
  using assms
proof (induction "nat n" arbitrary: x z n rule: less_induct)
  case (less n)
  show ?case
  proof (cases "n > 0")
    case False
    then show ?thesis by (simp add: relpow_loop.simps)
  next
    case True
    define m where "m = nat (n div 2)"
    have n: "nat n = 2 * m + nat (n mod 2)" using True nat_halves [of n] by (simp add: m_def)
    define z' where "z' = (if n mod 2 = 1 then z * x ^ 2 else z)"
    have pow: "z * x ^ (2 * nat n) = z' * (x ^ 2) ^ (2 * m)"
    proof -
      have "n mod 2 = 0 \<or> n mod 2 = 1" by presburger
      then have "2 * nat n = 2 * (2 * m) + (if n mod 2 = 1 then 2 else 0)" using n by auto
      then show ?thesis by (simp add: z'_def power_add power_mult [symmetric])
    qed
    have x2: "1 \<le> x ^ 2" using less.prems(1) by simp
    have z': "1 \<le> z'" using less.prems(2) mult_mono [OF less.prems(2) x2] by (simp add: z'_def)
    have p1: "1 \<le> (x ^ 2) ^ (2 * m)" using one_le_power [OF x2] .
    have z'_lt: "z' < 2 ^ 256"
      using mult_left_mono [OF p1, of z'] z' less.prems(3) unfolding pow by linarith
    have "x ^ 2 \<le> x ^ (2 * nat n)" using less.prems(1) True by (intro power_increasing) auto
    also have "\<dots> \<le> z * x ^ (2 * nat n)"
      using mult_right_mono [OF less.prems(2), of "x ^ (2 * nat n)"] less.prems(1) by simp
    finally have x2_lt: "x ^ 2 < 2 ^ 256" using less.prems(3) by simp
    have sq: "x * x = x ^ 2" by (simp add: power2_eq_square)
    have IH: "relpow_loop 1 0 (x ^ 2) z' (n div 2) = Inr (z' * (x ^ 2) ^ (2 * m))"
      using less.hyps [of "n div 2" "x ^ 2" z'] True x2 z' less.prems(3) by (simp add: pow m_def)
    show ?thesis
      using True IH x2 x2_lt z' z'_lt
      by (cases "n mod 2 = 1")
        (simp_all add: relpow_loop.simps [of 1 0 x z n] uint_ops_ok uint256_def sq pow z'_def)
  qed
qed

lemma RelativePow_exact_base1:
  assumes "0 \<le> x" and "0 \<le> n" and "uint256 n" and "x ^ nat n < 2 ^ 256"
  shows "RelativePow x n 1 = Inr (x ^ nat n)"
proof (cases "x = 0")
  case True
  with assms show ?thesis by (auto simp: RelativePow_def)
next
  case False
  define z where "z = (if n mod 2 = 0 then 1 else x)"
  have "n mod 2 = 0 \<or> n mod 2 = 1" by presburger
  with nat_halves [OF assms(2)] have pow: "x ^ nat n = z * x ^ (2 * nat (n div 2))"
    by (metis mult.commute mult.right_neutral nat_0 nat_one_as_int of_nat_1 power_0 power_add power_one_right z_def zero_neq_one)
  have "1 \<le> x" "1 \<le> z" using False assms(1) by (auto simp: z_def)
  then have "relpow_loop 1 0 x z (n div 2) = Inr (x ^ nat n)"
    using relpow_loop_exact [of x z "n div 2"] assms(4) by (simp add: pow)
  then show ?thesis
    using False assms uint_ops_ok(3) [of 2 n] uint_ops_ok(3) [of 2 1]
    by (simp add: RelativePow_def Uint_Mod_def z_def uint256_def)
qed

subsection \<open>Claims\<close>

text \<open>
  the two-stage overflow test of \<open>math.Int\<close> (count 64-bit words, and only then the bits)
  fires exactly on the integers outside \<open>-(2^256 - 1) .. 2^256 - 1\<close>.
\<close>

theorem bigIntOverflows_exact: "bigIntOverflows i \<longleftrightarrow> i < - (2 ^ 256 - 1) \<or> 2 ^ 256 - 1 < i"
  by (auto simp: bigIntOverflows_iff int256_def)

text \<open>
  C35: integer addition, subtraction and multiplication return the exact mathematical result
  exactly when it fits into 256 bits and panic with the overflow error otherwise; division by zero
  panics, and every other division and modulus of in-range operands returns an in-range result that
  satisfies the division identity, with a remainder of the dividend's sign for the quotient and a
  Euclidean remainder for the modulus.
\<close>

theorem Int_arith_correct:
  "Int_Add a b = (if \<bar>a + b\<bar> < 2 ^ 256 then Inr (a + b) else Inl (Panic ''ErrIntOverflow'')) \<and>
   Int_Sub a b = (if \<bar>a - b\<bar> < 2 ^ 256 then Inr (a - b) else Inl (Panic ''ErrIntOverflow'')) \<and>
   Int_Mul a b = (if \<bar>a * b\<bar> < 2 ^ 256 then Inr (a * b) else Inl (Panic ''ErrIntOverflow'')) \<and>
   (if b = 0 then Int_Quo a b = Inl (Panic ''Division by zero'') \<and>
                  Int_Mod a b = Inl (Panic ''ErrDivideByZero'')
    else (\<exists>q m. Int_Quo a b = Inr q \<and> \<bar>q\<bar> \<le> \<bar>a\<bar> \<and> \<bar>a - q * b\<bar> < \<bar>b\<bar> \<and> 0 \<le> (a - q * b) * a \<and>
                Int_Mod a b = Inr m \<and> 0 \<le> m \<and> m < \<bar>b\<bar> \<and> b dvd a - m))"
proof (cases "b = 0")
  case True
  then show ?thesis by (simp add: sdkint int256_def Int_Mod_def Int_SafeMod_def)
next
  case False
  then show ?thesis
    using Int_Quo_bounds [OF False, of a] Int_Mod_bounds [OF False, of a]
    by (auto simp: Int_arith_eq int256_def)
qed

text \<open>
  C36: fixed-point exponentiation \<open>RelativePow\<close> by repeated squaring, at scale \<open>b = 1\<close>, returns the
  exact power for every base and exponent whose power fits into 256 bits: the loop ends and none of
  its intermediate squares overflows.
\<close>

theorem RelativePow_exact:
  "0 \<le> x \<Longrightarrow> 0 \<le> n \<Longrightarrow> n < 2 ^ 256 \<Longrightarrow> x ^ nat n < 2 ^ 256 \<Longrightarrow> RelativePow x n 1 = Inr (x ^ nat n)"
  by (rule RelativePow_exact_base1) (simp_all add: uint256_def)

theorem RelativePow_exact_witness: "RelativePow 3 5 1 = Inr 243"
  using RelativePow_exact [of 3 5] by simp

end
