(* ===== verification/Coins.thy ===== *)
theory Coins
  imports CoinSet SdkInt "HOL-Library.AList"
begin

text \<open>
  \<open>sdk.Coin\<close> and \<open>sdk.Coins\<close> (\<open>src/types/coin.go\<close>).  A coin is a record of its denomination and its
  amount; a coin set is the Go slice, so unsorted, duplicated or negative entries are values of the
  model and every operation says what it does with them.

  Denomination validation is configurable (\<open>SetCoinDenomRegex\<close>), so the predicate \<open>vd\<close> that
  \<open>ValidateDenom\<close> applies is an argument of the operations that validate.  \<open>sort.Sort\<close> is
  \<open>sort_key Denom\<close>: the order it leaves entries of equal denomination in is not specified by Go, and
  no theorem below depends on it.  The Go map of \<open>safeAdd\<close> is an association list; its iteration
  order does not matter because the result is sorted by distinct keys.
\<close>

section \<open>Coin\<close>

record Coin =
  Denom :: string
  Amount :: int

definition ValidateDenom :: "(string \<Rightarrow> bool) \<Rightarrow> string \<Rightarrow> unit res" where
  "ValidateDenom vd denom = guard_res (vd denom) (Err ''invalid denom'')"

definition mustValidateDenom :: "(string \<Rightarrow> bool) \<Rightarrow> string \<Rightarrow> unit res" where
  "mustValidateDenom vd denom = must (ValidateDenom vd denom)"

definition Coin_IsZero :: "Coin \<Rightarrow> bool" where
  "Coin_IsZero coin \<longleftrightarrow> Amount coin = 0"

definition Coin_IsPositive :: "Coin \<Rightarrow> bool" where
  "Coin_IsPositive coin \<longleftrightarrow> sgn (Amount coin) = 1"

definition Coin_IsNegative :: "Coin \<Rightarrow> bool" where
  "Coin_IsNegative coin \<longleftrightarrow> sgn (Amount coin) = - 1"

definition Coin_Validate :: "(string \<Rightarrow> bool) \<Rightarrow> Coin \<Rightarrow> unit res" where
  "Coin_Validate vd coin =
     rbind (ValidateDenom vd (Denom coin)) (\<lambda>_.
       if Amount coin < 0 then Inl (Err ''negative coin amount'') else Inr ())"

definition Coin_IsValid :: "(string \<Rightarrow> bool) \<Rightarrow> Coin \<Rightarrow> bool" where
  "Coin_IsValid vd coin \<longleftrightarrow> Coin_Validate vd coin = Inr ()"

definition NewCoin :: "(string \<Rightarrow> bool) \<Rightarrow> string \<Rightarrow> int \<Rightarrow> Coin res" where
  "NewCoin vd denom amount =
     (let coin = \<lparr> Denom = denom, Amount = amount \<rparr>
      in rbind (must (Coin_Validate vd coin)) (\<lambda>_. Inr coin))"

definition same_denom :: "Coin \<Rightarrow> Coin \<Rightarrow> unit res" where
  "same_denom coin other = guard_res (Denom coin = Denom other) (Panic ''invalid coin denominations'')"

definition Coin_IsGT :: "Coin \<Rightarrow> Coin \<Rightarrow> bool res" where
  "Coin_IsGT coin other = rbind (same_denom coin other) (\<lambda>_. Inr (Amount coin > Amount other))"

definition Coin_IsGTE :: "Coin \<Rightarrow> Coin \<Rightarrow> bool res" where
  "Coin_IsGTE coin other = rbind (same_denom coin other) (\<lambda>_. Inr (\<not> Amount coin < Amount other))"

definition Coin_IsLT :: "Coin \<Rightarrow> Coin \<Rightarrow> bool res" where
  "Coin_IsLT coin other = rbind (same_denom coin other) (\<lambda>_. Inr (Amount coin < Amount other))"

definition Coin_IsLTE :: "Coin \<Rightarrow> Coin \<Rightarrow> bool res" where
  "Coin_IsLTE coin other = rbind (same_denom coin other) (\<lambda>_. Inr (\<not> Amount coin > Amount other))"

definition Coin_Add :: "Coin \<Rightarrow> Coin \<Rightarrow> Coin res" where
  "Coin_Add coin coinB =
     rbind (same_denom coin coinB) (\<lambda>_.
     rbind (Int_Add (Amount coin) (Amount coinB)) (\<lambda>a. Inr \<lparr> Denom = Denom coin, Amount = a \<rparr>))"

definition Coin_AddAmount :: "Coin \<Rightarrow> int \<Rightarrow> Coin res" where
  "Coin_AddAmount coin amount =
     rbind (Int_Add (Amount coin) amount) (\<lambda>a. Inr \<lparr> Denom = Denom coin, Amount = a \<rparr>)"

definition Coin_SafeSub :: "Coin \<Rightarrow> Coin \<Rightarrow> Coin res" where
  "Coin_SafeSub coin coinB =
     (if Denom coin \<noteq> Denom coinB then Inl (Err ''invalid coin denoms'')
      else rbind (Int_Sub (Amount coin) (Amount coinB)) (\<lambda>a.
        let res = \<lparr> Denom = Denom coin, Amount = a \<rparr>
        in if Coin_IsNegative res then Inl (Err ''negative coin amount'') else Inr res))"

definition Coin_Sub :: "Coin \<Rightarrow> Coin \<Rightarrow> Coin res" where
  "Coin_Sub coin coinB = must (Coin_SafeSub coin coinB)"

definition Coin_SubAmount :: "Coin \<Rightarrow> int \<Rightarrow> Coin res" where
  "Coin_SubAmount coin amount =
     rbind (Int_Sub (Amount coin) amount) (\<lambda>a.
       let res = \<lparr> Denom = Denom coin, Amount = a \<rparr>
       in if Coin_IsNegative res then Inl (Panic ''negative coin amount'') else Inr res)"

section \<open>Coins: order, validation, lookup\<close>

definition Coins_Sort :: "Coin list \<Rightarrow> Coin list" where
  "Coins_Sort coins = (if length coins > 1 then sort_key Denom coins else coins)"

definition removeZeroCoins :: "Coin list \<Rightarrow> Coin list" where
  "removeZeroCoins coins = filter (\<lambda>c. \<not> Coin_IsZero c) coins"

definition sanitizeCoins :: "Coin list \<Rightarrow> Coin list" where
  "sanitizeCoins coins =
     (let newCoins = removeZeroCoins coins in if newCoins = [] then [] else Coins_Sort newCoins)"

definition validate_single :: "(string \<Rightarrow> bool) \<Rightarrow> Coin \<Rightarrow> unit res" where
  "validate_single vd c =
     rbind (ValidateDenom vd (Denom c)) (\<lambda>_.
       if \<not> Coin_IsPositive c then Inl (Err ''amount is not positive'') else Inr ())"

fun validate_rest :: "(string \<Rightarrow> bool) \<Rightarrow> string \<Rightarrow> Coin list \<Rightarrow> unit res" where
  "validate_rest vd lowDenom [] = Inr ()"
| "validate_rest vd lowDenom (coin # coins) =
     rbind (ValidateDenom vd (Denom coin)) (\<lambda>_.
       if Denom coin < lowDenom then Inl (Err ''denomination is not sorted'')
       else if Denom coin = lowDenom then Inl (Err ''duplicate denomination'')
       else if \<not> Coin_IsPositive coin then Inl (Err ''amount is not positive'')
       else validate_rest vd (Denom coin) coins)"

definition Coins_Validate :: "(string \<Rightarrow> bool) \<Rightarrow> Coin list \<Rightarrow> unit res" where
  "Coins_Validate vd coins =
     (case coins of
        [] \<Rightarrow> Inr ()
      | [c] \<Rightarrow> validate_single vd c
      | c # rest \<Rightarrow> rbind (validate_single vd c) (\<lambda>_. validate_rest vd (Denom c) rest))"

definition Coins_IsValid :: "(string \<Rightarrow> bool) \<Rightarrow> Coin list \<Rightarrow> bool" where
  "Coins_IsValid vd coins \<longleftrightarrow> Coins_Validate vd coins = Inr ()"

definition NewCoins :: "(string \<Rightarrow> bool) \<Rightarrow> Coin list \<Rightarrow> Coin list res" where
  "NewCoins vd coins =
     (let newCoins = sanitizeCoins coins
      in rbind (must (Coins_Validate vd newCoins)) (\<lambda>_. Inr newCoins))"

fun Coins_IsSorted :: "Coin list \<Rightarrow> bool" where
  "Coins_IsSorted (a # b # coins) = (if Denom a > Denom b then False else Coins_IsSorted (b # coins))"
| "Coins_IsSorted _ = True"

definition Coins_Denoms :: "Coin list \<Rightarrow> string list" where
  "Coins_Denoms coins = map Denom coins"

text \<open>The binary search; \<open>None\<close> is \<open>(false, Coin{})\<close>.\<close>

function Coins_Find :: "Coin list \<Rightarrow> string \<Rightarrow> Coin option" where
  "Coins_Find coins denom =
     (case coins of
        [] \<Rightarrow> None
      | [coin] \<Rightarrow> if Denom coin = denom then Some coin else None
      | _ \<Rightarrow> let midIdx = length coins div 2; coin = coins ! midIdx in
          if denom < Denom coin then Coins_Find (take midIdx coins) denom
          else if denom = Denom coin then Some coin
          else Coins_Find (drop (midIdx + 1) coins) denom)"
  by pat_completeness auto
termination
  by (relation "measure (\<lambda>(cs, d). length cs)") auto

declare Coins_Find.simps [simp del]

definition AmountOfNoDenomValidation :: "Coin list \<Rightarrow> string \<Rightarrow> int" where
  "AmountOfNoDenomValidation coins denom =
     (case Coins_Find coins denom of Some c \<Rightarrow> Amount c | None \<Rightarrow> 0)"

definition Coins_AmountOf :: "(string \<Rightarrow> bool) \<Rightarrow> Coin list \<Rightarrow> string \<Rightarrow> int res" where
  "Coins_AmountOf vd coins denom =
     rbind (mustValidateDenom vd denom) (\<lambda>_. Inr (AmountOfNoDenomValidation coins denom))"

definition Coins_IsZero :: "Coin list \<Rightarrow> bool" where
  "Coins_IsZero coins \<longleftrightarrow> list_all Coin_IsZero coins"

definition Coins_IsAllPositive :: "Coin list \<Rightarrow> bool" where
  "Coins_IsAllPositive coins \<longleftrightarrow> coins \<noteq> [] \<and> list_all Coin_IsPositive coins"

definition Coins_IsAnyNegative :: "Coin list \<Rightarrow> bool" where
  "Coins_IsAnyNegative coins \<longleftrightarrow> list_ex Coin_IsNegative coins"

definition Coins_Equal :: "Coin list \<Rightarrow> Coin list \<Rightarrow> bool" where
  "Coins_Equal coins coinsB \<longleftrightarrow>
     length coins = length coinsB \<and> list_all2 (=) (Coins_Sort coins) (Coins_Sort coinsB)"

section \<open>Coins: arithmetic\<close>

definition uniq_step :: "(string \<times> Coin) list \<Rightarrow> Coin \<Rightarrow> (string \<times> Coin) list res" where
  "uniq_step uniqCoins c =
     (case map_of uniqCoins (Denom c) of
        Some uc \<Rightarrow> rbind (Coin_Add uc c) (\<lambda>s. Inr (AList.update (Denom c) s uniqCoins))
      | None \<Rightarrow> Inr (AList.update (Denom c) c uniqCoins))"

definition Coins_safeAdd :: "Coin list \<Rightarrow> Coin list \<Rightarrow> Coin list res" where
  "Coins_safeAdd coins coinsB =
     (if \<not> Coins_IsSorted coins then Inl (Panic ''Coins (self) must be sorted'')
      else if \<not> Coins_IsSorted coinsB then Inl (Panic ''Wrong argument: coins must be sorted'')
      else rbind (rfold uniq_step [] (coins @ coinsB)) (\<lambda>uniqCoins.
        Inr (Coins_Sort (map (\<lambda>(denom, c). c\<lparr>Denom := denom\<rparr>)
          (filter (\<lambda>(denom, c). \<not> Coin_IsZero c) uniqCoins)))))"

definition Coins_Add :: "Coin list \<Rightarrow> Coin list \<Rightarrow> Coin list res" where
  "Coins_Add coins coinsB = Coins_safeAdd coins coinsB"

definition Coins_negative :: "Coin list \<Rightarrow> Coin list" where
  "Coins_negative coins = map (\<lambda>c. \<lparr> Denom = Denom c, Amount = Int_Neg (Amount c) \<rparr>) coins"

definition Coins_SafeSub :: "(string \<Rightarrow> bool) \<Rightarrow> Coin list \<Rightarrow> Coin list \<Rightarrow> (Coin list \<times> bool) res" where
  "Coins_SafeSub vd coins coinsB =
     rbind (NewCoins vd coinsB) (\<lambda>b.
     rbind (Coins_safeAdd coins (Coins_negative b)) (\<lambda>diff. Inr (diff, Coins_IsAnyNegative diff)))"

definition Coins_Sub :: "(string \<Rightarrow> bool) \<Rightarrow> Coin list \<Rightarrow> Coin list \<Rightarrow> Coin list res" where
  "Coins_Sub vd coins coinsB =
     rbind (Coins_SafeSub vd coins coinsB) (\<lambda>(diff, hasNeg).
       if hasNeg then Inl (Panic ''negative coin amount'') else Inr diff)"

text \<open>The boolean of the safe variants is false exactly in the \<open>None\<close> case.\<close>

definition Coins_SafeMulInt :: "(string \<Rightarrow> bool) \<Rightarrow> Coin list \<Rightarrow> int \<Rightarrow> Coin list option res" where
  "Coins_SafeMulInt vd coins x =
     (if x = 0 then Inr None
      else rbind (rmap (\<lambda>c. rbind (Int_Mul (Amount c) x) (NewCoin vd (Denom c))) coins) (\<lambda>res. Inr (Some res)))"

definition Coins_MulInt :: "(string \<Rightarrow> bool) \<Rightarrow> Coin list \<Rightarrow> int \<Rightarrow> Coin list res" where
  "Coins_MulInt vd coins x =
     rbind (Coins_SafeMulInt vd coins x) (\<lambda>r. case r of
       None \<Rightarrow> Inl (Panic ''multiplying by zero is an invalid operation on coins'') | Some cs \<Rightarrow> Inr cs)"

definition Coins_SafeQuoInt :: "(string \<Rightarrow> bool) \<Rightarrow> Coin list \<Rightarrow> int \<Rightarrow> Coin list option res" where
  "Coins_SafeQuoInt vd coins x =
     (if x = 0 then Inr None
      else rbind (rmap (\<lambda>c. rbind (Int_Quo (Amount c) x) (NewCoin vd (Denom c))) coins) (\<lambda>res. Inr (Some res)))"

definition Coins_QuoInt :: "(string \<Rightarrow> bool) \<Rightarrow> Coin list \<Rightarrow> int \<Rightarrow> Coin list res" where
  "Coins_QuoInt vd coins x =
     rbind (Coins_SafeQuoInt vd coins x) (\<lambda>r. case r of
       None \<Rightarrow> Inl (Panic ''dividing by zero is an invalid operation on coins'') | Some cs \<Rightarrow> Inr cs)"

text \<open>The index loops of \<open>Max\<close> and \<open>Min\<close>, over the entries that are still to be visited.\<close>

fun max_loop :: "Coin list \<Rightarrow> Coin list \<Rightarrow> Coin list" where
  "max_loop [] coinsB = coinsB"
| "max_loop coins [] = coins"
| "max_loop (coinA # coins) (coinB # coinsB) =
     (if Denom coinA < Denom coinB then coinA # max_loop coins (coinB # coinsB)
      else if Denom coinA = Denom coinB
        then (if Amount coinB > Amount coinA then coinB else coinA) # max_loop coins coinsB
      else coinB # max_loop (coinA # coins) coinsB)"

fun min_loop :: "Coin list \<Rightarrow> Coin list \<Rightarrow> Coin list" where
  "min_loop [] coinsB = []"
| "min_loop coins [] = []"
| "min_loop (coinA # coins) (coinB # coinsB) =
     (if Denom coinA < Denom coinB then min_loop coins (coinB # coinsB)
      else if Denom coinA = Denom coinB
        then let minCoin = (if Amount coinB < Amount coinA then coinB else coinA)
             in (if \<not> Coin_IsZero minCoin then [minCoin] else []) @ min_loop coins coinsB
      else min_loop (coinA # coins) coinsB)"

definition Coins_Max :: "(string \<Rightarrow> bool) \<Rightarrow> Coin list \<Rightarrow> Coin list \<Rightarrow> Coin list res" where
  "Coins_Max vd coins coinsB = NewCoins vd (max_loop coins coinsB)"

definition Coins_Min :: "(string \<Rightarrow> bool) \<Rightarrow> Coin list \<Rightarrow> Coin list \<Rightarrow> Coin list res" where
  "Coins_Min vd coins coinsB = NewCoins vd (min_loop coins coinsB)"

section \<open>Coins: comparison\<close>

definition DenomsSubsetOf :: "(string \<Rightarrow> bool) \<Rightarrow> Coin list \<Rightarrow> Coin list \<Rightarrow> bool res" where
  "DenomsSubsetOf vd coins coinsB =
     (if length coins > length coinsB then Inr False
      else rall (\<lambda>c. rbind (Coins_AmountOf vd coinsB (Denom c)) (\<lambda>a. Inr (a \<noteq> 0))) coins)"

definition Coins_IsAllGT :: "(string \<Rightarrow> bool) \<Rightarrow> Coin list \<Rightarrow> Coin list \<Rightarrow> bool res" where
  "Coins_IsAllGT vd coins coinsB =
     (if coins = [] then Inr False
      else if coinsB = [] then Inr True
      else rbind (DenomsSubsetOf vd coinsB coins) (\<lambda>sub.
        if \<not> sub then Inr False
        else rall (\<lambda>b. rbind (Coins_AmountOf vd coins (Denom b)) (\<lambda>a. Inr (a > Amount b))) coinsB))"

definition Coins_IsAllGTE :: "(string \<Rightarrow> bool) \<Rightarrow> Coin list \<Rightarrow> Coin list \<Rightarrow> bool res" where
  "Coins_IsAllGTE vd coins coinsB =
     (if coinsB = [] then Inr True
      else if coins = [] then Inr False
      else rall (\<lambda>b. rbind (Coins_AmountOf vd coins (Denom b)) (\<lambda>a. Inr (\<not> Amount b > a))) coinsB)"

definition Coins_IsAllLT :: "(string \<Rightarrow> bool) \<Rightarrow> Coin list \<Rightarrow> Coin list \<Rightarrow> bool res" where
  "Coins_IsAllLT vd coins coinsB = Coins_IsAllGT vd coinsB coins"

definition Coins_IsAllLTE :: "(string \<Rightarrow> bool) \<Rightarrow> Coin list \<Rightarrow> Coin list \<Rightarrow> bool res" where
  "Coins_IsAllLTE vd coins coinsB = Coins_IsAllGTE vd coinsB coins"

definition Coins_IsAnyGT :: "(string \<Rightarrow> bool) \<Rightarrow> Coin list \<Rightarrow> Coin list \<Rightarrow> bool res" where
  "Coins_IsAnyGT vd coins coinsB =
     (if coinsB = [] then Inr False
      else rany (\<lambda>c. rbind (Coins_AmountOf vd coinsB (Denom c)) (\<lambda>a. Inr (Amount c > a \<and> a \<noteq> 0))) coins)"

definition Coins_IsAnyGTE :: "(string \<Rightarrow> bool) \<Rightarrow> Coin list \<Rightarrow> Coin list \<Rightarrow> bool res" where
  "Coins_IsAnyGTE vd coins coinsB =
     (if coinsB = [] then Inr False
      else rany (\<lambda>c. rbind (Coins_AmountOf vd coinsB (Denom c)) (\<lambda>a. Inr (Amount c \<ge> a \<and> a \<noteq> 0))) coins)"

section \<open>Canonical coin sets\<close>

definition cps :: "Coin list \<Rightarrow> amounts" where
  "cps coins = map (\<lambda>c. (Denom c, Amount c)) coins"

abbreviation camt :: "Coin list \<Rightarrow> string \<Rightarrow> int" where
  "camt coins \<equiv> amt (cps coins)"

text \<open>The type invariant of a coin set: it validates and its amounts are 256-bit integers.\<close>

definition coins_ok :: "(string \<Rightarrow> bool) \<Rightarrow> Coin list \<Rightarrow> bool" where
  "coins_ok vd coins \<longleftrightarrow> Coins_IsValid vd coins \<and> list_all (\<lambda>c. int256 (Amount c)) coins"

named_theorems coin_simps "coin operations in terms of amounts"

lemma cps_list [simp]:
  "cps [] = []" "cps (c # cs) = (Denom c, Amount c) # cps cs" "cps (cs @ ds) = cps cs @ cps ds"
  "length (cps cs) = length cs" "(cps cs = []) = (cs = [])"
  by (simp_all add: cps_def)

lemma set_cps: "set (cps cs) = (\<lambda>c. (Denom c, Amount c)) ` set cs"
  by (simp add: cps_def)

lemma cps_inj: "cps a = cps b \<Longrightarrow> a = b"
  unfolding cps_def by (erule map_injective) (auto intro!: injI Coin.equality)

lemma coin_sign [coin_simps, simp]:
  "Coin_IsPositive c \<longleftrightarrow> 0 < Amount c" "Coin_IsNegative c \<longleftrightarrow> Amount c < 0" "Coin_IsZero c \<longleftrightarrow> Amount c = 0"
  by (auto simp: Coin_IsPositive_def Coin_IsNegative_def Coin_IsZero_def sgn_if)

lemma ValidateDenom_ok [simp]: "ValidateDenom vd d = Inr () \<longleftrightarrow> vd d"
  by (simp add: ValidateDenom_def guard_res_def)

lemma validate_single_ok: "validate_single vd c = Inr () \<longleftrightarrow> vd (Denom c) \<and> 0 < Amount c"
  by (auto simp: validate_single_def res_simps)

lemma validate_rest_ok:
  "validate_rest vd low cs = Inr () \<longleftrightarrow>
     canon ((low, 1) # cps cs) \<and> (\<forall>c \<in> set cs. vd (Denom c) \<and> 0 < Amount c)"
proof (induction cs arbitrary: low)
  case (Cons c cs)
  show ?case
    by (auto simp: res_simps Cons.IH set_cps intro: order.strict_trans)
qed simp

lemma Coins_Validate_iff:
  "Coins_Validate vd cs = Inr () \<longleftrightarrow> canon (cps cs) \<and> (\<forall>c \<in> set cs. vd (Denom c) \<and> 0 < Amount c)"
proof (cases cs)
  case (Cons c rest)
  have "Coins_Validate vd cs = rbind (validate_single vd c) (\<lambda>_. validate_rest vd (Denom c) rest)"
    using Cons by (cases rest; cases "validate_single vd c") (auto simp: Coins_Validate_def)
  then show ?thesis
    using Cons by (auto simp: res_simps validate_single_ok validate_rest_ok)
qed (simp add: Coins_Validate_def)

lemma coins_ok_iff:
  "coins_ok vd cs \<longleftrightarrow>
     canon (cps cs) \<and> (\<forall>c \<in> set cs. vd (Denom c) \<and> 0 < Amount c \<and> int256 (Amount c))"
  by (auto simp: coins_ok_def Coins_IsValid_def Coins_Validate_iff list_all_iff)

lemma Coins_IsSorted_iff: "Coins_IsSorted cs \<longleftrightarrow> sorted (map Denom cs)"
  by (induction cs rule: Coins_IsSorted.induct) auto

lemma canon_sorted: "canon (cps cs) \<Longrightarrow> sorted (map Denom cs)"
  by (simp add: canon_def om_ok_def strict_sorted_iff cps_def comp_def)

lemma coins_ok_sorted [simp]: "coins_ok vd cs \<Longrightarrow> Coins_IsSorted cs"
  by (simp add: coins_ok_iff Coins_IsSorted_iff canon_sorted)

lemma coins_ok_nonneg: "coins_ok vd cs \<Longrightarrow> 0 \<le> camt cs d"
  by (rule amt_sign) (auto simp: coins_ok_iff set_cps)

lemma coins_ok_fits: "coins_ok vd cs \<Longrightarrow> int256 (camt cs d)"
proof (cases "d \<in> fst ` set (cps cs)")
  case True
  assume ok: "coins_ok vd cs"
  obtain c where c: "c \<in> set cs" "d = Denom c" using True by (auto simp: set_cps)
  have "camt cs d = Amount c"
    using amt_in [of "cps cs" "(Denom c, Amount c)"] ok c by (auto simp: coins_ok_iff canon_def set_cps)
  then show ?thesis using ok c by (simp add: coins_ok_iff)
qed (simp add: amt_absent int256_def)

lemma coins_ok_ext: "coins_ok vd a \<Longrightarrow> coins_ok vd b \<Longrightarrow> (\<And>d. camt a d = camt b d) \<Longrightarrow> a = b"
  by (auto simp: coins_ok_iff intro: cps_inj canon_ext)

lemma cps_Sort: "cps (Coins_Sort cs) = sort_key fst (cps cs)"
proof -
  have "cps (sort_key Denom cs) = sort_key fst (cps cs)"
    using map_sort_key [of "\<lambda>c. (Denom c, Amount c)" fst cs] by (simp add: cps_def)
  then show ?thesis
    by (cases cs; cases "tl cs") (auto simp: Coins_Sort_def)
qed

lemma mset_Sort [simp]: "mset (Coins_Sort cs) = mset cs" "set (Coins_Sort cs) = set cs"
  by (simp_all add: Coins_Sort_def)

lemma camt_Sort [simp]: "camt (Coins_Sort cs) = camt cs"
  by (simp add: cps_Sort)

section \<open>Lookup\<close>

definition denom_sorted :: "Coin list \<Rightarrow> bool" where
  "denom_sorted cs \<longleftrightarrow> sorted_wrt (<) (map Denom cs)"

lemma denom_sorted_iff: "denom_sorted cs \<longleftrightarrow> om_ok (cps cs)"
  by (simp add: denom_sorted_def om_ok_def cps_def comp_def)

lemma denom_sorted_append:
  "denom_sorted (cs @ ds) \<longleftrightarrow>
     denom_sorted cs \<and> denom_sorted ds \<and> (\<forall>c \<in> set cs. \<forall>d \<in> set ds. Denom c < Denom d)"
  by (auto simp: denom_sorted_def sorted_wrt_append)

lemma denom_sorted_Cons:
  "denom_sorted (c # cs) \<longleftrightarrow> (\<forall>d \<in> set cs. Denom c < Denom d) \<and> denom_sorted cs"
  by (auto simp: denom_sorted_def)

lemma Coins_Find_correct:
  "denom_sorted cs \<Longrightarrow>
     (case Coins_Find cs d of Some c \<Rightarrow> c \<in> set cs \<and> Denom c = d | None \<Rightarrow> d \<notin> Denom ` set cs)"
proof (induction cs d rule: Coins_Find.induct)
  case (1 cs d)
  show ?case
  proof (cases "length cs < 2")
    case True
    then consider "cs = []" | c where "cs = [c]"
      by (cases cs; cases "tl cs") auto
    then show ?thesis by cases (auto simp: Coins_Find.simps)
  next
    case False
    then obtain c0 c1 rest where cs: "cs = c0 # c1 # rest" by (cases cs; cases "tl cs") auto
    define m where "m = length cs div 2"
    have m: "m < length cs" using False by (auto simp: m_def)
    note halves = sorted_halves [OF "1.prems" [unfolded denom_sorted_def] m]
    have find: "Coins_Find cs d =
        (if d < Denom (cs ! m) then Coins_Find (take m cs) d
         else if d = Denom (cs ! m) then Some (cs ! m) else Coins_Find (drop (Suc m) cs) d)"
      by (subst (1) Coins_Find.simps) (simp add: m_def Let_def cs)
    have mem: "x \<in> set cs \<longleftrightarrow> x \<in> set (take m cs) \<or> x = cs ! m \<or> x \<in> set (drop (Suc m) cs)" for x
      by (subst halves(5)) blast
    consider "d < Denom (cs ! m)" | "d = Denom (cs ! m)" | "Denom (cs ! m) < d" by fastforce
    then show ?thesis
    proof cases
      case 1
      then have "case Coins_Find (take m cs) d of Some c \<Rightarrow> c \<in> set (take m cs) \<and> Denom c = d
          | None \<Rightarrow> d \<notin> Denom ` set (take m cs)"
        by (intro "1.IH"(1) [OF cs refl m_def refl]) (use halves in \<open>auto simp: denom_sorted_def\<close>)
      moreover have "\<forall>c. c = cs ! m \<or> c \<in> set (drop (Suc m) cs) \<longrightarrow> d \<noteq> Denom c"
        using 1 halves(4) order.strict_trans [OF 1] by auto
      ultimately show ?thesis
        using 1 find by (auto simp: mem image_iff split: option.splits)
    next
      case 2
      then show ?thesis using find by (auto simp: mem)
    next
      case 3
      then have "case Coins_Find (drop (m + 1) cs) d of Some c \<Rightarrow> c \<in> set (drop (m + 1) cs) \<and> Denom c = d
          | None \<Rightarrow> d \<notin> Denom ` set (drop (m + 1) cs)"
        by (intro "1.IH"(2) [OF cs refl m_def refl]) (use halves in \<open>auto simp: denom_sorted_def\<close>)
      moreover have "\<forall>c. c = cs ! m \<or> c \<in> set (take m cs) \<longrightarrow> d \<noteq> Denom c"
        using 3 halves(3) order.strict_trans [OF _ 3] by auto
      moreover have "Coins_Find cs d = Coins_Find (drop (m + 1) cs) d"
        using 3 by (subst find) (simp add: less_not_sym [OF 3] less_imp_neq [OF 3, symmetric])
      ultimately show ?thesis
        by (auto simp: mem image_iff split: option.splits)
    qed
  qed
qed

lemma AmountOf_sorted: "denom_sorted cs \<Longrightarrow> AmountOfNoDenomValidation cs d = camt cs d"
  using Coins_Find_correct [of cs d] amt_in [of "cps cs" "(d, a)" for a] amt_absent [of d "cps cs"]
  by (force simp: AmountOfNoDenomValidation_def denom_sorted_iff set_cps split: option.splits)

lemma coins_ok_denom_sorted [simp]: "coins_ok vd cs \<Longrightarrow> denom_sorted cs"
  by (simp add: coins_ok_iff denom_sorted_iff canon_def)

lemma Coins_AmountOf_ok [coin_simps]:
  "coins_ok vd cs \<Longrightarrow> vd d \<Longrightarrow> Coins_AmountOf vd cs d = Inr (camt cs d)"
  by (simp add: Coins_AmountOf_def mustValidateDenom_def ValidateDenom_def AmountOf_sorted)

section \<open>Addition and subtraction\<close>

lemma sum_update:
  fixes f :: "'k \<times> 'v \<Rightarrow> int"
  assumes "distinct (map fst m)"
  shows "(\<Sum>x\<leftarrow>AList.update k v m. f x) =
    (\<Sum>x\<leftarrow>m. f x) - (case map_of m k of None \<Rightarrow> 0 | Some w \<Rightarrow> f (k, w)) + f (k, v)"
  using assms
proof (induction m)
  case (Cons x m)
  then show ?case by (cases x) (auto split: option.splits)
qed simp

lemma update_subset: "set (AList.update k v m) \<subseteq> insert (k, v) (set m)"
  by (induction m) auto

definition uniq_ok :: "(string \<times> Coin) list \<Rightarrow> bool" where
  "uniq_ok m \<longleftrightarrow> distinct (map fst m) \<and> (\<forall>(d, c) \<in> set m. Denom c = d)"

lemma uniq_ok_amt: "uniq_ok m \<Longrightarrow> camt (map snd m) d = (\<Sum>x\<leftarrow>m. if fst x = d then Amount (snd x) else 0)"
  by (induction m) (auto simp: uniq_ok_def)

lemma uniq_ok_update: "uniq_ok m \<Longrightarrow> Denom c = d \<Longrightarrow> uniq_ok (AList.update d c m)"
  using update_subset [of d c m] by (auto simp: uniq_ok_def distinct_update)

lemma uniq_step_exact:
  assumes "uniq_ok m" "uniq_step m c = Inr m'"
  shows "uniq_ok m' \<and> (\<forall>d. camt (map snd m') d = camt (map snd m) d + (if Denom c = d then Amount c else 0))"
proof (cases "map_of m (Denom c)")
  case None
  then have m': "m' = AList.update (Denom c) c m" using assms by (simp add: uniq_step_def)
  then have ok: "uniq_ok m'" using assms(1) by (simp add: uniq_ok_update)
  then show ?thesis
    using assms(1) None by (auto simp: uniq_ok_amt m' sum_update uniq_ok_def)
next
  case (Some uc)
  then obtain s where s: "Coin_Add uc c = Inr s" and m': "m' = AList.update (Denom c) s m"
    using assms by (auto simp: uniq_step_def res_simps)
  have s': "Denom s = Denom c" "Amount s = Amount uc + Amount c"
    using s by (auto simp: Coin_Add_def same_denom_def sdkint res_simps split: if_splits)
  then have ok: "uniq_ok m'" using assms(1) by (simp add: uniq_ok_update m')
  then show ?thesis
    using assms(1) Some s' by (auto simp: uniq_ok_amt m' sum_update uniq_ok_def)
qed

lemma uniq_fold_exact:
  "uniq_ok m \<Longrightarrow> rfold uniq_step m cs = Inr m' \<Longrightarrow>
     uniq_ok m' \<and> (\<forall>d. camt (map snd m') d = camt (map snd m) d + camt cs d)"
proof (induction cs arbitrary: m)
  case (Cons c cs)
  then obtain n where n: "uniq_step m c = Inr n" "rfold uniq_step n cs = Inr m'" by (auto simp: res_simps)
  then show ?case using uniq_step_exact [OF Cons.prems(1) n(1)] Cons.IH [of n] by auto
qed simp

lemma uniq_ok_cps: "uniq_ok m \<Longrightarrow> cps (map snd m) = map (\<lambda>(d, c). (d, Amount c)) m"
  by (induction m) (auto simp: uniq_ok_def)

lemma uniq_ok_lookup:
  assumes "uniq_ok m" "map_of m d = Some c"
  shows "Denom c = d \<and> Amount c = camt (map snd m) d"
proof -
  have "distinct (map fst (cps (map snd m)))"
    using assms(1) by (simp add: uniq_ok_cps uniq_ok_def comp_def case_prod_unfold)
  then show ?thesis
    using assms map_of_SomeD [OF assms(2)]
    by (auto simp: amt_map_of) (auto simp: uniq_ok_cps uniq_ok_def map_of_map)
qed

lemma uniq_step_total:
  assumes "uniq_ok m" "int256 (camt (map snd m) (Denom c) + Amount c)"
  shows "\<exists>m'. uniq_step m c = Inr m'"
proof (cases "map_of m (Denom c)")
  case (Some uc)
  then show ?thesis
    using assms(2) uniq_ok_lookup [OF assms(1) Some]
    by (simp add: uniq_step_def Coin_Add_def same_denom_def sdkint)
qed (simp add: uniq_step_def)

lemma uniq_fold_total:
  assumes "uniq_ok m" "distinct (map Denom cs)"
    and "\<And>c. c \<in> set cs \<Longrightarrow> int256 (camt (map snd m) (Denom c) + Amount c)"
  shows "\<exists>m'. rfold uniq_step m cs = Inr m'"
  using assms
proof (induction cs arbitrary: m)
  case (Cons c cs)
  obtain n where n: "uniq_step m c = Inr n" using uniq_step_total Cons.prems by fastforce
  note st = uniq_step_exact [OF Cons.prems(1) n]
  have "Denom c \<noteq> Denom c'" if "c' \<in> set cs" for c' using Cons.prems(2) that by auto
  then show ?case using Cons.IH [of n] Cons.prems st n by auto
qed simp

lemma uniq_fold_int256:
  assumes "rfold uniq_step [] cs = Inr m" "\<forall>c \<in> set cs. int256 (Amount c)"
  shows "\<forall>(d, c) \<in> set m. int256 (Amount c)"
proof (rule rfold_invariant [OF assms(1)])
  fix a x b assume x: "x \<in> set cs" and a: "\<forall>(d, c) \<in> set a. int256 (Amount c)" and b: "uniq_step a x = Inr b"
  then obtain y where y: "b = AList.update (Denom x) y a" "int256 (Amount y)"
    using assms(2)
    by (auto simp: uniq_step_def Coin_Add_def same_denom_def sdkint res_simps split: option.splits if_splits)
  then show "\<forall>(d, c) \<in> set b. int256 (Amount c)"
    using update_subset [of "Denom x" y a] a by auto
qed simp

lemma Coins_safeAdd_exact:
  assumes "Coins_safeAdd a b = Inr c"
  shows "canon (cps c) \<and> (\<forall>d. camt c d = camt a d + camt b d)"
proof -
  obtain m where m: "rfold uniq_step [] (a @ b) = Inr m"
    and c: "c = Coins_Sort (map (\<lambda>(denom, c). c\<lparr>Denom := denom\<rparr>) (filter (\<lambda>(denom, c). \<not> Coin_IsZero c) m))"
    using assms by (auto simp: Coins_safeAdd_def res_simps split: if_splits)
  have ok: "uniq_ok m" "\<And>d. camt (map snd m) d = camt a d + camt b d"
    using uniq_fold_exact [OF _ m] by (auto simp: uniq_ok_def)
  define n where "n = filter (\<lambda>x. snd x \<noteq> 0) (cps (map snd m))"
  have "cps (map (\<lambda>(denom, c). c\<lparr>Denom := denom\<rparr>) (filter (\<lambda>(denom, c). \<not> Coin_IsZero c) m)) = n"
    using ok(1) unfolding n_def by (induction m) (auto simp: uniq_ok_def)
  then have "cps c = sort_key fst n" by (simp add: c cps_Sort)
  moreover have "map fst (cps (map snd m)) = map fst m" using ok(1) by (induction m) (auto simp: uniq_ok_def)
  then have "distinct (map fst n)" using ok(1) by (simp add: n_def uniq_ok_def distinct_map_filter)
  ultimately show ?thesis
    using ok(2) by (auto simp: n_def intro: canon_sort_key simp: amt_nonzero)
qed

lemma Coins_safeAdd_total:
  assumes "denom_sorted a" "denom_sorted b" "\<And>d. int256 (camt a d + camt b d)"
    and "\<And>d. int256 (camt a d)"
  shows "\<exists>c. Coins_safeAdd a b = Inr c"
proof -
  have dist: "distinct (map Denom a)" "distinct (map Denom b)" "Coins_IsSorted a" "Coins_IsSorted b"
    using assms(1,2) by (auto simp: denom_sorted_def strict_sorted_iff Coins_IsSorted_iff)
  have single: "c \<in> set cs \<Longrightarrow> denom_sorted cs \<Longrightarrow> camt cs (Denom c) = Amount c" for c cs
    using amt_in [of "cps cs" "(Denom c, Amount c)"] by (auto simp: denom_sorted_iff set_cps)
  obtain m where m: "rfold uniq_step [] a = Inr m"
    using uniq_fold_total [of "[]" a] dist(1) single [OF _ assms(1)] assms(4)
    by (metis add_0 amt_list(1) cps_list(1) list.simps(8) uniq_ok_def distinct.simps(1) empty_iff list.set(1))
  have ok: "uniq_ok m" "\<And>d. camt (map snd m) d = camt a d"
    using uniq_fold_exact [OF _ m] by (auto simp: uniq_ok_def)
  obtain m' where "rfold uniq_step m b = Inr m'"
    using uniq_fold_total [OF ok(1) dist(2)] single [OF _ assms(2)] assms(3) by (metis ok(2))
  then show ?thesis using m dist by (simp add: Coins_safeAdd_def rfold_append)
qed

lemma Coins_safeAdd_int256:
  assumes "Coins_safeAdd a b = Inr c" "\<forall>x \<in> set a \<union> set b. int256 (Amount x)"
  shows "\<forall>x \<in> set c. int256 (Amount x)"
proof -
  obtain m where m: "rfold uniq_step [] (a @ b) = Inr m"
    and c: "c = Coins_Sort (map (\<lambda>(denom, c). c\<lparr>Denom := denom\<rparr>) (filter (\<lambda>(denom, c). \<not> Coin_IsZero c) m))"
    using assms by (auto simp: Coins_safeAdd_def res_simps split: if_splits)
  show ?thesis using uniq_fold_int256 [OF m] assms(2) by (auto simp: c)
qed

lemma canon_denoms:
  "canon (cps c) \<Longrightarrow> x \<in> set c \<Longrightarrow> camt c (Denom x) = Amount x \<and> Amount x \<noteq> 0"
  using amt_in [of "cps c" "(Denom x, Amount x)"] by (auto simp: canon_def set_cps)

lemma camt_in: "camt c d \<noteq> 0 \<Longrightarrow> d \<in> Denom ` set c"
  using amt_absent [of d "cps c"] by (auto simp: set_cps image_iff)

lemma coins_okI:
  assumes "canon (cps c)" "\<And>d. 0 \<le> camt c d" "\<And>d. camt c d \<noteq> 0 \<Longrightarrow> vd d" "\<forall>x \<in> set c. int256 (Amount x)"
  shows "coins_ok vd c"
  unfolding coins_ok_iff
proof (intro conjI ballI)
  fix x assume x: "x \<in> set c"
  note am = canon_denoms [OF assms(1) x]
  show "vd (Denom x)" "0 < Amount x" "int256 (Amount x)"
    using am assms(2,3) [of "Denom x"] assms(4) x by auto
qed (rule assms)

lemma coins_ok_vd: "coins_ok vd c \<Longrightarrow> camt c d \<noteq> 0 \<Longrightarrow> vd d"
  using camt_in [of c d] by (auto simp: coins_ok_iff)

lemma coins_ok_int256: "coins_ok vd c \<Longrightarrow> \<forall>x \<in> set c. int256 (Amount x)"
  by (simp add: coins_ok_iff)

lemma coins_ok_amt: "coins_ok vd c \<Longrightarrow> x \<in> set c \<Longrightarrow> camt c (Denom x) = Amount x"
  using canon_denoms [of c x] by (simp add: coins_ok_iff)

lemma int256_diff: "int256 a \<Longrightarrow> int256 b \<Longrightarrow> 0 \<le> a \<Longrightarrow> 0 \<le> b \<Longrightarrow> int256 (a - b)"
  by (auto simp: int256_def)

lemma Coins_Add_ok:
  assumes "coins_ok vd a" "coins_ok vd b" "Coins_Add a b = Inr c"
  shows "coins_ok vd c \<and> (\<forall>d. camt c d = camt a d + camt b d)"
proof -
  note ex = Coins_safeAdd_exact [OF assms(3) [unfolded Coins_Add_def]]
  have "vd d" if "camt c d \<noteq> 0" for d
    using ex that coins_ok_vd [OF assms(1), of d] coins_ok_vd [OF assms(2), of d] by fastforce
  moreover have "\<forall>x \<in> set c. int256 (Amount x)"
    using Coins_safeAdd_int256 [OF assms(3) [unfolded Coins_Add_def]] assms(1,2) by (auto dest: coins_ok_int256)
  ultimately show ?thesis
    using ex coins_ok_nonneg [OF assms(1)] coins_ok_nonneg [OF assms(2)] by (auto intro!: coins_okI)
qed

lemma Coins_Add_total:
  "coins_ok vd a \<Longrightarrow> coins_ok vd b \<Longrightarrow> (\<And>d. int256 (camt a d + camt b d)) \<Longrightarrow> \<exists>c. Coins_Add a b = Inr c"
  unfolding Coins_Add_def
  by (rule Coins_safeAdd_total) (auto intro: coins_ok_fits)

section \<open>Sanitising\<close>

lemma cps_removeZero: "cps (removeZeroCoins cs) = filter (\<lambda>x. snd x \<noteq> 0) (cps cs)"
  by (induction cs) (auto simp: removeZeroCoins_def)

lemma cps_sanitize: "cps (sanitizeCoins cs) = sort_key fst (filter (\<lambda>x. snd x \<noteq> 0) (cps cs))"
  by (simp add: sanitizeCoins_def Let_def cps_Sort cps_removeZero flip: cps_list(5))

lemma camt_sanitize [simp]: "camt (sanitizeCoins cs) = camt cs"
  by (simp add: cps_sanitize amt_nonzero)

lemma NewCoins_Inr:
  "NewCoins vd cs = Inr r \<longleftrightarrow> r = sanitizeCoins cs \<and> Coins_IsValid vd r"
  by (auto simp: NewCoins_def Let_def Coins_IsValid_def res_simps)

lemma sanitize_valid_iff:
  "Coins_IsValid vd (sanitizeCoins cs) \<longleftrightarrow>
     distinct (map Denom (removeZeroCoins cs)) \<and>
     (\<forall>c \<in> set cs. Amount c \<noteq> 0 \<longrightarrow> vd (Denom c) \<and> 0 < Amount c)"
proof -
  have "set (sanitizeCoins cs) = {c \<in> set cs. Amount c \<noteq> 0}"
    by (auto simp: sanitizeCoins_def Let_def removeZeroCoins_def filter_empty_conv)
  moreover have "canon (cps (sanitizeCoins cs)) \<longleftrightarrow> distinct (map Denom (removeZeroCoins cs))"
  proof -
    have "distinct (map Denom (removeZeroCoins cs)) \<longleftrightarrow> distinct (map fst (cps (removeZeroCoins cs)))"
      by (simp add: cps_def comp_def)
    also have "\<dots> \<longleftrightarrow> distinct (map fst (sort_key fst (cps (removeZeroCoins cs))))"
      by (simp add: distinct_map)
    also have "\<dots> \<longleftrightarrow> canon (cps (sanitizeCoins cs))"
      by (auto simp: cps_sanitize cps_removeZero canon_def om_ok_def strict_sorted_iff)
    finally show ?thesis by simp
  qed
  ultimately show ?thesis by (auto simp: Coins_IsValid_def Coins_Validate_iff)
qed

lemma canon_sanitize: "canon (cps cs) \<Longrightarrow> sanitizeCoins cs = cs"
  by (rule cps_inj)
    (auto simp: cps_sanitize canon_def om_ok_def strict_sorted_iff sort_key_id_if_sorted
      intro!: filter_True)

lemma NewCoins_ok [simp]: "coins_ok vd cs \<Longrightarrow> NewCoins vd cs = Inr cs"
  by (simp add: NewCoins_Inr canon_sanitize coins_ok_iff Coins_IsValid_def Coins_Validate_iff)

lemma cps_negative: "cps (Coins_negative cs) = map (\<lambda>x. (fst x, - snd x)) (cps cs)"
  by (simp add: Coins_negative_def cps_def Int_Neg_def)

lemma camt_negative: "denom_sorted cs \<Longrightarrow> camt (Coins_negative cs) d = - camt cs d"
  unfolding cps_negative by (rule amt_map_values) (simp_all add: denom_sorted_iff)

lemma Coins_SafeSub_ok:
  assumes "coins_ok vd a" "coins_ok vd b"
  shows "\<exists>diff. Coins_SafeSub vd a b = Inr (diff, \<exists>d. camt a d < camt b d) \<and>
    canon (cps diff) \<and> (\<forall>d. camt diff d = camt a d - camt b d) \<and> (\<forall>x \<in> set diff. int256 (Amount x))"
proof -
  note nn = coins_ok_nonneg [OF assms(1)] coins_ok_nonneg [OF assms(2)]
  have neg: "denom_sorted (Coins_negative b)" "camt (Coins_negative b) d = - camt b d" for d
    using assms(2) coins_ok_denom_sorted [OF assms(2)] camt_negative [of b d]
    by (simp_all add: denom_sorted_iff cps_negative)
  have fit: "int256 (camt a d + camt (Coins_negative b) d)" for d
    using int256_diff [OF coins_ok_fits [OF assms(1)] coins_ok_fits [OF assms(2)] nn] by (simp add: neg(2))
  obtain diff where add: "Coins_safeAdd a (Coins_negative b) = Inr diff"
    using Coins_safeAdd_total [OF _ neg(1) fit] assms(1) coins_ok_fits [OF assms(1)] by auto
  note ex = Coins_safeAdd_exact [OF add]
  have "\<forall>x \<in> set diff. int256 (Amount x)"
    using coins_ok_int256 [OF assms(1)] coins_ok_int256 [OF assms(2)]
    by (intro Coins_safeAdd_int256 [OF add]) (auto simp: Coins_negative_def Int_Neg_def int256_def)
  moreover have "Coins_IsAnyNegative diff \<longleftrightarrow> (\<exists>d. camt a d < camt b d)"
  proof
    assume "Coins_IsAnyNegative diff"
    then obtain x where x: "x \<in> set diff" "Amount x < 0" by (auto simp: Coins_IsAnyNegative_def list_ex_iff)
    then show "\<exists>d. camt a d < camt b d"
      using canon_denoms [of diff x] ex by (intro exI [of _ "Denom x"]) (auto simp: neg(2))
  next
    assume "\<exists>d. camt a d < camt b d"
    then obtain d where d: "camt diff d < 0" using ex by (auto simp: neg(2))
    then obtain x where x: "x \<in> set diff" "d = Denom x" using camt_in [of diff d] by auto
    then show "Coins_IsAnyNegative diff"
      using canon_denoms [of diff x] ex d by (auto simp: Coins_IsAnyNegative_def list_ex_iff)
  qed
  ultimately show ?thesis
    using ex add assms(2) by (intro exI [of _ diff]) (simp add: Coins_SafeSub_def neg(2))
qed

lemma Coins_Sub_ok:
  assumes "coins_ok vd a" "coins_ok vd b" "Coins_Sub vd a b = Inr c"
  shows "coins_ok vd c \<and> (\<forall>d. camt c d = camt a d - camt b d)"
proof -
  obtain diff where diff: "Coins_SafeSub vd a b = Inr (diff, \<exists>d. camt a d < camt b d)"
    "canon (cps diff)" "\<And>d. camt diff d = camt a d - camt b d" "\<forall>x \<in> set diff. int256 (Amount x)"
    using Coins_SafeSub_ok [OF assms(1,2)] by blast
  have c: "c = diff" and le: "\<And>d. camt b d \<le> camt a d"
    using assms(3) diff(1) by (auto simp: Coins_Sub_def not_less split: if_splits)
  have "vd d" if "camt diff d \<noteq> 0" for d
    using that le [of d] coins_ok_vd [OF assms(1), of d] coins_ok_nonneg [OF assms(2), of d] diff(3) [of d] by fastforce
  then show ?thesis unfolding c using diff le by (auto intro!: coins_okI)
qed

lemma Coins_Sub_total:
  assumes "coins_ok vd a" "coins_ok vd b" "\<And>d. camt b d \<le> camt a d"
  shows "\<exists>c. Coins_Sub vd a b = Inr c"
proof -
  have "\<not> (\<exists>d. camt a d < camt b d)" using assms(3) by (simp add: not_less)
  then show ?thesis using Coins_SafeSub_ok [OF assms(1,2)] by (auto simp: Coins_Sub_def)
qed

interpretation coins: coin_set "coins_ok vd" camt int256 Coins_Add "Coins_Sub vd" for vd
proof
  show "coins_ok vd a \<Longrightarrow> coins_ok vd b \<Longrightarrow> (\<And>d. camt a d = camt b d) \<Longrightarrow> a = b" for a b
    by (rule coins_ok_ext)
  show "int256 y \<Longrightarrow> 0 \<le> x \<Longrightarrow> x \<le> y \<Longrightarrow> int256 x" for x y by (auto simp: int256_def)
qed (rule coins_ok_nonneg coins_ok_fits Coins_Add_ok Coins_Add_total Coins_Sub_ok Coins_Sub_total; assumption)+

section \<open>Comparison\<close>

lemma ball_amt:
  assumes "coins_ok vd b" "\<And>d. camt b d = 0 \<Longrightarrow> P d 0"
  shows "(\<forall>x \<in> set b. P (Denom x) (Amount x)) \<longleftrightarrow> (\<forall>d. P d (camt b d))"
proof
  assume all: "\<forall>x \<in> set b. P (Denom x) (Amount x)"
  show "\<forall>d. P d (camt b d)"
  proof
    fix d show "P d (camt b d)"
    proof (cases "camt b d = 0")
      case False
      then obtain x where x: "x \<in> set b" "d = Denom x" using camt_in [of b d] by auto
      then show ?thesis using all coins_ok_amt [OF assms(1) x(1)] by auto
    qed (use assms(2) in simp)
  qed
next
  assume all: "\<forall>d. P d (camt b d)"
  show "\<forall>x \<in> set b. P (Denom x) (Amount x)"
  proof
    fix x assume "x \<in> set b"
    then show "P (Denom x) (Amount x)" using all coins_ok_amt [OF assms(1), of x] by metis
  qed
qed

lemma bex_amt:
  assumes "coins_ok vd b" "\<And>d. \<not> P d 0"
  shows "(\<exists>x \<in> set b. P (Denom x) (Amount x)) \<longleftrightarrow> (\<exists>d. P d (camt b d))"
  using ball_amt [OF assms(1), of "\<lambda>d a. \<not> P d a"] assms(2) by blast

lemma AmountOf_member:
  "coins_ok vd a \<Longrightarrow> coins_ok vd b \<Longrightarrow> x \<in> set b \<Longrightarrow> Coins_AmountOf vd a (Denom x) = Inr (camt a (Denom x))"
  by (rule Coins_AmountOf_ok) (simp_all add: coins_ok_iff)

lemma Coins_IsAllGTE_iff [coin_simps]:
  assumes "coins_ok vd a" "coins_ok vd b"
  shows "Coins_IsAllGTE vd a b = Inr (\<forall>d. camt b d \<le> camt a d)"
proof -
  have ne: "\<exists>d. \<not> camt b d \<le> 0" if "b \<noteq> []"
  proof -
    have "hd b \<in> set b" using that by simp
    then show ?thesis
      using coins_ok_amt [OF assms(2), of "hd b"] assms(2)
      by (intro exI [of _ "Denom (hd b)"]) (auto simp: coins_ok_iff)
  qed
  have "rall (\<lambda>b. rbind (Coins_AmountOf vd a (Denom b)) (\<lambda>am. Inr (\<not> Amount b > am))) b =
      Inr (\<forall>x \<in> set b. Amount x \<le> camt a (Denom x))"
    by (rule rall_total) (simp add: AmountOf_member [OF assms] not_less)
  then show ?thesis
    using ne ball_amt [OF assms(2), of "\<lambda>d am. am \<le> camt a d"] coins_ok_nonneg [OF assms(1)]
    by (auto simp: Coins_IsAllGTE_def)
qed

lemma denom_count:
  assumes "coins_ok vd a" "coins_ok vd b" "\<forall>x \<in> set b. camt a (Denom x) \<noteq> 0"
  shows "length b \<le> length a"
proof -
  have dist: "distinct (map Denom cs)" if "coins_ok vd cs" for cs
    using that coins_ok_denom_sorted [OF that] by (simp add: denom_sorted_def strict_sorted_iff)
  have "set (map Denom b) \<subseteq> set (map Denom a)" using assms(3) camt_in [of a] by auto
  then show ?thesis
    using distinct_card [OF dist [OF assms(1)]] distinct_card [OF dist [OF assms(2)]]
      card_mono [of "set (map Denom a)" "set (map Denom b)"] by simp
qed

lemma DenomsSubsetOf_iff [coin_simps]:
  assumes "coins_ok vd b" "coins_ok vd a"
  shows "DenomsSubsetOf vd b a = Inr (\<forall>d. camt b d \<noteq> 0 \<longrightarrow> camt a d \<noteq> 0)"
proof -
  have "rall (\<lambda>c. rbind (Coins_AmountOf vd a (Denom c)) (\<lambda>am. Inr (am \<noteq> 0))) b =
      Inr (\<forall>x \<in> set b. camt a (Denom x) \<noteq> 0)"
    by (rule rall_total) (simp add: AmountOf_member [OF assms(2,1)])
  moreover have "(\<forall>x \<in> set b. camt a (Denom x) \<noteq> 0) \<longleftrightarrow> (\<forall>d. camt b d \<noteq> 0 \<longrightarrow> camt a d \<noteq> 0)"
  proof
    show "\<forall>d. camt b d \<noteq> 0 \<longrightarrow> camt a d \<noteq> 0" if "\<forall>x \<in> set b. camt a (Denom x) \<noteq> 0"
      using that camt_in [of b] by auto
    show "\<forall>x \<in> set b. camt a (Denom x) \<noteq> 0" if "\<forall>d. camt b d \<noteq> 0 \<longrightarrow> camt a d \<noteq> 0"
      using that canon_denoms [of b] assms(1) by (auto simp: coins_ok_iff)
  qed
  ultimately show ?thesis
    using denom_count [OF assms(2,1)] by (auto simp: DenomsSubsetOf_def)
qed

lemma Coins_IsAllGT_iff [coin_simps]:
  assumes "coins_ok vd a" "coins_ok vd b"
  shows "Coins_IsAllGT vd a b = Inr (a \<noteq> [] \<and> (\<forall>d. camt b d \<noteq> 0 \<longrightarrow> camt b d < camt a d))"
proof -
  have "rall (\<lambda>b. rbind (Coins_AmountOf vd a (Denom b)) (\<lambda>am. Inr (am > Amount b))) b =
      Inr (\<forall>x \<in> set b. Amount x < camt a (Denom x))"
    by (rule rall_total) (simp add: AmountOf_member [OF assms])
  moreover have "(\<forall>x \<in> set b. Amount x < camt a (Denom x)) \<longleftrightarrow> (\<forall>d. camt b d \<noteq> 0 \<longrightarrow> camt b d < camt a d)"
    using ball_amt [OF assms(2), of "\<lambda>d am. am \<noteq> 0 \<longrightarrow> am < camt a d"] assms(2)
    by (auto simp: coins_ok_iff)
  moreover have "camt a d \<noteq> 0" if "\<forall>d. camt b d \<noteq> 0 \<longrightarrow> camt b d < camt a d" "camt b d \<noteq> 0" for d
    using that coins_ok_nonneg [OF assms(2), of d] by fastforce
  ultimately show ?thesis
    using DenomsSubsetOf_iff [OF assms(2,1)] by (auto simp: Coins_IsAllGT_def)
qed

lemma Coins_IsAny_iff [coin_simps]:
  assumes "coins_ok vd a" "coins_ok vd b"
  shows "Coins_IsAnyGT vd a b = Inr (\<exists>d. camt b d \<noteq> 0 \<and> camt b d < camt a d)"
    and "Coins_IsAnyGTE vd a b = Inr (\<exists>d. camt b d \<noteq> 0 \<and> camt b d \<le> camt a d)"
proof -
  have "rany (\<lambda>c. rbind (Coins_AmountOf vd b (Denom c)) (\<lambda>am. Inr (Amount c > am \<and> am \<noteq> 0))) a =
      Inr (\<exists>x \<in> set a. Amount x > camt b (Denom x) \<and> camt b (Denom x) \<noteq> 0)"
    by (rule rany_total) (simp add: AmountOf_member [OF assms(2,1)])
  then show "Coins_IsAnyGT vd a b = Inr (\<exists>d. camt b d \<noteq> 0 \<and> camt b d < camt a d)"
    using bex_amt [OF assms(1), of "\<lambda>d am. am > camt b d \<and> camt b d \<noteq> 0"] coins_ok_nonneg [OF assms(2)]
    by (auto simp: Coins_IsAnyGT_def not_less)
  have "rany (\<lambda>c. rbind (Coins_AmountOf vd b (Denom c)) (\<lambda>am. Inr (Amount c \<ge> am \<and> am \<noteq> 0))) a =
      Inr (\<exists>x \<in> set a. Amount x \<ge> camt b (Denom x) \<and> camt b (Denom x) \<noteq> 0)"
    by (rule rany_total) (simp add: AmountOf_member [OF assms(2,1)])
  moreover have "\<not> (0 \<ge> camt b d \<and> camt b d \<noteq> 0)" for d
    using coins_ok_nonneg [OF assms(2), of d] by auto
  ultimately show "Coins_IsAnyGTE vd a b = Inr (\<exists>d. camt b d \<noteq> 0 \<and> camt b d \<le> camt a d)"
    using bex_amt [OF assms(1), of "\<lambda>d am. am \<ge> camt b d \<and> camt b d \<noteq> 0"]
    by (auto simp: Coins_IsAnyGTE_def)
qed

section \<open>Maximum and minimum\<close>

definition all_pos :: "Coin list \<Rightarrow> bool" where
  "all_pos cs \<longleftrightarrow> (\<forall>c \<in> set cs. 0 < Amount c)"

lemma all_pos_nonneg: "all_pos cs \<Longrightarrow> 0 \<le> camt cs d"
  by (rule amt_sign) (auto simp: all_pos_def set_cps)

lemma camt_above: "\<forall>x \<in> set cs. d < Denom x \<Longrightarrow> camt cs d = 0"
  using camt_in [of cs d] by auto

lemma max_loop_from: "set (max_loop a b) \<subseteq> set a \<union> set b"
  by (induction a b rule: max_loop.induct) auto

lemma min_loop_from: "set (min_loop a b) \<subseteq> set a \<union> set b"
  by (induction a b rule: min_loop.induct) (auto simp: Let_def)

lemma max_loop_sorted: "denom_sorted a \<Longrightarrow> denom_sorted b \<Longrightarrow> denom_sorted (max_loop a b)"
proof (induction a b rule: max_loop.induct)
  case (3 x a y b)
  have up: "\<forall>z \<in> set a. u < Denom z" if "u < Denom x" for u
    using 3(4) that by (auto simp: denom_sorted_Cons intro: order.strict_trans [OF that])
  have up': "\<forall>z \<in> set b. u < Denom z" if "u < Denom y" for u
    using 3(5) that by (auto simp: denom_sorted_Cons intro: order.strict_trans [OF that])
  consider "Denom x < Denom y" | "Denom x = Denom y" | "Denom y < Denom x" by fastforce
  then show ?case
  proof cases
    case 1
    then show ?thesis
      using 3 up'[OF 1] max_loop_from [of a "y # b"] by (auto simp: denom_sorted_Cons)
  next
    case 2
    then show ?thesis
      using 3 max_loop_from [of a b] by (auto simp: denom_sorted_Cons)
  next
    case 3
    then show ?thesis
      using "3.IH"(3) "3.prems" up[OF 3] max_loop_from [of "x # a" b] less_not_sym [OF 3]
      by (auto simp: denom_sorted_Cons)
  qed
qed auto

lemma max_loop_amt:
  "denom_sorted a \<Longrightarrow> denom_sorted b \<Longrightarrow> all_pos a \<Longrightarrow> all_pos b \<Longrightarrow>
     camt (max_loop a b) d = max (camt a d) (camt b d)"
proof (induction a b rule: max_loop.induct)
  case (3 x a y b)
  have nn: "0 \<le> camt a d" "0 \<le> camt b d" "0 < Amount x" "0 < Amount y"
    using 3 by (auto simp: all_pos_def intro!: all_pos_nonneg)
  have a0: "d = Denom x \<or> d < Denom x \<Longrightarrow> camt a d = 0"
    using 3(4) by (intro camt_above) (auto simp: denom_sorted_Cons intro: order.strict_trans)
  have b0: "d = Denom y \<or> d < Denom y \<Longrightarrow> camt b d = 0"
    using 3(5) by (intro camt_above) (auto simp: denom_sorted_Cons intro: order.strict_trans)
  have pos: "all_pos a" "all_pos b" "denom_sorted a" "denom_sorted b"
    using 3 by (auto simp: all_pos_def denom_sorted_Cons)
  consider "Denom x < Denom y" | "Denom x = Denom y" | "Denom y < Denom x" by fastforce
  then show ?case
  proof cases
    case 1
    then show ?thesis using "3.IH"(1) [OF 1 pos(3) "3.prems"(2) pos(1) "3.prems"(4)] nn a0 b0 by auto
  next
    case 2
    then show ?thesis using "3.IH"(2) [OF _ 2 pos(3,4) pos(1,2)] nn a0 b0 by auto
  next
    case 3
    then show ?thesis
      using "3.IH"(3) [OF less_not_sym [OF 3] _ "3.prems"(1) pos(4) "3.prems"(3) pos(2)] nn a0 b0 by auto
  qed
next
  case (2 v va)
  then show ?case using all_pos_nonneg [of "v # va" d] by (simp add: max_absorb1)
qed (simp add: max_absorb2 all_pos_nonneg)

lemma min_loop_sorted: "denom_sorted a \<Longrightarrow> denom_sorted b \<Longrightarrow> denom_sorted (min_loop a b)"
proof (induction a b rule: min_loop.induct)
  case (3 x a y b)
  have "denom_sorted a" "denom_sorted b" using 3 by (auto simp: denom_sorted_Cons)
  then show ?case
    using 3 min_loop_from [of a b] by (auto simp: denom_sorted_Cons Let_def)
qed (auto simp: denom_sorted_def)

lemma min_loop_amt:
  "denom_sorted a \<Longrightarrow> denom_sorted b \<Longrightarrow> all_pos a \<Longrightarrow> all_pos b \<Longrightarrow>
     camt (min_loop a b) d = min (camt a d) (camt b d)"
proof (induction a b rule: min_loop.induct)
  case (3 x a y b)
  have nn: "0 \<le> camt a d" "0 \<le> camt b d" "0 < Amount x" "0 < Amount y"
    using 3 by (auto simp: all_pos_def intro!: all_pos_nonneg)
  have a0: "d = Denom x \<or> d < Denom x \<Longrightarrow> camt a d = 0"
    using 3(4) by (intro camt_above) (auto simp: denom_sorted_Cons intro: order.strict_trans)
  have b0: "d = Denom y \<or> d < Denom y \<Longrightarrow> camt b d = 0"
    using 3(5) by (intro camt_above) (auto simp: denom_sorted_Cons intro: order.strict_trans)
  have pos: "all_pos a" "all_pos b" "denom_sorted a" "denom_sorted b"
    using 3 by (auto simp: all_pos_def denom_sorted_Cons)
  consider "Denom x < Denom y" | "Denom x = Denom y" | "Denom y < Denom x" by fastforce
  then show ?case
  proof cases
    case 1
    then show ?thesis using "3.IH"(1) [OF 1 pos(3) "3.prems"(2) pos(1) "3.prems"(4)] nn a0 b0 by auto
  next
    case 2
    then show ?thesis using "3.IH"(2) [OF _ 2 refl pos(3,4) pos(1,2)] nn a0 b0 by (auto simp: Let_def)
  next
    case 3
    then show ?thesis
      using "3.IH"(3) [OF less_not_sym [OF 3] _ "3.prems"(1) pos(4) "3.prems"(3) pos(2)] nn a0 b0 by auto
  qed
next
  case (2 v va)
  then show ?case using all_pos_nonneg [of "v # va" d] by (simp add: min_absorb2)
qed (simp add: min_absorb1 all_pos_nonneg)

lemma coins_ok_all_pos: "coins_ok vd cs \<Longrightarrow> all_pos cs"
  by (simp add: coins_ok_iff all_pos_def)

lemma subset_ok:
  assumes "denom_sorted c" "coins_ok vd a" "coins_ok vd b" "set c \<subseteq> set a \<union> set b"
  shows "coins_ok vd c"
  using assms by (fastforce simp: coins_ok_iff denom_sorted_iff canon_def set_cps)

lemma Coins_Max_ok:
  assumes "coins_ok vd a" "coins_ok vd b"
  shows "\<exists>c. Coins_Max vd a b = Inr c \<and> coins_ok vd c \<and> (\<forall>d. camt c d = max (camt a d) (camt b d))"
proof -
  have "coins_ok vd (max_loop a b)"
    using assms by (auto intro: subset_ok [OF max_loop_sorted _ _ max_loop_from])
  then show ?thesis
    using assms by (simp add: Coins_Max_def max_loop_amt coins_ok_all_pos)
qed

lemma Coins_Min_ok:
  assumes "coins_ok vd a" "coins_ok vd b"
  shows "\<exists>c. Coins_Min vd a b = Inr c \<and> coins_ok vd c \<and> (\<forall>d. camt c d = min (camt a d) (camt b d))"
proof -
  have "coins_ok vd (min_loop a b)"
    using assms by (auto intro: subset_ok [OF min_loop_sorted _ _ min_loop_from])
  then show ?thesis
    using assms by (simp add: Coins_Min_def min_loop_amt coins_ok_all_pos)
qed

section \<open>Scalar multiplication and division\<close>

lemma NewCoin_Inr [coin_simps]:
  "NewCoin vd d a = Inr c \<longleftrightarrow> vd d \<and> 0 \<le> a \<and> c = \<lparr> Denom = d, Amount = a \<rparr>"
  by (auto simp: NewCoin_def Coin_Validate_def ValidateDenom_def guard_res_def Let_def must_def
      split: if_splits sum.splits)

lemma NewCoin_ok: "vd d \<Longrightarrow> 0 \<le> a \<Longrightarrow> NewCoin vd d a = Inr \<lparr> Denom = d, Amount = a \<rparr>"
  by (simp add: NewCoin_Inr)

lemma cps_map_amount: "cps (map (\<lambda>c. \<lparr> Denom = Denom c, Amount = f (Amount c) \<rparr>) cs) = map (\<lambda>x. (fst x, f (snd x))) (cps cs)"
  by (simp add: cps_def)

lemma Coins_MulInt_ok:
  assumes "coins_ok vd a" "0 < x" "\<forall>d. int256 (camt a d * x)"
  shows "\<exists>c. Coins_MulInt vd a x = Inr c \<and> coins_ok vd c \<and> (\<forall>d. camt c d = camt a d * x)"
proof -
  let ?f = "\<lambda>c. \<lparr> Denom = Denom c, Amount = Amount c * x \<rparr>"
  have each: "int256 (Amount c * x)" if "c \<in> set a" for c
    using coins_ok_amt [OF assms(1) that] assms(3) by metis
  have "rmap (\<lambda>c. rbind (Int_Mul (Amount c) x) (NewCoin vd (Denom c))) a = Inr (map ?f a)"
    using assms(1,2) each by (intro rmap_total) (auto simp: sdkint coins_ok_iff intro!: NewCoin_ok)
  moreover have "coins_ok vd (map ?f a)"
    using assms(1,2) each
    by (auto simp: coins_ok_iff cps_map_amount [of "\<lambda>am. am * x"] canon_def
        om_ok_map_values [of "\<lambda>am. am * x"])
  moreover have "camt (map ?f a) d = camt a d * x" for d
    using coins_ok_denom_sorted [OF assms(1)]
    by (simp add: cps_map_amount [of "\<lambda>am. am * x"] amt_map_values [of _ "\<lambda>am. am * x"] denom_sorted_iff)
  ultimately show ?thesis using assms(2) by (simp add: Coins_MulInt_def Coins_SafeMulInt_def)
qed

lemma Coins_QuoInt_ok:
  assumes "coins_ok vd a" "0 < x"
  shows "\<exists>c. Coins_QuoInt vd a x = Inr c \<and> map Denom c = map Denom a \<and> (\<forall>d. camt c d = camt a d div x)"
proof -
  let ?f = "\<lambda>c. \<lparr> Denom = Denom c, Amount = Amount c div x \<rparr>"
  have "rmap (\<lambda>c. rbind (Int_Quo (Amount c) x) (NewCoin vd (Denom c))) a = Inr (map ?f a)"
    using assms
    by (intro rmap_total)
      (auto simp: sdkint coins_ok_iff sdiv_nonneg_eq less_imp_le pos_imp_zdiv_nonneg_iff intro!: NewCoin_ok)
  moreover have "camt (map ?f a) d = camt a d div x" for d
    using coins_ok_denom_sorted [OF assms(1)]
    by (simp add: cps_map_amount [of "\<lambda>am. am div x"] amt_map_values [of _ "\<lambda>am. am div x"] denom_sorted_iff)
  ultimately show ?thesis using assms(2) by (simp add: Coins_QuoInt_def Coins_SafeQuoInt_def)
qed

lemma denom_sorted_unique: "denom_sorted cs \<Longrightarrow> x \<in> set cs \<Longrightarrow> y \<in> set cs \<Longrightarrow> Denom x = Denom y \<Longrightarrow> x = y"
  by (induction cs) (auto simp: denom_sorted_Cons)

lemma find_unique:
  assumes "c \<in> set cs" "P c" and uniq: "\<And>x. x \<in> set cs \<Longrightarrow> P x \<Longrightarrow> x = c"
  shows "find P cs = Some c"
proof (cases "find P cs")
  case None
  then show ?thesis using assms(1,2) by (simp add: find_None_iff)
next
  case (Some x)
  then have "x \<in> set cs" "P x" by (auto simp: find_Some_iff)
  then show ?thesis using uniq [of x] Some by simp
qed

section \<open>Properties\<close>

text \<open>
  C20: \<open>NewCoins\<close> succeeds exactly when the non-zero coins it is given have distinct, valid
  denominations and positive amounts, and then it returns exactly those coins in strictly
  ascending order of their denominations; every other input makes it panic.
\<close>

theorem NewCoins_canonical:
  "NewCoins vd cs = Inr r \<longleftrightarrow>
     mset r = mset (filter (\<lambda>c. Amount c \<noteq> 0) cs) \<and> sorted_wrt (<) (map Denom r) \<and>
     list_all (\<lambda>c. vd (Denom c) \<and> 0 < Amount c) r"
proof
  assume "NewCoins vd cs = Inr r"
  then have r: "r = sanitizeCoins cs" "Coins_IsValid vd r" by (auto simp: NewCoins_Inr)
  have "mset r = mset (filter (\<lambda>c. Amount c \<noteq> 0) cs)"
    unfolding r(1) by (auto simp: sanitizeCoins_def removeZeroCoins_def Let_def filter_empty_conv)
  then show "mset r = mset (filter (\<lambda>c. Amount c \<noteq> 0) cs) \<and> sorted_wrt (<) (map Denom r) \<and>
     list_all (\<lambda>c. vd (Denom c) \<and> 0 < Amount c) r"
    using r(2) by (simp add: Coins_IsValid_def Coins_Validate_iff canon_def list_all_iff
        flip: denom_sorted_iff denom_sorted_def)
next
  assume r: "mset r = mset (filter (\<lambda>c. Amount c \<noteq> 0) cs) \<and> sorted_wrt (<) (map Denom r) \<and>
     list_all (\<lambda>c. vd (Denom c) \<and> 0 < Amount c) r"
  then have can: "canon (cps r)" and valid: "Coins_IsValid vd r"
    by (auto simp: Coins_IsValid_def Coins_Validate_iff canon_def list_all_iff set_cps
        simp flip: denom_sorted_iff denom_sorted_def)
  have ms: "mset (cps r) = mset (filter (\<lambda>x. snd x \<noteq> 0) (cps cs))"
    using r by (simp add: cps_def filter_map comp_def)
  then have "mset (map fst (cps r)) = mset (map fst (filter (\<lambda>x. snd x \<noteq> 0) (cps cs)))" by simp
  then have "distinct (map fst (filter (\<lambda>x. snd x \<noteq> 0) (cps cs)))"
    using can by (metis canon_def mset_eq_imp_distinct_iff om_ok_distinct)
  then have "canon (sort_key fst (filter (\<lambda>x. snd x \<noteq> 0) (cps cs)))" by (intro canon_sort_key) auto
  then have "cps r = sort_key fst (filter (\<lambda>x. snd x \<noteq> 0) (cps cs))"
    by (rule canon_ext [OF can]) (simp add: amt_mset [OF ms])
  then have "r = sanitizeCoins cs" by (intro cps_inj) (simp add: cps_sanitize)
  then show "NewCoins vd cs = Inr r" using valid by (simp add: NewCoins_Inr)
qed

lemma Coins_Find_find:
  assumes "sorted_wrt (<) (map Denom cs)"
  shows "Coins_Find cs d = find (\<lambda>c. Denom c = d) cs"
proof (cases "Coins_Find cs d")
  case None
  then show ?thesis
    using Coins_Find_correct [of cs d] assms find_None_iff2 [of "\<lambda>c. Denom c = d" cs]
    by (auto simp: denom_sorted_def)
next
  case (Some c)
  then have c: "c \<in> set cs" "Denom c = d"
    using Coins_Find_correct [of cs d] assms by (auto simp: denom_sorted_def)
  have "find (\<lambda>c. Denom c = d) cs = Some c"
  proof (rule find_unique)
    show "x = c" if "x \<in> set cs" "Denom x = d" for x
      using that c assms by (intro denom_sorted_unique [OF _ that(1) c(1)]) (simp_all add: denom_sorted_def)
  qed (use c in auto)
  with Some show ?thesis by simp
qed

text \<open>
  C21: The binary search of \<open>Coins.Find\<close> is a linear search on every set whose denominations strictly ascend.  So
  \<open>AmountOf\<close> returns the amount of the coin of a valid denomination that is in the set, which is what the set holds of
  it, returns zero when there is none, and panics on an invalid denomination.
\<close>

theorem Coins_Find_linear:
  assumes "sorted_wrt (<) (map Denom cs)"
  shows "Coins_Find cs d = find (\<lambda>c. Denom c = d) cs \<and>
    Coins_AmountOf vd cs d = (if vd d then Inr (camt cs d) else Inl (Panic ''invalid denom'')) \<and>
    (\<forall>c \<in> set cs. camt cs (Denom c) = Amount c) \<and> (d \<notin> Denom ` set cs \<longrightarrow> camt cs d = 0)"
proof -
  have sorted: "denom_sorted cs" using assms by (simp add: denom_sorted_def)
  have amt: "camt cs (Denom c) = Amount c" if "c \<in> set cs" for c
    using amt_in [of "cps cs" "(Denom c, Amount c)"] that sorted by (auto simp: denom_sorted_iff set_cps)
  moreover have none: "camt cs d = 0" if "d \<notin> Denom ` set cs" for d
    using that by (intro amt_absent) (auto simp: set_cps)
  moreover have "AmountOfNoDenomValidation cs d = camt cs d"
  proof (cases "find (\<lambda>c. Denom c = d) cs")
    case None
    then show ?thesis using none [of d] find_None_iff [of "\<lambda>c. Denom c = d" cs]
      by (auto simp: AmountOfNoDenomValidation_def Coins_Find_find [OF assms])
  next
    case (Some c)
    then have "c \<in> set cs" "Denom c = d" by (auto simp: find_Some_iff)
    with Some amt show ?thesis by (auto simp: AmountOfNoDenomValidation_def Coins_Find_find [OF assms])
  qed
  ultimately show ?thesis
    by (simp add: Coins_Find_find [OF assms] Coins_AmountOf_def mustValidateDenom_def ValidateDenom_def guard_res_def must_def)
qed

theorem Coins_Find_linear_witness:
  "Coins_Find [\<lparr> Denom = ''atom'', Amount = 3 \<rparr>, \<lparr> Denom = ''osmo'', Amount = 5 \<rparr>] ''osmo'' =
     Some \<lparr> Denom = ''osmo'', Amount = 5 \<rparr> \<and>
   Coins_AmountOf (\<lambda>_. True) [\<lparr> Denom = ''atom'', Amount = 3 \<rparr>, \<lparr> Denom = ''osmo'', Amount = 5 \<rparr>] ''osmo'' = Inr 5"
  using Coins_Find_linear [of "[\<lparr> Denom = ''atom'', Amount = 3 \<rparr>, \<lparr> Denom = ''osmo'', Amount = 5 \<rparr>]" "''osmo''" "\<lambda>_. True"]
  by simp

text \<open>
  C19: On valid coin sets with 256-bit amounts, \<open>Add\<close> is exact on every denomination and panics
  precisely when some total leaves 256 bits, \<open>Sub\<close> is exact and panics precisely when some amount
  would become negative, both return valid sets, and subtracting what was added gives the
  original set back.
\<close>

theorem Coins_add_sub_exact:
  assumes "coins_ok vd a" "coins_ok vd b"
  shows "(Coins_Add a b = Inr c \<longleftrightarrow> coins_ok vd c \<and> (\<forall>d. camt c d = camt a d + camt b d)) \<and>
    (Coins_Sub vd a b = Inr c \<longleftrightarrow> coins_ok vd c \<and> (\<forall>d. camt c d = camt a d - camt b d)) \<and>
    ((\<exists>e. Coins_Add a b = Inl e) \<longleftrightarrow> (\<exists>d. \<bar>camt a d + camt b d\<bar> \<ge> 2 ^ 256)) \<and>
    ((\<exists>e. Coins_Sub vd a b = Inl e) \<longleftrightarrow> (\<exists>d. camt a d < camt b d)) \<and>
    (Coins_Add a b = Inr c \<longrightarrow> Coins_Sub vd c b = Inr a)"
  using coins.add_iff [OF assms] coins.sub_iff [OF assms] coins.add_fault_iff [OF assms]
    coins.sub_fault_iff [OF assms] coins.sub_add [OF assms]
  by (simp add: int256_def not_less)

theorem Coins_add_sub_exact_witness:
  "Coins_Sub (\<lambda>_. True) [\<lparr> Denom = ''atom'', Amount = 3 \<rparr>, \<lparr> Denom = ''osmo'', Amount = 5 \<rparr>]
     [\<lparr> Denom = ''osmo'', Amount = 5 \<rparr>] = Inr [\<lparr> Denom = ''atom'', Amount = 3 \<rparr>]"
proof -
  let ?a = "[\<lparr> Denom = ''atom'', Amount = 3 \<rparr>, \<lparr> Denom = ''osmo'', Amount = 5 \<rparr>]"
  let ?b = "[\<lparr> Denom = ''osmo'', Amount = 5 \<rparr>]" and ?c = "[\<lparr> Denom = ''atom'', Amount = 3 \<rparr>]"
  have "coins_ok (\<lambda>_. True) ?a" "coins_ok (\<lambda>_. True) ?b" "coins_ok (\<lambda>_. True) ?c"
    by (simp_all add: coins_ok_iff int256_def)
  then show ?thesis using Coins_add_sub_exact [of "\<lambda>_. True" ?a ?b ?c] by simp
qed

text \<open>
  The comparisons of valid coin sets decide the pointwise order of amounts: \<open>IsAllGTE\<close> and
  \<open>IsAllLTE\<close> the order itself, \<open>IsAllGT\<close> that the receiver is not empty and strictly exceeds the argument in every
  denomination of the argument, \<open>IsAnyGT\<close> and \<open>IsAnyGTE\<close> that the receiver has more, or at least as much, of some
  denomination the argument holds.  The comments of the last two say the opposite, that the argument has more of
  some denomination of the receiver: where it has more of every denomination it holds, both return false.
\<close>

theorem Coins_comparisons:
  assumes "coins_ok vd a" "coins_ok vd b"
  shows "Coins_IsAllGTE vd a b = Inr (\<forall>d. camt b d \<le> camt a d) \<and>
    Coins_IsAllLTE vd a b = Inr (\<forall>d. camt a d \<le> camt b d) \<and>
    Coins_IsAllGT vd a b = Inr (a \<noteq> [] \<and> (\<forall>d. camt b d = 0 \<or> camt b d < camt a d)) \<and>
    Coins_IsAnyGT vd a b = Inr (\<exists>d. camt b d \<noteq> 0 \<and> camt b d < camt a d) \<and>
    Coins_IsAnyGTE vd a b = Inr (\<exists>d. camt b d \<noteq> 0 \<and> camt b d \<le> camt a d) \<and>
    ((\<forall>d. camt b d = 0 \<or> camt a d < camt b d) \<longrightarrow> Coins_IsAnyGT vd a b = Inr False \<and> Coins_IsAnyGTE vd a b = Inr False) \<and>
    DenomsSubsetOf vd a b = Inr (\<forall>d. camt a d = 0 \<or> camt b d \<noteq> 0)"
proof -
  have "(\<forall>d. camt b d \<noteq> 0 \<longrightarrow> camt b d < camt a d) = (\<forall>d. camt b d = 0 \<or> camt b d < camt a d)"
    "(\<forall>d. camt a d \<noteq> 0 \<longrightarrow> camt b d \<noteq> 0) = (\<forall>d. camt a d = 0 \<or> camt b d \<noteq> 0)" by auto
  moreover have "\<not> (\<exists>d. camt b d \<noteq> 0 \<and> camt b d < camt a d) \<and> \<not> (\<exists>d. camt b d \<noteq> 0 \<and> camt b d \<le> camt a d)"
    if "\<forall>d. camt b d = 0 \<or> camt a d < camt b d" using that by force
  ultimately show ?thesis
    using Coins_IsAllGTE_iff [OF assms] Coins_IsAllGTE_iff [OF assms(2,1)] Coins_IsAllGT_iff [OF assms]
      Coins_IsAny_iff [OF assms] DenomsSubsetOf_iff [OF assms]
    by (simp add: Coins_IsAllLTE_def)
qed

theorem Coins_comparisons_witness:
  "Coins_IsAllGTE (\<lambda>_. True) [\<lparr> Denom = ''atom'', Amount = 3 \<rparr>] [\<lparr> Denom = ''atom'', Amount = 2 \<rparr>] = Inr True"
proof -
  let ?a = "[\<lparr> Denom = ''atom'', Amount = 3 \<rparr>]" and ?b = "[\<lparr> Denom = ''atom'', Amount = 2 \<rparr>]"
  have "coins_ok (\<lambda>_. True) ?a" "coins_ok (\<lambda>_. True) ?b" by (simp_all add: coins_ok_iff int256_def)
  then show ?thesis using Coins_comparisons [of "\<lambda>_. True" ?a ?b] by simp
qed

text \<open>
  \<open>Max\<close> and \<open>Min\<close> of valid coin sets are the pointwise maximum and minimum, are valid again, and
  satisfy the documented law that their sum is the sum of the arguments.
\<close>

theorem Coins_Max_Min_lattice:
  assumes "coins_ok vd a" "coins_ok vd b"
  shows "\<exists>mx mn. Coins_Max vd a b = Inr mx \<and> Coins_Min vd a b = Inr mn \<and> coins_ok vd mx \<and> coins_ok vd mn \<and>
    (\<forall>d. camt mx d = max (camt a d) (camt b d) \<and> camt mn d = min (camt a d) (camt b d)) \<and>
    (\<forall>c. Coins_Add mn mx = Inr c \<longleftrightarrow> Coins_Add a b = Inr c)"
proof -
  obtain mx where mx: "Coins_Max vd a b = Inr mx" "coins_ok vd mx" "\<And>d. camt mx d = max (camt a d) (camt b d)"
    using Coins_Max_ok [OF assms] by blast
  obtain mn where mn: "Coins_Min vd a b = Inr mn" "coins_ok vd mn" "\<And>d. camt mn d = min (camt a d) (camt b d)"
    using Coins_Min_ok [OF assms] by blast
  have "camt mn d + camt mx d = camt a d + camt b d" for d by (simp add: mx mn min_def max_def)
  then have "Coins_Add mn mx = Inr c \<longleftrightarrow> Coins_Add a b = Inr c" for c
    using coins.add_iff [OF mn(2) mx(2), of c] coins.add_iff [OF assms, of c] by simp
  then show ?thesis using mx mn by blast
qed

theorem Coins_Max_Min_lattice_witness:
  "\<exists>mx mn. Coins_Max (\<lambda>_. True) [\<lparr> Denom = ''atom'', Amount = 3 \<rparr>] [\<lparr> Denom = ''osmo'', Amount = 2 \<rparr>] = Inr mx \<and>
     camt mx ''osmo'' = 2"
proof -
  let ?a = "[\<lparr> Denom = ''atom'', Amount = 3 \<rparr>]" and ?b = "[\<lparr> Denom = ''osmo'', Amount = 2 \<rparr>]"
  have "coins_ok (\<lambda>_. True) ?a" "coins_ok (\<lambda>_. True) ?b" by (simp_all add: coins_ok_iff int256_def)
  then obtain mx where "Coins_Max (\<lambda>_. True) ?a ?b = Inr mx" "camt mx ''osmo'' = max (camt ?a ''osmo'') (camt ?b ''osmo'')"
    using Coins_Max_Min_lattice [of "\<lambda>_. True" ?a ?b] by blast
  then show ?thesis by simp
qed

end
