(* ===== verification/LegacyDec.thy ===== *)
theory LegacyDec
  imports SdkInt
begin

text \<open>
  \<open>math.LegacyDec\<close> (\<open>src/math/legacy_dec.go\<close>): fixed-point decimals with 18 fractional digits.
  A decimal is the scaled integer held by its \<open>big.Int\<close>; the unit is \<open>precisionReuse = 10 ^ 18\<close>.
  The in-place (\<open>...Mut\<close>) operations and their copying counterparts return the same value,
  so one definition models both: a copy is made before the mutation and the result is returned.
\<close>

section \<open>Constants and constructors\<close>

type_synonym dec = int

definition LegacyPrecision :: nat where
  "LegacyPrecision = 18"

definition precisionReuse :: int where
  "precisionReuse = 10 ^ 18"

definition fivePrecision :: int where
  "fivePrecision = precisionReuse sdiv 2"

definition squaredPrecisionReuse :: int where
  "squaredPrecisionReuse = precisionReuse * precisionReuse"

definition upperLimit :: dec where
  "upperLimit = 2 ^ 256 * precisionReuse - 1"

definition lowerLimit :: dec where
  "lowerLimit = - upperLimit"

definition maxApproxRootIterations :: nat where
  "maxApproxRootIterations = 300"

definition LegacyZeroDec :: dec where "LegacyZeroDec = 0"

definition LegacyOneDec :: dec where "LegacyOneDec = precisionReuse"

definition LegacySmallestDec :: dec where "LegacySmallestDec = 1"

definition precisionMultiplier :: "int \<Rightarrow> int res" where
  "precisionMultiplier prec =
     (if prec < 0 then Inl (Panic ''negative precision'')
      else if prec > int LegacyPrecision then Inl (Panic ''too much precision'')
      else Inr (10 ^ (LegacyPrecision - nat prec)))"

definition LegacyNewDecWithPrec :: "int \<Rightarrow> int \<Rightarrow> dec res" where
  "LegacyNewDecWithPrec i prec = rbind (precisionMultiplier prec) (\<lambda>m. Inr (i * m))"

text \<open>\<open>LegacyNewDec\<close>, \<open>LegacyNewDecFromInt\<close> and \<open>LegacyNewDecFromBigInt\<close>: precision 0.\<close>

definition LegacyNewDecFromInt :: "int \<Rightarrow> dec" where
  "LegacyNewDecFromInt i = i * precisionReuse"

section \<open>Range\<close>

definition Dec_IsInValidRange :: "dec \<Rightarrow> bool" where
  "Dec_IsInValidRange d \<longleftrightarrow> \<not> (d > upperLimit \<or> d < lowerLimit)"

definition assertInValidRange :: "dec \<Rightarrow> dec res" where
  "assertInValidRange d = (if \<not> Dec_IsInValidRange d then Inl (Panic ''Int overflow'') else Inr d)"

section \<open>Rounding\<close>

text \<open>
  Banker's rounding of the 18 rightmost digits; the negative case negates, rounds and negates back.
\<close>

definition chop_nonneg :: "int \<Rightarrow> int" where
  "chop_nonneg d =
     (let quo = d sdiv precisionReuse; rem = d smod precisionReuse in
      if rem = 0 then quo
      else if rem < fivePrecision then quo
      else if rem > fivePrecision then quo + 1
      else if even quo then quo else quo + 1)"

definition chopPrecisionAndRound :: "int \<Rightarrow> int" where
  "chopPrecisionAndRound d = (if d < 0 then - chop_nonneg (- d) else chop_nonneg d)"

definition chopPrecisionAndTruncate :: "int \<Rightarrow> int" where
  "chopPrecisionAndTruncate d = d sdiv precisionReuse"

definition chopPrecisionAndRoundUp :: "int \<Rightarrow> int" where
  "chopPrecisionAndRoundUp d =
     (if d < 0 then - chopPrecisionAndTruncate (- d)
      else let quo = d sdiv precisionReuse; rem = d smod precisionReuse
           in if rem = 0 then quo else quo + 1)"

section \<open>Arithmetic\<close>

definition Dec_Add :: "dec \<Rightarrow> dec \<Rightarrow> dec res" where
  "Dec_Add d d2 = assertInValidRange (d + d2)"

definition Dec_Sub :: "dec \<Rightarrow> dec \<Rightarrow> dec res" where
  "Dec_Sub d d2 = assertInValidRange (d - d2)"

definition Dec_Mul :: "dec \<Rightarrow> dec \<Rightarrow> dec res" where
  "Dec_Mul d d2 = assertInValidRange (chopPrecisionAndRound (d * d2))"

definition Dec_MulTruncate :: "dec \<Rightarrow> dec \<Rightarrow> dec res" where
  "Dec_MulTruncate d d2 = assertInValidRange (chopPrecisionAndTruncate (d * d2))"

definition Dec_MulRoundUp :: "dec \<Rightarrow> dec \<Rightarrow> dec res" where
  "Dec_MulRoundUp d d2 = assertInValidRange (chopPrecisionAndRoundUp (d * d2))"

definition Dec_MulInt :: "dec \<Rightarrow> int \<Rightarrow> dec res" where
  "Dec_MulInt d i = assertInValidRange (d * i)"

definition Dec_Quo :: "dec \<Rightarrow> dec \<Rightarrow> dec res" where
  "Dec_Quo d d2 =
     (if d2 = 0 then Inl (Panic ''division by zero'')
      else assertInValidRange (chopPrecisionAndRound (d * squaredPrecisionReuse sdiv d2)))"

definition Dec_QuoTruncate :: "dec \<Rightarrow> dec \<Rightarrow> dec res" where
  "Dec_QuoTruncate d d2 =
     (if d2 = 0 then Inl (Panic ''division by zero'')
      else assertInValidRange (d * precisionReuse sdiv d2))"

text \<open>
  \<open>QuoRem\<close> overwrites the receiver with the quotient before \<open>d.IsNegative()\<close> is evaluated, so
  the sign that is tested is the sign of the truncated quotient, not of the dividend.
\<close>

definition Dec_QuoRoundUp :: "dec \<Rightarrow> dec \<Rightarrow> dec res" where
  "Dec_QuoRoundUp d d2 =
     (if d2 = 0 then Inl (Panic ''division by zero'')
      else let quo = d * precisionReuse sdiv d2; rem = d * precisionReuse smod d2 in
           assertInValidRange
             (if rem > 0 \<and> (quo < 0) = (d2 < 0) \<or> rem < 0 \<and> (quo < 0) \<noteq> (d2 < 0)
              then quo + 1 else quo))"

definition Dec_QuoInt :: "dec \<Rightarrow> int \<Rightarrow> dec res" where
  "Dec_QuoInt d i = (if i = 0 then Inl (Panic ''division by zero'') else Inr (d sdiv i))"

definition Dec_IsInteger :: "dec \<Rightarrow> bool" where
  "Dec_IsInteger d \<longleftrightarrow> d smod precisionReuse = 0"

definition Dec_RoundInt :: "dec \<Rightarrow> int res" where
  "Dec_RoundInt d = NewIntFromBigInt (chopPrecisionAndRound d)"

definition Dec_RoundInt64 :: "dec \<Rightarrow> int res" where
  "Dec_RoundInt64 d =
     (let chopped = chopPrecisionAndRound d
      in if \<not> IsInt64 chopped then Inl (Panic ''Int64() out of bound'') else Inr chopped)"

definition Dec_TruncateInt :: "dec \<Rightarrow> int res" where
  "Dec_TruncateInt d = NewIntFromBigInt (chopPrecisionAndTruncate d)"

definition Dec_TruncateInt64 :: "dec \<Rightarrow> int res" where
  "Dec_TruncateInt64 d =
     (let chopped = chopPrecisionAndTruncate d
      in if \<not> IsInt64 chopped then Inl (Panic ''Int64() out of bound'') else Inr chopped)"

definition Dec_TruncateDec :: "dec \<Rightarrow> dec" where
  "Dec_TruncateDec d = LegacyNewDecFromInt (chopPrecisionAndTruncate d)"

definition Dec_Ceil :: "dec \<Rightarrow> dec res" where
  "Dec_Ceil d =
     (let quo = d sdiv precisionReuse; rem = d smod precisionReuse in
      assertInValidRange
        (if rem = 0 then LegacyNewDecFromInt quo
         else if rem < 0 then LegacyNewDecFromInt quo
         else LegacyNewDecFromInt (quo + 1)))"

definition LegacyMinDec :: "dec \<Rightarrow> dec \<Rightarrow> dec" where
  "LegacyMinDec d1 d2 = (if d1 < d2 then d1 else d2)"

definition LegacyMaxDec :: "dec \<Rightarrow> dec \<Rightarrow> dec" where
  "LegacyMaxDec d1 d2 = (if d1 < d2 then d2 else d1)"

text \<open>The squaring loop of \<open>PowerMut\<close>.\<close>

function power_loop :: "dec \<Rightarrow> dec \<Rightarrow> nat \<Rightarrow> (dec \<times> dec) res" where
  "power_loop d tmp i =
     (if i > 1 then
        rbind (if i mod 2 \<noteq> 0 then Dec_Mul tmp d else Inr tmp) (\<lambda>tmp'.
        rbind (Dec_Mul d d) (\<lambda>d'. power_loop d' tmp' (i div 2)))
      else Inr (d, tmp))"
  by pat_completeness auto
termination
  by (relation "measure (\<lambda>(d, tmp, i). i)") auto

declare power_loop.simps [simp del]

definition Dec_Power :: "dec \<Rightarrow> nat \<Rightarrow> dec res" where
  "Dec_Power d pow =
     (if pow = 0 then Inr precisionReuse
      else rbind (power_loop d LegacyOneDec pow) (\<lambda>(d', tmp). Dec_Mul d' tmp))"

text \<open>
  One Newton step of \<open>ApproxRoot\<close> and the loop that stops when the step is at most the smallest
  decimal or after \<open>maxApproxRootIterations\<close> rounds.  \<open>int64(root)\<close> reinterprets the 64-bit
  root as a signed integer.  A panic inside the routine is recovered and returned as an error.
\<close>

definition int64_of_uint64 :: "nat \<Rightarrow> int" where
  "int64_of_uint64 u = (if u < 2 ^ 63 then int u else int u - 2 ^ 64)"

lemma int64_of_uint64_code [code]: "int64_of_uint64 u = (let i = int u in if i < 2 ^ 63 then i else i - 2 ^ 64)"
proof -
  have "u < 2 ^ 63 \<longleftrightarrow> int u < 2 ^ 63" by (metis of_nat_less_iff of_nat_numeral of_nat_power)
  then show ?thesis by (simp add: int64_of_uint64_def Let_def)
qed

definition newton_step :: "dec \<Rightarrow> nat \<Rightarrow> dec \<Rightarrow> (dec \<times> dec) res" where
  "newton_step d root guess =
     rbind (Dec_Power guess (root - 1)) (\<lambda>prev.
     rbind (Dec_Quo d (if prev = 0 then LegacySmallestDec else prev)) (\<lambda>q.
     rbind (Dec_Sub q guess) (\<lambda>diff.
     rbind (Dec_QuoInt diff (int64_of_uint64 root)) (\<lambda>delta.
     rbind (Dec_Add guess delta) (\<lambda>guess'. Inr (guess', delta))))))"

fun approx_loop :: "nat \<Rightarrow> dec \<Rightarrow> nat \<Rightarrow> dec \<Rightarrow> dec res" where
  "approx_loop 0 d root guess = Inr guess"
| "approx_loop (Suc iter) d root guess =
     rbind (newton_step d root guess) (\<lambda>(guess', delta).
       if \<bar>delta\<bar> \<le> LegacySmallestDec then Inr guess' else approx_loop iter d root guess')"

definition recover :: "'a res \<Rightarrow> 'a res" where
  "recover m = (case m of Inl (Panic e) \<Rightarrow> Inl (Err e) | _ \<Rightarrow> m)"

definition approx_root_nonneg :: "dec \<Rightarrow> nat \<Rightarrow> dec res" where
  "approx_root_nonneg d root =
     (if root = 1 \<or> d = 0 \<or> d = LegacyOneDec then Inr d
      else recover (approx_loop maxApproxRootIterations d root LegacyOneDec))"

definition Dec_ApproxRoot :: "dec \<Rightarrow> nat \<Rightarrow> dec res" where
  "Dec_ApproxRoot d root =
     (if root = 0 then Inr LegacyOneDec
      else if d < 0 then rbind (approx_root_nonneg (- d) root) (\<lambda>absRoot. Inr (- absRoot))
      else approx_root_nonneg d root)"

definition Dec_ApproxSqrt :: "dec \<Rightarrow> dec res" where
  "Dec_ApproxSqrt d = Dec_ApproxRoot d 2"

section \<open>Text\<close>

definition Dec_String :: "dec \<Rightarrow> string" where
  "Dec_String d =
     (let bzInt = nat_text (nat \<bar>d\<bar>);
          inputSize = length bzInt;
          bzStr = (if inputSize \<le> LegacyPrecision
                   then ''0.'' @ replicate (LegacyPrecision - inputSize) (CHR ''0'') @ bzInt
                   else take (inputSize - LegacyPrecision) bzInt @ ''.'' @
                        drop (inputSize - LegacyPrecision) bzInt)
      in if d < 0 then ''-'' @ bzStr else bzStr)"

definition dec_combine :: "string list \<Rightarrow> (string \<times> nat) res" where
  "dec_combine strs =
     (case strs of
        [a] \<Rightarrow> Inr (a, 0)
      | [a, b] \<Rightarrow>
          if length b = 0 \<or> length a = 0 then Inl (Err ''ErrLegacyInvalidDecimalLength'')
          else Inr (a @ b, length b)
      | _ \<Rightarrow> Inl (Err ''ErrLegacyInvalidDecimalStr''))"

definition LegacyNewDecFromStr :: "string \<Rightarrow> dec res" where
  "LegacyNewDecFromStr str0 =
     (let neg = (str0 \<noteq> [] \<and> hd str0 = CHR ''-''); str = (if neg then tl str0 else str0) in
      if str = [] then Inl (Err ''ErrLegacyEmptyDecimalStr'')
      else rbind (dec_combine (split_on (CHR ''.'') str)) (\<lambda>(combinedStr, lenDecs).
        if lenDecs > LegacyPrecision then Inl (Err ''exceeds max precision'')
        else case SetString10 (combinedStr @ replicate (LegacyPrecision - lenDecs) (CHR ''0'')) of
               None \<Rightarrow> Inl (Err ''failed to set decimal string with base 10'')
             | Some combined0 \<Rightarrow>
                 let combined = (if neg then - combined0 else combined0)
                 in if \<not> Dec_IsInValidRange combined then Inl (Err ''out of range'')
                    else Inr combined))"

section \<open>Rounding facts\<close>

lemma precisionReuse_pos [simp]:
  "0 < precisionReuse" "precisionReuse \<noteq> 0" "0 \<le> precisionReuse" "\<bar>precisionReuse\<bar> = precisionReuse"
  "\<not> precisionReuse \<le> 0"
  by (simp_all add: precisionReuse_def)

lemma precisionReuse_half: "precisionReuse = 2 * fivePrecision"
  by (simp add: fivePrecision_def precisionReuse_def)

text \<open>
  The specification of banker's rounding: \<open>q\<close> is at most half a unit away from \<open>d\<close>, and even when it
  is exactly half a unit away.
\<close>

definition rounds_half_even :: "int \<Rightarrow> int \<Rightarrow> bool" where
  "rounds_half_even d q \<longleftrightarrow>
     2 * \<bar>d - q * precisionReuse\<bar> \<le> precisionReuse \<and>
     (2 * \<bar>d - q * precisionReuse\<bar> = precisionReuse \<longrightarrow> even q)"

lemma rounds_half_even_unique:
  assumes "rounds_half_even d q" and "rounds_half_even d q'"
  shows "q = q'"
proof (rule ccontr)
  let ?P = precisionReuse
  assume "q \<noteq> q'"
  then have far: "?P \<le> \<bar>q - q'\<bar> * ?P" by simp
  have dist: "\<bar>(d - q' * ?P) - (d - q * ?P)\<bar> = \<bar>q - q'\<bar> * ?P"
    by (simp add: abs_mult flip: left_diff_distrib)
  have near: "2 * \<bar>d - q * ?P\<bar> \<le> ?P" "2 * \<bar>d - q' * ?P\<bar> \<le> ?P"
    using assms by (simp_all add: rounds_half_even_def)
  have squeeze: "2 * x = p \<and> 2 * y = p \<and> z = p"
    if "p \<le> z" "2 * x \<le> p" "2 * y \<le> p" "z \<le> y + x" for p x y z :: int
    using that by linarith
  have half: "2 * \<bar>d - q * ?P\<bar> = ?P" "2 * \<bar>d - q' * ?P\<bar> = ?P" "\<bar>q - q'\<bar> * ?P = ?P"
    using squeeze [OF far near] abs_triangle_ineq4 [of "d - q' * ?P" "d - q * ?P"]
    unfolding dist by simp_all
  then have "\<bar>q - q'\<bar> = 1" by simp
  moreover have "even q" "even q'" using assms half unfolding rounds_half_even_def by auto
  ultimately show False by presburger
qed

lemma chop_nonneg_rounds: "0 \<le> d \<Longrightarrow> rounds_half_even d (chop_nonneg d)"
proof -
  assume "0 \<le> d"
  let ?P = precisionReuse
  define q r where "q = d div ?P" and "r = d mod ?P"
  have d: "d = q * ?P + r" by (simp add: q_def r_def)
  have r: "0 \<le> r" "r < ?P" by (simp_all add: r_def)
  have chop: "chop_nonneg d = (if r = 0 then q else if r < fivePrecision then q
      else if r > fivePrecision then q + 1 else if even q then q else q + 1)"
    using \<open>0 \<le> d\<close> by (simp add: chop_nonneg_def sdiv_nonneg_eq smod_nonneg_eq q_def r_def Let_def)
  have up: "d - (q + 1) * ?P = r - ?P" and down: "d - q * ?P = r"
    by (simp_all add: d algebra_simps)
  show ?thesis
    unfolding rounds_half_even_def chop using r precisionReuse_half
    by (auto simp: up down)
qed

lemma rounds_half_even_minus: "rounds_half_even (- d) (- q) = rounds_half_even d q"
proof -
  have "\<bar>- d - - q * precisionReuse\<bar> = \<bar>d - q * precisionReuse\<bar>" by linarith
  then show ?thesis by (simp add: rounds_half_even_def)
qed

lemma chopPrecisionAndRound_rounds: "rounds_half_even d (chopPrecisionAndRound d)"
  using chop_nonneg_rounds [of d] chop_nonneg_rounds [of "- d"]
    rounds_half_even_minus [of d "- chop_nonneg (- d)"]
  by (simp add: chopPrecisionAndRound_def)

lemma chopPrecisionAndRound_iff: "chopPrecisionAndRound d = q \<longleftrightarrow> rounds_half_even d q"
  using chopPrecisionAndRound_rounds rounds_half_even_unique by blast

lemma rounds_half_even_mono:
  assumes "rounds_half_even d q" "rounds_half_even d' q'" "d \<le> d'"
  shows "q \<le> q'"
proof (rule ccontr)
  let ?P = precisionReuse
  assume "\<not> q \<le> q'"
  then have "(q' + 1) * ?P \<le> q * ?P" by (intro mult_right_mono) simp_all
  then have "q' * ?P + ?P \<le> q * ?P" by (simp add: algebra_simps)
  moreover have "2 * \<bar>d - q * ?P\<bar> \<le> ?P" "2 * \<bar>d' - q' * ?P\<bar> \<le> ?P"
    using assms by (simp_all add: rounds_half_even_def)
  moreover have "q * ?P - d \<le> \<bar>d - q * ?P\<bar>" "d' - q' * ?P \<le> \<bar>d' - q' * ?P\<bar>" by simp_all
  moreover have "y \<le> x" if "b + p \<le> a" "2 * u \<le> p" "2 * v \<le> p" "a - x \<le> u" "y - b \<le> v" for a b p x y u v :: int
    using that by simp
  ultimately have "d' \<le> d" by blast
  then have "d = d'" using assms(3) by simp
  then show False
    using rounds_half_even_unique [OF assms(1)] assms(2) \<open>\<not> q \<le> q'\<close> by auto
qed

lemma chopPrecisionAndRound_mono: "d \<le> d' \<Longrightarrow> chopPrecisionAndRound d \<le> chopPrecisionAndRound d'"
  by (rule rounds_half_even_mono [OF chopPrecisionAndRound_rounds chopPrecisionAndRound_rounds])

lemma chop_exact [simp]: "chopPrecisionAndRound (x * precisionReuse) = x"
  by (simp add: chopPrecisionAndRound_iff rounds_half_even_def)

lemma chopPrecisionAndTruncate_bounds:
  "\<bar>d - chopPrecisionAndTruncate d * precisionReuse\<bar> < precisionReuse \<and>
   0 \<le> (d - chopPrecisionAndTruncate d * precisionReuse) * d"
  using abs_smod_less [of precisionReuse d] smod_sign [of d precisionReuse]
  by (simp add: chopPrecisionAndTruncate_def minus_sdiv_mult_eq_smod)

text \<open>\<open>chopPrecisionAndRoundUp\<close> is the ceiling.\<close>

lemma chopPrecisionAndRoundUp_ceiling:
  "d \<le> chopPrecisionAndRoundUp d * precisionReuse \<and>
   chopPrecisionAndRoundUp d * precisionReuse < d + precisionReuse"
proof (cases "d < 0")
  case True
  then have "chopPrecisionAndRoundUp d * precisionReuse = d + (- d) mod precisionReuse"
    by (simp add: chopPrecisionAndRoundUp_def chopPrecisionAndTruncate_def sdiv_nonneg_eq
        minus_mod_eq_div_mult [symmetric] del: minus_sdiv_eq)
  then show ?thesis by simp
next
  case False
  then have up: "chopPrecisionAndRoundUp d * precisionReuse =
      (if d mod precisionReuse = 0 then d else d - d mod precisionReuse + precisionReuse)"
    by (simp add: chopPrecisionAndRoundUp_def sdiv_nonneg_eq smod_nonneg_eq Let_def distrib_right
        minus_mod_eq_div_mult [symmetric])
  have "d \<le> (if r = 0 then d else d - r + p) \<and> (if r = 0 then d else d - r + p) < d + p"
    if "0 \<le> r" "r < p" for r p :: int
    using that by auto
  then show ?thesis unfolding up by simp
qed

lemma chopPrecisionAndRoundUp_iff:
  "chopPrecisionAndRoundUp d = q \<longleftrightarrow> d \<le> q * precisionReuse \<and> q * precisionReuse < d + precisionReuse"
proof
  assume q: "d \<le> q * precisionReuse \<and> q * precisionReuse < d + precisionReuse"
  have "\<bar>chopPrecisionAndRoundUp d * precisionReuse - q * precisionReuse\<bar> < 1 * precisionReuse"
    using q chopPrecisionAndRoundUp_ceiling [of d] by linarith
  then have "\<bar>chopPrecisionAndRoundUp d - q\<bar> * precisionReuse < 1 * precisionReuse"
    by (simp add: abs_mult flip: left_diff_distrib)
  then show "chopPrecisionAndRoundUp d = q"
    by (subst (asm) mult_less_cancel_right_pos) auto
qed (use chopPrecisionAndRoundUp_ceiling in auto)

section \<open>Range-checked operations\<close>

named_theorems legacydec "operations of LegacyDec as range-checked integer arithmetic"

lemma assertInValidRange_Inr [legacydec]:
  "assertInValidRange d = Inr r \<longleftrightarrow> \<bar>d\<bar> \<le> upperLimit \<and> r = d"
  by (auto simp: assertInValidRange_def Dec_IsInValidRange_def lowerLimit_def)

lemma assertInValidRange_eq:
  "assertInValidRange d = (if \<bar>d\<bar> \<le> upperLimit then Inr d else Inl (Panic ''Int overflow''))"
  by (auto simp: assertInValidRange_def Dec_IsInValidRange_def lowerLimit_def)

lemma assertInValidRange_ok: "\<bar>d\<bar> \<le> upperLimit \<Longrightarrow> assertInValidRange d = Inr d"
  by (simp add: assertInValidRange_Inr)

lemma upperLimit_pos [simp]: "0 < upperLimit" "0 \<le> upperLimit"
  by (simp_all add: upperLimit_def precisionReuse_def)

lemma scaled_in_range: "\<bar>x * precisionReuse\<bar> \<le> upperLimit \<longleftrightarrow> int256 x"
  unfolding upperLimit_def int256_def
  by (auto simp: abs_mult precisionReuse_def)

lemma Dec_Mul_exact:
  "int256 (a * b) \<Longrightarrow> Dec_Mul (a * precisionReuse) (b * precisionReuse) = Inr (a * b * precisionReuse)"
proof -
  assume r: "int256 (a * b)"
  have "chopPrecisionAndRound (a * precisionReuse * (b * precisionReuse)) = a * b * precisionReuse"
    using chop_exact [of "a * b * precisionReuse"] by (simp add: mult_ac)
  with r show ?thesis by (simp add: Dec_Mul_def assertInValidRange_ok scaled_in_range)
qed

lemma int256_mono: "int256 y \<Longrightarrow> \<bar>x\<bar> \<le> \<bar>y\<bar> \<Longrightarrow> int256 x"
  by (simp add: int256_def)

lemma abs_mult_power_mono: "(k :: int) \<noteq> 0 \<Longrightarrow> j \<le> i \<Longrightarrow> \<bar>t * k ^ j\<bar> \<le> \<bar>t * k ^ i\<bar>"
  by (simp add: abs_mult power_abs mult_left_mono power_increasing)

lemma abs_power_le_mult:
  assumes "(k :: int) \<noteq> 0" and "t \<noteq> 0" and "j \<le> i"
  shows "\<bar>k ^ j\<bar> \<le> \<bar>t * k ^ i\<bar>"
proof -
  have "\<bar>k ^ j\<bar> \<le> 1 * \<bar>k ^ i\<bar>" using abs_mult_power_mono [of k j i 1] assms by simp
  also have "\<dots> \<le> \<bar>t\<bar> * \<bar>k ^ i\<bar>" using assms(2) by (intro mult_right_mono) auto
  finally show ?thesis by (simp add: abs_mult)
qed

lemma power_loop_exact:
  assumes "k = 0 \<or> t \<noteq> 0" and "1 \<le> i" and "int256 (t * k ^ i)"
  shows "\<exists>k' t'. power_loop (k * precisionReuse) (t * precisionReuse) i =
      Inr (k' * precisionReuse, t' * precisionReuse) \<and> k' * t' = t * k ^ i"
  using assms
proof (induction i arbitrary: k t rule: less_induct)
  case (less i)
  show ?case
  proof (cases "i > 1")
    case False
    with less.prems(2) have "i = 1" by simp
    then show ?thesis
      by (intro exI [of _ k] exI [of _ t]) (simp add: power_loop.simps [of _ _ "Suc 0"])
  next
    case True
    define t' where "t' = (if i mod 2 \<noteq> 0 then t * k else t)"
    have i: "i = 2 * (i div 2) + (if i mod 2 \<noteq> 0 then 1 else 0)" by presburger
    have pow: "t * k ^ i = t' * (k ^ 2) ^ (i div 2)"
      by (subst i) (simp add: t'_def power_add power_mult)
    have sq: "int256 (k * k)"
      using abs_power_le_mult [of k t 2 i] less.prems True
      by (cases "k = 0") (auto simp: power2_eq_square int256_def [of 0] intro: int256_mono)
    have tk: "int256 (t * k)"
      using abs_mult_power_mono [of k 1 i t] less.prems True
      by (cases "k = 0") (auto simp: int256_def [of 0] intro: int256_mono)
    have step: "power_loop (k * precisionReuse) (t * precisionReuse) i =
        power_loop (k ^ 2 * precisionReuse) (t' * precisionReuse) (i div 2)"
      using True by (simp add: power_loop.simps [of _ _ i] Dec_Mul_exact sq tk t'_def power2_eq_square)
    have "\<exists>k' u. power_loop (k ^ 2 * precisionReuse) (t' * precisionReuse) (i div 2) =
        Inr (k' * precisionReuse, u * precisionReuse) \<and> k' * u = t' * (k ^ 2) ^ (i div 2)"
      using True less.prems(1) less.prems(3) [unfolded pow]
      by (intro less.IH) (auto simp: t'_def)
    then show ?thesis unfolding step pow .
  qed
qed

text \<open>On whole numbers \<open>Power\<close> is exact as long as the result fits.\<close>

lemma Dec_Power_whole:
  assumes "int256 (k ^ n)"
  shows "Dec_Power (k * precisionReuse) n = Inr (k ^ n * precisionReuse)"
proof (cases "n = 0")
  case True
  then show ?thesis by (simp add: Dec_Power_def)
next
  case False
  then obtain k' t' where "power_loop (k * precisionReuse) (1 * precisionReuse) n =
      Inr (k' * precisionReuse, t' * precisionReuse)" and kt: "k' * t' = 1 * k ^ n"
    using power_loop_exact [of k 1 n] assms by auto
  with False assms show ?thesis
    by (simp add: Dec_Power_def LegacyOneDec_def Dec_Mul_exact)
qed

section \<open>Quotients\<close>

lemma chopPrecisionAndTruncate_iff:
  "chopPrecisionAndTruncate d = q \<longleftrightarrow>
     \<bar>d - q * precisionReuse\<bar> < precisionReuse \<and> 0 \<le> (d - q * precisionReuse) * d"
  (is "_ \<longleftrightarrow> ?spec q")
proof
  assume spec: "?spec q"
  have close: "\<bar>x - y\<bar> < p"
    if "\<bar>x\<bar> < p" "\<bar>y\<bar> < p" "0 \<le> x * d" "0 \<le> y * d" "d \<noteq> 0" for x y p
    using that by (auto simp: zero_le_mult_iff)
  have "\<bar>(d - q * precisionReuse) - (d - chopPrecisionAndTruncate d * precisionReuse)\<bar> < precisionReuse"
  proof (cases "d = 0")
    case True
    with spec show ?thesis by (simp add: chopPrecisionAndTruncate_def)
  next
    case False
    with spec chopPrecisionAndTruncate_bounds [of d] show ?thesis
      using close [of "d - q * precisionReuse" precisionReuse
          "d - chopPrecisionAndTruncate d * precisionReuse"] by blast
  qed
  then have "\<bar>chopPrecisionAndTruncate d - q\<bar> * precisionReuse < 1 * precisionReuse"
    by (simp add: abs_mult flip: left_diff_distrib)
  then show "chopPrecisionAndTruncate d = q"
    by (subst (asm) mult_less_cancel_right_pos) auto
qed (use chopPrecisionAndTruncate_bounds in auto)

text \<open>
  \<open>Quo\<close> truncates the doubly scaled quotient before it rounds, so it is within half a unit plus one
  part in \<open>10 ^ 18\<close> of a unit of the exact quotient.
\<close>

lemma quo_round_error:
  fixes a b :: int
  assumes b: "b \<noteq> 0"
  defines "t \<equiv> a * squaredPrecisionReuse sdiv b"
  shows "2 * precisionReuse * \<bar>a * precisionReuse - chopPrecisionAndRound t * b\<bar> <
     (precisionReuse + 2) * \<bar>b\<bar>"
proof -
  let ?P = precisionReuse
  define r where "r = chopPrecisionAndRound t"
  have tr: "\<bar>a * squaredPrecisionReuse - t * b\<bar> < \<bar>b\<bar>"
    using abs_smod_less [OF b] by (simp add: t_def minus_sdiv_mult_eq_smod)
  have rd: "2 * \<bar>t - r * ?P\<bar> \<le> ?P"
    using chopPrecisionAndRound_rounds [of t] by (simp add: r_def rounds_half_even_def)
  have "?P * (a * ?P - r * b) = (a * squaredPrecisionReuse - t * b) + (t - r * ?P) * b"
    by (simp add: squaredPrecisionReuse_def algebra_simps)
  then have "2 * ?P * \<bar>a * ?P - r * b\<bar> = 2 * \<bar>(a * squaredPrecisionReuse - t * b) + (t - r * ?P) * b\<bar>"
    by (metis abs_mult mult.assoc precisionReuse_pos(4))
  also have "\<dots> \<le> 2 * \<bar>a * squaredPrecisionReuse - t * b\<bar> + (2 * \<bar>t - r * ?P\<bar>) * \<bar>b\<bar>"
    using abs_triangle_ineq [of "a * squaredPrecisionReuse - t * b" "(t - r * ?P) * b"]
    by (simp add: abs_mult)
  also have "\<dots> < 2 * \<bar>b\<bar> + ?P * \<bar>b\<bar>"
    using tr mult_right_mono [OF rd abs_ge_zero [of b]] by linarith
  finally show ?thesis by (simp add: algebra_simps r_def)
qed

lemma ceiling_div: "(y :: int) \<noteq> 0 \<Longrightarrow> - ((- x) div y) = x div y + (if y dvd x then 0 else 1)"
  by (simp add: zdiv_zminus1_eq_if dvd_eq_mod_eq_0)

lemma Dec_QuoRoundUp_eq:
  assumes "d2 \<noteq> 0"
  shows "Dec_QuoRoundUp d d2 = assertInValidRange
     (let c = - ((- (d * precisionReuse)) div d2)
      in if c < 0 \<and> \<not> d2 dvd d * precisionReuse then c + 1 else c)"
proof -
  define x where "x = d * precisionReuse"
  define c where "c = - ((- x) div d2)"
  define q r where "q = x sdiv d2" and "r = x smod d2"
  have c: "c = x div d2 + (if d2 dvd x then 0 else 1)"
    using ceiling_div [OF assms] by (simp add: c_def)
  have q: "q = x div d2 + of_bool (sgn x \<noteq> sgn d2 \<and> \<not> d2 dvd x)"
    using assms by (simp add: q_def signed_divide_int_eq_divide_int)
  have r0: "r = 0 \<longleftrightarrow> d2 dvd x"
    using assms by (auto simp: r_def signed_modulo_int_def mod_eq_0_iff_dvd sgn_if)
  have rs: "0 \<le> r * x" by (simp add: r_def smod_sign)
  have qs: "sgn x = sgn d2 \<Longrightarrow> 0 \<le> q"
    using assms by (auto simp: q sgn_if pos_imp_zdiv_nonneg_iff neg_imp_zdiv_nonneg_iff split: if_splits)
  have "(if r > 0 \<and> (q < 0) = (d2 < 0) \<or> r < 0 \<and> (q < 0) \<noteq> (d2 < 0) then q + 1 else q) =
      (if c < 0 \<and> \<not> d2 dvd x then c + 1 else c)"
  proof (cases "d2 dvd x")
    case True
    then show ?thesis using r0 by (simp add: c q)
  next
    case False
    then have "x \<noteq> 0" "r \<noteq> 0" using r0 by auto
    with False assms rs qs show ?thesis
      by (cases "0 < x"; cases "0 < d2") (auto simp: c q zero_le_mult_iff sgn_if)
  qed
  then show ?thesis
    unfolding Dec_QuoRoundUp_def Let_def x_def [symmetric] q_def [symmetric] r_def [symmetric]
      c_def [symmetric] using assms by simp
qed

section \<open>Conversions\<close>

lemma Dec_TruncateInt_total:
  assumes "\<bar>d\<bar> \<le> upperLimit"
  shows "Dec_TruncateInt d = Inr (chopPrecisionAndTruncate d)"
proof -
  let ?q = "chopPrecisionAndTruncate d"
  have "\<bar>?q * precisionReuse\<bar> = \<bar>d\<bar> - \<bar>d\<bar> mod precisionReuse"
    unfolding minus_mod_eq_div_mult
    by (simp add: chopPrecisionAndTruncate_def signed_divide_int_def abs_mult abs_sgn_eq
        pos_imp_zdiv_nonneg_iff) (auto simp: precisionReuse_def)
  moreover have "0 \<le> \<bar>d\<bar> mod precisionReuse" by simp
  ultimately have "\<bar>?q * precisionReuse\<bar> \<le> \<bar>d\<bar>" by linarith
  then have "int256 ?q" using assms by (simp flip: scaled_in_range)
  then show ?thesis by (simp add: Dec_TruncateInt_def sdkint)
qed

lemma Dec_RoundInt_Inr: "Dec_RoundInt d = Inr r \<longleftrightarrow> rounds_half_even d r \<and> int256 r"
  by (auto simp: Dec_RoundInt_def sdkint chopPrecisionAndRound_iff [symmetric])

lemma Dec_Ceil_eq: "Dec_Ceil d = assertInValidRange (chopPrecisionAndRoundUp d * precisionReuse)"
proof -
  have r: "d smod precisionReuse = 0 \<longleftrightarrow> d mod precisionReuse = 0"
    by (auto simp: signed_modulo_int_def sgn_if mod_eq_0_iff_dvd)
  show ?thesis
    using smod_sign [of d precisionReuse]
    by (auto simp: Dec_Ceil_def Let_def LegacyNewDecFromInt_def chopPrecisionAndRoundUp_def
        chopPrecisionAndTruncate_def zero_le_mult_iff)
qed

lemma Dec_Ceil_Inr: "Dec_Ceil d = Inr c \<longleftrightarrow>
    (\<exists>k. c = k * precisionReuse \<and> d \<le> c \<and> c < d + precisionReuse \<and> int256 k)"
  by (auto simp: Dec_Ceil_eq legacydec scaled_in_range chopPrecisionAndRoundUp_ceiling
      dest: chopPrecisionAndRoundUp_iff [THEN iffD2, OF conjI])

lemma recover_never_panics: "recover m \<noteq> Inl (Panic e)"
  by (auto simp: recover_def split: sum.splits fault.splits)

section \<open>Parsing inverts printing\<close>

lemma dec_digits_parse:
  assumes "list_all is_digit a" "a \<noteq> []" "list_all is_digit b" "length b = 18"
    and "int (text_nat (a @ b)) \<le> upperLimit"
  shows "LegacyNewDecFromStr ((if neg then ''-'' else []) @ a @ ''.'' @ b) =
     Inr (if neg then - int (text_nat (a @ b)) else int (text_nat (a @ b)))"
proof -
  have dot: "CHR ''.'' \<notin> set a" "CHR ''.'' \<notin> set b"
    using assms(1,3) by (auto simp: list_all_iff)
  have minus: "hd a \<noteq> CHR ''-''" using assms(1,2) by (cases a) auto
  have split: "split_on (CHR ''.'') (a @ CHR ''.'' # b) = [a, b]"
    using dot by (simp add: split_on_sep split_on_no_sep)
  have num: "SetString10 (a @ b) = Some (int (text_nat (a @ b)))"
    using assms by (intro SetString10_digits) auto
  have b: "b \<noteq> []" using assms(4) by auto
  show ?thesis
    using assms(2,4,5) minus b num split
    by (auto simp: LegacyNewDecFromStr_def dec_combine_def LegacyPrecision_def
        Dec_IsInValidRange_def lowerLimit_def Let_def)
qed

lemma Dec_String_shape:
  "\<exists>a b. Dec_String d = (if d < 0 then ''-'' else []) @ a @ ''.'' @ b \<and> list_all is_digit a \<and> a \<noteq> [] \<and>
     list_all is_digit b \<and> length b = 18 \<and> text_nat (a @ b) = nat \<bar>d\<bar>"
proof -
  define s where "s = nat_text (nat \<bar>d\<bar>)"
  have digits: "list_all is_digit s" and val: "text_nat s = nat \<bar>d\<bar>"
    by (simp_all add: s_def)
  let ?b = "replicate (18 - length s) (CHR ''0'') @ s"
  show ?thesis
  proof (cases "length s \<le> 18")
    case True
    have "text_nat (''0'' @ ?b) = nat \<bar>d\<bar>"
      by (simp only: text_nat_append [of "''0''"] text_nat_append [of "replicate _ _"]) (simp add: val)
    moreover have "Dec_String d = (if d < 0 then ''-'' else []) @ ''0'' @ ''.'' @ ?b"
      using True by (simp add: Dec_String_def LegacyPrecision_def Let_def flip: s_def)
    ultimately show ?thesis
      using True digits
      by (rule_tac x = "''0''" in exI, rule_tac x = ?b in exI) (simp del: append_Cons)
  next
    case False
    have "list_all is_digit (take k s)" "list_all is_digit (drop k s)" for k
      using digits by (auto simp: list_all_iff dest: in_set_takeD in_set_dropD)
    with False val show ?thesis
      by (rule_tac x = "take (length s - 18) s" in exI, rule_tac x = "drop (length s - 18) s" in exI)
        (auto simp: Dec_String_def LegacyPrecision_def Let_def s_def [symmetric])
  qed
qed

lemma Dec_String_parse: "\<bar>d\<bar> \<le> upperLimit \<Longrightarrow> LegacyNewDecFromStr (Dec_String d) = Inr d"
  using Dec_String_shape [of d] dec_digits_parse [where neg = "d < 0"] by (force split: if_splits)

lemma Dec_Quo_approx:
  "b \<noteq> 0 \<Longrightarrow> \<exists>q. Dec_Quo a b = assertInValidRange q \<and>
     2 * precisionReuse * \<bar>a * precisionReuse - q * b\<bar> < (precisionReuse + 2) * \<bar>b\<bar>"
  using quo_round_error [of b a] unfolding Dec_Quo_def by auto

lemma Dec_QuoTruncate_spec:
  "b \<noteq> 0 \<Longrightarrow> \<exists>q. Dec_QuoTruncate a b = assertInValidRange q \<and>
     \<bar>a * precisionReuse - q * b\<bar> < \<bar>b\<bar> \<and> 0 \<le> (a * precisionReuse - q * b) * a"
  using abs_smod_less [of b "a * precisionReuse"] smod_sign [of "a * precisionReuse" b]
  by (intro exI [of _ "a * precisionReuse sdiv b"])
    (auto simp: Dec_QuoTruncate_def minus_sdiv_mult_eq_smod zero_le_mult_iff
      mult_le_0_iff)

section \<open>Claims\<close>

text \<open>
  C37: the three multiplications of decimals round as their names say, and return exactly when the
  rounded product is in range: \<open>Mul\<close> to the nearest unit with ties to even, \<open>MulTruncate\<close> towards
  zero, \<open>MulRoundUp\<close> to the ceiling.
\<close>

theorem Dec_Mul_rounding:
  "(Dec_Mul a b = Inr r \<longleftrightarrow> rounds_half_even (a * b) r \<and> \<bar>r\<bar> \<le> upperLimit) \<and>
   (Dec_MulTruncate a b = Inr r \<longleftrightarrow>
      \<bar>a * b - r * precisionReuse\<bar> < precisionReuse \<and>
      0 \<le> (a * b - r * precisionReuse) * (a * b) \<and> \<bar>r\<bar> \<le> upperLimit) \<and>
   (Dec_MulRoundUp a b = Inr r \<longleftrightarrow>
      a * b \<le> r * precisionReuse \<and> r * precisionReuse < a * b + precisionReuse \<and> \<bar>r\<bar> \<le> upperLimit)"
  unfolding Dec_Mul_def Dec_MulTruncate_def Dec_MulRoundUp_def legacydec
    chopPrecisionAndRound_iff [symmetric] chopPrecisionAndRoundUp_iff [symmetric]
    conj_assoc [symmetric] chopPrecisionAndTruncate_iff [symmetric]
  by auto

text \<open>
  C38: dividing decimals panics exactly on a zero divisor or an out-of-range quotient; \<open>QuoTruncate\<close>
  returns the exact quotient truncated towards zero, and \<open>Quo\<close>, which truncates at 36 digits before
  it rounds to 18, is off by less than half a unit plus \<open>10 ^ -18\<close> of a unit.
\<close>

theorem Dec_Quo_correct:
  "if b = 0 then Dec_Quo a b = Inl (Panic ''division by zero'') \<and>
                 Dec_QuoTruncate a b = Inl (Panic ''division by zero'')
   else (\<exists>q t. Dec_Quo a b = (if \<bar>q\<bar> \<le> upperLimit then Inr q else Inl (Panic ''Int overflow'')) \<and>
          2 * precisionReuse * \<bar>a * precisionReuse - q * b\<bar> < (precisionReuse + 2) * \<bar>b\<bar> \<and>
          Dec_QuoTruncate a b = (if \<bar>t\<bar> \<le> upperLimit then Inr t else Inl (Panic ''Int overflow'')) \<and>
          \<bar>a * precisionReuse - t * b\<bar> < \<bar>b\<bar> \<and> 0 \<le> (a * precisionReuse - t * b) * a)"
  using Dec_Quo_approx [of b a] Dec_QuoTruncate_spec [of b a]
  by (auto simp: Dec_Quo_def Dec_QuoTruncate_def assertInValidRange_eq)

text \<open>
  C39: \<open>QuoRoundUp\<close> returns the ceiling of the quotient when the division is exact or the ceiling
  is not negative; on an inexact quotient whose ceiling is negative it returns the ceiling plus one
  unit, because the sign it tests is that of the quotient already stored in the receiver.
\<close>

theorem Dec_QuoRoundUp_complete:
  "Dec_QuoRoundUp a b =
     (if b = 0 then Inl (Panic ''division by zero'')
      else let c = - ((- (a * precisionReuse)) div b);
               q = (if c < 0 \<and> \<not> b dvd a * precisionReuse then c + 1 else c)
           in if \<bar>q\<bar> \<le> upperLimit then Inr q else Inl (Panic ''Int overflow''))"
proof (cases "b = 0")
  case True
  then show ?thesis by (simp add: Dec_QuoRoundUp_def)
next
  case False
  then show ?thesis by (simp add: Dec_QuoRoundUp_eq assertInValidRange_eq Let_def)
qed

text \<open>
  raising a whole decimal to a power by repeated squaring is exact whenever the power itself is in
  range: no rounding error accumulates, and no intermediate square of the loop overflows.
\<close>

theorem Dec_Power_exact:
  "\<bar>k ^ n\<bar> < 2 ^ 256 \<Longrightarrow> Dec_Power (LegacyNewDecFromInt k) n = Inr (LegacyNewDecFromInt (k ^ n))"
  using Dec_Power_whole [of k n] by (simp add: LegacyNewDecFromInt_def int256_def)

theorem Dec_Power_exact_witness:
  "Dec_Power (LegacyNewDecFromInt (- 3)) 5 = Inr (LegacyNewDecFromInt (- 243))"
  using Dec_Power_exact [of "- 3" 5] by simp

text \<open>
  C40: parsing the printed form of any decimal in range gives back that decimal.
\<close>

theorem Dec_String_roundtrip: "\<bar>d\<bar> \<le> upperLimit \<Longrightarrow> LegacyNewDecFromStr (Dec_String d) = Inr d"
  by (rule Dec_String_parse)

theorem Dec_String_roundtrip_witness: "LegacyNewDecFromStr (Dec_String (- 1500000000000000000)) =
    Inr (- 1500000000000000000)"
  using Dec_String_roundtrip [of "- 1500000000000000000"]
  by (simp add: upperLimit_def precisionReuse_def)

text \<open>
  on every decimal in range \<open>TruncateInt\<close> returns (it never panics), and the truncated part and
  the discarded fraction have the sign of the number and sum up to it; \<open>RoundInt\<close> returns exactly the
  half-even rounding that fits into 256 bits; \<open>Ceil\<close> returns exactly the least whole decimal that is
  not smaller, when it is in range.
\<close>

theorem Dec_conversions_correct:
  "\<bar>d\<bar> \<le> upperLimit \<Longrightarrow>
   (\<exists>i. Dec_TruncateInt d = Inr i \<and> Dec_TruncateDec d = LegacyNewDecFromInt i \<and>
      \<bar>d - LegacyNewDecFromInt i\<bar> < precisionReuse \<and> 0 \<le> (d - LegacyNewDecFromInt i) * d) \<and>
   (Dec_RoundInt d = Inr r \<longleftrightarrow> rounds_half_even d r \<and> \<bar>r\<bar> < 2 ^ 256) \<and>
   (Dec_Ceil d = Inr c \<longleftrightarrow> (\<exists>k. c = LegacyNewDecFromInt k \<and> d \<le> c \<and> c < d + LegacyOneDec \<and> \<bar>k\<bar> < 2 ^ 256))"
  using chopPrecisionAndTruncate_bounds [of d]
  by (simp add: Dec_TruncateInt_total Dec_TruncateDec_def LegacyNewDecFromInt_def Dec_RoundInt_Inr
      int256_def Dec_Ceil_Inr LegacyOneDec_def)

theorem Dec_conversions_correct_witness:
  "\<bar>- 2500000000000000000\<bar> \<le> upperLimit \<and> Dec_RoundInt (- 2500000000000000000) = Inr (- 2)"
  using Dec_conversions_correct [of "- 2500000000000000000" "- 2"]
  by (simp add: upperLimit_def precisionReuse_def rounds_half_even_def)

end
