(* ===== verification/DecCoins.thy ===== *)
theory DecCoins
  imports Coins LegacyDec
begin

text \<open>
  \<open>sdk.DecCoin\<close> and \<open>sdk.DecCoins\<close> (\<open>src/types/dec_coin.go\<close>): coin sets with 18-digit decimal
  amounts.  Addition is a merge of two sorted slices (unlike \<open>Coins.safeAdd\<close>, which goes through a
  map), and \<open>Sub\<close> does not sanitise its argument.  The theory shows that this type provides the same
  contract \<open>coin_set\<close> as \<open>sdk.Coins\<close>, and that splitting a set into whole coins and change,
  scaling it and intersecting two sets are exact on every denomination.
\<close>

section \<open>DecCoin\<close>

record DecCoin =
  DDenom :: string
  DAmount :: dec

definition DecCoin_IsZero :: "DecCoin \<Rightarrow> bool" where
  "DecCoin_IsZero coin \<longleftrightarrow> DAmount coin = 0"

definition DecCoin_IsPositive :: "DecCoin \<Rightarrow> bool" where
  "DecCoin_IsPositive coin \<longleftrightarrow> DAmount coin > 0"

definition DecCoin_IsNegative :: "DecCoin \<Rightarrow> bool" where
  "DecCoin_IsNegative coin \<longleftrightarrow> DAmount coin < 0"

definition NewDecCoin :: "(string \<Rightarrow> bool) \<Rightarrow> string \<Rightarrow> int \<Rightarrow> DecCoin res" where
  "NewDecCoin vd denom amount =
     rbind (NewCoin vd denom amount) (\<lambda>coin.
       Inr \<lparr> DDenom = Denom coin, DAmount = LegacyNewDecFromInt (Amount coin) \<rparr>)"

definition NewDecCoinFromDec :: "(string \<Rightarrow> bool) \<Rightarrow> string \<Rightarrow> dec \<Rightarrow> DecCoin res" where
  "NewDecCoinFromDec vd denom amount =
     rbind (mustValidateDenom vd denom) (\<lambda>_.
       if amount < 0 then Inl (Panic ''negative decimal coin amount'')
       else Inr \<lparr> DDenom = denom, DAmount = amount \<rparr>)"

definition NewDecCoinFromCoin :: "(string \<Rightarrow> bool) \<Rightarrow> Coin \<Rightarrow> DecCoin res" where
  "NewDecCoinFromCoin vd coin =
     rbind (must (Coin_Validate vd coin)) (\<lambda>_.
       Inr \<lparr> DDenom = Denom coin, DAmount = LegacyNewDecFromInt (Amount coin) \<rparr>)"

definition DecCoin_IsGTE :: "DecCoin \<Rightarrow> DecCoin \<Rightarrow> bool res" where
  "DecCoin_IsGTE coin other =
     (if DDenom coin \<noteq> DDenom other then Inl (Panic ''invalid coin denominations'')
      else Inr (\<not> DAmount coin < DAmount other))"

definition DecCoin_IsLT :: "DecCoin \<Rightarrow> DecCoin \<Rightarrow> bool res" where
  "DecCoin_IsLT coin other =
     (if DDenom coin \<noteq> DDenom other then Inl (Panic ''invalid coin denominations'')
      else Inr (DAmount coin < DAmount other))"

definition DecCoin_Add :: "DecCoin \<Rightarrow> DecCoin \<Rightarrow> DecCoin res" where
  "DecCoin_Add coin coinB =
     (if DDenom coin \<noteq> DDenom coinB then Inl (Panic ''coin denom different'')
      else rbind (Dec_Add (DAmount coin) (DAmount coinB)) (\<lambda>a. Inr \<lparr> DDenom = DDenom coin, DAmount = a \<rparr>))"

definition DecCoin_Sub :: "DecCoin \<Rightarrow> DecCoin \<Rightarrow> DecCoin res" where
  "DecCoin_Sub coin coinB =
     (if DDenom coin \<noteq> DDenom coinB then Inl (Panic ''coin denom different'')
      else rbind (Dec_Sub (DAmount coin) (DAmount coinB)) (\<lambda>a.
        let res = \<lparr> DDenom = DDenom coin, DAmount = a \<rparr>
        in if DecCoin_IsNegative res then Inl (Panic ''negative decimal coin amount'') else Inr res))"

definition DecCoin_TruncateDecimal :: "(string \<Rightarrow> bool) \<Rightarrow> DecCoin \<Rightarrow> (Coin \<times> DecCoin) res" where
  "DecCoin_TruncateDecimal vd coin =
     rbind (Dec_TruncateInt (DAmount coin)) (\<lambda>truncated.
     rbind (Dec_Sub (DAmount coin) (LegacyNewDecFromInt truncated)) (\<lambda>change.
     rbind (NewCoin vd (DDenom coin) truncated) (\<lambda>c.
     rbind (NewDecCoinFromDec vd (DDenom coin) change) (\<lambda>d. Inr (c, d)))))"

definition DecCoin_Validate :: "(string \<Rightarrow> bool) \<Rightarrow> DecCoin \<Rightarrow> unit res" where
  "DecCoin_Validate vd coin =
     rbind (ValidateDenom vd (DDenom coin)) (\<lambda>_.
       if DecCoin_IsNegative coin then Inl (Err ''amount cannot be negative'') else Inr ())"

section \<open>DecCoins\<close>

definition DecCoins_Sort :: "DecCoin list \<Rightarrow> DecCoin list" where
  "DecCoins_Sort coins = (if length coins > 1 then sort_key DDenom coins else coins)"

definition removeZeroDecCoins :: "DecCoin list \<Rightarrow> DecCoin list" where
  "removeZeroDecCoins coins = filter (\<lambda>c. \<not> DecCoin_IsZero c) coins"

definition sanitizeDecCoins :: "DecCoin list \<Rightarrow> DecCoin list" where
  "sanitizeDecCoins coins =
     (let newDecCoins = removeZeroDecCoins coins
      in if newDecCoins = [] then [] else DecCoins_Sort newDecCoins)"

definition dvalidate_single :: "(string \<Rightarrow> bool) \<Rightarrow> DecCoin \<Rightarrow> unit res" where
  "dvalidate_single vd c =
     rbind (ValidateDenom vd (DDenom c)) (\<lambda>_.
       if \<not> DecCoin_IsPositive c then Inl (Err ''amount is not positive'') else Inr ())"

fun dvalidate_rest :: "(string \<Rightarrow> bool) \<Rightarrow> string \<Rightarrow> string list \<Rightarrow> DecCoin list \<Rightarrow> unit res" where
  "dvalidate_rest vd lowDenom seenDenoms [] = Inr ()"
| "dvalidate_rest vd lowDenom seenDenoms (coin # coins) =
     (if DDenom coin \<in> set seenDenoms then Inl (Err ''duplicate denomination'')
      else rbind (ValidateDenom vd (DDenom coin)) (\<lambda>_.
        if DDenom coin \<le> lowDenom then Inl (Err ''denomination is not sorted'')
        else if \<not> DecCoin_IsPositive coin then Inl (Err ''amount is not positive'')
        else dvalidate_rest vd (DDenom coin) (DDenom coin # seenDenoms) coins))"

definition DecCoins_Validate :: "(string \<Rightarrow> bool) \<Rightarrow> DecCoin list \<Rightarrow> unit res" where
  "DecCoins_Validate vd coins =
     (case coins of
        [] \<Rightarrow> Inr ()
      | [c] \<Rightarrow> dvalidate_single vd c
      | c # rest \<Rightarrow> rbind (dvalidate_single vd c) (\<lambda>_. dvalidate_rest vd (DDenom c) [DDenom c] rest))"

definition DecCoins_IsValid :: "(string \<Rightarrow> bool) \<Rightarrow> DecCoin list \<Rightarrow> bool" where
  "DecCoins_IsValid vd coins \<longleftrightarrow> DecCoins_Validate vd coins = Inr ()"

definition NewDecCoins :: "(string \<Rightarrow> bool) \<Rightarrow> DecCoin list \<Rightarrow> DecCoin list res" where
  "NewDecCoins vd coins =
     (let newDecCoins = sanitizeDecCoins coins
      in rbind (must (DecCoins_Validate vd newDecCoins)) (\<lambda>_. Inr newDecCoins))"

definition NewDecCoinsFromCoins :: "(string \<Rightarrow> bool) \<Rightarrow> Coin list \<Rightarrow> DecCoin list res" where
  "NewDecCoinsFromCoins vd coins =
     (if coins = [] then Inr []
      else rbind (NewCoins vd coins) (\<lambda>newCoins. rmap (NewDecCoinFromCoin vd) newCoins))"

text \<open>The merge of \<open>safeAdd\<close>, over the entries from \<open>indexA\<close> and \<open>indexB\<close> on.\<close>

fun DecCoins_safeAdd :: "DecCoin list \<Rightarrow> DecCoin list \<Rightarrow> DecCoin list res" where
  "DecCoins_safeAdd [] coinsB = Inr (removeZeroDecCoins coinsB)"
| "DecCoins_safeAdd coins [] = Inr (removeZeroDecCoins coins)"
| "DecCoins_safeAdd (coinA # coins) (coinB # coinsB) =
     (if DDenom coinA < DDenom coinB then
        rbind (DecCoins_safeAdd coins (coinB # coinsB)) (\<lambda>sum.
          Inr (if \<not> DecCoin_IsZero coinA then coinA # sum else sum))
      else if DDenom coinA = DDenom coinB then
        rbind (DecCoin_Add coinA coinB) (\<lambda>res.
        rbind (DecCoins_safeAdd coins coinsB) (\<lambda>sum.
          Inr (if \<not> DecCoin_IsZero res then res # sum else sum)))
      else
        rbind (DecCoins_safeAdd (coinA # coins) coinsB) (\<lambda>sum.
          Inr (if \<not> DecCoin_IsZero coinB then coinB # sum else sum)))"

definition DecCoins_Add :: "DecCoin list \<Rightarrow> DecCoin list \<Rightarrow> DecCoin list res" where
  "DecCoins_Add coins coinsB = DecCoins_safeAdd coins coinsB"

definition DecCoins_negative :: "DecCoin list \<Rightarrow> DecCoin list" where
  "DecCoins_negative coins = map (\<lambda>c. \<lparr> DDenom = DDenom c, DAmount = - DAmount c \<rparr>) coins"

definition DecCoins_IsAnyNegative :: "DecCoin list \<Rightarrow> bool" where
  "DecCoins_IsAnyNegative coins \<longleftrightarrow> list_ex DecCoin_IsNegative coins"

definition DecCoins_SafeSub :: "DecCoin list \<Rightarrow> DecCoin list \<Rightarrow> (DecCoin list \<times> bool) res" where
  "DecCoins_SafeSub coins coinsB =
     rbind (DecCoins_safeAdd coins (DecCoins_negative coinsB)) (\<lambda>diff.
       Inr (diff, DecCoins_IsAnyNegative diff))"

definition DecCoins_Sub :: "DecCoin list \<Rightarrow> DecCoin list \<Rightarrow> DecCoin list res" where
  "DecCoins_Sub coins coinsB =
     rbind (DecCoins_SafeSub coins coinsB) (\<lambda>(diff, hasNeg).
       if hasNeg then Inl (Panic ''negative coin amount'') else Inr diff)"

function AmountOfNoValidation :: "DecCoin list \<Rightarrow> string \<Rightarrow> dec" where
  "AmountOfNoValidation coins denom =
     (case coins of
        [] \<Rightarrow> LegacyZeroDec
      | [coin] \<Rightarrow> if DDenom coin = denom then DAmount coin else LegacyZeroDec
      | _ \<Rightarrow> let midIdx = length coins div 2; coin = coins ! midIdx in
          if denom < DDenom coin then AmountOfNoValidation (take midIdx coins) denom
          else if denom = DDenom coin then DAmount coin
          else AmountOfNoValidation (drop (midIdx + 1) coins) denom)"
  by pat_completeness auto
termination
  by (relation "measure (\<lambda>(cs, d). length cs)") auto

declare AmountOfNoValidation.simps [simp del]

definition DecCoins_AmountOf :: "(string \<Rightarrow> bool) \<Rightarrow> DecCoin list \<Rightarrow> string \<Rightarrow> dec res" where
  "DecCoins_AmountOf vd coins denom =
     rbind (mustValidateDenom vd denom) (\<lambda>_. Inr (AmountOfNoValidation coins denom))"

definition DecCoins_Intersect :: "(string \<Rightarrow> bool) \<Rightarrow> DecCoin list \<Rightarrow> DecCoin list \<Rightarrow> DecCoin list res" where
  "DecCoins_Intersect vd coins coinsB =
     rbind (rmap (\<lambda>coin. rbind (DecCoins_AmountOf vd coinsB (DDenom coin)) (\<lambda>b.
       Inr \<lparr> DDenom = DDenom coin, DAmount = LegacyMinDec (DAmount coin) b \<rparr>)) coins) (\<lambda>res.
     Inr (removeZeroDecCoins res))"

text \<open>The loop that \<open>MulDec\<close>, \<open>MulDecTruncate\<close>, \<open>QuoDec\<close> and \<open>QuoDecTruncate\<close> share.\<close>

definition scale_loop :: "(dec \<Rightarrow> dec res) \<Rightarrow> DecCoin list \<Rightarrow> DecCoin list res" where
  "scale_loop scale coins = rfold (\<lambda>res coin.
     rbind (scale (DAmount coin)) (\<lambda>a.
       let product = \<lparr> DDenom = DDenom coin, DAmount = a \<rparr>
       in if \<not> DecCoin_IsZero product then DecCoins_Add res [product] else Inr res)) [] coins"

definition DecCoins_MulDec :: "DecCoin list \<Rightarrow> dec \<Rightarrow> DecCoin list res" where
  "DecCoins_MulDec coins d = scale_loop (\<lambda>a. Dec_Mul a d) coins"

definition DecCoins_MulDecTruncate :: "DecCoin list \<Rightarrow> dec \<Rightarrow> DecCoin list res" where
  "DecCoins_MulDecTruncate coins d =
     (if d = 0 then Inr [] else scale_loop (\<lambda>a. Dec_MulTruncate a d) coins)"

definition DecCoins_QuoDec :: "DecCoin list \<Rightarrow> dec \<Rightarrow> DecCoin list res" where
  "DecCoins_QuoDec coins d =
     (if d = 0 then Inl (Panic ''invalid zero decimal'') else scale_loop (\<lambda>a. Dec_Quo a d) coins)"

definition DecCoins_QuoDecTruncate :: "DecCoin list \<Rightarrow> dec \<Rightarrow> DecCoin list res" where
  "DecCoins_QuoDecTruncate coins d =
     (if d = 0 then Inl (Panic ''invalid zero decimal'') else scale_loop (\<lambda>a. Dec_QuoTruncate a d) coins)"

definition DecCoins_TruncateDecimal :: "(string \<Rightarrow> bool) \<Rightarrow> DecCoin list \<Rightarrow> (Coin list \<times> DecCoin list) res" where
  "DecCoins_TruncateDecimal vd coins = rfold (\<lambda>(truncatedCoins, changeCoins) coin.
     rbind (DecCoin_TruncateDecimal vd coin) (\<lambda>(truncated, change).
     rbind (if \<not> Coin_IsZero truncated then Coins_Add truncatedCoins [truncated] else Inr truncatedCoins) (\<lambda>t.
     rbind (if \<not> DecCoin_IsZero change then DecCoins_Add changeCoins [change] else Inr changeCoins) (\<lambda>c.
       Inr (t, c))))) ([], []) coins"

definition DecCoins_IsZero :: "DecCoin list \<Rightarrow> bool" where
  "DecCoins_IsZero coins \<longleftrightarrow> list_all (\<lambda>c. DAmount c = 0) coins"

definition DecCoins_IsAllPositive :: "DecCoin list \<Rightarrow> bool" where
  "DecCoins_IsAllPositive coins \<longleftrightarrow> coins \<noteq> [] \<and> list_all DecCoin_IsPositive coins"

definition DecCoins_Equal :: "DecCoin list \<Rightarrow> DecCoin list \<Rightarrow> bool" where
  "DecCoins_Equal coins coinsB \<longleftrightarrow>
     length coins = length coinsB \<and> list_all2 (=) (DecCoins_Sort coins) (DecCoins_Sort coinsB)"

section \<open>Canonical decimal coin sets\<close>

definition dps :: "DecCoin list \<Rightarrow> amounts" where
  "dps coins = map (\<lambda>c. (DDenom c, DAmount c)) coins"

abbreviation damt :: "DecCoin list \<Rightarrow> string \<Rightarrow> int" where
  "damt coins \<equiv> amt (dps coins)"

definition dec_fits :: "dec \<Rightarrow> bool" where
  "dec_fits d \<longleftrightarrow> \<bar>d\<bar> \<le> upperLimit"

definition deccoins_ok :: "(string \<Rightarrow> bool) \<Rightarrow> DecCoin list \<Rightarrow> bool" where
  "deccoins_ok vd coins \<longleftrightarrow> DecCoins_IsValid vd coins \<and> list_all (\<lambda>c. dec_fits (DAmount c)) coins"

definition dec_sorted :: "DecCoin list \<Rightarrow> bool" where
  "dec_sorted cs \<longleftrightarrow> sorted_wrt (<) (map DDenom cs)"

lemma dps_list [simp]:
  "dps [] = []" "dps (c # cs) = (DDenom c, DAmount c) # dps cs" "dps (cs @ ds) = dps cs @ dps ds"
  "length (dps cs) = length cs" "(dps cs = []) = (cs = [])"
  by (simp_all add: dps_def)

lemma set_dps: "set (dps cs) = (\<lambda>c. (DDenom c, DAmount c)) ` set cs"
  by (simp add: dps_def)

lemma dps_inj: "dps a = dps b \<Longrightarrow> a = b"
  unfolding dps_def by (erule map_injective) (auto intro!: injI DecCoin.equality)

lemma dec_sorted_iff: "dec_sorted cs \<longleftrightarrow> om_ok (dps cs)"
  by (simp add: dec_sorted_def om_ok_def dps_def comp_def)

lemma dec_sorted_simps [simp]:
  "dec_sorted []" "dec_sorted (c # cs) \<longleftrightarrow> (\<forall>d \<in> set cs. DDenom c < DDenom d) \<and> dec_sorted cs"
  by (auto simp: dec_sorted_def)

lemma deccoin_sign [simp]:
  "DecCoin_IsPositive c \<longleftrightarrow> 0 < DAmount c" "DecCoin_IsNegative c \<longleftrightarrow> DAmount c < 0" "DecCoin_IsZero c \<longleftrightarrow> DAmount c = 0"
  by (simp_all add: DecCoin_IsPositive_def DecCoin_IsNegative_def DecCoin_IsZero_def)

lemma damt_in: "damt c d \<noteq> 0 \<Longrightarrow> d \<in> DDenom ` set c"
  using amt_absent [of d "dps c"] by (auto simp: set_dps image_iff)

lemma damt_member: "dec_sorted c \<Longrightarrow> x \<in> set c \<Longrightarrow> damt c (DDenom x) = DAmount x"
  using amt_in [of "dps c" "(DDenom x, DAmount x)"] by (auto simp: dec_sorted_iff set_dps)

lemma damt_above: "\<forall>x \<in> set cs. d < DDenom x \<Longrightarrow> damt cs d = 0"
  using damt_in [of cs d] by auto

lemma dvalidate_rest_ok:
  "\<forall>s \<in> set seen. s \<le> low \<Longrightarrow>
   dvalidate_rest vd low seen cs = Inr () \<longleftrightarrow>
     canon ((low, 1) # dps cs) \<and> (\<forall>c \<in> set cs. vd (DDenom c) \<and> 0 < DAmount c)"
proof (induction cs arbitrary: low seen)
  case (Cons c cs)
  have IH: "low < DDenom c \<Longrightarrow> dvalidate_rest vd (DDenom c) (DDenom c # seen) cs = Inr () \<longleftrightarrow>
     canon ((DDenom c, 1) # dps cs) \<and> (\<forall>c \<in> set cs. vd (DDenom c) \<and> 0 < DAmount c)"
    using Cons.prems by (intro Cons.IH) (auto intro: order.trans less_imp_le)
  have "DDenom c \<notin> set seen" if "low < DDenom c" using that Cons.prems by fastforce
  then show ?case
    using IH by (auto simp: res_simps not_le set_dps intro: order.strict_trans)
qed simp

lemma DecCoins_Validate_iff:
  "DecCoins_Validate vd cs = Inr () \<longleftrightarrow> canon (dps cs) \<and> (\<forall>c \<in> set cs. vd (DDenom c) \<and> 0 < DAmount c)"
proof (cases cs)
  case (Cons c rest)
  have "DecCoins_Validate vd cs =
      rbind (dvalidate_single vd c) (\<lambda>_. dvalidate_rest vd (DDenom c) [DDenom c] rest)"
    using Cons by (cases rest; cases "dvalidate_single vd c") (auto simp: DecCoins_Validate_def)
  then show ?thesis
    using Cons dvalidate_rest_ok [of "[DDenom c]" "DDenom c" vd rest]
    by (auto simp: res_simps dvalidate_single_def)
qed (simp add: DecCoins_Validate_def)

lemma deccoins_ok_iff:
  "deccoins_ok vd cs \<longleftrightarrow>
     canon (dps cs) \<and> (\<forall>c \<in> set cs. vd (DDenom c) \<and> 0 < DAmount c \<and> dec_fits (DAmount c))"
  by (auto simp: deccoins_ok_def DecCoins_IsValid_def DecCoins_Validate_iff list_all_iff)

lemma deccoins_ok_sorted [simp]: "deccoins_ok vd cs \<Longrightarrow> dec_sorted cs"
  by (simp add: deccoins_ok_iff dec_sorted_iff canon_def)

lemma deccoins_ok_nonneg: "deccoins_ok vd cs \<Longrightarrow> 0 \<le> damt cs d"
  by (rule amt_sign) (auto simp: deccoins_ok_iff set_dps)

lemma deccoins_ok_vd: "deccoins_ok vd c \<Longrightarrow> damt c d \<noteq> 0 \<Longrightarrow> vd d"
  using damt_in [of c d] by (auto simp: deccoins_ok_iff)

lemma deccoins_ok_fits: "deccoins_ok vd cs \<Longrightarrow> dec_fits (damt cs d)"
proof (cases "damt cs d = 0")
  case False
  assume ok: "deccoins_ok vd cs"
  obtain c where "c \<in> set cs" "d = DDenom c" using damt_in [OF False] by auto
  then show ?thesis using ok damt_member [of cs c] by (simp add: deccoins_ok_iff [of vd cs] dec_sorted_iff canon_def)
qed (simp add: dec_fits_def)

lemma deccoins_okI:
  assumes "canon (dps c)" "\<And>d. 0 \<le> damt c d" "\<And>d. damt c d \<noteq> 0 \<Longrightarrow> vd d" "\<And>d. dec_fits (damt c d)"
  shows "deccoins_ok vd c"
  unfolding deccoins_ok_iff
proof (intro conjI ballI)
  fix x assume x: "x \<in> set c"
  have am: "damt c (DDenom x) = DAmount x" "DAmount x \<noteq> 0"
    using damt_member [OF _ x] assms(1) x by (auto simp: dec_sorted_iff canon_def set_dps)
  show "vd (DDenom x)" "0 < DAmount x" "dec_fits (DAmount x)"
    using am assms(2,3,4) [of "DDenom x"] by auto
qed (rule assms)

section \<open>Addition and subtraction\<close>

lemma dps_removeZero: "dps (removeZeroDecCoins cs) = filter (\<lambda>x. snd x \<noteq> 0) (dps cs)"
  by (induction cs) (auto simp: removeZeroDecCoins_def)

lemma removeZero_canon: "dec_sorted cs \<Longrightarrow> canon (dps (removeZeroDecCoins cs))"
  by (simp add: dps_removeZero canon_def dec_sorted_iff)

lemma DecCoin_Add_Inr:
  "DecCoin_Add a b = Inr c \<longleftrightarrow> DDenom a = DDenom b \<and> dec_fits (DAmount a + DAmount b) \<and>
     c = \<lparr> DDenom = DDenom a, DAmount = DAmount a + DAmount b \<rparr>"
  by (auto simp: DecCoin_Add_def Dec_Add_def legacydec dec_fits_def res_simps)

lemma canon_cons_zero:
  "canon xs \<Longrightarrow> (\<forall>y \<in> set xs. fst x < fst y) \<Longrightarrow> canon (if snd x \<noteq> 0 then x # xs else xs)"
  by simp

text \<open>The merge of sorted sets is canonical and adds pointwise.\<close>

lemma DecCoins_safeAdd_exact:
  "dec_sorted a \<Longrightarrow> dec_sorted b \<Longrightarrow> DecCoins_safeAdd a b = Inr c \<Longrightarrow>
     canon (dps c) \<and> DDenom ` set c \<subseteq> DDenom ` set a \<union> DDenom ` set b \<and>
     (\<forall>d. damt c d = damt a d + damt b d)"
proof (induction a b arbitrary: c rule: DecCoins_safeAdd.induct)
  case (1 b)
  then show ?case
    using removeZero_canon [of b] by (auto simp: dps_removeZero amt_nonzero) (auto simp: removeZeroDecCoins_def)
next
  case (2 x a)
  then have "c = removeZeroDecCoins (x # a)" by simp
  then show ?case
    using 2 removeZero_canon [of "x # a"]
    by (auto simp: dps_removeZero amt_nonzero) (auto simp: removeZeroDecCoins_def split: if_splits)
next
  case (3 x a y b)
  have srt: "dec_sorted a" "dec_sorted b" using 3 by auto
  consider "DDenom x < DDenom y" | "DDenom x = DDenom y" | "DDenom y < DDenom x" by fastforce
  then show ?case
  proof cases
    case 1
    then obtain sum where s: "DecCoins_safeAdd a (y # b) = Inr sum" "c = (if DAmount x \<noteq> 0 then x # sum else sum)"
      using "3.prems"(3) by (auto simp: res_simps)
    note IH = "3.IH"(1) [OF 1 srt(1) "3.prems"(2) s(1)]
    have "\<forall>z \<in> DDenom ` set a \<union> DDenom ` set (y # b). DDenom x < z"
      using "3.prems" 1 order.strict_trans [OF 1] by auto
    then have "\<forall>z \<in> set sum. DDenom x < DDenom z" using IH by (meson image_eqI subsetD)
    then show ?thesis using IH s(2) by (auto simp: set_dps)
  next
    case 2
    then obtain sum where s: "DecCoins_safeAdd a b = Inr sum"
      "c = (if DAmount x + DAmount y \<noteq> 0 then \<lparr> DDenom = DDenom x, DAmount = DAmount x + DAmount y \<rparr> # sum else sum)"
      using "3.prems"(3) by (auto simp: res_simps DecCoin_Add_Inr)
    have IH: "canon (dps sum) \<and> DDenom ` set sum \<subseteq> DDenom ` set a \<union> DDenom ` set b \<and>
        (\<forall>d. damt sum d = damt a d + damt b d)"
      using "3.IH"(2) [OF _ 2 srt s(1)] 2 by simp
    have "\<forall>z \<in> DDenom ` set a \<union> DDenom ` set b. DDenom x < z" using "3.prems" 2 by auto
    then have "\<forall>z \<in> set sum. DDenom x < DDenom z" using IH by (meson image_eqI subsetD)
    then show ?thesis using IH s(2) 2 by (auto simp: set_dps)
  next
    case 3
    then obtain sum where s: "DecCoins_safeAdd (x # a) b = Inr sum" "c = (if DAmount y \<noteq> 0 then y # sum else sum)"
      using "3.prems"(3) less_not_sym [OF 3] less_imp_neq [OF 3, symmetric] by (auto simp: res_simps)
    note IH = "3.IH"(3) [OF less_not_sym [OF 3] less_imp_neq [OF 3, symmetric] "3.prems"(1) srt(2) s(1)]
    have "\<forall>z \<in> DDenom ` set (x # a) \<union> DDenom ` set b. DDenom y < z"
      using "3.prems" 3 order.strict_trans [OF 3] by auto
    then have "\<forall>z \<in> set sum. DDenom y < DDenom z" using IH by (meson image_eqI subsetD)
    then show ?thesis using IH s(2) by (auto simp: set_dps)
  qed
qed

lemma DecCoins_safeAdd_total:
  "dec_sorted a \<Longrightarrow> dec_sorted b \<Longrightarrow> (\<forall>d. dec_fits (damt a d + damt b d)) \<Longrightarrow>
     \<exists>c. DecCoins_safeAdd a b = Inr c"
proof (induction a b rule: DecCoins_safeAdd.induct)
  case (3 x a y b)
  have srt: "dec_sorted a" "dec_sorted b" using 3 by auto
  have lowx: "damt a d = 0" if "d = DDenom x \<or> d < DDenom x" for d
    using "3.prems"(1) that by (intro damt_above) (auto intro: order.strict_trans)
  have lowy: "damt b d = 0" if "d = DDenom y \<or> d < DDenom y" for d
    using "3.prems"(2) that by (intro damt_above) (auto intro: order.strict_trans)
  have fit: "dec_fits (damt (x # a) d + damt (y # b) d)" for d using "3.prems"(3) by blast
  have z: "dec_fits 0" by (simp add: dec_fits_def)
  consider "DDenom x < DDenom y" | "DDenom x = DDenom y" | "DDenom y < DDenom x" by fastforce
  then show ?case
  proof cases
    case 1
    have "dec_fits (damt a d + damt (y # b) d)" for d
    proof (cases "d = DDenom x")
      case True then show ?thesis using lowx [of d] lowy [of d] 1 z by (auto simp: less_imp_neq)
    next
      case False then show ?thesis using fit [of d] by simp
    qed
    then show ?thesis using "3.IH"(1) [OF 1 srt(1) "3.prems"(2)] 1 by auto
  next
    case 2
    have "dec_fits (damt a d + damt b d)" for d
    proof (cases "d = DDenom x")
      case True then show ?thesis using lowx [of d] lowy [of d] 2 z by auto
    next
      case False then show ?thesis using fit [of d] 2 by simp
    qed
    moreover obtain r where r: "DecCoin_Add x y = Inr r"
      using fit [of "DDenom x"] lowx [of "DDenom x"] lowy [of "DDenom y"] 2 by (auto simp: DecCoin_Add_Inr)
    ultimately show ?thesis using "3.IH"(2) [OF _ 2 srt] 2 by auto
  next
    case 3
    have "dec_fits (damt (x # a) d + damt b d)" for d
    proof (cases "d = DDenom y")
      case True then show ?thesis using lowx [of d] lowy [of d] 3 z by (auto simp: less_imp_neq)
    next
      case False then show ?thesis using fit [of d] by simp
    qed
    then show ?thesis
      using "3.IH"(3) [OF less_not_sym [OF 3] less_imp_neq [OF 3, symmetric] "3.prems"(1) srt(2)] less_not_sym [OF 3]
        less_imp_neq [OF 3, symmetric]
      by auto
  qed
qed auto

lemma dec_fits_diff: "dec_fits a \<Longrightarrow> dec_fits b \<Longrightarrow> 0 \<le> a \<Longrightarrow> 0 \<le> b \<Longrightarrow> dec_fits (a - b)"
  by (auto simp: dec_fits_def)

lemma dps_negative: "dps (DecCoins_negative cs) = map (\<lambda>x. (fst x, - snd x)) (dps cs)"
  by (simp add: DecCoins_negative_def dps_def)

lemma negative_sorted [simp]: "dec_sorted (DecCoins_negative cs) \<longleftrightarrow> dec_sorted cs"
  using om_ok_map_values [of uminus "dps cs"] by (simp add: dec_sorted_iff dps_negative)

lemma damt_negative: "dec_sorted cs \<Longrightarrow> damt (DecCoins_negative cs) d = - damt cs d"
  unfolding dps_negative by (rule amt_map_values) (simp_all add: dec_sorted_iff)

text \<open>Every amount of a merge is checked, except where only one side has the denomination.\<close>

lemma DecCoins_safeAdd_fits:
  "DecCoins_safeAdd a b = Inr c \<Longrightarrow> \<forall>x \<in> set a \<union> set b. dec_fits (DAmount x) \<Longrightarrow> \<forall>x \<in> set c. dec_fits (DAmount x)"
proof (induction a b arbitrary: c rule: DecCoins_safeAdd.induct)
  case (3 x a y b)
  then show ?case
    by (auto simp: res_simps DecCoin_Add_Inr split: if_splits)
qed (auto simp: removeZeroDecCoins_def split: if_splits)

lemma fits_from_members: "dec_sorted c \<Longrightarrow> \<forall>x \<in> set c. dec_fits (DAmount x) \<Longrightarrow> dec_fits (damt c d)"
proof (cases "damt c d = 0")
  case False
  then obtain x where "x \<in> set c" "d = DDenom x" using damt_in [OF False] by auto
  then show "dec_sorted c \<Longrightarrow> \<forall>x \<in> set c. dec_fits (DAmount x) \<Longrightarrow> dec_fits (damt c d)"
    using damt_member [of c x] by auto
qed (simp add: dec_fits_def)

lemma canon_dec_sorted: "canon (dps c) \<Longrightarrow> dec_sorted c"
  by (simp add: canon_def dec_sorted_iff)

lemma deccoins_ok_members: "deccoins_ok vd cs \<Longrightarrow> \<forall>x \<in> set cs. dec_fits (DAmount x)"
  by (simp add: deccoins_ok_iff)

lemma DecCoins_Add_ok:
  assumes "deccoins_ok vd a" "deccoins_ok vd b" "DecCoins_Add a b = Inr c"
  shows "deccoins_ok vd c \<and> (\<forall>d. damt c d = damt a d + damt b d)"
proof -
  note add = assms(3) [unfolded DecCoins_Add_def]
  have ex: "canon (dps c)" "\<And>d. damt c d = damt a d + damt b d"
    using DecCoins_safeAdd_exact [OF _ _ add] assms(1,2) by auto
  have "dec_fits (damt c d)" for d
    using DecCoins_safeAdd_fits [OF add] deccoins_ok_members [OF assms(1)] deccoins_ok_members [OF assms(2)]
    by (intro fits_from_members canon_dec_sorted ex(1)) auto
  moreover have "vd d" if "damt c d \<noteq> 0" for d
    using ex(2) [of d] that deccoins_ok_vd [OF assms(1), of d] deccoins_ok_vd [OF assms(2), of d] by fastforce
  ultimately show ?thesis
    using ex deccoins_ok_nonneg [OF assms(1)] deccoins_ok_nonneg [OF assms(2)] by (auto intro!: deccoins_okI)
qed

lemma DecCoins_Add_total:
  "deccoins_ok vd a \<Longrightarrow> deccoins_ok vd b \<Longrightarrow> (\<And>d. dec_fits (damt a d + damt b d)) \<Longrightarrow> \<exists>c. DecCoins_Add a b = Inr c"
  unfolding DecCoins_Add_def by (rule DecCoins_safeAdd_total) auto

lemma DecCoins_SafeSub_ok:
  assumes "deccoins_ok vd a" "deccoins_ok vd b"
  shows "\<exists>diff. DecCoins_SafeSub a b = Inr (diff, \<exists>d. damt a d < damt b d) \<and>
    canon (dps diff) \<and> (\<forall>d. damt diff d = damt a d - damt b d)"
proof -
  note nn = deccoins_ok_nonneg [OF assms(1)] deccoins_ok_nonneg [OF assms(2)]
  have srt: "dec_sorted a" "dec_sorted (DecCoins_negative b)" using assms by auto
  have neg: "damt (DecCoins_negative b) d = - damt b d" for d using assms(2) by (simp add: damt_negative)
  have fit: "dec_fits (damt a d + damt (DecCoins_negative b) d)" for d
    using dec_fits_diff [OF deccoins_ok_fits [OF assms(1)] deccoins_ok_fits [OF assms(2)] nn] by (simp add: neg)
  obtain diff where add: "DecCoins_safeAdd a (DecCoins_negative b) = Inr diff"
    using DecCoins_safeAdd_total [OF srt] fit by auto
  note ex = DecCoins_safeAdd_exact [OF srt add]
  have mem: "x \<in> set diff \<Longrightarrow> damt diff (DDenom x) = DAmount x" for x
    using damt_member [OF canon_dec_sorted] ex by blast
  have "DecCoins_IsAnyNegative diff \<longleftrightarrow> (\<exists>d. damt a d < damt b d)"
  proof
    assume "DecCoins_IsAnyNegative diff"
    then obtain x where x: "x \<in> set diff" "DAmount x < 0" by (auto simp: DecCoins_IsAnyNegative_def list_ex_iff)
    then show "\<exists>d. damt a d < damt b d"
      using mem [OF x(1)] ex by (intro exI [of _ "DDenom x"]) (auto simp: neg)
  next
    assume "\<exists>d. damt a d < damt b d"
    then obtain d where d: "damt diff d < 0" using ex by (auto simp: neg)
    then obtain x where x: "x \<in> set diff" "d = DDenom x" using damt_in [of diff d] by auto
    then show "DecCoins_IsAnyNegative diff"
      using mem [OF x(1)] d by (auto simp: DecCoins_IsAnyNegative_def list_ex_iff)
  qed
  then show ?thesis
    using ex add by (intro exI [of _ diff]) (simp add: DecCoins_SafeSub_def neg)
qed

lemma DecCoins_Sub_ok:
  assumes "deccoins_ok vd a" "deccoins_ok vd b" "DecCoins_Sub a b = Inr c"
  shows "deccoins_ok vd c \<and> (\<forall>d. damt c d = damt a d - damt b d)"
proof -
  obtain diff where diff: "DecCoins_SafeSub a b = Inr (diff, \<exists>d. damt a d < damt b d)"
    "canon (dps diff)" "\<And>d. damt diff d = damt a d - damt b d"
    using DecCoins_SafeSub_ok [OF assms(1,2)] by blast
  have c: "c = diff" and le: "\<And>d. damt b d \<le> damt a d"
    using assms(3) diff(1) by (auto simp: DecCoins_Sub_def not_less split: if_splits)
  have "vd d" if "damt diff d \<noteq> 0" for d
    using that le [of d] deccoins_ok_vd [OF assms(1), of d] deccoins_ok_nonneg [OF assms(2), of d] diff(3) [of d] by fastforce
  moreover have "dec_fits (damt diff d)" for d
    unfolding diff(3) using assms by (intro dec_fits_diff deccoins_ok_fits deccoins_ok_nonneg)
  ultimately show ?thesis unfolding c using diff le by (auto intro!: deccoins_okI)
qed

lemma DecCoins_Sub_total:
  assumes "deccoins_ok vd a" "deccoins_ok vd b" "\<And>d. damt b d \<le> damt a d"
  shows "\<exists>c. DecCoins_Sub a b = Inr c"
proof -
  have "\<not> (\<exists>d. damt a d < damt b d)" using assms(3) by (simp add: not_less)
  then show ?thesis using DecCoins_SafeSub_ok [OF assms(1,2)] by (auto simp: DecCoins_Sub_def)
qed

lemma deccoins_ok_ext: "deccoins_ok vd a \<Longrightarrow> deccoins_ok vd b \<Longrightarrow> (\<And>d. damt a d = damt b d) \<Longrightarrow> a = b"
  by (auto simp: deccoins_ok_iff intro: dps_inj canon_ext)

interpretation deccoins: coin_set "deccoins_ok vd" damt dec_fits DecCoins_Add DecCoins_Sub for vd
proof
  show "deccoins_ok vd a \<Longrightarrow> deccoins_ok vd b \<Longrightarrow> (\<And>d. damt a d = damt b d) \<Longrightarrow> a = b" for a b
    by (rule deccoins_ok_ext)
  show "dec_fits y \<Longrightarrow> 0 \<le> x \<Longrightarrow> x \<le> y \<Longrightarrow> dec_fits x" for x y by (auto simp: dec_fits_def)
qed (rule deccoins_ok_nonneg deccoins_ok_fits DecCoins_Add_ok DecCoins_Add_total DecCoins_Sub_ok
    DecCoins_Sub_total; assumption)+

section \<open>Scaling, truncation, intersection\<close>

text \<open>Adding one coin of a higher denomination appends it; so the loops below build their result in order.\<close>

lemma om_ok_snoc: "om_ok (xs @ [x]) \<longleftrightarrow> om_ok xs \<and> (\<forall>y \<in> set xs. fst y < fst x)"
  by (auto simp: om_ok_def sorted_wrt_append)

lemma Coins_Add_snoc:
  assumes "coins_ok vd t" "\<forall>x \<in> set t. Denom x < Denom c" "vd (Denom c)" "0 < Amount c" "int256 (Amount c)"
  shows "Coins_Add t [c] = Inr (t @ [c]) \<and> coins_ok vd (t @ [c])"
proof -
  have ok: "coins_ok vd [c]" "coins_ok vd (t @ [c])"
    using assms by (auto simp: coins_ok_iff canon_def om_ok_snoc set_cps)
  then show ?thesis using coins.add_iff [OF assms(1) ok(1), of "t @ [c]"] by simp
qed

lemma DecCoins_Add_snoc:
  assumes "deccoins_ok vd t" "\<forall>x \<in> set t. DDenom x < DDenom c" "vd (DDenom c)" "0 < DAmount c" "dec_fits (DAmount c)"
  shows "DecCoins_Add t [c] = Inr (t @ [c]) \<and> deccoins_ok vd (t @ [c])"
proof -
  have ok: "deccoins_ok vd [c]" "deccoins_ok vd (t @ [c])"
    using assms by (auto simp: deccoins_ok_iff canon_def om_ok_snoc set_dps)
  then show ?thesis using deccoins.add_iff [OF assms(1) ok(1), of "t @ [c]"] by simp
qed

definition scaled :: "(dec \<Rightarrow> dec) \<Rightarrow> DecCoin list \<Rightarrow> DecCoin list" where
  "scaled g cs = removeZeroDecCoins (map (\<lambda>c. \<lparr> DDenom = DDenom c, DAmount = g (DAmount c) \<rparr>) cs)"

lemma scaled_simps [simp]:
  "scaled g [] = []"
  "scaled g (c # cs) = (if g (DAmount c) = 0 then [] else [\<lparr> DDenom = DDenom c, DAmount = g (DAmount c) \<rparr>]) @ scaled g cs"
  by (simp_all add: scaled_def removeZeroDecCoins_def)

lemma damt_scaled: "dec_sorted cs \<Longrightarrow> g 0 = 0 \<Longrightarrow> damt (scaled g cs) d = g (damt cs d)"
proof -
  assume "dec_sorted cs" "g 0 = 0"
  moreover have "dps (map (\<lambda>c. \<lparr> DDenom = DDenom c, DAmount = g (DAmount c) \<rparr>) cs) = map (\<lambda>x. (fst x, g (snd x))) (dps cs)"
    by (simp add: dps_def)
  ultimately show ?thesis
    by (simp add: scaled_def dps_removeZero amt_nonzero amt_map_values dec_sorted_iff)
qed

lemma scale_loop_from:
  assumes "deccoins_ok vd acc" "dec_sorted cs" "\<forall>x \<in> set acc. \<forall>c \<in> set cs. DDenom x < DDenom c"
    and "\<forall>c \<in> set cs. vd (DDenom c) \<and> f (DAmount c) = Inr (g (DAmount c)) \<and> 0 \<le> g (DAmount c) \<and> dec_fits (g (DAmount c))"
  shows "rfold (\<lambda>res coin.
     rbind (f (DAmount coin)) (\<lambda>a.
       let product = \<lparr> DDenom = DDenom coin, DAmount = a \<rparr>
       in if \<not> DecCoin_IsZero product then DecCoins_Add res [product] else Inr res)) acc cs =
     Inr (acc @ scaled g cs) \<and> deccoins_ok vd (acc @ scaled g cs)"
  using assms
proof (induction cs arbitrary: acc)
  case (Cons c cs)
  show ?case
  proof (cases "g (DAmount c) = 0")
    case True
    then show ?thesis using Cons by simp
  next
    case False
    let ?p = "\<lparr> DDenom = DDenom c, DAmount = g (DAmount c) \<rparr>"
    have add: "DecCoins_Add acc [?p] = Inr (acc @ [?p]) \<and> deccoins_ok vd (acc @ [?p])"
      using Cons.prems False by (intro DecCoins_Add_snoc) auto
    have "\<forall>x \<in> set (acc @ [?p]). \<forall>c' \<in> set cs. DDenom x < DDenom c'" using Cons.prems by auto
    then show ?thesis
      using Cons.IH [of "acc @ [?p]"] add Cons.prems False by simp
  qed
qed simp

lemma scale_loop_ok:
  assumes "deccoins_ok vd cs" "g 0 = 0"
    and "\<And>a. 0 < a \<Longrightarrow> dec_fits a \<Longrightarrow> a \<in> DAmount ` set cs \<Longrightarrow> f a = Inr (g a) \<and> 0 \<le> g a \<and> dec_fits (g a)"
  shows "\<exists>r. scale_loop f cs = Inr r \<and> deccoins_ok vd r \<and> (\<forall>d. damt r d = g (damt cs d))"
proof -
  have "\<forall>c \<in> set cs. vd (DDenom c) \<and> f (DAmount c) = Inr (g (DAmount c)) \<and> 0 \<le> g (DAmount c) \<and> dec_fits (g (DAmount c))"
    using assms(1,3) by (auto simp: deccoins_ok_iff)
  then have "scale_loop f cs = Inr (scaled g cs) \<and> deccoins_ok vd (scaled g cs)"
    using scale_loop_from [of vd "[]" cs f g] assms(1) by (simp add: scale_loop_def deccoins_ok_iff [of vd "[]"])
  then show ?thesis using damt_scaled [of cs g] assms by auto
qed

definition whole :: "DecCoin \<Rightarrow> Coin" where
  "whole c = \<lparr> Denom = DDenom c, Amount = DAmount c div precisionReuse \<rparr>"

lemma fits_whole: "0 \<le> a \<Longrightarrow> dec_fits a \<Longrightarrow> int256 (a div precisionReuse)"
  using Dec_TruncateInt_total [of a]
  by (simp add: dec_fits_def Dec_TruncateInt_def sdkint chopPrecisionAndTruncate_def sdiv_nonneg_eq split: if_splits)

lemma fits_change: "dec_fits (a mod precisionReuse)"
proof -
  have "0 \<le> a mod precisionReuse" "a mod precisionReuse < precisionReuse" by simp_all
  moreover have "precisionReuse \<le> upperLimit" by (simp add: upperLimit_def precisionReuse_def)
  ultimately show ?thesis unfolding dec_fits_def by linarith
qed

lemma DecCoin_TruncateDecimal_ok:
  assumes "vd (DDenom c)" "0 \<le> DAmount c" "dec_fits (DAmount c)"
  shows "DecCoin_TruncateDecimal vd c = Inr (whole c, \<lparr> DDenom = DDenom c, DAmount = DAmount c mod precisionReuse \<rparr>)"
proof -
  have tr: "Dec_TruncateInt (DAmount c) = Inr (DAmount c div precisionReuse)"
    using fits_whole [OF assms(2,3)] assms(2)
    by (simp add: Dec_TruncateInt_def chopPrecisionAndTruncate_def sdiv_nonneg_eq sdkint)
  have "Dec_Sub (DAmount c) (LegacyNewDecFromInt (DAmount c div precisionReuse)) = Inr (DAmount c mod precisionReuse)"
    using fits_change [of "DAmount c"]
    by (simp add: Dec_Sub_def LegacyNewDecFromInt_def minus_div_mult_eq_mod assertInValidRange_ok dec_fits_def)
  moreover have "0 \<le> DAmount c div precisionReuse" using assms(2) by (simp add: pos_imp_zdiv_nonneg_iff)
  ultimately show ?thesis
    using assms(1) tr
    by (simp add: DecCoin_TruncateDecimal_def NewCoin_ok NewDecCoinFromDec_def mustValidateDenom_def
        ValidateDenom_def whole_def not_less)
qed

lemma truncate_from:
  assumes "coins_ok vd t" "deccoins_ok vd ch" "dec_sorted cs"
    "\<forall>c \<in> set cs. (\<forall>x \<in> set t. Denom x < DDenom c) \<and> (\<forall>x \<in> set ch. DDenom x < DDenom c)"
    "\<forall>c \<in> set cs. vd (DDenom c) \<and> 0 \<le> DAmount c \<and> dec_fits (DAmount c)"
  shows "rfold (\<lambda>(truncatedCoins, changeCoins) coin.
     rbind (DecCoin_TruncateDecimal vd coin) (\<lambda>(truncated, change).
     rbind (if \<not> Coin_IsZero truncated then Coins_Add truncatedCoins [truncated] else Inr truncatedCoins) (\<lambda>t.
     rbind (if \<not> DecCoin_IsZero change then DecCoins_Add changeCoins [change] else Inr changeCoins) (\<lambda>c.
       Inr (t, c))))) (t, ch) cs =
     Inr (t @ removeZeroCoins (map whole cs), ch @ scaled (\<lambda>a. a mod precisionReuse) cs) \<and>
     coins_ok vd (t @ removeZeroCoins (map whole cs)) \<and> deccoins_ok vd (ch @ scaled (\<lambda>a. a mod precisionReuse) cs)"
  using assms
proof (induction cs arbitrary: t ch)
  case (Cons c cs)
  let ?m = "\<lparr> DDenom = DDenom c, DAmount = DAmount c mod precisionReuse \<rparr>"
  define t' where "t' = (if Amount (whole c) = 0 then t else t @ [whole c])"
  define ch' where "ch' = (if DAmount ?m = 0 then ch else ch @ [?m])"
  have tr: "DecCoin_TruncateDecimal vd c = Inr (whole c, ?m)"
    using Cons.prems by (intro DecCoin_TruncateDecimal_ok) auto
  have nn: "0 \<le> DAmount c div precisionReuse" using Cons.prems(5) by (simp add: pos_imp_zdiv_nonneg_iff)
  have t': "(if Amount (whole c) \<noteq> 0 then Coins_Add t [whole c] else Inr t) = Inr t' \<and> coins_ok vd t'"
    using Cons.prems nn Coins_Add_snoc [of vd t "whole c"] fits_whole [of "DAmount c"]
    by (auto simp: t'_def whole_def)
  have ch': "(if DAmount ?m \<noteq> 0 then DecCoins_Add ch [?m] else Inr ch) = Inr ch' \<and> deccoins_ok vd ch'"
    using Cons.prems DecCoins_Add_snoc [of vd ch ?m] fits_change [of "DAmount c"]
      pos_mod_sign [of precisionReuse "DAmount c"]
    by (auto simp: ch'_def order_less_le)
  have "\<forall>c \<in> set cs. (\<forall>x \<in> set t'. Denom x < DDenom c) \<and> (\<forall>x \<in> set ch'. DDenom x < DDenom c)"
    using Cons.prems(3,4) by (auto simp: t'_def ch'_def whole_def)
  note IH = Cons.IH [OF conjunct2 [OF t'] conjunct2 [OF ch'] _ this]
  have app: "t @ removeZeroCoins (map whole (c # cs)) = t' @ removeZeroCoins (map whole cs)"
    "ch @ scaled (\<lambda>a. a mod precisionReuse) (c # cs) = ch' @ scaled (\<lambda>a. a mod precisionReuse) cs"
    by (simp_all add: t'_def ch'_def removeZeroCoins_def)
  show ?case
    unfolding app using IH Cons.prems(3,5) t' ch' tr by simp
qed (simp add: removeZeroCoins_def)

lemma camt_whole: "dec_sorted cs \<Longrightarrow> camt (removeZeroCoins (map whole cs)) d = damt cs d div precisionReuse"
proof -
  assume "dec_sorted cs"
  moreover have "cps (map whole cs) = map (\<lambda>x. (fst x, snd x div precisionReuse)) (dps cs)"
    by (simp add: cps_def dps_def whole_def)
  ultimately show ?thesis
    by (simp add: cps_removeZero amt_nonzero amt_map_values [of _ "\<lambda>a. a div precisionReuse"] dec_sorted_iff)
qed

lemma DecCoins_TruncateDecimal_ok:
  assumes "deccoins_ok vd cs"
  shows "\<exists>t ch. DecCoins_TruncateDecimal vd cs = Inr (t, ch) \<and> coins_ok vd t \<and> deccoins_ok vd ch \<and>
    (\<forall>d. camt t d = damt cs d div precisionReuse \<and> damt ch d = damt cs d mod precisionReuse)"
proof -
  have "coins_ok vd []" "deccoins_ok vd []" by (simp_all add: coins_ok_iff deccoins_ok_iff)
  moreover have "\<forall>c \<in> set cs. vd (DDenom c) \<and> 0 \<le> DAmount c \<and> dec_fits (DAmount c)"
    using assms by (auto simp: deccoins_ok_iff less_imp_le)
  ultimately show ?thesis
    using truncate_from [of vd "[]" "[]" cs] assms camt_whole [of cs] damt_scaled [of cs "\<lambda>a. a mod precisionReuse"]
    by (intro exI [of _ "removeZeroCoins (map whole cs)"] exI [of _ "scaled (\<lambda>a. a mod precisionReuse) cs"])
      (simp add: DecCoins_TruncateDecimal_def)
qed

section \<open>Lookup and intersection\<close>

lemma AmountOfNoValidation_sorted: "dec_sorted cs \<Longrightarrow> AmountOfNoValidation cs d = damt cs d"
proof (induction cs d rule: AmountOfNoValidation.induct)
  case (1 cs d)
  show ?case
  proof (cases "length cs < 2")
    case True
    then consider "cs = []" | c where "cs = [c]" by (cases cs; cases "tl cs") auto
    then show ?thesis by cases (auto simp: AmountOfNoValidation.simps LegacyZeroDec_def)
  next
    case False
    then obtain c0 c1 rest where cs: "cs = c0 # c1 # rest" by (cases cs; cases "tl cs") auto
    define m where "m = length cs div 2"
    have m: "m < length cs" using False by (auto simp: m_def)
    note halves = sorted_halves [OF "1.prems" [unfolded dec_sorted_def] m]
    have look: "AmountOfNoValidation cs d =
        (if d < DDenom (cs ! m) then AmountOfNoValidation (take m cs) d
         else if d = DDenom (cs ! m) then DAmount (cs ! m) else AmountOfNoValidation (drop (Suc m) cs) d)"
      by (subst (1) AmountOfNoValidation.simps) (simp add: m_def Let_def cs)
    have "damt cs d = damt (take m cs @ cs ! m # drop (Suc m) cs) d"
      using id_take_nth_drop [OF m] by simp
    then have amt: "damt cs d = damt (take m cs) d + (if DDenom (cs ! m) = d then DAmount (cs ! m) else 0) + damt (drop (Suc m) cs) d"
      by simp
    consider "d < DDenom (cs ! m)" | "d = DDenom (cs ! m)" | "DDenom (cs ! m) < d" by fastforce
    then show ?thesis
    proof cases
      case 1
      have "AmountOfNoValidation (take m cs) d = damt (take m cs) d"
        by (rule "1.IH"(1) [OF cs refl m_def refl 1]) (use halves in \<open>simp add: dec_sorted_def\<close>)
      moreover have "damt (drop (Suc m) cs) d = 0"
        using halves(4) order.strict_trans [OF 1] by (intro damt_above) blast
      ultimately show ?thesis using 1 by (subst look) (simp add: amt less_imp_neq [OF 1, symmetric])
    next
      case 2
      have "damt (take m cs) d = 0"
        using damt_in [of "take m cs" d] halves(3) 2 by fastforce
      moreover have "damt (drop (Suc m) cs) d = 0" using halves(4) 2 by (intro damt_above) blast
      ultimately show ?thesis unfolding look amt using 2 by simp
    next
      case 3
      have "AmountOfNoValidation (drop (Suc m) cs) d = damt (drop (Suc m) cs) d"
        using "1.IH"(2) [OF cs refl m_def refl less_not_sym [OF 3] less_imp_neq [OF 3, symmetric]] halves(2)
        by (simp add: dec_sorted_def)
      moreover have "damt (take m cs) d = 0"
        using damt_in [of "take m cs" d] halves(3) order.strict_trans [OF _ 3] by fastforce
      ultimately show ?thesis
        using 3 by (subst look) (simp add: amt less_not_sym [OF 3] less_imp_neq [OF 3] less_imp_neq [OF 3, symmetric])
    qed
  qed
qed

lemma DecCoins_Intersect_ok:
  assumes "deccoins_ok vd a" "deccoins_ok vd b"
  shows "\<exists>r. DecCoins_Intersect vd a b = Inr r \<and> deccoins_ok vd r \<and> (\<forall>d. damt r d = min (damt a d) (damt b d))"
proof -
  let ?f = "\<lambda>c. \<lparr> DDenom = DDenom c, DAmount = min (DAmount c) (damt b (DDenom c)) \<rparr>"
  have "rmap (\<lambda>coin. rbind (DecCoins_AmountOf vd b (DDenom coin)) (\<lambda>b.
       Inr \<lparr> DDenom = DDenom coin, DAmount = LegacyMinDec (DAmount coin) b \<rparr>)) a = Inr (map ?f a)"
    using assms
    by (intro rmap_total) (auto simp: DecCoins_AmountOf_def mustValidateDenom_def ValidateDenom_def
        AmountOfNoValidation_sorted LegacyMinDec_def min_def deccoins_ok_iff [of vd a])
  then have res: "DecCoins_Intersect vd a b = Inr (removeZeroDecCoins (map ?f a))"
    by (simp add: DecCoins_Intersect_def)
  have srt: "dec_sorted (map ?f a)" using deccoins_ok_sorted [OF assms(1)] by (simp add: dec_sorted_def comp_def)
  have amt: "damt (removeZeroDecCoins (map ?f a)) d = min (damt a d) (damt b d)" for d
  proof (cases "d \<in> DDenom ` set a")
    case True
    then obtain c where c: "c \<in> set a" "d = DDenom c" by auto
    then have "damt (map ?f a) d = min (DAmount c) (damt b d)" using damt_member [OF srt, of "?f c"] by auto
    then show ?thesis using damt_member [of a c] c assms(1) by (simp add: dps_removeZero amt_nonzero)
  next
    case False
    then have "damt a d = 0" "damt (map ?f a) d = 0"
      using damt_in [of a d] damt_in [of "map ?f a" d] by (auto simp: image_image)
    then show ?thesis using deccoins_ok_nonneg [OF assms(2), of d] by (simp add: dps_removeZero amt_nonzero)
  qed
  have "deccoins_ok vd (removeZeroDecCoins (map ?f a))"
  proof (rule deccoins_okI)
    show "canon (dps (removeZeroDecCoins (map ?f a)))" by (rule removeZero_canon [OF srt])
  qed (use amt deccoins_ok_nonneg [OF assms(1)] deccoins_ok_nonneg [OF assms(2)] deccoins_ok_fits [OF assms(1)]
      deccoins_ok_fits [OF assms(2)] deccoins_ok_vd [OF assms(1)] deccoins_ok_vd [OF assms(2)] in
      \<open>auto simp: min_def split: if_splits\<close>)
  then show ?thesis using res amt by blast
qed

section \<open>Properties\<close>

text \<open>
  C22: On valid decimal coin sets with representable amounts, \<open>Add\<close> (a merge) is exact on every
  denomination and panics precisely when some total is out of range, \<open>Sub\<close> is exact and panics
  precisely when some amount would become negative, both return valid sets, and subtracting what
  was added gives the original set back.
\<close>

theorem DecCoins_add_sub_exact:
  assumes "deccoins_ok vd a" "deccoins_ok vd b"
  shows "(DecCoins_Add a b = Inr c \<longleftrightarrow> deccoins_ok vd c \<and> (\<forall>d. damt c d = damt a d + damt b d)) \<and>
    (DecCoins_Sub a b = Inr c \<longleftrightarrow> deccoins_ok vd c \<and> (\<forall>d. damt c d = damt a d - damt b d)) \<and>
    ((\<exists>e. DecCoins_Add a b = Inl e) \<longleftrightarrow> (\<exists>d. \<bar>damt a d + damt b d\<bar> > upperLimit)) \<and>
    ((\<exists>e. DecCoins_Sub a b = Inl e) \<longleftrightarrow> (\<exists>d. damt a d < damt b d)) \<and>
    (DecCoins_Add a b = Inr c \<longrightarrow> DecCoins_Sub c b = Inr a)"
  using deccoins.add_iff [OF assms] deccoins.sub_iff [OF assms] deccoins.add_fault_iff [OF assms]
    deccoins.sub_fault_iff [OF assms] deccoins.sub_add [OF assms]
  by (simp add: dec_fits_def not_le)

theorem DecCoins_add_sub_exact_witness:
  "DecCoins_Add [\<lparr> DDenom = ''atom'', DAmount = 3 \<rparr>] [\<lparr> DDenom = ''osmo'', DAmount = 5 \<rparr>] =
     Inr [\<lparr> DDenom = ''atom'', DAmount = 3 \<rparr>, \<lparr> DDenom = ''osmo'', DAmount = 5 \<rparr>]"
proof -
  let ?a = "[\<lparr> DDenom = ''atom'', DAmount = 3 \<rparr>]" and ?b = "[\<lparr> DDenom = ''osmo'', DAmount = 5 \<rparr>]"
  have "deccoins_ok (\<lambda>_. True) ?a" "deccoins_ok (\<lambda>_. True) ?b" "deccoins_ok (\<lambda>_. True) (?a @ ?b)"
    by (simp_all add: deccoins_ok_iff dec_fits_def upperLimit_def precisionReuse_def)
  then show ?thesis using DecCoins_add_sub_exact [of "\<lambda>_. True" ?a ?b "?a @ ?b"] by simp
qed

text \<open>
  C23: Splitting a valid decimal coin set with \<open>TruncateDecimal\<close> never fails and loses nothing: for
  every denomination the whole coins and the change add up to the original amount, the change is
  less than one unit, and both parts are valid sets without zero entries.
\<close>

theorem DecCoins_TruncateDecimal_conserves:
  assumes "deccoins_ok vd cs"
  shows "\<exists>t ch. DecCoins_TruncateDecimal vd cs = Inr (t, ch) \<and> Coins_IsValid vd t \<and> DecCoins_IsValid vd ch \<and>
    (\<forall>d. camt t d * precisionReuse + damt ch d = damt cs d \<and> 0 \<le> damt ch d \<and> damt ch d < precisionReuse)"
  using DecCoins_TruncateDecimal_ok [OF assms]
  by (auto simp: coins_ok_def deccoins_ok_def)

theorem DecCoins_TruncateDecimal_conserves_witness:
  "\<exists>t ch. DecCoins_TruncateDecimal (\<lambda>_. True) [\<lparr> DDenom = ''atom'', DAmount = 2500000000000000000 \<rparr>] = Inr (t, ch) \<and>
     camt t ''atom'' * precisionReuse + damt ch ''atom'' = 2500000000000000000"
proof -
  let ?a = "[\<lparr> DDenom = ''atom'', DAmount = 2500000000000000000 \<rparr>]"
  have "deccoins_ok (\<lambda>_. True) ?a" by (simp add: deccoins_ok_iff dec_fits_def upperLimit_def precisionReuse_def)
  from DecCoins_TruncateDecimal_conserves [OF this] show ?thesis by fastforce
qed

text \<open>
  Taking a share of a valid decimal coin set never creates value: for a share \<open>d\<close> between zero and
  one, \<open>MulDecTruncate\<close> succeeds with a valid set that holds, of every denomination, the truncated
  product, hence at most the original amount, and \<open>Intersect\<close> is the pointwise minimum.
\<close>

theorem DecCoins_share_bounded:
  assumes "deccoins_ok vd cs" "deccoins_ok vd b" "0 \<le> d" "d \<le> LegacyOneDec"
  shows "(\<exists>r. DecCoins_MulDecTruncate cs d = Inr r \<and> deccoins_ok vd r \<and>
      (\<forall>x. damt r x = damt cs x * d div precisionReuse \<and> damt r x \<le> damt cs x)) \<and>
    (\<exists>r. DecCoins_Intersect vd cs b = Inr r \<and> deccoins_ok vd r \<and> (\<forall>x. damt r x = min (damt cs x) (damt b x)))"
proof -
  have le: "a * d div precisionReuse \<le> a" "0 \<le> a * d div precisionReuse" if "0 \<le> a" for a
  proof -
    have "a * d \<le> a * precisionReuse" using assms(4) that by (intro mult_left_mono) (simp_all add: LegacyOneDec_def)
    then have "a * d div precisionReuse \<le> a * precisionReuse div precisionReuse" by (intro zdiv_mono1) simp_all
    then show "a * d div precisionReuse \<le> a" by simp
    show "0 \<le> a * d div precisionReuse" using that assms(3) by (simp add: pos_imp_zdiv_nonneg_iff)
  qed
  have "\<exists>r. DecCoins_MulDecTruncate cs d = Inr r \<and> deccoins_ok vd r \<and> (\<forall>x. damt r x = damt cs x * d div precisionReuse)"
  proof (cases "d = 0")
    case True
    then show ?thesis by (simp add: DecCoins_MulDecTruncate_def deccoins_ok_iff)
  next
    case False
    have "Dec_MulTruncate a d = Inr (a * d div precisionReuse) \<and> 0 \<le> a * d div precisionReuse \<and>
        dec_fits (a * d div precisionReuse)" if "0 < a" "dec_fits a" for a
      using that le [of a] assms(3)
      by (auto simp: Dec_MulTruncate_def chopPrecisionAndTruncate_def sdiv_nonneg_eq dec_fits_def
          intro!: assertInValidRange_ok)
    then show ?thesis
      using False scale_loop_ok [OF assms(1), of "\<lambda>a. a * d div precisionReuse" "\<lambda>a. Dec_MulTruncate a d"]
      by (simp add: DecCoins_MulDecTruncate_def)
  qed
  then show ?thesis
    using le(1) [OF deccoins_ok_nonneg [OF assms(1)]] DecCoins_Intersect_ok [OF assms(1,2)] by fastforce
qed

theorem DecCoins_share_bounded_witness:
  "\<exists>r. DecCoins_MulDecTruncate [\<lparr> DDenom = ''atom'', DAmount = 3 \<rparr>] 500000000000000000 = Inr r \<and> damt r ''atom'' = 1"
proof -
  let ?a = "[\<lparr> DDenom = ''atom'', DAmount = 3 \<rparr>]"
  have ok: "deccoins_ok (\<lambda>_. True) ?a" by (simp add: deccoins_ok_iff dec_fits_def upperLimit_def precisionReuse_def)
  from DecCoins_share_bounded [OF ok ok, of 500000000000000000]
  obtain r where "DecCoins_MulDecTruncate ?a 500000000000000000 = Inr r"
    "damt r ''atom'' = damt ?a ''atom'' * 500000000000000000 div precisionReuse"
    by (auto simp: LegacyOneDec_def precisionReuse_def)
  then show ?thesis by (simp add: precisionReuse_def)
qed

end
