(* ===== verification/Vesting.thy ===== *)
theory Vesting
  imports Coins LegacyDec
begin

text \<open>
  Vesting accounts (\<open>src/x/auth/vesting/types/vesting_account.go\<close> and \<open>period.go\<close>): continuous,
  periodic, delayed and permanently locked schedules over a common base account that tracks which
  delegated coins were still vesting.

  Block times and schedule times are \<open>int64\<close> Unix seconds, modelled as \<open>int\<close> with the wrap-around of
  Go's 64-bit arithmetic written out (\<open>wrap64\<close>).  The embedded \<open>BaseAccount\<close> is left out; what its
  own \<open>Validate\<close> returns is an argument of the validation functions.

  The locale \<open>vesting_schedule\<close> is the Go interface \<open>VestingAccount\<close> as its clients use it: the vested
  amount exists at every time, never exceeds the original vesting and never decreases.  The four
  account types interpret it, and the lemmas on vesting and locked coins are proved once.
\<close>

section \<open>Base vesting account\<close>

definition wrap64 :: "int \<Rightarrow> int" where
  "wrap64 i = (i + 2 ^ 63) mod 2 ^ 64 - 2 ^ 63"

record BaseVestingAccount =
  OriginalVesting :: "Coin list"
  DelegatedFree :: "Coin list"
  DelegatedVesting :: "Coin list"
  EndTime :: int

record Period =
  Length :: int
  PAmount :: "Coin list"

definition LockedCoinsFromVesting :: "(string \<Rightarrow> bool) \<Rightarrow> BaseVestingAccount \<Rightarrow> Coin list \<Rightarrow> Coin list res" where
  "LockedCoinsFromVesting vd bva vestingCoins =
     rbind (Coins_Min vd vestingCoins (DelegatedVesting bva)) (\<lambda>m. Coins_Sub vd vestingCoins m)"

definition track_delegation_coin ::
  "(string \<Rightarrow> bool) \<Rightarrow> Coin list \<Rightarrow> Coin list \<Rightarrow> BaseVestingAccount \<Rightarrow> Coin \<Rightarrow> BaseVestingAccount res" where
  "track_delegation_coin vd balance vestingCoins bva coin =
     rbind (Coins_AmountOf vd balance (Denom coin)) (\<lambda>baseAmt.
     rbind (Coins_AmountOf vd vestingCoins (Denom coin)) (\<lambda>vestingAmt.
     rbind (Coins_AmountOf vd (DelegatedVesting bva) (Denom coin)) (\<lambda>delVestingAmt.
     if Amount coin = 0 \<or> baseAmt < Amount coin
     then Inl (Panic ''delegation attempt with zero coins or insufficient funds'')
     else
       rbind (Int_Sub vestingAmt delVestingAmt) (\<lambda>v.
       let x = MinInt (MaxInt v 0) (Amount coin) in
       rbind (Int_Sub (Amount coin) x) (\<lambda>y.
       rbind (if x \<noteq> 0
              then rbind (NewCoin vd (Denom coin) x) (\<lambda>xCoin. Coins_Add (DelegatedVesting bva) [xCoin])
              else Inr (DelegatedVesting bva)) (\<lambda>dv.
       rbind (if y \<noteq> 0
              then rbind (NewCoin vd (Denom coin) y) (\<lambda>yCoin. Coins_Add (DelegatedFree bva) [yCoin])
              else Inr (DelegatedFree bva)) (\<lambda>df.
       Inr (bva\<lparr>DelegatedVesting := dv, DelegatedFree := df\<rparr>))))))))"

definition bva_TrackDelegation ::
  "(string \<Rightarrow> bool) \<Rightarrow> BaseVestingAccount \<Rightarrow> Coin list \<Rightarrow> Coin list \<Rightarrow> Coin list \<Rightarrow> BaseVestingAccount res" where
  "bva_TrackDelegation vd bva balance vestingCoins amount =
     rfold (track_delegation_coin vd balance vestingCoins) bva amount"

definition track_undelegation_coin ::
  "(string \<Rightarrow> bool) \<Rightarrow> BaseVestingAccount \<Rightarrow> Coin \<Rightarrow> BaseVestingAccount res" where
  "track_undelegation_coin vd bva coin =
     (if Amount coin = 0 then Inl (Panic ''undelegation attempt with zero coins'')
      else
        rbind (Coins_AmountOf vd (DelegatedFree bva) (Denom coin)) (\<lambda>delegatedFree.
        rbind (Coins_AmountOf vd (DelegatedVesting bva) (Denom coin)) (\<lambda>delegatedVesting.
        let x = MinInt delegatedFree (Amount coin) in
        rbind (Int_Sub (Amount coin) x) (\<lambda>r.
        let y = MinInt delegatedVesting r in
        rbind (if x \<noteq> 0
               then rbind (NewCoin vd (Denom coin) x) (\<lambda>xCoin. Coins_Sub vd (DelegatedFree bva) [xCoin])
               else Inr (DelegatedFree bva)) (\<lambda>df.
        rbind (if y \<noteq> 0
               then rbind (NewCoin vd (Denom coin) y) (\<lambda>yCoin. Coins_Sub vd (DelegatedVesting bva) [yCoin])
               else Inr (DelegatedVesting bva)) (\<lambda>dv.
        Inr (bva\<lparr>DelegatedFree := df, DelegatedVesting := dv\<rparr>)))))))"

definition bva_TrackUndelegation ::
  "(string \<Rightarrow> bool) \<Rightarrow> BaseVestingAccount \<Rightarrow> Coin list \<Rightarrow> BaseVestingAccount res" where
  "bva_TrackUndelegation vd bva amount = rfold (track_undelegation_coin vd) bva amount"

definition bva_Validate :: "(string \<Rightarrow> bool) \<Rightarrow> unit res \<Rightarrow> BaseVestingAccount \<Rightarrow> unit res" where
  "bva_Validate vd baseAccount bva =
     (if EndTime bva < 0 then Inl (Err ''end time cannot be negative'')
      else if \<not> Coins_IsValid vd (OriginalVesting bva) \<or> \<not> Coins_IsAllPositive (OriginalVesting bva)
        then Inl (Err ''invalid coins'')
      else rbind (Coins_IsAllLTE vd (DelegatedVesting bva) (OriginalVesting bva)) (\<lambda>lte.
        if \<not> lte then Inl (Err ''delegated vesting amount cannot be greater than original vesting amount'')
        else baseAccount))"

definition NewBaseVestingAccount :: "(string \<Rightarrow> bool) \<Rightarrow> unit res \<Rightarrow> Coin list \<Rightarrow> int \<Rightarrow> BaseVestingAccount res" where
  "NewBaseVestingAccount vd baseAccount originalVesting endTime =
     (let bva = \<lparr> OriginalVesting = originalVesting, DelegatedFree = [], DelegatedVesting = [], EndTime = endTime \<rparr>
      in rbind (bva_Validate vd baseAccount bva) (\<lambda>_. Inr bva))"

section \<open>Schedules\<close>

definition cva_GetVestedCoins :: "(string \<Rightarrow> bool) \<Rightarrow> BaseVestingAccount \<Rightarrow> int \<Rightarrow> int \<Rightarrow> Coin list res" where
  "cva_GetVestedCoins vd bva startTime blockTime =
     (if blockTime \<le> startTime then Inr []
      else if blockTime \<ge> EndTime bva then Inr (OriginalVesting bva)
      else
        let x = wrap64 (blockTime - startTime); y = wrap64 (EndTime bva - startTime) in
        rbind (Dec_Quo (LegacyNewDecFromInt x) (LegacyNewDecFromInt y)) (\<lambda>s.
        rmap (\<lambda>ovc.
          rbind (Dec_Mul (LegacyNewDecFromInt (Amount ovc)) s) (\<lambda>m.
          rbind (Dec_RoundInt m) (\<lambda>vestedAmt. NewCoin vd (Denom ovc) vestedAmt))) (OriginalVesting bva)))"

fun vested_periods :: "int \<Rightarrow> int \<Rightarrow> Coin list \<Rightarrow> Period list \<Rightarrow> Coin list res" where
  "vested_periods blockTime currentPeriodStartTime vestedCoins [] = Inr vestedCoins"
| "vested_periods blockTime currentPeriodStartTime vestedCoins (period # periods) =
     (if wrap64 (blockTime - currentPeriodStartTime) < Length period then Inr vestedCoins
      else rbind (Coins_Add vestedCoins (PAmount period)) (\<lambda>v.
        vested_periods blockTime (wrap64 (currentPeriodStartTime + Length period)) v periods))"

definition pva_GetVestedCoins :: "BaseVestingAccount \<Rightarrow> int \<Rightarrow> Period list \<Rightarrow> int \<Rightarrow> Coin list res" where
  "pva_GetVestedCoins bva startTime periods blockTime =
     (if blockTime \<le> startTime then Inr []
      else if blockTime \<ge> EndTime bva then Inr (OriginalVesting bva)
      else vested_periods blockTime startTime [] periods)"

definition dva_GetVestedCoins :: "BaseVestingAccount \<Rightarrow> int \<Rightarrow> Coin list res" where
  "dva_GetVestedCoins bva blockTime = (if blockTime \<ge> EndTime bva then Inr (OriginalVesting bva) else Inr [])"

definition plva_GetVestedCoins :: "BaseVestingAccount \<Rightarrow> int \<Rightarrow> Coin list res" where
  "plva_GetVestedCoins bva blockTime = Inr []"

definition cva_Validate :: "(string \<Rightarrow> bool) \<Rightarrow> unit res \<Rightarrow> BaseVestingAccount \<Rightarrow> int \<Rightarrow> unit res" where
  "cva_Validate vd baseAccount bva startTime =
     (if startTime \<ge> EndTime bva then Inl (Err ''vesting start-time cannot be before end-time'')
      else bva_Validate vd baseAccount bva)"

definition validate_period :: "(string \<Rightarrow> bool) \<Rightarrow> int \<times> Coin list \<Rightarrow> Period \<Rightarrow> (int \<times> Coin list) res" where
  "validate_period vd = (\<lambda>(endTime, originalVesting) p.
     if Length p < 0 then Inl (Err ''period has a negative length'')
     else if \<not> Coins_IsValid vd (PAmount p) \<or> \<not> Coins_IsAllPositive (PAmount p)
       then Inl (Err ''period has invalid coins'')
     else rbind (Coins_Add originalVesting (PAmount p)) (\<lambda>ov. Inr (wrap64 (endTime + Length p), ov)))"

definition pva_Validate ::
  "(string \<Rightarrow> bool) \<Rightarrow> unit res \<Rightarrow> BaseVestingAccount \<Rightarrow> int \<Rightarrow> Period list \<Rightarrow> unit res" where
  "pva_Validate vd baseAccount bva startTime periods =
     (if startTime \<ge> EndTime bva then Inl (Err ''vesting start-time cannot be before end-time'')
      else rbind (rfold (validate_period vd) (startTime, []) periods) (\<lambda>(endTime, originalVesting).
        if endTime \<noteq> EndTime bva then Inl (Err ''vesting end time does not match length of all vesting periods'')
        else if endTime < startTime then Inl (Err ''cumulative endTime overflowed'')
        else if \<not> Coins_Equal originalVesting (OriginalVesting bva)
          then Inl (Err ''original vesting coins does not match the sum of all coins in vesting periods'')
        else bva_Validate vd baseAccount bva))"

definition plva_Validate :: "(string \<Rightarrow> bool) \<Rightarrow> unit res \<Rightarrow> BaseVestingAccount \<Rightarrow> unit res" where
  "plva_Validate vd baseAccount bva =
     (if EndTime bva > 0 then Inl (Err ''permanently vested accounts cannot have an end-time'')
      else bva_Validate vd baseAccount bva)"

text \<open>\<open>Periods.TotalLength\<close> and \<open>Periods.TotalAmount\<close>.\<close>

definition TotalLength :: "Period list \<Rightarrow> int" where
  "TotalLength p = fold (\<lambda>period total. wrap64 (total + Length period)) p 0"

definition TotalAmount :: "Period list \<Rightarrow> Coin list res" where
  "TotalAmount p = rfold (\<lambda>total period. Coins_Add total (PAmount period)) [] p"

section \<open>The account interface\<close>

datatype VestingAccount =
    ContinuousVestingAccount BaseVestingAccount int
  | PeriodicVestingAccount BaseVestingAccount int "Period list"
  | DelayedVestingAccount BaseVestingAccount
  | PermanentLockedAccount BaseVestingAccount

fun va_base :: "VestingAccount \<Rightarrow> BaseVestingAccount" where
  "va_base (ContinuousVestingAccount bva _) = bva"
| "va_base (PeriodicVestingAccount bva _ _) = bva"
| "va_base (DelayedVestingAccount bva) = bva"
| "va_base (PermanentLockedAccount bva) = bva"

fun va_with_base :: "VestingAccount \<Rightarrow> BaseVestingAccount \<Rightarrow> VestingAccount" where
  "va_with_base (ContinuousVestingAccount _ s) bva = ContinuousVestingAccount bva s"
| "va_with_base (PeriodicVestingAccount _ s ps) bva = PeriodicVestingAccount bva s ps"
| "va_with_base (DelayedVestingAccount _) bva = DelayedVestingAccount bva"
| "va_with_base (PermanentLockedAccount _) bva = PermanentLockedAccount bva"

fun GetVestedCoins :: "(string \<Rightarrow> bool) \<Rightarrow> VestingAccount \<Rightarrow> int \<Rightarrow> Coin list res" where
  "GetVestedCoins vd (ContinuousVestingAccount bva s) t = cva_GetVestedCoins vd bva s t"
| "GetVestedCoins vd (PeriodicVestingAccount bva s ps) t = pva_GetVestedCoins bva s ps t"
| "GetVestedCoins vd (DelayedVestingAccount bva) t = dva_GetVestedCoins bva t"
| "GetVestedCoins vd (PermanentLockedAccount bva) t = plva_GetVestedCoins bva t"

definition GetVestingCoins :: "(string \<Rightarrow> bool) \<Rightarrow> VestingAccount \<Rightarrow> int \<Rightarrow> Coin list res" where
  "GetVestingCoins vd va t =
     (case va of
        PermanentLockedAccount bva \<Rightarrow> Inr (OriginalVesting bva)
      | _ \<Rightarrow> rbind (GetVestedCoins vd va t) (\<lambda>vested. Coins_Sub vd (OriginalVesting (va_base va)) vested))"

definition va_LockedCoins :: "(string \<Rightarrow> bool) \<Rightarrow> VestingAccount \<Rightarrow> int \<Rightarrow> Coin list res" where
  "va_LockedCoins vd va t =
     (case va of
        PermanentLockedAccount bva \<Rightarrow> LockedCoinsFromVesting vd bva (OriginalVesting bva)
      | _ \<Rightarrow> rbind (GetVestingCoins vd va t) (LockedCoinsFromVesting vd (va_base va)))"

definition va_TrackDelegation ::
  "(string \<Rightarrow> bool) \<Rightarrow> VestingAccount \<Rightarrow> int \<Rightarrow> Coin list \<Rightarrow> Coin list \<Rightarrow> VestingAccount res" where
  "va_TrackDelegation vd va t balance amount =
     rbind (case va of PermanentLockedAccount bva \<Rightarrow> Inr (OriginalVesting bva) | _ \<Rightarrow> GetVestingCoins vd va t)
       (\<lambda>vesting. rbind (bva_TrackDelegation vd (va_base va) balance vesting amount) (\<lambda>bva.
         Inr (va_with_base va bva)))"

definition va_TrackUndelegation :: "(string \<Rightarrow> bool) \<Rightarrow> VestingAccount \<Rightarrow> Coin list \<Rightarrow> VestingAccount res" where
  "va_TrackUndelegation vd va amount =
     rbind (bva_TrackUndelegation vd (va_base va) amount) (\<lambda>bva. Inr (va_with_base va bva))"

fun va_Validate :: "(string \<Rightarrow> bool) \<Rightarrow> unit res \<Rightarrow> VestingAccount \<Rightarrow> unit res" where
  "va_Validate vd b (ContinuousVestingAccount bva s) = cva_Validate vd b bva s"
| "va_Validate vd b (PeriodicVestingAccount bva s ps) = pva_Validate vd b bva s ps"
| "va_Validate vd b (DelayedVestingAccount bva) = bva_Validate vd b bva"
| "va_Validate vd b (PermanentLockedAccount bva) = plva_Validate vd b bva"

section \<open>The contract of a vesting schedule\<close>

text \<open>The state of a base account that the operations keep: typed coin sets, delegated vesting coins within the original ones.\<close>

definition bva_ok :: "(string \<Rightarrow> bool) \<Rightarrow> BaseVestingAccount \<Rightarrow> bool" where
  "bva_ok vd bva \<longleftrightarrow> coins_ok vd (OriginalVesting bva) \<and> coins_ok vd (DelegatedFree bva) \<and>
     coins_ok vd (DelegatedVesting bva) \<and> (\<forall>d. camt (DelegatedVesting bva) d \<le> camt (OriginalVesting bva) d)"

lemma bva_okD:
  "bva_ok vd bva \<Longrightarrow> coins_ok vd (OriginalVesting bva)" "bva_ok vd bva \<Longrightarrow> coins_ok vd (DelegatedFree bva)"
  "bva_ok vd bva \<Longrightarrow> coins_ok vd (DelegatedVesting bva)"
  "bva_ok vd bva \<Longrightarrow> camt (DelegatedVesting bva) d \<le> camt (OriginalVesting bva) d"
  by (simp_all add: bva_ok_def)

locale vesting_schedule =
  fixes vd :: "string \<Rightarrow> bool" and valid :: "'a \<Rightarrow> bool" and base :: "'a \<Rightarrow> BaseVestingAccount"
    and vested :: "'a \<Rightarrow> int \<Rightarrow> Coin list res"
  assumes base_ok: "valid a \<Longrightarrow> bva_ok vd (base a)"
    and vested_total: "valid a \<Longrightarrow>
      \<exists>v w. vested a t = Inr v \<and> NewCoins vd v = Inr w \<and> coins_ok vd w \<and> (\<forall>d. camt v d \<le> camt (OriginalVesting (base a)) d)"
    and vested_mono: "valid a \<Longrightarrow> t \<le> t' \<Longrightarrow> vested a t = Inr v \<Longrightarrow> vested a t' = Inr v' \<Longrightarrow> camt v d \<le> camt v' d"
begin

lemma vesting_total:
  assumes "valid a"
  shows "\<exists>v w. vested a t = Inr v \<and> Coins_Sub vd (OriginalVesting (base a)) v = Inr w \<and> coins_ok vd w \<and>
    (\<forall>d. camt w d + camt v d = camt (OriginalVesting (base a)) d \<and> 0 \<le> camt v d)"
proof -
  obtain v w where v: "vested a t = Inr v" "NewCoins vd v = Inr w" "coins_ok vd w"
    "\<And>d. camt v d \<le> camt (OriginalVesting (base a)) d"
    using vested_total [OF assms, of t] by blast
  have amt: "camt w = camt v" using v(2) by (auto simp: NewCoins_Inr)
  have ov: "coins_ok vd (OriginalVesting (base a))" using base_ok [OF assms] by (rule bva_okD)
  have "Coins_Sub vd (OriginalVesting (base a)) v = Coins_Sub vd (OriginalVesting (base a)) w"
    using v(2,3) by (simp add: Coins_Sub_def Coins_SafeSub_def)
  moreover obtain r where r: "Coins_Sub vd (OriginalVesting (base a)) w = Inr r"
    using Coins_Sub_total [OF ov v(3)] v(4) amt by auto
  moreover have "coins_ok vd r \<and> (\<forall>d. camt r d = camt (OriginalVesting (base a)) d - camt w d)"
    by (rule Coins_Sub_ok [OF ov v(3) r])
  ultimately show ?thesis
    using v(1) amt coins_ok_nonneg [OF v(3)] by (intro exI [of _ v] exI [of _ r]) simp
qed

end

lemma LockedCoinsFromVesting_ok:
  assumes "bva_ok vd bva" "coins_ok vd w"
  shows "\<exists>l. LockedCoinsFromVesting vd bva w = Inr l \<and> coins_ok vd l \<and>
    (\<forall>d. camt l d = max 0 (camt w d - camt (DelegatedVesting bva) d))"
proof -
  obtain m where m: "Coins_Min vd w (DelegatedVesting bva) = Inr m" "coins_ok vd m"
    "\<And>d. camt m d = min (camt w d) (camt (DelegatedVesting bva) d)"
    using Coins_Min_ok [OF assms(2) bva_okD(3) [OF assms(1)]] by blast
  obtain l where l: "Coins_Sub vd w m = Inr l" using Coins_Sub_total [OF assms(2) m(2)] m(3) by auto
  moreover have "coins_ok vd l \<and> (\<forall>d. camt l d = camt w d - camt m d)" by (rule Coins_Sub_ok [OF assms(2) m(2) l])
  ultimately show ?thesis using m by (auto simp: LockedCoinsFromVesting_def max_def min_def)
qed

section \<open>The four schedules\<close>

subsection \<open>Continuous\<close>

lemma wrap64_id: "- (2 ^ 63) \<le> i \<Longrightarrow> i < 2 ^ 63 \<Longrightarrow> wrap64 i = i"
  by (simp add: wrap64_def)

lemma chop_zero [simp]: "chopPrecisionAndRound 0 = 0"
  using chop_exact [of 0] by simp

definition vest_scale :: "int \<Rightarrow> int \<Rightarrow> int" where
  "vest_scale x y = chopPrecisionAndRound (LegacyNewDecFromInt x * squaredPrecisionReuse sdiv LegacyNewDecFromInt y)"

lemma vest_scale_eq:
  "0 \<le> x \<Longrightarrow> 0 < y \<Longrightarrow> vest_scale x y = chopPrecisionAndRound (x * squaredPrecisionReuse div y)"
proof -
  assume "0 \<le> x" "0 < y"
  moreover have "0 \<le> squaredPrecisionReuse" by (simp add: squaredPrecisionReuse_def)
  moreover have "x * precisionReuse * squaredPrecisionReuse div (y * precisionReuse) = x * squaredPrecisionReuse div y"
    by (metis mult.assoc mult.commute precisionReuse_pos(2) div_mult_mult2)
  ultimately show ?thesis
    by (simp add: vest_scale_def LegacyNewDecFromInt_def sdiv_nonneg_eq)
qed

lemma vest_scale_bounds:
  assumes "0 \<le> x" "x \<le> y" "0 < y"
  shows "0 \<le> vest_scale x y" "vest_scale x y \<le> precisionReuse"
proof -
  have sq: "0 \<le> squaredPrecisionReuse" by (simp add: squaredPrecisionReuse_def)
  have "x * squaredPrecisionReuse div y \<le> y * squaredPrecisionReuse div y"
    using assms sq by (intro zdiv_mono1 mult_right_mono) auto
  then have "x * squaredPrecisionReuse div y \<le> precisionReuse * precisionReuse"
    using assms(3) by (simp add: squaredPrecisionReuse_def)
  from chopPrecisionAndRound_mono [OF this] show "vest_scale x y \<le> precisionReuse"
    using assms by (simp add: vest_scale_eq)
  have "0 * precisionReuse \<le> x * squaredPrecisionReuse div y"
    using assms sq by (simp add: pos_imp_zdiv_nonneg_iff)
  from chopPrecisionAndRound_mono [OF this] show "0 \<le> vest_scale x y"
    using assms by (simp add: vest_scale_eq)
qed

lemma vest_scale_mono: "0 \<le> x \<Longrightarrow> x \<le> x' \<Longrightarrow> 0 < y \<Longrightarrow> vest_scale x y \<le> vest_scale x' y"
proof -
  assume a: "0 \<le> x" "x \<le> x'" "0 < y"
  have sq: "0 \<le> squaredPrecisionReuse" by (simp add: squaredPrecisionReuse_def)
  have "x * squaredPrecisionReuse div y \<le> x' * squaredPrecisionReuse div y"
    using a sq by (intro zdiv_mono1 mult_right_mono) auto
  from chopPrecisionAndRound_mono [OF this] show ?thesis using a by (simp add: vest_scale_eq)
qed

text \<open>The vested part of an amount under a scale between zero and one.\<close>

definition vest_part :: "int \<Rightarrow> int \<Rightarrow> int" where
  "vest_part a s = chopPrecisionAndRound (a * s)"

lemma vest_part_bounds:
  assumes "0 \<le> a" "0 \<le> s" "s \<le> precisionReuse"
  shows "0 \<le> vest_part a s" "vest_part a s \<le> a"
proof -
  have "0 * precisionReuse \<le> a * s" using assms by simp
  from chopPrecisionAndRound_mono [OF this] show "0 \<le> vest_part a s" by (simp add: vest_part_def)
  have "a * s \<le> a * precisionReuse" using assms by (intro mult_left_mono)
  from chopPrecisionAndRound_mono [OF this] show "vest_part a s \<le> a" by (simp add: vest_part_def)
qed

lemma vest_part_mono: "0 \<le> a \<Longrightarrow> s \<le> s' \<Longrightarrow> vest_part a s \<le> vest_part a s'"
  unfolding vest_part_def by (intro chopPrecisionAndRound_mono mult_left_mono)

lemma vest_part_zero [simp]: "vest_part 0 s = 0"
  by (simp add: vest_part_def)

lemma int256_between: "int256 b \<Longrightarrow> 0 \<le> a \<Longrightarrow> a \<le> b \<Longrightarrow> int256 a"
  by (simp add: int256_def)

lemma vest_amount:
  assumes "int256 a" "0 \<le> a" "0 \<le> s" "s \<le> precisionReuse"
  shows "rbind (Dec_Mul (LegacyNewDecFromInt a) s) (\<lambda>m. Dec_RoundInt m) = Inr (vest_part a s)"
proof -
  have "LegacyNewDecFromInt a * s = a * s * precisionReuse" by (simp add: LegacyNewDecFromInt_def)
  then have chop: "chopPrecisionAndRound (LegacyNewDecFromInt a * s) = a * s" by (simp only: chop_exact)
  have "a * s \<le> a * precisionReuse" using assms by (intro mult_left_mono)
  moreover have "\<bar>a * precisionReuse\<bar> \<le> upperLimit" using assms(1) by (simp add: scaled_in_range)
  ultimately have "\<bar>a * s\<bar> \<le> upperLimit" using assms by (simp add: abs_mult)
  then have "Dec_Mul (LegacyNewDecFromInt a) s = Inr (a * s)" by (simp add: Dec_Mul_def chop assertInValidRange_ok)
  moreover have "int256 (vest_part a s)" using int256_between [OF assms(1)] vest_part_bounds [OF assms(2-4)] by blast
  ultimately show ?thesis by (simp add: Dec_RoundInt_def vest_part_def sdkint)
qed

text \<open>The parts of the original coins under a scale, zero amounts included.\<close>

definition parts :: "Coin list \<Rightarrow> int \<Rightarrow> Coin list" where
  "parts cs s = map (\<lambda>c. \<lparr> Denom = Denom c, Amount = vest_part (Amount c) s \<rparr>) cs"

lemma parts_amt: "coins_ok vd cs \<Longrightarrow> camt (parts cs s) d = vest_part (camt cs d) s"
  unfolding parts_def cps_map_amount [of "\<lambda>a. vest_part a s"]
  by (rule amt_map_values) (simp_all add: denom_sorted_iff [symmetric])

lemma parts_NewCoins:
  assumes "coins_ok vd cs" "0 \<le> s" "s \<le> precisionReuse"
  shows "\<exists>w. NewCoins vd (parts cs s) = Inr w \<and> coins_ok vd w"
proof -
  have part: "0 \<le> vest_part (Amount c) s" "int256 (vest_part (Amount c) s)" if "c \<in> set cs" for c
    using that assms vest_part_bounds [of "Amount c" s] int256_between [of "Amount c" "vest_part (Amount c) s"]
    by (auto simp: coins_ok_iff)
  have "distinct (map Denom (removeZeroCoins (parts cs s)))"
  proof -
    have "map Denom (parts cs s) = map Denom cs" by (simp add: parts_def)
    then have "distinct (map Denom (parts cs s))"
      using coins_ok_denom_sorted [OF assms(1)] by (simp add: denom_sorted_def strict_sorted_iff)
    then show ?thesis unfolding removeZeroCoins_def by (rule distinct_map_filter)
  qed
  then have valid: "Coins_IsValid vd (sanitizeCoins (parts cs s))"
    unfolding sanitize_valid_iff using part assms(1) by (fastforce simp: parts_def coins_ok_iff)
  moreover have "set (sanitizeCoins (parts cs s)) \<subseteq> set (parts cs s)"
    by (auto simp: sanitizeCoins_def removeZeroCoins_def Let_def split: if_splits)
  then have "list_all (\<lambda>c. int256 (Amount c)) (sanitizeCoins (parts cs s))"
    using part(2) by (auto simp: list_all_iff parts_def)
  ultimately show ?thesis by (auto simp: NewCoins_Inr coins_ok_def)
qed

lemma cva_vested_middle:
  assumes "bva_ok vd bva" "EndTime bva - st < 2 ^ 63" "st < t" "t < EndTime bva"
  shows "cva_GetVestedCoins vd bva st t = Inr (parts (OriginalVesting bva) (vest_scale (t - st) (EndTime bva - st)))"
proof -
  define s where "s = vest_scale (t - st) (EndTime bva - st)"
  have ok: "coins_ok vd (OriginalVesting bva)" using assms(1) by (rule bva_okD)
  have s: "0 \<le> s" "s \<le> precisionReuse" unfolding s_def using assms by (auto intro!: vest_scale_bounds)
  have w: "wrap64 (t - st) = t - st" "wrap64 (EndTime bva - st) = EndTime bva - st"
    using assms by (auto intro!: wrap64_id)
  have "\<bar>s\<bar> \<le> upperLimit" using s by (simp add: upperLimit_def precisionReuse_def)
  then have quo: "Dec_Quo (LegacyNewDecFromInt (t - st)) (LegacyNewDecFromInt (EndTime bva - st)) = Inr s"
    using assms by (simp add: Dec_Quo_def LegacyNewDecFromInt_def s_def vest_scale_def assertInValidRange_ok)
  have "rmap (\<lambda>ovc. rbind (Dec_Mul (LegacyNewDecFromInt (Amount ovc)) s) (\<lambda>m.
      rbind (Dec_RoundInt m) (\<lambda>vestedAmt. NewCoin vd (Denom ovc) vestedAmt))) (OriginalVesting bva) =
      Inr (parts (OriginalVesting bva) s)"
    unfolding parts_def
  proof (rule rmap_total)
    fix c assume c: "c \<in> set (OriginalVesting bva)"
    then have a: "int256 (Amount c)" "0 \<le> Amount c" "vd (Denom c)" using ok by (auto simp: coins_ok_iff)
    show "rbind (Dec_Mul (LegacyNewDecFromInt (Amount c)) s) (\<lambda>m.
        rbind (Dec_RoundInt m) (\<lambda>vestedAmt. NewCoin vd (Denom c) vestedAmt)) =
        Inr \<lparr> Denom = Denom c, Amount = vest_part (Amount c) s \<rparr>"
      using vest_amount [OF a(1,2) s] vest_part_bounds [OF a(2) s] a(3)
      by (simp add: rbind_assoc [symmetric] NewCoin_ok)
  qed
  then show ?thesis using assms quo by (simp add: cva_GetVestedCoins_def w s_def Let_def)
qed

subsection \<open>Periodic\<close>

fun vest_sum :: "int \<Rightarrow> int \<Rightarrow> Period list \<Rightarrow> string \<Rightarrow> int" where
  "vest_sum t cur [] d = 0"
| "vest_sum t cur (p # ps) d =
     (if t - cur < Length p then 0 else camt (PAmount p) d + vest_sum t (cur + Length p) ps d)"

definition periods_ok :: "(string \<Rightarrow> bool) \<Rightarrow> Period list \<Rightarrow> bool" where
  "periods_ok vd ps \<longleftrightarrow> (\<forall>p \<in> set ps. 0 \<le> Length p \<and> coins_ok vd (PAmount p))"

lemma periods_ok_simps [simp]:
  "periods_ok vd []" "periods_ok vd (p # ps) \<longleftrightarrow> 0 \<le> Length p \<and> coins_ok vd (PAmount p) \<and> periods_ok vd ps"
  by (auto simp: periods_ok_def)

lemma periods_nonneg: "periods_ok vd ps \<Longrightarrow> 0 \<le> (\<Sum>p\<leftarrow>ps. camt (PAmount p) d)"
  by (induction ps) (auto intro!: add_nonneg_nonneg coins_ok_nonneg)

lemma vest_sum_bounds:
  "periods_ok vd ps \<Longrightarrow> 0 \<le> vest_sum t cur ps d \<and> vest_sum t cur ps d \<le> (\<Sum>p\<leftarrow>ps. camt (PAmount p) d)"
proof (induction ps arbitrary: cur)
  case (Cons p ps)
  have "0 \<le> camt (PAmount p) d" using Cons.prems coins_ok_nonneg by auto
  then show ?case using Cons periods_nonneg [of vd ps d] by (auto intro: add_nonneg_nonneg)
qed simp

lemma vest_sum_mono: "periods_ok vd ps \<Longrightarrow> t \<le> t' \<Longrightarrow> vest_sum t cur ps d \<le> vest_sum t' cur ps d"
proof (induction ps arbitrary: cur)
  case (Cons p ps)
  have "0 \<le> camt (PAmount p) d" "0 \<le> vest_sum t' (cur + Length p) ps d"
    using Cons.prems coins_ok_nonneg vest_sum_bounds [of vd ps t' "cur + Length p" d] by auto
  then show ?case using Cons by auto
qed simp

lemma vest_sum_all: "\<forall>p \<in> set ps. 0 \<le> Length p \<Longrightarrow> cur + (\<Sum>p\<leftarrow>ps. Length p) \<le> t \<Longrightarrow>
    vest_sum t cur ps d = (\<Sum>p\<leftarrow>ps. camt (PAmount p) d)"
proof (induction ps arbitrary: cur)
  case (Cons p ps)
  have "0 \<le> (\<Sum>p\<leftarrow>ps. Length p)" using Cons.prems(1) by (intro sum_list_nonneg) auto
  then show ?case using Cons.IH [of "cur + Length p"] Cons.prems by auto
qed simp

lemma vested_periods_ok:
  assumes "periods_ok vd ps" "coins_ok vd v" "- (2 ^ 63) \<le> cur" "cur \<le> t" "t < 2 ^ 63" "t - cur < 2 ^ 63"
    and "\<And>d. int256 (camt v d + (\<Sum>p\<leftarrow>ps. camt (PAmount p) d))"
  shows "\<exists>r. vested_periods t cur v ps = Inr r \<and> coins_ok vd r \<and> (\<forall>d. camt r d = camt v d + vest_sum t cur ps d)"
  using assms
proof (induction ps arbitrary: cur v)
  case (Cons p ps)
  have w: "wrap64 (t - cur) = t - cur" using Cons.prems by (intro wrap64_id) auto
  show ?case
  proof (cases "t - cur < Length p")
    case True
    then show ?thesis using Cons.prems(2) by (simp add: w)
  next
    case False
    have w': "wrap64 (cur + Length p) = cur + Length p" using Cons.prems False by (intro wrap64_id) auto
    have nn: "0 \<le> camt v d" "0 \<le> camt (PAmount p) d" "0 \<le> (\<Sum>p\<leftarrow>ps. camt (PAmount p) d)" for d
      using Cons.prems periods_nonneg [of vd ps d] by (auto intro: coins_ok_nonneg)
    have "int256 (camt v d + camt (PAmount p) d)" for d
      using int256_between [OF Cons.prems(7) [of d]] nn [of d] by auto
    then obtain u where u: "Coins_Add v (PAmount p) = Inr u" using Coins_Add_total Cons.prems by force
    have u': "coins_ok vd u" "\<And>d. camt u d = camt v d + camt (PAmount p) d"
      using Coins_Add_ok [OF Cons.prems(2) _ u] Cons.prems(1) by auto
    have fit: "int256 (camt u d + (\<Sum>p\<leftarrow>ps. camt (PAmount p) d))" for d
      using Cons.prems(7) [of d] by (simp add: u'(2) add.assoc)
    obtain r where "vested_periods t (cur + Length p) u ps = Inr r" "coins_ok vd r"
      "\<And>d. camt r d = camt u d + vest_sum t (cur + Length p) ps d"
      using Cons.IH [of u "cur + Length p"] Cons.prems False u'(1) fit by auto
    then show ?thesis using False u by (simp add: w w' u'(2))
  qed
qed simp

section \<open>Valid accounts\<close>

text \<open>
  A stored account: it validates, it is typed (its amounts are 256-bit and its times 64-bit integers, and what
  it tracks as delegated are valid coin sets), and the lengths of its schedule stay within \<open>int64\<close>.  The last
  condition is not part of any \<open>Validate\<close>; the lemmas at the end of the theory show what happens without it.
\<close>

definition bva_typed :: "(string \<Rightarrow> bool) \<Rightarrow> BaseVestingAccount \<Rightarrow> bool" where
  "bva_typed vd bva \<longleftrightarrow> list_all (\<lambda>c. int256 (Amount c)) (OriginalVesting bva) \<and>
     coins_ok vd (DelegatedFree bva) \<and> coins_ok vd (DelegatedVesting bva) \<and> EndTime bva < 2 ^ 63"

fun va_typed :: "(string \<Rightarrow> bool) \<Rightarrow> VestingAccount \<Rightarrow> bool" where
  "va_typed vd (ContinuousVestingAccount bva st) \<longleftrightarrow> bva_typed vd bva"
| "va_typed vd (PeriodicVestingAccount bva st ps) \<longleftrightarrow> bva_typed vd bva \<and> - (2 ^ 63) \<le> st \<and>
     list_all (\<lambda>p. list_all (\<lambda>c. int256 (Amount c)) (PAmount p)) ps"
| "va_typed vd (DelayedVestingAccount bva) \<longleftrightarrow> bva_typed vd bva"
| "va_typed vd (PermanentLockedAccount bva) \<longleftrightarrow> bva_typed vd bva"

fun va_no_overflow :: "VestingAccount \<Rightarrow> bool" where
  "va_no_overflow (ContinuousVestingAccount bva st) \<longleftrightarrow> EndTime bva - st < 2 ^ 63"
| "va_no_overflow (PeriodicVestingAccount bva st ps) \<longleftrightarrow>
     st + (\<Sum>p\<leftarrow>ps. Length p) < 2 ^ 63 \<and> (\<Sum>p\<leftarrow>ps. Length p) < 2 ^ 63"
| "va_no_overflow (DelayedVestingAccount bva) \<longleftrightarrow> True"
| "va_no_overflow (PermanentLockedAccount bva) \<longleftrightarrow> True"

definition va_ok :: "(string \<Rightarrow> bool) \<Rightarrow> VestingAccount \<Rightarrow> bool" where
  "va_ok vd va \<longleftrightarrow> va_Validate vd (Inr ()) va = Inr () \<and> va_typed vd va \<and> va_no_overflow va"

lemma bva_Validate_iff:
  assumes "bva_typed vd bva"
  shows "bva_Validate vd (Inr ()) bva = Inr () \<longleftrightarrow> 0 \<le> EndTime bva \<and> OriginalVesting bva \<noteq> [] \<and> bva_ok vd bva"
proof (cases "Coins_IsValid vd (OriginalVesting bva)")
  case True
  then have ok: "coins_ok vd (OriginalVesting bva)" "coins_ok vd (DelegatedVesting bva)"
    using assms by (simp_all add: coins_ok_def bva_typed_def)
  have "Coins_IsAllPositive (OriginalVesting bva) \<longleftrightarrow> OriginalVesting bva \<noteq> []"
    using ok(1) by (auto simp: Coins_IsAllPositive_def list_all_iff coins_ok_iff)
  moreover have "Coins_IsAllLTE vd (DelegatedVesting bva) (OriginalVesting bva) =
      Inr (\<forall>d. camt (DelegatedVesting bva) d \<le> camt (OriginalVesting bva) d)"
    unfolding Coins_IsAllLTE_def by (rule Coins_IsAllGTE_iff [OF ok])
  ultimately show ?thesis
    using True ok assms by (auto simp: bva_Validate_def bva_ok_def bva_typed_def)
next
  case False
  then have "\<not> bva_ok vd bva" by (simp add: bva_ok_def coins_ok_def)
  then show ?thesis using False by (simp add: bva_Validate_def)
qed

lemma validate_periods:
  assumes "rfold (validate_period vd) (e0, ov0) ps = Inr (e, ov)" "coins_ok vd ov0" "- (2 ^ 63) \<le> e0"
    "e0 + (\<Sum>p\<leftarrow>ps. Length p) < 2 ^ 63" "list_all (\<lambda>p. list_all (\<lambda>c. int256 (Amount c)) (PAmount p)) ps"
  shows "periods_ok vd ps \<and> e = e0 + (\<Sum>p\<leftarrow>ps. Length p) \<and> coins_ok vd ov \<and>
    (\<forall>d. camt ov d = camt ov0 d + (\<Sum>p\<leftarrow>ps. camt (PAmount p) d))"
  using assms
proof (induction ps arbitrary: e0 ov0)
  case (Cons p ps)
  obtain ov1 where p: "0 \<le> Length p" "Coins_IsValid vd (PAmount p)" "Coins_Add ov0 (PAmount p) = Inr ov1"
    and r: "rfold (validate_period vd) (wrap64 (e0 + Length p), ov1) ps = Inr (e, ov)"
    using Cons.prems(1) by (auto simp: validate_period_def res_simps split: if_splits)
  have pok: "coins_ok vd (PAmount p)" using p(2) Cons.prems(5) by (simp add: coins_ok_def)
  have ov1: "coins_ok vd ov1" "\<And>d. camt ov1 d = camt ov0 d + camt (PAmount p) d"
    using Coins_Add_ok [OF Cons.prems(2) pok p(3)] by auto
  have "0 \<le> (\<Sum>p\<leftarrow>ps. Length p)"
    using r by (induction ps arbitrary: ov1 e0 p) (auto simp: validate_period_def res_simps split: if_splits)
  then have w: "wrap64 (e0 + Length p) = e0 + Length p" using Cons.prems(3,4) p(1) by (intro wrap64_id) auto
  show ?case
    using Cons.IH [of "e0 + Length p" ov1] r Cons.prems p(1) pok ov1 by (simp add: w algebra_simps)
qed simp

lemma Coins_Sort_sorted: "denom_sorted cs \<Longrightarrow> Coins_Sort cs = cs"
  by (simp add: Coins_Sort_def denom_sorted_def strict_sorted_iff sort_key_id_if_sorted)

lemma Coins_Equal_sorted: "denom_sorted a \<Longrightarrow> denom_sorted b \<Longrightarrow> Coins_Equal a b \<longleftrightarrow> a = b"
  by (auto simp: Coins_Equal_def Coins_Sort_sorted list_all2_eq [symmetric])

lemma va_ok_base: "va_ok vd va \<Longrightarrow> bva_ok vd (va_base va)"
  by (cases va)
    (auto simp: va_ok_def cva_Validate_def pva_Validate_def plva_Validate_def bva_Validate_iff res_simps
      split: if_splits)

lemma va_ok_periodic:
  assumes "va_ok vd (PeriodicVestingAccount bva st ps)"
  shows "periods_ok vd ps" "EndTime bva = st + (\<Sum>p\<leftarrow>ps. Length p)"
    "\<And>d. camt (OriginalVesting bva) d = (\<Sum>p\<leftarrow>ps. camt (PAmount p) d)" "st < EndTime bva"
    "- (2 ^ 63) \<le> st" "EndTime bva < 2 ^ 63" "EndTime bva - st < 2 ^ 63"
proof -
  have typed: "va_typed vd (PeriodicVestingAccount bva st ps)" "va_no_overflow (PeriodicVestingAccount bva st ps)"
    using assms by (simp_all add: va_ok_def)
  obtain e ov where f: "rfold (validate_period vd) (st, []) ps = Inr (e, ov)" "e = EndTime bva"
    "Coins_Equal ov (OriginalVesting bva)" "st < EndTime bva"
    using assms by (auto simp: va_ok_def pva_Validate_def res_simps split: if_splits)
  have v: "periods_ok vd ps \<and> e = st + (\<Sum>p\<leftarrow>ps. Length p) \<and> coins_ok vd ov \<and>
      (\<forall>d. camt ov d = camt [] d + (\<Sum>p\<leftarrow>ps. camt (PAmount p) d))"
    using typed by (intro validate_periods [OF f(1)]) (simp_all add: coins_ok_iff)
  have "ov = OriginalVesting bva"
    using f(3) v bva_okD(1) [OF va_ok_base [OF assms]]
    by (subst (asm) Coins_Equal_sorted) (auto intro: coins_ok_denom_sorted)
  then show "periods_ok vd ps" "EndTime bva = st + (\<Sum>p\<leftarrow>ps. Length p)"
    "\<And>d. camt (OriginalVesting bva) d = (\<Sum>p\<leftarrow>ps. camt (PAmount p) d)"
    using v f(2) by simp_all
  then show "st < EndTime bva" "- (2 ^ 63) \<le> st" "EndTime bva < 2 ^ 63" "EndTime bva - st < 2 ^ 63"
    using f(4) typed by simp_all
qed

lemma pva_vested:
  assumes "va_ok vd (PeriodicVestingAccount bva st ps)"
  shows "\<exists>v. pva_GetVestedCoins bva st ps t = Inr v \<and> coins_ok vd v \<and>
    (\<forall>d. camt v d = (if t \<le> st then 0 else vest_sum t st ps d))"
proof -
  note p = va_ok_periodic [OF assms]
  have ov: "coins_ok vd (OriginalVesting bva)" using bva_okD(1) [OF va_ok_base [OF assms]] by simp
  consider "t \<le> st" | "st < t" "EndTime bva \<le> t" | "st < t" "t < EndTime bva" by linarith
  then show ?thesis
  proof cases
    case 1
    then show ?thesis by (simp add: pva_GetVestedCoins_def coins_ok_iff)
  next
    case 2
    then have "vest_sum t st ps d = camt (OriginalVesting bva) d" for d
      using p by (simp add: vest_sum_all periods_ok_def)
    then show ?thesis using 2 ov by (simp add: pva_GetVestedCoins_def)
  next
    case 3
    have "int256 (camt [] d + (\<Sum>p\<leftarrow>ps. camt (PAmount p) d))" for d
      using coins_ok_fits [OF ov, of d] by (simp add: p(3))
    then have "\<exists>r. vested_periods t st [] ps = Inr r \<and> coins_ok vd r \<and>
        (\<forall>d. camt r d = camt [] d + vest_sum t st ps d)"
      using 3 p by (intro vested_periods_ok) (auto simp: coins_ok_iff)
    then show ?thesis using 3 by (auto simp: pva_GetVestedCoins_def)
  qed
qed

lemma cva_vested:
  assumes "va_ok vd (ContinuousVestingAccount bva st)"
  shows "cva_GetVestedCoins vd bva st t =
    Inr (if t \<le> st then [] else if t \<ge> EndTime bva then OriginalVesting bva
         else parts (OriginalVesting bva) (vest_scale (t - st) (EndTime bva - st)))"
  using cva_vested_middle [of vd bva st t] va_ok_base [OF assms] assms
  by (auto simp: cva_GetVestedCoins_def va_ok_def)

lemma va_vested_total:
  assumes "va_ok vd va"
  shows "\<exists>v w. GetVestedCoins vd va t = Inr v \<and> NewCoins vd v = Inr w \<and> coins_ok vd w \<and>
    (\<forall>d. camt v d \<le> camt (OriginalVesting (va_base va)) d)"
proof -
  have ov: "coins_ok vd (OriginalVesting (va_base va))" by (rule bva_okD [OF va_ok_base [OF assms]])
  have nil: "coins_ok vd []" by (simp add: coins_ok_iff)
  note trivial = ov nil coins_ok_nonneg [OF ov]
  show ?thesis
  proof (cases va)
    case (ContinuousVestingAccount bva st)
    let ?s = "vest_scale (t - st) (EndTime bva - st)"
    consider "t \<le> st" | "st < t" "EndTime bva \<le> t" | "st < t" "t < EndTime bva" by linarith
    then show ?thesis
    proof cases
      case 3
      then have s: "0 \<le> ?s" "?s \<le> precisionReuse" by (auto intro: vest_scale_bounds)
      have "camt (parts (OriginalVesting bva) ?s) d \<le> camt (OriginalVesting bva) d" for d
        using trivial ContinuousVestingAccount s by (auto simp: parts_amt intro!: vest_part_bounds)
      then show ?thesis
        using 3 parts_NewCoins [OF _ s, of vd "OriginalVesting bva"] ov assms ContinuousVestingAccount
        by (auto simp: cva_vested)
    qed (use assms trivial ContinuousVestingAccount in \<open>auto simp: cva_vested\<close>)
  next
    case (PeriodicVestingAccount bva st ps)
    note p = va_ok_periodic [OF assms [unfolded PeriodicVestingAccount]]
    obtain v where v: "pva_GetVestedCoins bva st ps t = Inr v" "coins_ok vd v"
      "\<And>d. camt v d = (if t \<le> st then 0 else vest_sum t st ps d)"
      using pva_vested [OF assms [unfolded PeriodicVestingAccount]] by blast
    have "camt v d \<le> camt (OriginalVesting bva) d" for d
      using vest_sum_bounds [OF p(1), of t st d] periods_nonneg [OF p(1), of d] by (simp add: v(3) p(3))
    then show ?thesis using v PeriodicVestingAccount by simp
  next
    case (DelayedVestingAccount bva)
    then show ?thesis using trivial by (simp add: dva_GetVestedCoins_def)
  next
    case (PermanentLockedAccount bva)
    then show ?thesis using trivial by (simp add: plva_GetVestedCoins_def)
  qed
qed

lemma va_vested_mono:
  assumes "va_ok vd va" "t \<le> t'" "GetVestedCoins vd va t = Inr v" "GetVestedCoins vd va t' = Inr v'"
  shows "camt v d \<le> camt v' d"
proof -
  have ov: "coins_ok vd (OriginalVesting (va_base va))" by (rule bva_okD [OF va_ok_base [OF assms(1)]])
  have nn: "0 \<le> camt (OriginalVesting (va_base va)) d" by (rule coins_ok_nonneg [OF ov])
  show ?thesis
  proof (cases va)
    case (ContinuousVestingAccount bva st)
    let ?s = "\<lambda>t. vest_scale (t - st) (EndTime bva - st)"
    have mid: "0 \<le> camt (parts (OriginalVesting bva) (?s u)) d"
      "camt (parts (OriginalVesting bva) (?s u)) d \<le> camt (OriginalVesting bva) d" if "st < u" "u < EndTime bva" for u
      using that ov nn ContinuousVestingAccount vest_scale_bounds [of "u - st" "EndTime bva - st"]
      by (auto simp: parts_amt intro!: vest_part_bounds)
    have "camt (parts (OriginalVesting bva) (?s t)) d \<le> camt (parts (OriginalVesting bva) (?s t')) d"
      if "st < t" "t < EndTime bva"
      using that assms(2) ov nn ContinuousVestingAccount
      by (auto simp: parts_amt intro!: vest_part_mono vest_scale_mono)
    then show ?thesis
      using mid assms nn ContinuousVestingAccount
      by (auto simp: cva_vested [OF assms(1) [unfolded ContinuousVestingAccount]] split: if_splits)
  next
    case (PeriodicVestingAccount bva st ps)
    note ok = assms(1) [unfolded PeriodicVestingAccount]
    note p = va_ok_periodic [OF ok]
    have "camt u d = (if s \<le> st then 0 else vest_sum s st ps d)" if "GetVestedCoins vd va s = Inr u" for s u
      using pva_vested [OF ok, of s] that PeriodicVestingAccount by auto
    from this [OF assms(3)] this [OF assms(4)] show ?thesis
      using assms(2) vest_sum_bounds [OF p(1), of t' st d] vest_sum_mono [OF p(1) assms(2), of st d] by auto
  next
    case (DelayedVestingAccount bva)
    then show ?thesis using assms nn by (auto simp: dva_GetVestedCoins_def split: if_splits)
  next
    case (PermanentLockedAccount bva)
    then show ?thesis using assms by (simp add: plva_GetVestedCoins_def)
  qed
qed

interpretation vest: vesting_schedule vd "va_ok vd" va_base "GetVestedCoins vd" for vd
  by unfold_locales (rule va_ok_base va_vested_total va_vested_mono; assumption)+

section \<open>Tracking delegations\<close>

lemma add_one_coin:
  assumes "coins_ok vd a" "vd den" "0 \<le> x" "int256 (camt a den + x)"
  shows "\<exists>r. (if x \<noteq> 0 then rbind (NewCoin vd den x) (\<lambda>c. Coins_Add a [c]) else Inr a) = Inr r \<and>
    coins_ok vd r \<and> (\<forall>d. camt r d = camt a d + (if d = den then x else 0))"
proof (cases "x = 0")
  case False
  let ?c = "\<lparr> Denom = den, Amount = x \<rparr>"
  have "int256 x" using assms coins_ok_nonneg [OF assms(1), of den] by (intro int256_between [OF assms(4)]) auto
  then have c: "coins_ok vd [?c]" using False assms by (simp add: coins_ok_iff)
  have "int256 (camt a d + camt [?c] d)" for d using assms(4) coins_ok_fits [OF assms(1), of d] by auto
  then obtain r where r: "Coins_Add a [?c] = Inr r" using Coins_Add_total [OF assms(1) c] by blast
  show ?thesis using Coins_Add_ok [OF assms(1) c r] r False assms by (auto simp: NewCoin_ok)
qed (use assms in simp)

lemma sub_one_coin:
  assumes "coins_ok vd a" "vd den" "0 \<le> x" "x \<le> camt a den"
  shows "\<exists>r. (if x \<noteq> 0 then rbind (NewCoin vd den x) (\<lambda>c. Coins_Sub vd a [c]) else Inr a) = Inr r \<and>
    coins_ok vd r \<and> (\<forall>d. camt r d = camt a d - (if d = den then x else 0))"
proof (cases "x = 0")
  case False
  let ?c = "\<lparr> Denom = den, Amount = x \<rparr>"
  have "int256 x" using assms by (intro int256_between [OF coins_ok_fits [OF assms(1), of den]]) auto
  then have c: "coins_ok vd [?c]" using False assms by (simp add: coins_ok_iff)
  have "camt [?c] d \<le> camt a d" for d using assms(4) coins_ok_nonneg [OF assms(1), of d] by auto
  then obtain r where r: "Coins_Sub vd a [?c] = Inr r" using Coins_Sub_total [OF assms(1) c] by blast
  show ?thesis using Coins_Sub_ok [OF assms(1) c r] r False assms by (auto simp: NewCoin_ok)
qed (use assms in simp)

text \<open>The part \<open>X = min(max(V - DV, 0), D)\<close> of a delegation that is taken from vesting coins.\<close>

definition from_vesting :: "int \<Rightarrow> int \<Rightarrow> int \<Rightarrow> int" where
  "from_vesting v dv d = min (max (v - dv) 0) d"

lemma from_vesting_bounds: "0 \<le> d \<Longrightarrow> 0 \<le> from_vesting v dv d \<and> from_vesting v dv d \<le> d"
  by (auto simp: from_vesting_def)

lemma from_vesting_zero [simp]: "from_vesting v dv 0 = 0"
  by (simp add: from_vesting_def)

lemma track_delegation_step:
  assumes bva: "bva_ok vd bva" and ves: "coins_ok vd vesting" "\<And>d. camt vesting d \<le> camt (OriginalVesting bva) d"
    and bal: "coins_ok vd balance" "Amount c \<le> camt balance (Denom c)"
    and c: "vd (Denom c)" "0 < Amount c" "int256 (camt (DelegatedFree bva) (Denom c) + Amount c)"
  shows "\<exists>bva'. track_delegation_coin vd balance vesting bva c = Inr bva' \<and> bva_ok vd bva' \<and>
    OriginalVesting bva' = OriginalVesting bva \<and> EndTime bva' = EndTime bva \<and>
    (\<forall>d. let x = (if d = Denom c then from_vesting (camt vesting d) (camt (DelegatedVesting bva) d) (Amount c) else 0);
             y = (if d = Denom c then Amount c else 0) - x in
         camt (DelegatedVesting bva') d = camt (DelegatedVesting bva) d + x \<and>
         camt (DelegatedFree bva') d = camt (DelegatedFree bva) d + y)"
proof -
  let ?v = "camt vesting (Denom c)" and ?dv = "camt (DelegatedVesting bva) (Denom c)"
  define x where "x = from_vesting ?v ?dv (Amount c)"
  note ok = bva_okD [OF bva]
  have x: "0 \<le> x" "x \<le> Amount c" using from_vesting_bounds c(2) by (simp_all add: x_def)
  have nn: "0 \<le> ?dv" "0 \<le> camt (DelegatedFree bva) (Denom c)" using coins_ok_nonneg ok by blast+
  have le: "?dv + x \<le> camt (OriginalVesting bva) (Denom c)"
    using ves(2) [of "Denom c"] ok(4) [of "Denom c"] by (auto simp: x_def from_vesting_def)
  obtain dv where dv: "(if x \<noteq> 0 then rbind (NewCoin vd (Denom c) x) (\<lambda>k. Coins_Add (DelegatedVesting bva) [k])
      else Inr (DelegatedVesting bva)) = Inr dv" "coins_ok vd dv"
      "\<And>d. camt dv d = camt (DelegatedVesting bva) d + (if d = Denom c then x else 0)"
    using add_one_coin [OF ok(3) c(1) x(1)] int256_between [OF coins_ok_fits [OF ok(1)], of "?dv + x" "Denom c"] le nn x
    by auto
  obtain df where df: "(if Amount c - x \<noteq> 0 then rbind (NewCoin vd (Denom c) (Amount c - x)) (\<lambda>k. Coins_Add (DelegatedFree bva) [k])
      else Inr (DelegatedFree bva)) = Inr df" "coins_ok vd df"
      "\<And>d. camt df d = camt (DelegatedFree bva) d + (if d = Denom c then Amount c - x else 0)"
    using add_one_coin [OF ok(2) c(1), of "Amount c - x"] int256_between [OF c(3)] nn x by auto
  have fits: "int256 (?v - ?dv)" "int256 (Amount c - x)"
    using int256_diff [OF coins_ok_fits [OF ves(1)] coins_ok_fits [OF ok(3)] coins_ok_nonneg [OF ves(1)] nn(1)]
      int256_between [OF c(3), of "Amount c - x"] nn x by auto
  have mm: "MinInt (MaxInt (?v - ?dv) 0) (Amount c) = x" by (simp add: x_def from_vesting_def sdkint)
  have "track_delegation_coin vd balance vesting bva c = Inr (bva\<lparr>DelegatedVesting := dv, DelegatedFree := df\<rparr>)"
    using dv(1) df(1) fits bal ves(1) ok(3) c
    by (simp add: track_delegation_coin_def Coins_AmountOf_ok Int_arith_eq(2) mm)
  moreover have "bva_ok vd (bva\<lparr>DelegatedVesting := dv, DelegatedFree := df\<rparr>)"
    using ok dv df le by (auto simp: bva_ok_def)
  ultimately show ?thesis using dv(3) df(3) by (auto simp: x_def Let_def)
qed

lemma track_delegation_ok:
  assumes "bva_ok vd bva" "coins_ok vd vesting" "\<And>d. camt vesting d \<le> camt (OriginalVesting bva) d"
    "coins_ok vd balance" "\<forall>c \<in> set cs. Amount c \<le> camt balance (Denom c) \<and> vd (Denom c) \<and> 0 < Amount c"
    "distinct (map Denom cs)" "\<And>d. int256 (camt (DelegatedFree bva) d + camt cs d)"
  shows "\<exists>bva'. bva_TrackDelegation vd bva balance vesting cs = Inr bva' \<and> bva_ok vd bva' \<and>
    OriginalVesting bva' = OriginalVesting bva \<and> EndTime bva' = EndTime bva \<and>
    (\<forall>d. let x = from_vesting (camt vesting d) (camt (DelegatedVesting bva) d) (camt cs d) in
         camt (DelegatedVesting bva') d = camt (DelegatedVesting bva) d + x \<and>
         camt (DelegatedFree bva') d = camt (DelegatedFree bva) d + (camt cs d - x))"
  using assms(1,3,5,6,7) unfolding bva_TrackDelegation_def
proof (induction cs arbitrary: bva)
  case (Cons c cs)
  have abs: "camt cs (Denom c) = 0" using Cons.prems(4) camt_in [of cs "Denom c"] by auto
  have c: "vd (Denom c)" "0 < Amount c" "Amount c \<le> camt balance (Denom c)"
    "int256 (camt (DelegatedFree bva) (Denom c) + Amount c)"
    using Cons.prems(3) Cons.prems(5) [of "Denom c"] abs by auto
  obtain b where b: "track_delegation_coin vd balance vesting bva c = Inr b" "bva_ok vd b"
    "OriginalVesting b = OriginalVesting bva" "EndTime b = EndTime bva"
    "\<And>d. camt (DelegatedVesting b) d = camt (DelegatedVesting bva) d +
        (if d = Denom c then from_vesting (camt vesting d) (camt (DelegatedVesting bva) d) (Amount c) else 0)"
    "\<And>d. camt (DelegatedFree b) d = camt (DelegatedFree bva) d + ((if d = Denom c then Amount c else 0) -
        (if d = Denom c then from_vesting (camt vesting d) (camt (DelegatedVesting bva) d) (Amount c) else 0))"
    using track_delegation_step [OF Cons.prems(1) assms(2) Cons.prems(2) assms(4) c(3,1,2,4)]
    unfolding Let_def by blast
  have fit: "int256 (camt (DelegatedFree b) d + camt cs d)" for d
  proof (cases "d = Denom c")
    case True
    have "0 \<le> camt (DelegatedFree bva) d" using Cons.prems(1) by (rule coins_ok_nonneg [OF bva_okD(2)])
    then show ?thesis
      using True abs from_vesting_bounds [of "Amount c" "camt vesting d" "camt (DelegatedVesting bva) d"] c(2)
      by (intro int256_between [OF c(4)]) (simp_all add: b(6))
  next
    case False
    then show ?thesis using Cons.prems(5) [of d] by (simp add: b(6))
  qed
  obtain b' where b': "rfold (track_delegation_coin vd balance vesting) b cs = Inr b'" "bva_ok vd b'"
    "OriginalVesting b' = OriginalVesting b" "EndTime b' = EndTime b"
    "\<And>d. camt (DelegatedVesting b') d = camt (DelegatedVesting b) d +
        from_vesting (camt vesting d) (camt (DelegatedVesting b) d) (camt cs d)"
    "\<And>d. camt (DelegatedFree b') d = camt (DelegatedFree b) d +
        (camt cs d - from_vesting (camt vesting d) (camt (DelegatedVesting b) d) (camt cs d))"
    using Cons.IH [of b] b(2,3) Cons.prems(2,3,4) fit unfolding Let_def by auto
  have "camt (DelegatedVesting b') d = camt (DelegatedVesting bva) d +
      from_vesting (camt vesting d) (camt (DelegatedVesting bva) d) (camt (c # cs) d) \<and>
      camt (DelegatedFree b') d = camt (DelegatedFree bva) d + (camt (c # cs) d -
      from_vesting (camt vesting d) (camt (DelegatedVesting bva) d) (camt (c # cs) d))" for d
    using abs by (cases "d = Denom c") (simp_all add: b'(5,6) b(5,6))
  then show ?case using b(1,3,4) b' by (simp add: Let_def)
qed simp

text \<open>An undelegation first releases free coins, then vesting ones: \<open>X = min(DF, D)\<close>, \<open>Y = min(DV, D - X)\<close>.\<close>

lemma track_undelegation_step:
  assumes bva: "bva_ok vd bva" and c: "vd (Denom c)" "0 < Amount c" "int256 (Amount c)"
  shows "\<exists>bva'. track_undelegation_coin vd bva c = Inr bva' \<and> bva_ok vd bva' \<and>
    OriginalVesting bva' = OriginalVesting bva \<and> EndTime bva' = EndTime bva \<and>
    (\<forall>d. let a = (if d = Denom c then Amount c else 0); x = min (camt (DelegatedFree bva) d) a;
             y = min (camt (DelegatedVesting bva) d) (a - x) in
         camt (DelegatedFree bva') d = camt (DelegatedFree bva) d - x \<and>
         camt (DelegatedVesting bva') d = camt (DelegatedVesting bva) d - y)"
proof -
  let ?f = "camt (DelegatedFree bva) (Denom c)" and ?v = "camt (DelegatedVesting bva) (Denom c)"
  define x where "x = min ?f (Amount c)"
  define y where "y = min ?v (Amount c - x)"
  note ok = bva_okD [OF bva]
  have nn: "0 \<le> camt (DelegatedFree bva) d" "0 \<le> camt (DelegatedVesting bva) d" for d using coins_ok_nonneg ok by blast+
  have x: "0 \<le> x" "x \<le> ?f" "x \<le> Amount c" using nn [of "Denom c"] c(2) by (auto simp: x_def)
  have y: "0 \<le> y" "y \<le> ?v" using nn [of "Denom c"] x by (auto simp: y_def)
  obtain df where df: "(if x \<noteq> 0 then rbind (NewCoin vd (Denom c) x) (\<lambda>k. Coins_Sub vd (DelegatedFree bva) [k])
      else Inr (DelegatedFree bva)) = Inr df" "coins_ok vd df"
      "\<And>d. camt df d = camt (DelegatedFree bva) d - (if d = Denom c then x else 0)"
    using sub_one_coin [OF ok(2) c(1) x(1,2)] by blast
  obtain dv where dv: "(if y \<noteq> 0 then rbind (NewCoin vd (Denom c) y) (\<lambda>k. Coins_Sub vd (DelegatedVesting bva) [k])
      else Inr (DelegatedVesting bva)) = Inr dv" "coins_ok vd dv"
      "\<And>d. camt dv d = camt (DelegatedVesting bva) d - (if d = Denom c then y else 0)"
    using sub_one_coin [OF ok(3) c(1) y] by blast
  have "int256 (Amount c - x)" using int256_between [OF c(3), of "Amount c - x"] x by simp
  then have "track_undelegation_coin vd bva c = Inr (bva\<lparr>DelegatedFree := df, DelegatedVesting := dv\<rparr>)"
    using df(1) dv(1) ok c
    by (simp add: track_undelegation_coin_def Coins_AmountOf_ok Int_arith_eq(2) MinMaxInt_eq
        x_def [symmetric] y_def [symmetric])
  moreover have "camt dv d \<le> camt (OriginalVesting bva) d" for d
    using ok(4) [of d] y by (auto simp: dv(3))
  then have "bva_ok vd (bva\<lparr>DelegatedFree := df, DelegatedVesting := dv\<rparr>)"
    using ok dv df by (auto simp: bva_ok_def)
  moreover have "min (camt (DelegatedFree bva) d) 0 = 0" "min (camt (DelegatedVesting bva) d) 0 = 0" for d
    using nn [of d] by simp_all
  ultimately show ?thesis
    using dv(3) df(3) by (auto simp: x_def y_def Let_def)
qed

lemma track_undelegation_ok:
  assumes "bva_ok vd bva" "\<forall>c \<in> set cs. vd (Denom c) \<and> 0 < Amount c \<and> int256 (Amount c)" "distinct (map Denom cs)"
  shows "\<exists>bva'. bva_TrackUndelegation vd bva cs = Inr bva' \<and> bva_ok vd bva' \<and>
    OriginalVesting bva' = OriginalVesting bva \<and> EndTime bva' = EndTime bva \<and>
    (\<forall>d. let x = min (camt (DelegatedFree bva) d) (camt cs d);
             y = min (camt (DelegatedVesting bva) d) (camt cs d - x) in
         camt (DelegatedFree bva') d = camt (DelegatedFree bva) d - x \<and>
         camt (DelegatedVesting bva') d = camt (DelegatedVesting bva) d - y)"
  using assms unfolding bva_TrackUndelegation_def
proof (induction cs arbitrary: bva)
  case Nil
  have "0 \<le> camt (DelegatedFree bva) d" "0 \<le> camt (DelegatedVesting bva) d" for d
    using Nil coins_ok_nonneg bva_okD by blast+
  then show ?case using Nil by (simp add: min_absorb2 Let_def)
next
  case (Cons c cs)
  have abs: "camt cs (Denom c) = 0" using Cons.prems(3) camt_in [of cs "Denom c"] by auto
  obtain b where b: "track_undelegation_coin vd bva c = Inr b" "bva_ok vd b"
    "OriginalVesting b = OriginalVesting bva" "EndTime b = EndTime bva"
    and bd: "\<And>d. let a = (if d = Denom c then Amount c else 0); x = min (camt (DelegatedFree bva) d) a;
             y = min (camt (DelegatedVesting bva) d) (a - x) in
         camt (DelegatedFree b) d = camt (DelegatedFree bva) d - x \<and>
         camt (DelegatedVesting b) d = camt (DelegatedVesting bva) d - y"
    using track_undelegation_step [OF Cons.prems(1), of c] Cons.prems(2) by auto
  obtain b' where b': "rfold (track_undelegation_coin vd) b cs = Inr b'" "bva_ok vd b'"
    "OriginalVesting b' = OriginalVesting b" "EndTime b' = EndTime b"
    and bd': "\<And>d. let x = min (camt (DelegatedFree b) d) (camt cs d);
             y = min (camt (DelegatedVesting b) d) (camt cs d - x) in
         camt (DelegatedFree b') d = camt (DelegatedFree b) d - x \<and>
         camt (DelegatedVesting b') d = camt (DelegatedVesting b) d - y"
    using Cons.IH [of b] b(2) Cons.prems by auto
  have nn: "0 \<le> camt (DelegatedFree bva) d" "0 \<le> camt (DelegatedVesting bva) d"
    "0 \<le> camt (DelegatedFree b) d" "0 \<le> camt (DelegatedVesting b) d" for d
    using Cons.prems(1) b(2) coins_ok_nonneg bva_okD by blast+
  have "let x = min (camt (DelegatedFree bva) d) (camt (c # cs) d);
             y = min (camt (DelegatedVesting bva) d) (camt (c # cs) d - x) in
         camt (DelegatedFree b') d = camt (DelegatedFree bva) d - x \<and>
         camt (DelegatedVesting b') d = camt (DelegatedVesting bva) d - y" for d
    using abs bd [of d] bd' [of d] nn [of d] by (cases "d = Denom c") (simp_all add: Let_def)
  then show ?case using b b' by (simp add: Let_def)
qed

text \<open>Every delegation that is recorded leaves a valid account, whether or not another amount would have
  overflowed.\<close>

lemma add_one_coin_partial:
  assumes "coins_ok vd cs" "vd d" "0 \<le> x" "int256 x"
    and "(if x \<noteq> 0 then rbind (NewCoin vd d x) (\<lambda>k. Coins_Add cs [k]) else Inr cs) = Inr r"
  shows "coins_ok vd r \<and> (\<forall>d'. camt r d' = camt cs d' + (if d' = d then x else 0))"
proof (cases "x = 0")
  case False
  have c: "coins_ok vd [\<lparr> Denom = d, Amount = x \<rparr>]" using assms False by (simp add: coins_ok_iff)
  moreover have "Coins_Add cs [\<lparr> Denom = d, Amount = x \<rparr>] = Inr r" using assms False by (simp add: NewCoin_ok)
  ultimately show ?thesis using Coins_Add_ok [OF assms(1) c] by (auto split: if_splits)
qed (use assms in simp)

lemma track_delegation_keeps:
  assumes bva: "bva_ok vd bva" and ves: "coins_ok vd vesting" "\<And>d. camt vesting d \<le> camt (OriginalVesting bva) d"
    and c: "vd (Denom c)" "0 < Amount c" "int256 (Amount c)"
    and run: "track_delegation_coin vd balance vesting bva c = Inr bva'"
  shows "bva_ok vd bva' \<and> OriginalVesting bva' = OriginalVesting bva \<and> EndTime bva' = EndTime bva"
proof -
  let ?v = "camt vesting (Denom c)" and ?dv = "camt (DelegatedVesting bva) (Denom c)"
  define x where "x = from_vesting ?v ?dv (Amount c)"
  note ok = bva_okD [OF bva]
  have x: "0 \<le> x" "x \<le> Amount c" "int256 x" "int256 (Amount c - x)"
    using from_vesting_bounds [of "Amount c" ?v ?dv] c(2) int256_between [OF c(3)] by (auto simp: x_def)
  have mm: "MinInt (MaxInt (?v - ?dv) 0) (Amount c) = x" by (simp add: x_def from_vesting_def sdkint)
  obtain dv df where
    dv: "(if x \<noteq> 0 then rbind (NewCoin vd (Denom c) x) (\<lambda>k. Coins_Add (DelegatedVesting bva) [k]) else Inr (DelegatedVesting bva)) = Inr dv"
    and df: "(if Amount c - x \<noteq> 0 then rbind (NewCoin vd (Denom c) (Amount c - x)) (\<lambda>k. Coins_Add (DelegatedFree bva) [k])
      else Inr (DelegatedFree bva)) = Inr df"
    and bva': "bva' = bva\<lparr>DelegatedVesting := dv, DelegatedFree := df\<rparr>"
    using run unfolding track_delegation_coin_def Let_def
    by (auto simp: Coins_AmountOf_ok [OF ves(1) c(1)] Coins_AmountOf_ok [OF ok(3) c(1)] rbind_Inr_iff Int_arith_eq(2) mm
        simp del: rbind_simps split: if_split_asm)
  have "?dv + x \<le> camt (OriginalVesting bva) (Denom c)"
    using ves(2) [of "Denom c"] ok(4) [of "Denom c"] by (auto simp: x_def from_vesting_def)
  with add_one_coin_partial [OF ok(3) c(1) x(1,3) dv] add_one_coin_partial [OF ok(2) c(1) _ x(4) df] ok x(2)
  show ?thesis by (auto simp: bva_ok_def bva')
qed

lemma bva_TrackDelegation_keeps:
  assumes "bva_ok vd bva" "coins_ok vd vesting" "\<And>d. camt vesting d \<le> camt (OriginalVesting bva) d"
    "\<forall>c \<in> set cs. vd (Denom c) \<and> 0 < Amount c \<and> int256 (Amount c)" "bva_TrackDelegation vd bva balance vesting cs = Inr bva'"
  shows "bva_ok vd bva' \<and> OriginalVesting bva' = OriginalVesting bva \<and> EndTime bva' = EndTime bva"
  using assms(5) unfolding bva_TrackDelegation_def
proof (rule rfold_invariant)
  fix a x b
  assume x: "x \<in> set cs" and I: "bva_ok vd a \<and> OriginalVesting a = OriginalVesting bva \<and> EndTime a = EndTime bva"
    and run: "track_delegation_coin vd balance vesting a x = Inr b"
  have le: "camt vesting d \<le> camt (OriginalVesting a) d" for d using I assms(3) by simp
  show "bva_ok vd b \<and> OriginalVesting b = OriginalVesting bva \<and> EndTime b = EndTime bva"
    using track_delegation_keeps [OF _ assms(2) le _ _ _ run] I x assms(4) by auto
qed (use assms(1) in simp)

section \<open>Vesting and locked coins of an account\<close>

lemma GetVestingCoins_eq:
  "va_ok vd va \<Longrightarrow>
     GetVestingCoins vd va t = rbind (GetVestedCoins vd va t) (\<lambda>v. Coins_Sub vd (OriginalVesting (va_base va)) v)"
proof (cases va)
  case (PermanentLockedAccount bva)
  assume "va_ok vd va"
  then have "coins_ok vd (OriginalVesting bva)" using PermanentLockedAccount va_ok_base [of vd va] by (auto dest: bva_okD)
  moreover have "coins_ok vd []" by (simp add: coins_ok_iff)
  ultimately have "Coins_Sub vd (OriginalVesting bva) [] = Inr (OriginalVesting bva)" by (simp add: coins.sub_iff)
  then show ?thesis using PermanentLockedAccount by (simp add: GetVestingCoins_def plva_GetVestedCoins_def)
qed (simp_all add: GetVestingCoins_def)

lemma va_LockedCoins_eq:
  "va_LockedCoins vd va t = rbind (GetVestingCoins vd va t) (LockedCoinsFromVesting vd (va_base va))"
  by (cases va) (simp_all add: va_LockedCoins_def GetVestingCoins_def)

lemma va_coins:
  assumes "va_ok vd va"
  shows "\<exists>vested vesting locked. GetVestedCoins vd va t = Inr vested \<and> GetVestingCoins vd va t = Inr vesting \<and>
    va_LockedCoins vd va t = Inr locked \<and> coins_ok vd vesting \<and> coins_ok vd locked \<and>
    (\<forall>d. camt vested d + camt vesting d = camt (OriginalVesting (va_base va)) d \<and> 0 \<le> camt vested d \<and>
         camt locked d = max 0 (camt vesting d - camt (DelegatedVesting (va_base va)) d))"
proof -
  obtain v w where v: "GetVestedCoins vd va t = Inr v" "Coins_Sub vd (OriginalVesting (va_base va)) v = Inr w" "coins_ok vd w"
    "\<forall>d. camt w d + camt v d = camt (OriginalVesting (va_base va)) d \<and> 0 \<le> camt v d"
    using vest.vesting_total [OF assms] by blast
  obtain l where l: "LockedCoinsFromVesting vd (va_base va) w = Inr l" "coins_ok vd l"
    "\<forall>d. camt l d = max 0 (camt w d - camt (DelegatedVesting (va_base va)) d)"
    using LockedCoinsFromVesting_ok [OF va_ok_base [OF assms] v(3)] by blast
  show ?thesis
    using v l
    by (intro exI [of _ v] exI [of _ w] exI [of _ l])
      (simp add: GetVestingCoins_eq [OF assms] va_LockedCoins_eq add.commute)
qed

lemma va_with_base_ok:
  assumes "va_ok vd va" "bva_ok vd bva" "OriginalVesting bva = OriginalVesting (va_base va)" "EndTime bva = EndTime (va_base va)"
  shows "va_ok vd (va_with_base va bva)"
proof -
  have typed: "bva_typed vd bva" "bva_typed vd (va_base va)"
    using assms by (cases va; auto simp: va_ok_def bva_typed_def bva_ok_def)+
  have "bva_Validate vd (Inr ()) bva = bva_Validate vd (Inr ()) (va_base va)"
  proof -
    have "bva_Validate vd (Inr ()) (va_base va) = Inr ()"
      using assms(1) by (cases va)
        (auto simp: va_ok_def cva_Validate_def pva_Validate_def plva_Validate_def res_simps split: if_splits)
    moreover have "bva_Validate vd (Inr ()) bva = Inr ()"
      using calculation bva_Validate_iff [OF typed(1)] bva_Validate_iff [OF typed(2)] assms by simp
    ultimately show ?thesis by simp
  qed
  then show ?thesis
    using assms typed
    by (cases va) (auto simp: va_ok_def cva_Validate_def pva_Validate_def plva_Validate_def res_simps split: if_splits)
qed

lemma va_TrackDelegation_keeps:
  assumes "va_ok vd va" "coins_ok vd cs" "va_TrackDelegation vd va t balance cs = Inr va'"
  shows "va_ok vd va'"
proof -
  obtain w where w: "GetVestingCoins vd va t = Inr w" "coins_ok vd w" "\<And>d. camt w d \<le> camt (OriginalVesting (va_base va)) d"
    using va_coins [OF assms(1), of t] by (metis add_increasing order_refl le_add_same_cancel2)
  have "(case va of PermanentLockedAccount bva \<Rightarrow> Inr (OriginalVesting bva) | _ \<Rightarrow> GetVestingCoins vd va t) = Inr w"
    using w(1) by (cases va) (simp_all add: GetVestingCoins_def)
  with assms(3) obtain b where b: "bva_TrackDelegation vd (va_base va) balance w cs = Inr b" "va' = va_with_base va b"
    by (auto simp: va_TrackDelegation_def res_simps)
  have "bva_ok vd b \<and> OriginalVesting b = OriginalVesting (va_base va) \<and> EndTime b = EndTime (va_base va)"
    using va_ok_base [OF assms(1)] assms(2) by (intro bva_TrackDelegation_keeps [OF _ w(2,3) _ b(1)]) (auto simp: coins_ok_iff)
  then show ?thesis using va_with_base_ok [OF assms(1), of b] b(2) by simp
qed

lemma va_TrackUndelegation_keeps:
  assumes "va_ok vd va" "coins_ok vd cs" "va_TrackUndelegation vd va cs = Inr va'"
  shows "va_ok vd va'"
proof -
  have "distinct (map Denom cs)"
    using coins_ok_denom_sorted [OF assms(2)] by (simp add: denom_sorted_def strict_sorted_iff)
  then obtain b where "bva_TrackUndelegation vd (va_base va) cs = Inr b" "bva_ok vd b"
    "OriginalVesting b = OriginalVesting (va_base va)" "EndTime b = EndTime (va_base va)"
    using track_undelegation_ok [OF va_ok_base [OF assms(1)], of cs] assms(2) by (auto simp: coins_ok_iff)
  with assms(1,3) va_with_base_ok [of vd va b] show ?thesis
    by (auto simp: va_TrackUndelegation_def)
qed

section \<open>Properties\<close>

text \<open>
  C24: Every typed account that validates and whose schedule does not overflow (the difference of end and start time of a
  continuous account, and the sum of the lengths of a periodic one with and without its start time, stay below
  \<open>2\<^sup>6\<^sup>3\<close>) answers at every block time, without a panic: the vested and the vesting coins always add up to the
  original vesting, and the locked coins are the vesting coins that are not delegated, for continuous, periodic,
  delayed and permanently locked accounts alike.
\<close>

theorem vesting_schedule_safe:
  assumes "va_Validate vd (Inr ()) va = Inr ()" "va_typed vd va" "va_no_overflow va"
  shows "\<exists>vested vesting locked. GetVestedCoins vd va t = Inr vested \<and> GetVestingCoins vd va t = Inr vesting \<and>
    va_LockedCoins vd va t = Inr locked \<and> coins_ok vd vesting \<and> coins_ok vd locked \<and>
    (\<forall>d. camt vested d + camt vesting d = camt (OriginalVesting (va_base va)) d \<and> 0 \<le> camt vested d \<and>
         camt locked d = max 0 (camt vesting d - camt (DelegatedVesting (va_base va)) d))"
  by (rule va_coins) (simp add: va_ok_def assms)

definition example_cva :: VestingAccount where
  "example_cva = ContinuousVestingAccount
     \<lparr> OriginalVesting = [\<lparr> Denom = ''stake'', Amount = 10 \<rparr>], DelegatedFree = [], DelegatedVesting = [], EndTime = 200 \<rparr> 100"

lemma example_cva_ok: "va_ok (\<lambda>_. True) example_cva"
proof -
  have "coins_ok (\<lambda>_. True) [\<lparr> Denom = ''stake'', Amount = 10 \<rparr>]" "coins_ok (\<lambda>_. True) []"
    by (simp_all add: coins_ok_iff int256_def)
  then show ?thesis
    by (simp add: va_ok_def example_cva_def cva_Validate_def bva_Validate_iff bva_typed_def bva_ok_def int256_def)
qed

theorem vesting_schedule_safe_witness:
  "\<exists>vested vesting. GetVestedCoins (\<lambda>_. True) example_cva 150 = Inr vested \<and>
     GetVestingCoins (\<lambda>_. True) example_cva 150 = Inr vesting \<and> camt vested ''stake'' + camt vesting ''stake'' = 10"
  using vesting_schedule_safe [of "\<lambda>_. True" example_cva 150] example_cva_ok by (auto simp: va_ok_def) (auto simp: example_cva_def)

text \<open>
  C26: Coins never become vesting again: for a typed account that validates and whose schedule does not overflow, no
  denomination has more vesting or more locked coins at a later block time.  From its end time on an account that is
  not permanently locked has no vesting coin left, so everything it holds is eventually spendable.
\<close>

theorem vesting_decreases_to_zero:
  assumes valid: "va_Validate vd (Inr ()) va = Inr ()" "va_typed vd va" "va_no_overflow va" and "t \<le> t'"
  shows "\<exists>w w' l l'. GetVestingCoins vd va t = Inr w \<and> GetVestingCoins vd va t' = Inr w' \<and>
    va_LockedCoins vd va t = Inr l \<and> va_LockedCoins vd va t' = Inr l' \<and>
    (\<forall>d. camt w' d \<le> camt w d \<and> camt l' d \<le> camt l d) \<and>
    (EndTime (va_base va) \<le> t' \<longrightarrow> (\<nexists>bva. va = PermanentLockedAccount bva) \<longrightarrow> w' = [] \<and> l' = [])"
proof -
  have ok: "va_ok vd va" using valid by (simp add: va_ok_def)
  obtain v w l where v: "GetVestedCoins vd va t = Inr v" "GetVestingCoins vd va t = Inr w" "va_LockedCoins vd va t = Inr l"
    "\<forall>d. camt v d + camt w d = camt (OriginalVesting (va_base va)) d \<and> 0 \<le> camt v d \<and>
         camt l d = max 0 (camt w d - camt (DelegatedVesting (va_base va)) d)"
    using va_coins [OF ok] by blast
  obtain v' w' l' where v': "GetVestedCoins vd va t' = Inr v'" "GetVestingCoins vd va t' = Inr w'" "va_LockedCoins vd va t' = Inr l'"
    "coins_ok vd w'" "coins_ok vd l'"
    "\<forall>d. camt v' d + camt w' d = camt (OriginalVesting (va_base va)) d \<and> 0 \<le> camt v' d \<and>
         camt l' d = max 0 (camt w' d - camt (DelegatedVesting (va_base va)) d)"
    using va_coins [OF ok] by blast
  have le: "camt v d \<le> camt v' d" for d by (rule va_vested_mono [OF ok assms(4) v(1) v'(1)])
  have "camt w' d \<le> camt w d \<and> camt l' d \<le> camt l d" for d
    using v(4) [rule_format, of d] v'(6) [rule_format, of d] le [of d] by (auto simp: max_def)
  moreover have "w' = [] \<and> l' = []" if "EndTime (va_base va) \<le> t'" "\<nexists>bva. va = PermanentLockedAccount bva"
  proof -
    have "v' = OriginalVesting (va_base va)"
      using that v'(1) ok
      by (cases va) (auto simp: va_ok_def cva_GetVestedCoins_def pva_GetVestedCoins_def dva_GetVestedCoins_def
          cva_Validate_def pva_Validate_def split: if_splits)
    then have zero: "camt w' d = 0" "camt l' d = 0" for d
      using v'(6) [rule_format, of d] coins_ok_nonneg [OF bva_okD(3) [OF va_ok_base [OF ok]], of d] by simp_all
    have nil: "coins_ok vd []" by (simp add: coins_ok_iff)
    show ?thesis
      using coins_ok_ext [OF v'(4) nil] coins_ok_ext [OF v'(5) nil] zero by simp
  qed
  ultimately show ?thesis using v(2,3) v'(2,3) by blast
qed

theorem vesting_decreases_to_zero_witness:
  "GetVestingCoins (\<lambda>_. True) example_cva 200 = Inr []"
  using vesting_decreases_to_zero [of "\<lambda>_. True" example_cva 150 200] example_cva_ok by (auto simp: va_ok_def) (auto simp: example_cva_def)

text \<open>
  C25: Delegating from a valid vesting account splits the amount exactly as specified, taking
  \<open>min(max(V - DV, 0), D)\<close> of each denomination from the coins that are still vesting and the rest from
  the free ones; undelegating releases free coins first; both keep the account valid.
\<close>

theorem vesting_delegation_tracking:
  assumes "va_ok vd va" "coins_ok vd balance" "coins_ok vd amount" "\<forall>d. camt amount d \<le> camt balance d"
    and "\<forall>d. int256 (camt (DelegatedFree (va_base va)) d + camt amount d)"
    and "GetVestingCoins vd va t = Inr vesting"
  shows "(\<exists>va'. va_TrackDelegation vd va t balance amount = Inr va' \<and> va_ok vd va' \<and>
      (\<forall>d. camt (DelegatedVesting (va_base va')) d = camt (DelegatedVesting (va_base va)) d +
             min (max (camt vesting d - camt (DelegatedVesting (va_base va)) d) 0) (camt amount d) \<and>
           camt (DelegatedFree (va_base va')) d + camt (DelegatedVesting (va_base va')) d =
             camt (DelegatedFree (va_base va)) d + camt (DelegatedVesting (va_base va)) d + camt amount d)) \<and>
    (\<exists>va'. va_TrackUndelegation vd va amount = Inr va' \<and> va_ok vd va' \<and>
      (\<forall>d. camt (DelegatedFree (va_base va')) d = max 0 (camt (DelegatedFree (va_base va)) d - camt amount d) \<and>
           camt (DelegatedFree (va_base va')) d + camt (DelegatedVesting (va_base va')) d =
             max 0 (camt (DelegatedFree (va_base va)) d + camt (DelegatedVesting (va_base va)) d - camt amount d)))"
    (is "?del \<and> ?undel")
proof -
  note base = va_ok_base [OF assms(1)]
  have am: "\<forall>c \<in> set amount. vd (Denom c) \<and> 0 < Amount c \<and> int256 (Amount c)" "distinct (map Denom amount)"
    using assms(3) coins_ok_denom_sorted [OF assms(3)] by (auto simp: coins_ok_iff denom_sorted_def strict_sorted_iff)
  have bal: "\<forall>c \<in> set amount. Amount c \<le> camt balance (Denom c) \<and> vd (Denom c) \<and> 0 < Amount c"
    using am(1) assms(4) coins_ok_amt [OF assms(3)] by metis
  have ves: "coins_ok vd vesting" "\<And>d. camt vesting d \<le> camt (OriginalVesting (va_base va)) d"
  proof -
    obtain v w where "coins_ok vd w" "vesting = w"
      "\<And>d. camt v d + camt w d = camt (OriginalVesting (va_base va)) d \<and> 0 \<le> camt v d"
      using va_coins [OF assms(1), of t] assms(6) by auto
    then show "coins_ok vd vesting" "\<And>d. camt vesting d \<le> camt (OriginalVesting (va_base va)) d"
      by (simp, metis le_add_same_cancel2)
  qed
  have with_base: "va_base (va_with_base va b) = b" for b by (cases va) auto
  have tv: "(case va of PermanentLockedAccount bva \<Rightarrow> Inr (OriginalVesting bva) | _ \<Rightarrow> GetVestingCoins vd va t) = Inr vesting"
    using assms(6) by (cases va) (simp_all add: GetVestingCoins_def)
  obtain b where b: "bva_TrackDelegation vd (va_base va) balance vesting amount = Inr b" "bva_ok vd b"
    "OriginalVesting b = OriginalVesting (va_base va)" "EndTime b = EndTime (va_base va)"
    "\<And>d. camt (DelegatedVesting b) d = camt (DelegatedVesting (va_base va)) d +
        from_vesting (camt vesting d) (camt (DelegatedVesting (va_base va)) d) (camt amount d)"
    "\<And>d. camt (DelegatedFree b) d = camt (DelegatedFree (va_base va)) d + (camt amount d -
        from_vesting (camt vesting d) (camt (DelegatedVesting (va_base va)) d) (camt amount d))"
    using track_delegation_ok [OF base ves assms(2) bal am(2)] assms(5) unfolding Let_def by blast
  obtain u where u: "bva_TrackUndelegation vd (va_base va) amount = Inr u" "bva_ok vd u"
    "OriginalVesting u = OriginalVesting (va_base va)" "EndTime u = EndTime (va_base va)"
    and ud: "\<And>d. let x = min (camt (DelegatedFree (va_base va)) d) (camt amount d);
             y = min (camt (DelegatedVesting (va_base va)) d) (camt amount d - x) in
         camt (DelegatedFree u) d = camt (DelegatedFree (va_base va)) d - x \<and>
         camt (DelegatedVesting u) d = camt (DelegatedVesting (va_base va)) d - y"
    using track_undelegation_ok [OF base am] by blast
  have nn: "0 \<le> camt (DelegatedVesting (va_base va)) d" "0 \<le> camt (DelegatedFree (va_base va)) d" for d
    using bva_okD [OF base] coins_ok_nonneg by blast+
  have split: "camt (DelegatedFree u) d = max 0 (camt (DelegatedFree (va_base va)) d - camt amount d)"
      "max 0 (camt (DelegatedFree (va_base va)) d - camt amount d) + camt (DelegatedVesting u) d =
        max 0 (camt (DelegatedFree (va_base va)) d + camt (DelegatedVesting (va_base va)) d - camt amount d)" for d
    using ud [of d] nn [of d] coins_ok_nonneg [OF assms(3), of d] by (auto simp: Let_def min_def max_def split: if_splits)
  have un: "va_TrackUndelegation vd va amount = Inr (va_with_base va u)" using u(1) by (simp add: va_TrackUndelegation_def)
  have ?undel
    using split un va_with_base_ok [OF assms(1) u(2-4)]
    by (intro exI [of _ "va_with_base va u"]) (simp add: with_base)
  moreover have "va_TrackDelegation vd va t balance amount = Inr (va_with_base va b)"
    using b(1) by (simp add: va_TrackDelegation_def tv)
  then have ?del
    using va_with_base_ok [OF assms(1) b(2-4)] b(5,6)
    by (intro exI [of _ "va_with_base va b"]) (simp add: with_base from_vesting_def)
  ultimately show ?thesis by blast
qed

theorem vesting_delegation_tracking_witness:
  "\<exists>va'. va_TrackDelegation (\<lambda>_. True) example_cva 0 [\<lparr> Denom = ''stake'', Amount = 10 \<rparr>] [\<lparr> Denom = ''stake'', Amount = 4 \<rparr>] = Inr va' \<and>
     camt (DelegatedVesting (va_base va')) ''stake'' = 4"
proof -
  let ?b = "[\<lparr> Denom = ''stake'', Amount = 10 \<rparr>]" and ?a = "[\<lparr> Denom = ''stake'', Amount = 4 \<rparr>]"
  obtain w where w: "GetVestingCoins (\<lambda>_. True) example_cva 0 = Inr w" "camt w ''stake'' = 10"
    using va_coins [OF example_cva_ok, of 0] by (auto simp: example_cva_def cva_GetVestedCoins_def)
  have "coins_ok (\<lambda>_. True) ?b" "coins_ok (\<lambda>_. True) ?a" "\<forall>d. camt ?a d \<le> camt ?b d"
    "\<forall>d. int256 (camt (DelegatedFree (va_base example_cva)) d + camt ?a d)"
    by (simp_all add: coins_ok_iff int256_def example_cva_def)
  from vesting_delegation_tracking [OF example_cva_ok this w(1)]
  obtain va' where "va_TrackDelegation (\<lambda>_. True) example_cva 0 ?b ?a = Inr va'"
    "camt (DelegatedVesting (va_base va')) ''stake'' = camt (DelegatedVesting (va_base example_cva)) ''stake'' +
       min (max (camt w ''stake'' - camt (DelegatedVesting (va_base example_cva)) ''stake'') 0) (camt ?a ''stake'')"
    by blast
  then show ?thesis using w(2) by (auto simp: example_cva_def)
qed

section \<open>Schedules that overflow\<close>

text \<open>
  Accounts that validate although their schedule leaves the range of \<open>int64\<close>: the length of the first wraps around to a
  negative number, so that the vested amount is negative and \<open>GetVestedCoins\<close> panics; the second vests 4 coins at time 0 and
  takes them back later, when the time since its start wraps around.
\<close>

definition overflowing_cva :: VestingAccount where
  "overflowing_cva = ContinuousVestingAccount \<lparr> OriginalVesting = [\<lparr> Denom = ''stake'', Amount = 10 \<rparr>],
     DelegatedFree = [], DelegatedVesting = [], EndTime = 2 ^ 63 - 1 \<rparr> (- 1)"

definition overflowing_pva :: VestingAccount where
  "overflowing_pva = PeriodicVestingAccount \<lparr> OriginalVesting = [\<lparr> Denom = ''stake'', Amount = 10 \<rparr>],
     DelegatedFree = [], DelegatedVesting = [], EndTime = 2 ^ 63 - 6 \<rparr> (- 10)
     [\<lparr> Length = 5, PAmount = [\<lparr> Denom = ''stake'', Amount = 4 \<rparr>] \<rparr>, \<lparr> Length = 2 ^ 63 - 1, PAmount = [\<lparr> Denom = ''stake'', Amount = 6 \<rparr>] \<rparr>]"

lemma overflowing_cva_panics:
  "va_Validate (\<lambda>_. True) (Inr ()) overflowing_cva = Inr ()" "va_typed (\<lambda>_. True) overflowing_cva"
  "case GetVestedCoins (\<lambda>_. True) overflowing_cva (2 ^ 62) of Inl (Panic _) \<Rightarrow> True | _ \<Rightarrow> False"
  by code_simp+

lemma overflowing_pva_increases:
  "va_Validate (\<lambda>_. True) (Inr ()) overflowing_pva = Inr ()" "va_typed (\<lambda>_. True) overflowing_pva"
  "GetVestingCoins (\<lambda>_. True) overflowing_pva 0 = Inr [\<lparr> Denom = ''stake'', Amount = 6 \<rparr>]"
  "GetVestingCoins (\<lambda>_. True) overflowing_pva (2 ^ 63 - 9) = Inr [\<lparr> Denom = ''stake'', Amount = 10 \<rparr>]"
  by code_simp+

end
