(* ===== verification/Accounts.thy ===== *)
theory Accounts
  imports OrderedMap Vesting
begin

text \<open>
  The account store of \<open>x/auth\<close> (\<open>src/x/auth/keeper/account.go\<close>, \<open>keeper.go\<close>, \<open>types/account.go\<close>,
  \<open>types/permissions.go\<close>): accounts by address with a unique index on their account number, and
  module accounts, which are created on first use.

  An account keeps its decoded address (the code keeps the bech32 text and decodes it in
  \<open>GetAddress\<close>); public keys are left out.  \<open>auth_env\<close> holds what the application wires in: the
  permissions of each module name, the derivation of module addresses (a hash) and the predicate by
  which \<open>x/accounts\<close> recognises its smart accounts.  The account number sequence of \<open>x/accounts\<close>
  is part of the state.
\<close>

section \<open>Accounts\<close>

record base_account =
  Address :: string
  AccountNumber :: nat
  Sequence :: nat

datatype account =
    BaseAccount (acc_base: base_account)
  | ModuleAccount (acc_base: base_account) (GetName: string) (GetPermissions: "string list")
  | VestingAcc (acc_base: base_account) (acc_vesting: VestingAccount)

definition GetAddress :: "account \<Rightarrow> string" where
  "GetAddress acc = Address (acc_base acc)"

definition GetAccountNumber :: "account \<Rightarrow> nat" where
  "GetAccountNumber acc = AccountNumber (acc_base acc)"

fun set_acc_base :: "account \<Rightarrow> base_account \<Rightarrow> account" where
  "set_acc_base (BaseAccount _) b = BaseAccount b"
| "set_acc_base (ModuleAccount _ n p) b = ModuleAccount b n p"
| "set_acc_base (VestingAcc _ va) b = VestingAcc b va"

definition SetAccountNumber :: "account \<Rightarrow> nat \<Rightarrow> account" where
  "SetAccountNumber acc accNumber = set_acc_base acc ((acc_base acc)\<lparr>AccountNumber := accNumber\<rparr>)"

definition HasPermission :: "string list \<Rightarrow> string \<Rightarrow> bool" where
  "HasPermission permissions permission = list_ex (\<lambda>perm. perm = permission) permissions"

text \<open>\<open>strings.TrimSpace(s) == ""\<close>, on the bytes of \<open>s\<close>: every character is white space, in UTF-8.\<close>

fun blank_bytes :: "nat list \<Rightarrow> bool" where
  "blank_bytes [] = True"
| "blank_bytes (b # bs) =
     (if b \<in> {9, 10, 11, 12, 13, 32} then blank_bytes bs
      else case bs of
        c # bs' \<Rightarrow>
          if b = 0xC2 \<and> c \<in> {0x85, 0xA0} then blank_bytes bs'
          else (case bs' of
            d # bs'' \<Rightarrow>
              (b = 0xE1 \<and> c = 0x9A \<and> d = 0x80 \<or>
               b = 0xE2 \<and> c = 0x80 \<and> (0x80 \<le> d \<and> d \<le> 0x8A \<or> d \<in> {0xA8, 0xA9, 0xAF}) \<or>
               b = 0xE2 \<and> c = 0x81 \<and> d = 0x9F \<or>
               b = 0xE3 \<and> c = 0x80 \<and> d = 0x80) \<and> blank_bytes bs''
          | [] \<Rightarrow> False)
      | [] \<Rightarrow> False)"

definition validatePermissions :: "string list \<Rightarrow> unit res" where
  "validatePermissions permissions =
     (if list_ex (\<lambda>perm. blank_bytes (map of_char perm)) permissions
      then Inl (Err ''module permission is empty'') else Inr ())"

section \<open>The account keeper\<close>

record auth_env =
  maccPerms :: "string \<Rightarrow> string list option"
  NewModuleAddress :: "string \<Rightarrow> string"
  IsAccountsModuleAccount :: "string \<Rightarrow> bool"

record auth_state =
  Accounts :: "(string \<times> account) list"
  AccountNumberSeq :: nat

definition GetAccount :: "string \<Rightarrow> ('z auth_state_scheme, account option) sm" where
  "GetAccount addr = sgets (\<lambda>s. map_of (Accounts s) addr)"

definition HasAccount :: "('e auth_env_scheme) \<Rightarrow> string \<Rightarrow> ('z auth_state_scheme, bool) sm" where
  "HasAccount e addr = sgets (\<lambda>s. map_of (Accounts s) addr \<noteq> None \<or> IsAccountsModuleAccount e addr)"

text \<open>\<open>Accounts.Set\<close> rejects an account number that another address holds (unique index).\<close>

definition SetAccount :: "account \<Rightarrow> ('z auth_state_scheme, unit) sm" where
  "SetAccount acc = sbind (sgets Accounts) (\<lambda>accs.
     if list_ex (\<lambda>(k, a). k \<noteq> GetAddress acc \<and> GetAccountNumber a = GetAccountNumber acc) accs
     then sfail (Panic ''index uniqueness constrain violation'')
     else smodify (\<lambda>s. s\<lparr>Accounts := om_set (GetAddress acc) acc accs\<rparr>))"

definition RemoveAccount :: "account \<Rightarrow> ('z auth_state_scheme, unit) sm" where
  "RemoveAccount acc = sbind (sgets Accounts) (\<lambda>accs.
     if map_of accs (GetAddress acc) = None then sfail (Panic ''not found'')
     else smodify (\<lambda>s. s\<lparr>Accounts := om_del (GetAddress acc) accs\<rparr>))"

definition NextAccountNumber :: "('z auth_state_scheme, nat) sm" where
  "NextAccountNumber = sbind (sgets AccountNumberSeq) (\<lambda>accNum.
     sbind (smodify (\<lambda>s. s\<lparr>AccountNumberSeq := (accNum + 1) mod 2 ^ 64\<rparr>)) (\<lambda>_. sret accNum))"

definition NewAccount :: "account \<Rightarrow> ('z auth_state_scheme, account) sm" where
  "NewAccount acc = sbind NextAccountNumber (\<lambda>accNum. sret (SetAccountNumber acc accNum))"

definition NewAccountWithAddress :: "string \<Rightarrow> ('z auth_state_scheme, account) sm" where
  "NewAccountWithAddress addr =
     NewAccount (BaseAccount \<lparr> Address = addr, AccountNumber = 0, Sequence = 0 \<rparr>)"

definition NewEmptyModuleAccount :: "('e auth_env_scheme) \<Rightarrow> string \<Rightarrow> string list \<Rightarrow> account res" where
  "NewEmptyModuleAccount e name permissions =
     rbind (must (validatePermissions permissions)) (\<lambda>_.
       Inr (ModuleAccount \<lparr> Address = NewModuleAddress e name, AccountNumber = 0, Sequence = 0 \<rparr> name permissions))"

text \<open>The nil address of an unregistered module is \<open>None\<close>.\<close>

definition GetModuleAddress :: "('e auth_env_scheme) \<Rightarrow> string \<Rightarrow> string option" where
  "GetModuleAddress e moduleName =
     (case maccPerms e moduleName of None \<Rightarrow> None | Some _ \<Rightarrow> Some (NewModuleAddress e moduleName))"

definition GetModuleAddressAndPermissions :: "('e auth_env_scheme) \<Rightarrow> string \<Rightarrow> (string \<times> string list) option" where
  "GetModuleAddressAndPermissions e moduleName =
     map_option (\<lambda>perms. (NewModuleAddress e moduleName, perms)) (maccPerms e moduleName)"

definition GetModuleAccountAndPermissions ::
  "('e auth_env_scheme) \<Rightarrow> string \<Rightarrow> ('z auth_state_scheme, (account option \<times> string list)) sm" where
  "GetModuleAccountAndPermissions e moduleName =
     (case GetModuleAddressAndPermissions e moduleName of
        None \<Rightarrow> sret (None, [])
      | Some (addr, perms) \<Rightarrow>
          sbind (GetAccount addr) (\<lambda>acc. case acc of
            Some (ModuleAccount b n p) \<Rightarrow> sret (Some (ModuleAccount b n p), perms)
          | Some _ \<Rightarrow> sfail (Panic ''account is not a module account'')
          | None \<Rightarrow>
              sbind (slift (NewEmptyModuleAccount e moduleName perms)) (\<lambda>macc.
              sbind (NewAccount macc) (\<lambda>maccI.
              sbind (SetAccount maccI) (\<lambda>_. sret (Some maccI, perms))))))"

definition GetModuleAccount :: "('e auth_env_scheme) \<Rightarrow> string \<Rightarrow> ('z auth_state_scheme, account option) sm" where
  "GetModuleAccount e moduleName =
     sbind (GetModuleAccountAndPermissions e moduleName) (\<lambda>(acc, _). sret acc)"

definition ValidatePermissions :: "('e auth_env_scheme) \<Rightarrow> account \<Rightarrow> unit res" where
  "ValidatePermissions e macc =
     (let permAddr = (case maccPerms e (GetName macc) of None \<Rightarrow> [] | Some ps \<Rightarrow> ps) in
      if list_all (HasPermission permAddr) (GetPermissions macc) then Inr ()
      else Inl (Err ''invalid module permission''))"

section \<open>The account store invariant\<close>

lemma NextAccountNumber_code [code]: "NextAccountNumber = sbind (sgets AccountNumberSeq) (\<lambda>accNum.
     sbind (smodify (\<lambda>s. s\<lparr>AccountNumberSeq := nat ((int accNum + 1) mod 2 ^ 64)\<rparr>)) (\<lambda>_. sret accNum))"
proof -
  have "nat ((int n + 1) mod 2 ^ 64) = (n + 1) mod 2 ^ 64" for n
  proof -
    have "(int n + 1) mod 2 ^ 64 = int ((n + 1) mod 2 ^ 64)" by (simp add: zmod_int add.commute)
    then show ?thesis by (simp only: nat_int)
  qed
  then show ?thesis by (simp add: NextAccountNumber_def)
qed

text \<open>Accounts are stored under their own address, and no two share an account number.\<close>

definition accounts_ok :: "(string \<times> account) list \<Rightarrow> bool" where
  "accounts_ok accs \<longleftrightarrow> om_ok accs \<and>
     (\<forall>(k, a) \<in> set accs. GetAddress a = k \<and>
       (\<forall>(k', a') \<in> set accs. GetAccountNumber a = GetAccountNumber a' \<longrightarrow> k = k'))"

lemma accounts_ok_om [simp]: "accounts_ok accs \<Longrightarrow> om_ok accs"
  by (simp add: accounts_ok_def)

lemma accounts_ok_addr: "accounts_ok accs \<Longrightarrow> map_of accs k = Some a \<Longrightarrow> GetAddress a = k"
  by (auto simp: accounts_ok_def dest: map_of_SomeD)

lemma acc_updates [simp]:
  "acc_base (set_acc_base a b) = b" "GetAddress (SetAccountNumber a n) = GetAddress a"
  "GetAccountNumber (SetAccountNumber a n) = n" "is_ModuleAccount (SetAccountNumber a n) = is_ModuleAccount a"
  by (cases a; simp add: SetAccountNumber_def GetAddress_def GetAccountNumber_def)+

lemma om_set_entries: "om_ok xs \<Longrightarrow> set (om_set k v xs) = insert (k, v) {x \<in> set xs. fst x \<noteq> k}"
  by (induction k v xs rule: om_set.induct) auto

lemma SetAccount_ok:
  assumes "accounts_ok (Accounts s)" "SetAccount acc s = (Inr u, s')"
  shows "accounts_ok (Accounts s') \<and> s' = s\<lparr>Accounts := om_set (GetAddress acc) acc (Accounts s)\<rparr>"
proof -
  from assms(2) have s': "s' = s\<lparr>Accounts := om_set (GetAddress acc) acc (Accounts s)\<rparr>"
    and new: "\<forall>(k, a) \<in> set (Accounts s). k \<noteq> GetAddress acc \<longrightarrow> GetAccountNumber a \<noteq> GetAccountNumber acc"
    by (auto simp: SetAccount_def sm_simps list_ex_iff split: if_splits)
  have "accounts_ok (om_set (GetAddress acc) acc (Accounts s))"
    using assms(1) new unfolding accounts_ok_def
    by (auto simp: om_set_entries)
  with s' show ?thesis by simp
qed

text \<open>What the clients of \<open>GetModuleAccount\<close> rely on: an existing account is returned unchanged, and
  the only account it may add is a module account under the module's address.\<close>

definition module_account_added :: "string \<Rightarrow> (string \<times> account) list \<Rightarrow> (string \<times> account) list \<Rightarrow> bool" where
  "module_account_added addr accs accs' \<longleftrightarrow> accs' = accs \<or>
     map_of accs addr = None \<and> (\<exists>b n p. accs' = om_set addr (ModuleAccount b n p) accs)"

lemma GetModuleAccount_ok:
  assumes "accounts_ok (Accounts s)" "GetModuleAccount e m s = (Inr (Some acc), s')"
  shows "accounts_ok (Accounts s') \<and> auth_state.more s' = auth_state.more s \<and>
    module_account_added (GetAddress acc) (Accounts s) (Accounts s') \<and>
    is_ModuleAccount acc \<and> GetModuleAddress e m = Some (GetAddress acc) \<and>
    map_of (Accounts s') (GetAddress acc) = Some acc"
proof -
  define addr where "addr = NewModuleAddress e m"
  from assms(2) obtain perms where perms: "maccPerms e m = Some perms"
    by (cases "maccPerms e m")
      (auto simp: GetModuleAccount_def GetModuleAccountAndPermissions_def GetModuleAddressAndPermissions_def sm_simps)
  then have addr: "GetModuleAddress e m = Some addr" by (simp add: GetModuleAddress_def addr_def)
  show ?thesis
  proof (cases "map_of (Accounts s) addr")
    case None
    define macc where "macc = SetAccountNumber
      (ModuleAccount \<lparr> Address = addr, AccountNumber = 0, Sequence = 0 \<rparr> m perms) (AccountNumberSeq s)"
    define t where "t = s\<lparr>AccountNumberSeq := (AccountNumberSeq s + 1) mod 2 ^ 64\<rparr>"
    have set: "SetAccount macc t = (Inr (), s')" and acc: "acc = macc"
      using assms(2) None perms
      by (auto simp: GetModuleAccount_def GetModuleAccountAndPermissions_def GetModuleAddressAndPermissions_def
          GetAccount_def NewEmptyModuleAccount_def NewAccount_def NextAccountNumber_def sm_simps res_simps
          addr_def macc_def t_def)
    have m: "GetAddress macc = addr" by (simp add: macc_def GetAddress_def SetAccountNumber_def)
    have "accounts_ok (Accounts t)" using assms(1) by (simp add: t_def)
    then have "accounts_ok (Accounts s') \<and> s' = t\<lparr>Accounts := om_set addr macc (Accounts t)\<rparr>"
      using SetAccount_ok [OF _ set] unfolding m by blast
    moreover have "\<exists>b n p. macc = ModuleAccount b n p" by (simp add: macc_def SetAccountNumber_def)
    ultimately show ?thesis
      using None addr acc m by (auto simp: module_account_added_def t_def om_simps)
  next
    case (Some a)
    with assms(2) perms have "s' = s" "acc = a" "is_ModuleAccount a"
      by (auto simp: GetModuleAccount_def GetModuleAccountAndPermissions_def GetModuleAddressAndPermissions_def
          GetAccount_def sm_simps addr_def split: account.splits)
    with assms(1) Some addr accounts_ok_addr [OF assms(1) Some] show ?thesis
      by (auto simp: module_account_added_def)
  qed
qed

lemma GetModuleAccount_none:
  "GetModuleAccount e m s = (Inr None, s') \<Longrightarrow> s' = s \<and> GetModuleAddress e m = None"
  by (cases "maccPerms e m")
    (auto simp: GetModuleAccount_def GetModuleAccountAndPermissions_def GetModuleAddressAndPermissions_def
      GetModuleAddress_def GetAccount_def sm_simps split: option.splits account.splits)

lemma module_account_added_vesting:
  assumes "module_account_added addr accs accs'" "map_of accs' k = Some (VestingAcc b va)"
  shows "map_of accs k = Some (VestingAcc b va)"
  using assms by (auto simp: module_account_added_def om_simps split: if_splits)

end
