(* ===== verification/Bank.thy ===== *)
theory Bank
  imports Accounts "HOL-Library.Product_Lexorder"
begin

text \<open>
  The keeper of \<open>x/bank\<close> (\<open>src/x/bank/keeper/view.go\<close>, \<open>send.go\<close>, \<open>keeper.go\<close>): balances by account
  and denomination, the supply of each denomination, transfers, delegation, minting and burning.

  The state extends the account store with the collections of the bank; collections are ordered
  association lists.  The balances are ordered by address and denomination as byte strings; the store prefixes an
  address with its length, so that listings agree with it where all addresses have one length.  \<open>bank_env\<close> holds what the application wires in: denomination validation, the
  address codec, the blocked addresses, the authority and the restriction functions on sends and
  mints, which decide from their arguments.  The denomination index of the balances is left out: it
  is only read by queries.  Events are collected in order with the coins as values instead of text;
  the event manager does not fail.
  What the routines do to the ledger is proved in \<open>BankLedger\<close>.
\<close>

section \<open>State and environment\<close>

datatype event =
    EventCoinSpent string "Coin list"
  | EventCoinReceived string "Coin list"
  | EventTransfer string string "Coin list"
  | EventCoinMint string "Coin list"
  | EventCoinBurn string "Coin list"
  | EventMint int int int int

record DenomUnit =
  UDenom :: string
  Exponent :: nat
  Aliases :: "string list"

record Metadata =
  Description :: string
  DenomUnits :: "DenomUnit list"
  Base :: string
  Display :: string
  Name :: string
  Symbol :: string
  URI :: string
  URIHash :: string

record SendEnabled =
  SEDenom :: string
  Enabled :: bool

record Params =
  PSendEnabled :: "SendEnabled list"
  DefaultSendEnabled :: bool

record bank_state = auth_state +
  Balances :: "((string \<times> string) \<times> int) list"
  Supply :: "(string \<times> int) list"
  SendEnabledMap :: "(string \<times> bool) list"
  DenomMetadata :: "(string \<times> Metadata) list"
  ParamsItem :: "Params option"
  Events :: "event list"
  BlockTime :: int

type_synonym send_restriction = "string \<Rightarrow> string \<Rightarrow> Coin list \<Rightarrow> string res"
type_synonym mint_restriction = "Coin list \<Rightarrow> unit res"

record bank_env = auth_env +
  validDenom :: "string \<Rightarrow> bool"
  StringToBytes :: "string \<Rightarrow> string res"
  BytesToString :: "string \<Rightarrow> string res"
  AccAddressFromBech32 :: "string \<Rightarrow> string res"
  blockedAddrs :: "string \<Rightarrow> bool"
  authority :: string
  sendRestrictionFn :: "send_restriction option"
  mintCoinsRestrictionFn :: mint_restriction

type_synonym 'a bank = "(bank_state, 'a) sm"

definition ErrInsufficientFunds :: fault where "ErrInsufficientFunds = Err ''insufficient funds''"
definition ErrInvalidCoins :: fault where "ErrInvalidCoins = Err ''invalid coins''"
definition ErrUnknownAddress :: fault where "ErrUnknownAddress = Err ''unknown address''"
definition ErrUnauthorized :: fault where "ErrUnauthorized = Err ''unauthorized''"
definition ErrSendDisabled :: fault where "ErrSendDisabled = Err ''send transactions are disabled''"

definition EmitKV :: "event \<Rightarrow> unit bank" where
  "EmitKV ev = smodify (\<lambda>s. s\<lparr>Events := Events s @ [ev]\<rparr>)"

section \<open>Restrictions\<close>

text \<open>A nil restriction function is \<open>None\<close>.\<close>

definition ComposeMintingRestrictions :: "mint_restriction option list \<Rightarrow> mint_restriction option" where
  "ComposeMintingRestrictions restrictions =
     (let toRun = map the (filter (\<lambda>r. r \<noteq> None) restrictions) in
      case toRun of
        [] \<Rightarrow> None
      | [r] \<Rightarrow> Some r
      | _ \<Rightarrow> Some (\<lambda>coins. rfold (\<lambda>_ r. r coins) () toRun))"

definition ComposeSendRestrictions :: "send_restriction option list \<Rightarrow> send_restriction option" where
  "ComposeSendRestrictions restrictions =
     (let toRun = map the (filter (\<lambda>r. r \<noteq> None) restrictions) in
      case toRun of
        [] \<Rightarrow> None
      | [r] \<Rightarrow> Some r
      | _ \<Rightarrow> Some (\<lambda>fromAddr toAddr amount. rfold (\<lambda>to r. r fromAddr to amount) toAddr toRun))"

definition AppendSendRestriction :: "bank_env \<Rightarrow> send_restriction option \<Rightarrow> bank_env" where
  "AppendSendRestriction e r = e\<lparr>sendRestrictionFn := ComposeSendRestrictions [sendRestrictionFn e, r]\<rparr>"

definition PrependSendRestriction :: "bank_env \<Rightarrow> send_restriction option \<Rightarrow> bank_env" where
  "PrependSendRestriction e r = e\<lparr>sendRestrictionFn := ComposeSendRestrictions [r, sendRestrictionFn e]\<rparr>"

definition ClearSendRestriction :: "bank_env \<Rightarrow> bank_env" where
  "ClearSendRestriction e = e\<lparr>sendRestrictionFn := None\<rparr>"

definition sendRestriction_apply :: "bank_env \<Rightarrow> string \<Rightarrow> string \<Rightarrow> Coin list \<Rightarrow> string res" where
  "sendRestriction_apply e fromAddr toAddr amount =
     (case sendRestrictionFn e of None \<Rightarrow> Inr toAddr | Some f \<Rightarrow> f fromAddr toAddr amount)"

definition WithMintCoinsRestriction :: "bank_env \<Rightarrow> mint_restriction option \<Rightarrow> bank_env" where
  "WithMintCoinsRestriction e check =
     e\<lparr>mintCoinsRestrictionFn := the (ComposeMintingRestrictions [check, Some (mintCoinsRestrictionFn e)])\<rparr>"

section \<open>View keeper\<close>

definition GetBalance :: "bank_env \<Rightarrow> string \<Rightarrow> string \<Rightarrow> Coin bank" where
  "GetBalance e addr denom = sbind (sgets (\<lambda>s. map_of (Balances s) (addr, denom))) (\<lambda>r.
     slift (NewCoin (validDenom e) denom (case r of None \<Rightarrow> 0 | Some amount \<Rightarrow> amount)))"

definition HasBalance :: "bank_env \<Rightarrow> string \<Rightarrow> Coin \<Rightarrow> bool bank" where
  "HasBalance e addr amount = sbind (GetBalance e addr (Denom amount)) (\<lambda>b. slift (Coin_IsGTE b amount))"

text \<open>\<open>IterateAccountBalances\<close> with the callback of \<open>GetAllBalances\<close>, over the entries of one address.\<close>

definition GetAllBalances :: "bank_env \<Rightarrow> string \<Rightarrow> Coin list bank" where
  "GetAllBalances e addr =
     sbind (sgets (\<lambda>s. filter (\<lambda>((a, _), _). a = addr) (Balances s))) (\<lambda>entries.
     slift (rbind (rfold (\<lambda>balances ((_, denom), amount).
         rbind (NewCoin (validDenom e) denom amount) (\<lambda>balance. Coins_Add balances [balance])) [] entries)
       (\<lambda>balances. Inr (Coins_Sort balances))))"

definition LockedCoins :: "bank_env \<Rightarrow> string \<Rightarrow> Coin list bank" where
  "LockedCoins e addr = sbind (GetAccount addr) (\<lambda>acc. sbind (sgets BlockTime) (\<lambda>t.
     slift (case acc of
        Some (VestingAcc _ vacc) \<Rightarrow> va_LockedCoins (validDenom e) vacc t
      | _ \<Rightarrow> NewCoins (validDenom e) [])))"

definition SpendableCoins :: "bank_env \<Rightarrow> string \<Rightarrow> Coin list bank" where
  "SpendableCoins e addr =
     sbind (GetAllBalances e addr) (\<lambda>total.
     sbind (LockedCoins e addr) (\<lambda>allLocked.
       if Coins_IsZero allLocked then sret total
       else sbind (slift (Coins_SafeSub (validDenom e) total allLocked)) (\<lambda>(unlocked, hasNeg).
         if \<not> hasNeg then sret unlocked else sret (filter Coin_IsPositive unlocked))))"

definition SpendableCoin :: "bank_env \<Rightarrow> string \<Rightarrow> string \<Rightarrow> Coin bank" where
  "SpendableCoin e addr denom =
     sbind (GetBalance e addr denom) (\<lambda>balance.
     sbind (LockedCoins e addr) (\<lambda>locked.
     slift (rbind (Coins_AmountOf (validDenom e) locked denom) (\<lambda>lockedAmt.
       if \<not> 0 < lockedAmt then Inr balance
       else if lockedAmt < Amount balance then Coin_SubAmount balance lockedAmt
       else NewCoin (validDenom e) denom 0))))"

definition ValidateBalance :: "bank_env \<Rightarrow> string \<Rightarrow> unit bank" where
  "ValidateBalance e addr = sbind (GetAccount addr) (\<lambda>acc. case acc of
     None \<Rightarrow> sfail ErrUnknownAddress
   | Some a \<Rightarrow> sbind (GetAllBalances e addr) (\<lambda>balances.
       if \<not> Coins_IsValid (validDenom e) balances then sfail (Err ''account balance is invalid'')
       else (case a of
         VestingAcc _ vacc \<Rightarrow>
           sbind (slift (Coins_IsAnyGT (validDenom e) (OriginalVesting (va_base vacc)) balances)) (\<lambda>gt.
             if gt then sfail (Err ''vesting amount cannot be greater than total amount'') else sret ())
       | _ \<Rightarrow> sret ())))"

section \<open>Send keeper\<close>

definition setBalance :: "bank_env \<Rightarrow> string \<Rightarrow> Coin \<Rightarrow> unit bank" where
  "setBalance e addr balance =
     (if \<not> Coin_IsValid (validDenom e) balance then sfail ErrInvalidCoins
      else if Coin_IsZero balance
        then smodify (\<lambda>s. s\<lparr>Balances := om_del (addr, Denom balance) (Balances s)\<rparr>)
      else smodify (\<lambda>s. s\<lparr>Balances := om_set (addr, Denom balance) (Amount balance) (Balances s)\<rparr>))"

definition sub_unlocked_coin :: "bank_env \<Rightarrow> string \<Rightarrow> Coin list \<Rightarrow> Coin \<Rightarrow> unit bank" where
  "sub_unlocked_coin e addr lockedCoins coin =
     sbind (GetBalance e addr (Denom coin)) (\<lambda>balance.
     let locked = (case Coins_Find lockedCoins (Denom coin) of
           Some c \<Rightarrow> c | None \<Rightarrow> \<lparr> Denom = Denom coin, Amount = 0 \<rparr>) in
     sbind (slift (Coins_SafeSub (validDenom e) [balance] [locked])) (\<lambda>(spendable, hasNeg).
       if hasNeg then sfail ErrInsufficientFunds
       else sbind (slift (Coins_SafeSub (validDenom e) spendable [coin])) (\<lambda>(_, hasNeg).
         if hasNeg then sfail ErrInsufficientFunds
         else sbind (slift (Coin_Sub balance coin)) (\<lambda>newBalance. setBalance e addr newBalance))))"

definition subUnlockedCoins :: "bank_env \<Rightarrow> string \<Rightarrow> Coin list \<Rightarrow> unit bank" where
  "subUnlockedCoins e addr amount =
     sbind (LockedCoins e addr) (\<lambda>lockedCoins.
     sbind (sforeach (sub_unlocked_coin e addr lockedCoins) amount) (\<lambda>_.
     sbind (slift (BytesToString e addr)) (\<lambda>addrStr. EmitKV (EventCoinSpent addrStr amount))))"

definition add_coin :: "bank_env \<Rightarrow> string \<Rightarrow> Coin \<Rightarrow> unit bank" where
  "add_coin e addr coin =
     sbind (GetBalance e addr (Denom coin)) (\<lambda>balance.
     sbind (slift (Coin_Add balance coin)) (\<lambda>newBalance. setBalance e addr newBalance))"

definition addCoins :: "bank_env \<Rightarrow> string \<Rightarrow> Coin list \<Rightarrow> unit bank" where
  "addCoins e addr amount =
     sbind (sforeach (add_coin e addr) amount) (\<lambda>_.
     sbind (slift (BytesToString e addr)) (\<lambda>addrStr. EmitKV (EventCoinReceived addrStr amount)))"

definition SendCoins :: "bank_env \<Rightarrow> string \<Rightarrow> string \<Rightarrow> Coin list \<Rightarrow> unit bank" where
  "SendCoins e fromAddr toAddr amount =
     (if \<not> Coins_IsValid (validDenom e) amount then sfail ErrInvalidCoins
      else sbind (slift (sendRestriction_apply e fromAddr toAddr amount)) (\<lambda>toAddr.
        sbind (subUnlockedCoins e fromAddr amount) (\<lambda>_.
        sbind (addCoins e toAddr amount) (\<lambda>_.
        sbind (slift (BytesToString e fromAddr)) (\<lambda>fromAddrString.
        sbind (slift (BytesToString e toAddr)) (\<lambda>toAddrString.
          EmitKV (EventTransfer toAddrString fromAddrString amount)))))))"

record Input =
  IAddress :: string
  ICoins :: "Coin list"

record Output =
  OAddress :: string
  OCoins :: "Coin list"

definition Input_ValidateBasic :: "bank_env \<Rightarrow> Input \<Rightarrow> unit res" where
  "Input_ValidateBasic e i =
     rbind (AccAddressFromBech32 e (IAddress i)) (\<lambda>_.
       if \<not> Coins_IsValid (validDenom e) (ICoins i) then Inl ErrInvalidCoins
       else if \<not> Coins_IsAllPositive (ICoins i) then Inl ErrInvalidCoins else Inr ())"

definition Output_ValidateBasic :: "bank_env \<Rightarrow> Output \<Rightarrow> unit res" where
  "Output_ValidateBasic e out =
     rbind (AccAddressFromBech32 e (OAddress out)) (\<lambda>_.
       if \<not> Coins_IsValid (validDenom e) (OCoins out) then Inl ErrInvalidCoins
       else if \<not> Coins_IsAllPositive (OCoins out) then Inl ErrInvalidCoins else Inr ())"

definition ValidateInputOutputs :: "bank_env \<Rightarrow> Input \<Rightarrow> Output list \<Rightarrow> unit res" where
  "ValidateInputOutputs e i outputs =
     rbind (Input_ValidateBasic e i) (\<lambda>_.
     rbind (rfold (\<lambda>totalOut out. rbind (Output_ValidateBasic e out) (\<lambda>_. Coins_Add totalOut (OCoins out))) [] outputs)
       (\<lambda>totalOut. if \<not> Coins_Equal (ICoins i) totalOut then Inl (Err ''sum inputs != sum outputs'') else Inr ()))"

definition InputOutputCoins :: "bank_env \<Rightarrow> Input \<Rightarrow> Output list \<Rightarrow> unit bank" where
  "InputOutputCoins e i outputs =
     sbind (slift (ValidateInputOutputs e i outputs)) (\<lambda>_.
     sbind (slift (StringToBytes e (IAddress i))) (\<lambda>inAddress.
     sbind (slift (rmap (\<lambda>out.
         rbind (StringToBytes e (OAddress out)) (\<lambda>outAddress.
         rbind (sendRestriction_apply e inAddress outAddress (OCoins out)) (\<lambda>outAddress.
           Inr (outAddress, out)))) outputs)) (\<lambda>sending.
     sbind (subUnlockedCoins e inAddress (ICoins i)) (\<lambda>_.
       sforeach (\<lambda>(outAddress, out).
         sbind (addCoins e outAddress (OCoins out)) (\<lambda>_.
           EmitKV (EventTransfer (OAddress out) (IAddress i) (OCoins out)))) sending))))"

definition GetParams :: "Params bank" where
  "GetParams = sgets (\<lambda>s. case ParamsItem s of Some p \<Rightarrow> p | None \<Rightarrow> \<lparr> PSendEnabled = [], DefaultSendEnabled = False \<rparr>)"

definition SetSendEnabled :: "string \<Rightarrow> bool \<Rightarrow> unit bank" where
  "SetSendEnabled denom value = smodify (\<lambda>s. s\<lparr>SendEnabledMap := om_set denom value (SendEnabledMap s)\<rparr>)"

definition SetAllSendEnabled :: "SendEnabled list \<Rightarrow> unit bank" where
  "SetAllSendEnabled entries = sforeach (\<lambda>entry. SetSendEnabled (SEDenom entry) (Enabled entry)) entries"

definition DeleteSendEnabled :: "string list \<Rightarrow> unit bank" where
  "DeleteSendEnabled denoms =
     sforeach (\<lambda>denom. smodify (\<lambda>s. s\<lparr>SendEnabledMap := om_del denom (SendEnabledMap s)\<rparr>)) denoms"

definition SetParams :: "Params \<Rightarrow> unit bank" where
  "SetParams params =
     sbind (if PSendEnabled params \<noteq> [] then SetAllSendEnabled (PSendEnabled params) else sret ()) (\<lambda>_.
       let params = (if PSendEnabled params \<noteq> [] then \<lparr> PSendEnabled = [], DefaultSendEnabled = DefaultSendEnabled params \<rparr> else params)
       in smodify (\<lambda>s. s\<lparr>ParamsItem := Some params\<rparr>))"

definition getSendEnabledOrDefault :: "string \<Rightarrow> bool \<Rightarrow> bool bank" where
  "getSendEnabledOrDefault denom defaultVal =
     sgets (\<lambda>s. case map_of (SendEnabledMap s) denom of Some v \<Rightarrow> v | None \<Rightarrow> defaultVal)"

definition IsSendEnabledDenom :: "string \<Rightarrow> bool bank" where
  "IsSendEnabledDenom denom = sbind GetParams (\<lambda>p. getSendEnabledOrDefault denom (DefaultSendEnabled p))"

definition IsSendEnabledCoins :: "Coin list \<Rightarrow> unit bank" where
  "IsSendEnabledCoins coins =
     (if coins = [] then sret ()
      else sbind GetParams (\<lambda>p.
        sforeach (\<lambda>coin. sbind (getSendEnabledOrDefault (Denom coin) (DefaultSendEnabled p)) (\<lambda>b.
          if \<not> b then sfail ErrSendDisabled else sret ())) coins))"

definition BlockedAddr :: "bank_env \<Rightarrow> string \<Rightarrow> bool res" where
  "BlockedAddr e addr = rbind (must (BytesToString e addr)) (\<lambda>addrStr. Inr (blockedAddrs e addrStr))"

section \<open>Keeper\<close>

definition GetSupply :: "bank_env \<Rightarrow> string \<Rightarrow> Coin bank" where
  "GetSupply e denom = sbind (sgets (\<lambda>s. map_of (Supply s) denom)) (\<lambda>r.
     slift (NewCoin (validDenom e) denom (case r of None \<Rightarrow> 0 | Some amount \<Rightarrow> amount)))"

definition HasSupply :: "string \<Rightarrow> bool bank" where
  "HasSupply denom = sgets (\<lambda>s. map_of (Supply s) denom \<noteq> None)"

definition setSupply :: "Coin \<Rightarrow> unit bank" where
  "setSupply coin =
     (if Coin_IsZero coin then smodify (\<lambda>s. s\<lparr>Supply := om_del (Denom coin) (Supply s)\<rparr>)
      else smodify (\<lambda>s. s\<lparr>Supply := om_set (Denom coin) (Amount coin) (Supply s)\<rparr>))"

definition GetDenomMetaData :: "string \<Rightarrow> Metadata option bank" where
  "GetDenomMetaData denom = sgets (\<lambda>s. map_of (DenomMetadata s) denom)"

definition GetAllDenomMetaData :: "Metadata list bank" where
  "GetAllDenomMetaData = sgets (\<lambda>s. map snd (DenomMetadata s))"

definition SetDenomMetaData :: "Metadata \<Rightarrow> unit bank" where
  "SetDenomMetaData denomMetaData =
     smodify (\<lambda>s. s\<lparr>DenomMetadata := om_set (Base denomMetaData) denomMetaData (DenomMetadata s)\<rparr>)"

definition trackDelegation :: "bank_env \<Rightarrow> string \<Rightarrow> Coin list \<Rightarrow> Coin list \<Rightarrow> unit bank" where
  "trackDelegation e addr balance amount = sbind (GetAccount addr) (\<lambda>acc. case acc of
     None \<Rightarrow> sbind (HasAccount e addr) (\<lambda>b. if b then sret () else sfail ErrUnknownAddress)
   | Some (VestingAcc b vacc) \<Rightarrow> sbind (sgets BlockTime) (\<lambda>t.
       sbind (slift (va_TrackDelegation (validDenom e) vacc t balance amount)) (\<lambda>vacc'. SetAccount (VestingAcc b vacc')))
   | Some _ \<Rightarrow> sret ())"

definition trackUndelegation :: "bank_env \<Rightarrow> string \<Rightarrow> Coin list \<Rightarrow> unit bank" where
  "trackUndelegation e addr amount = sbind (GetAccount addr) (\<lambda>acc. case acc of
     None \<Rightarrow> sbind (HasAccount e addr) (\<lambda>b. if b then sret () else sfail ErrUnknownAddress)
   | Some (VestingAcc b vacc) \<Rightarrow>
       sbind (slift (va_TrackUndelegation (validDenom e) vacc amount)) (\<lambda>vacc'. SetAccount (VestingAcc b vacc'))
   | Some _ \<Rightarrow> sret ())"

definition delegate_coin :: "bank_env \<Rightarrow> string \<Rightarrow> Coin list \<Rightarrow> Coin \<Rightarrow> Coin list bank" where
  "delegate_coin e delegatorAddr balances coin =
     sbind (GetBalance e delegatorAddr (Denom coin)) (\<lambda>balance.
     sbind (slift (Coin_IsLT balance coin)) (\<lambda>lt.
       if lt then sfail ErrInsufficientFunds
       else sbind (slift (Coins_Add balances [balance])) (\<lambda>balances.
         sbind (slift (Coin_Sub balance coin)) (\<lambda>rest.
         sbind (setBalance e delegatorAddr rest) (\<lambda>_. sret balances)))))"

definition DelegateCoins :: "bank_env \<Rightarrow> string \<Rightarrow> string \<Rightarrow> Coin list \<Rightarrow> unit bank" where
  "DelegateCoins e delegatorAddr moduleAccAddr amount = sbind (GetAccount moduleAccAddr) (\<lambda>moduleAcc.
     if moduleAcc = None then sfail ErrUnknownAddress
     else if \<not> Coins_IsValid (validDenom e) amount then sfail ErrInvalidCoins
     else sbind (sfold (delegate_coin e delegatorAddr) [] amount) (\<lambda>balances.
       sbind (trackDelegation e delegatorAddr balances amount) (\<lambda>_.
       sbind (slift (BytesToString e delegatorAddr)) (\<lambda>delAddrStr.
       sbind (EmitKV (EventCoinSpent delAddrStr amount)) (\<lambda>_. addCoins e moduleAccAddr amount)))))"

definition UndelegateCoins :: "bank_env \<Rightarrow> string \<Rightarrow> string \<Rightarrow> Coin list \<Rightarrow> unit bank" where
  "UndelegateCoins e moduleAccAddr delegatorAddr amount = sbind (GetAccount moduleAccAddr) (\<lambda>moduleAcc.
     if moduleAcc = None then sfail ErrUnknownAddress
     else if \<not> Coins_IsValid (validDenom e) amount then sfail ErrInvalidCoins
     else sbind (subUnlockedCoins e moduleAccAddr amount) (\<lambda>_.
       sbind (trackUndelegation e delegatorAddr amount) (\<lambda>_. addCoins e delegatorAddr amount)))"

definition SendCoinsFromModuleToAccount :: "bank_env \<Rightarrow> string \<Rightarrow> string \<Rightarrow> Coin list \<Rightarrow> unit bank" where
  "SendCoinsFromModuleToAccount e senderModule recipientAddr amount =
     (case GetModuleAddress e senderModule of
        None \<Rightarrow> sfail ErrUnknownAddress
      | Some senderAddr \<Rightarrow> sbind (slift (BlockedAddr e recipientAddr)) (\<lambda>blocked.
          if blocked then sfail ErrUnauthorized else SendCoins e senderAddr recipientAddr amount))"

definition SendCoinsFromModuleToModule :: "bank_env \<Rightarrow> string \<Rightarrow> string \<Rightarrow> Coin list \<Rightarrow> unit bank" where
  "SendCoinsFromModuleToModule e senderModule recipientModule amount =
     (case GetModuleAddress e senderModule of
        None \<Rightarrow> sfail ErrUnknownAddress
      | Some senderAddr \<Rightarrow> sbind (GetModuleAccount e recipientModule) (\<lambda>recipientAcc. case recipientAcc of
          None \<Rightarrow> sfail ErrUnknownAddress
        | Some acc \<Rightarrow> SendCoins e senderAddr (GetAddress acc) amount))"

definition SendCoinsFromAccountToModule :: "bank_env \<Rightarrow> string \<Rightarrow> string \<Rightarrow> Coin list \<Rightarrow> unit bank" where
  "SendCoinsFromAccountToModule e senderAddr recipientModule amount =
     sbind (GetModuleAccount e recipientModule) (\<lambda>recipientAcc. case recipientAcc of
          None \<Rightarrow> sfail ErrUnknownAddress
        | Some acc \<Rightarrow> SendCoins e senderAddr (GetAddress acc) amount)"

definition DelegateCoinsFromAccountToModule :: "bank_env \<Rightarrow> string \<Rightarrow> string \<Rightarrow> Coin list \<Rightarrow> unit bank" where
  "DelegateCoinsFromAccountToModule e senderAddr recipientModule amount =
     sbind (GetModuleAccount e recipientModule) (\<lambda>recipientAcc. case recipientAcc of
          None \<Rightarrow> sfail ErrUnknownAddress
        | Some acc \<Rightarrow>
            if \<not> HasPermission (GetPermissions acc) ''staking'' then sfail ErrUnauthorized
            else DelegateCoins e senderAddr (GetAddress acc) amount)"

definition UndelegateCoinsFromModuleToAccount :: "bank_env \<Rightarrow> string \<Rightarrow> string \<Rightarrow> Coin list \<Rightarrow> unit bank" where
  "UndelegateCoinsFromModuleToAccount e senderModule recipientAddr amount =
     sbind (GetModuleAccount e senderModule) (\<lambda>senderAcc. case senderAcc of
          None \<Rightarrow> sfail ErrUnknownAddress
        | Some acc \<Rightarrow>
            if \<not> HasPermission (GetPermissions acc) ''staking'' then sfail ErrUnauthorized
            else UndelegateCoins e (GetAddress acc) recipientAddr amount)"

definition add_supply :: "bank_env \<Rightarrow> Coin \<Rightarrow> unit bank" where
  "add_supply e amount =
     sbind (GetSupply e (Denom amount)) (\<lambda>supply. sbind (slift (Coin_Add supply amount)) setSupply)"

definition sub_supply :: "bank_env \<Rightarrow> Coin \<Rightarrow> unit bank" where
  "sub_supply e amount =
     sbind (GetSupply e (Denom amount)) (\<lambda>supply. sbind (slift (Coin_Sub supply amount)) setSupply)"

definition MintCoins :: "bank_env \<Rightarrow> string \<Rightarrow> Coin list \<Rightarrow> unit bank" where
  "MintCoins e moduleName amounts =
     sbind (slift (mintCoinsRestrictionFn e amounts)) (\<lambda>_.
     sbind (GetModuleAccount e moduleName) (\<lambda>macc. case macc of
       None \<Rightarrow> sfail ErrUnknownAddress
     | Some acc \<Rightarrow>
         if \<not> HasPermission (GetPermissions acc) ''minter'' then sfail ErrUnauthorized
         else if \<not> Coins_IsValid (validDenom e) amounts then sfail ErrInvalidCoins
         else sbind (addCoins e (GetAddress acc) amounts) (\<lambda>_.
           sbind (sforeach (add_supply e) amounts) (\<lambda>_.
           sbind (slift (BytesToString e (GetAddress acc))) (\<lambda>addrStr.
             EmitKV (EventCoinMint addrStr amounts))))))"

definition BurnCoins :: "bank_env \<Rightarrow> string \<Rightarrow> Coin list \<Rightarrow> unit bank" where
  "BurnCoins e address amounts = sbind (GetAccount address) (\<lambda>bacc. case bacc of
       None \<Rightarrow> sfail ErrUnknownAddress
     | Some acc \<Rightarrow>
         if is_ModuleAccount acc \<and> \<not> HasPermission (GetPermissions acc) ''burner'' then sfail ErrUnauthorized
         else if \<not> Coins_IsValid (validDenom e) amounts then sfail ErrInvalidCoins
         else sbind (subUnlockedCoins e (GetAddress acc) amounts) (\<lambda>_.
           sbind (sforeach (sub_supply e) amounts) (\<lambda>_.
           sbind (slift (BytesToString e (GetAddress acc))) (\<lambda>addrStr.
             EmitKV (EventCoinBurn addrStr amounts)))))"

end
