(* ===== verification/BankLedger.thy ===== *)
theory BankLedger
  imports Bank
begin

text \<open>
  What the routines of the bank keeper do to the ledger, the function from accounts and
  denominations to amounts: exact effects and exact error conditions of the routines of
  \<open>src/x/bank/keeper/send.go\<close> and \<open>keeper.go\<close>, the supply invariant, and the contract of the keeper
  towards other modules as the locale \<open>bank_ledger\<close>.
\<close>

section \<open>The ledger\<close>

definition bal :: "bank_state \<Rightarrow> string \<Rightarrow> string \<Rightarrow> int" where
  "bal s a d = (case map_of (Balances s) (a, d) of None \<Rightarrow> 0 | Some x \<Rightarrow> x)"

definition held :: "bank_state \<Rightarrow> string \<Rightarrow> int" where
  "held s d = (\<Sum>x\<leftarrow>Balances s. if snd (fst x) = d then snd x else 0)"

abbreviation sup_of :: "bank_state \<Rightarrow> string \<Rightarrow> int" where
  "sup_of s \<equiv> amt (Supply s)"

definition balances_ok :: "bank_env \<Rightarrow> bank_state \<Rightarrow> bool" where
  "balances_ok e s \<longleftrightarrow> om_ok (Balances s) \<and>
     (\<forall>x \<in> set (Balances s). validDenom e (snd (fst x)) \<and> 0 < snd x \<and> int256 (snd x))"

text \<open>States that differ in balances and events only.\<close>

definition same_rest :: "bank_state \<Rightarrow> bank_state \<Rightarrow> bool" where
  "same_rest s s' \<longleftrightarrow> s'\<lparr>Balances := [], Events := []\<rparr> = s\<lparr>Balances := [], Events := []\<rparr>"

definition ledger_step :: "bank_env \<Rightarrow> string \<Rightarrow> (string \<Rightarrow> int) \<Rightarrow> bank_state \<Rightarrow> bank_state \<Rightarrow> bool" where
  "ledger_step e a f s s' \<longleftrightarrow> balances_ok e s' \<and> same_rest s s' \<and>
     (\<forall>b d. bal s' b d = bal s b d + (if b = a then f d else 0)) \<and> (\<forall>d. held s' d = held s d + f d)"

lemma same_rest_refl [simp]: "same_rest s s"
  by (simp add: same_rest_def)

lemma same_rest_trans: "same_rest s t \<Longrightarrow> same_rest t u \<Longrightarrow> same_rest s u"
  by (simp add: same_rest_def)

lemma same_rest_fields:
  assumes "same_rest s s'"
  shows "Accounts s' = Accounts s" "Supply s' = Supply s" "BlockTime s' = BlockTime s"
    "SendEnabledMap s' = SendEnabledMap s" "ParamsItem s' = ParamsItem s" "DenomMetadata s' = DenomMetadata s"
  using assms by (cases s; cases s'; simp add: same_rest_def)+

lemma same_rest_updates [simp]:
  "same_rest s (t\<lparr>Balances := b\<rparr>) = same_rest s t" "same_rest s (t\<lparr>Events := v\<rparr>) = same_rest s t"
  by (simp_all add: same_rest_def)

lemma ledger_step_refl [simp]: "ledger_step e a (\<lambda>_. 0) s s \<longleftrightarrow> balances_ok e s"
  by (simp add: ledger_step_def)

lemma ledger_step_trans:
  assumes "ledger_step e a f s t" "ledger_step e a g t u"
  shows "ledger_step e a (\<lambda>d. f d + g d) s u"
  using assms by (auto simp: ledger_step_def intro: same_rest_trans)

lemma ledger_stepD:
  assumes "ledger_step e a f s s'"
  shows "balances_ok e s'" "same_rest s s'" "bal s' b d = bal s b d + (if b = a then f d else 0)" "held s' d = held s d + f d"
  using assms by (simp_all add: ledger_step_def)

lemma balances_entry: "balances_ok e s \<Longrightarrow> map_of (Balances s) (a, d) = Some x \<Longrightarrow> validDenom e d \<and> 0 < x \<and> int256 x"
  by (force simp: balances_ok_def dest: map_of_SomeD)

lemma bal_bounds: "balances_ok e s \<Longrightarrow> 0 \<le> bal s a d \<and> int256 (bal s a d)"
  using balances_entry [of e s a d] by (auto simp: bal_def int256_def split: option.splits)

lemma bal_denom: "balances_ok e s \<Longrightarrow> bal s a d \<noteq> 0 \<Longrightarrow> validDenom e d"
  using balances_entry [of e s a d] by (auto simp: bal_def split: option.splits)

lemma GetBalance_run:
  assumes "balances_ok e s" "validDenom e d"
  shows "GetBalance e a d s = (Inr \<lparr> Denom = d, Amount = bal s a d \<rparr>, s)"
  using bal_bounds [OF assms(1), of a d] assms(2)
  by (auto simp: GetBalance_def NewCoin_def Coin_Validate_def bal_def sm_simps ValidateDenom_def split: option.splits)

lemma setBalance_step:
  assumes "balances_ok e s" "validDenom e d" "0 \<le> x" "int256 x"
  shows "\<exists>s'. setBalance e a \<lparr> Denom = d, Amount = x \<rparr> s = (Inr (), s') \<and>
    ledger_step e a (\<lambda>d'. if d' = d then x - bal s a d else 0) s s'"
proof -
  let ?k = "(a, d)"
  define s' where "s' = s\<lparr>Balances := if x = 0 then om_del ?k (Balances s) else om_set ?k (x) (Balances s)\<rparr>"
  have run: "setBalance e a \<lparr> Denom = d, Amount = x \<rparr> s = (Inr (), s')"
    using assms by (simp add: setBalance_def Coin_IsValid_def Coin_Validate_def s'_def sm_simps ValidateDenom_def)
  have om: "om_ok (Balances s)" using assms(1) by (simp add: balances_ok_def)
  have "map_of (Balances s') = (map_of (Balances s))(?k := if x = 0 then None else Some (x))"
    using om by (simp add: s'_def om_simps)
  then have b: "bal s' b d' = bal s b d' + (if b = a then if d' = d then x - bal s a d else 0 else 0)" for b d'
    by (simp add: bal_def)
  have h: "held s' d' = held s d' + (if d' = d then x - bal s a d else 0)" for d'
    using om_set_sum [OF om, of "\<lambda>x. if snd (fst x) = d' then snd x else 0" ?k "x"]
      om_del_sum [OF om, of "\<lambda>x. if snd (fst x) = d' then snd x else 0" ?k]
    by (auto simp: held_def s'_def bal_def split: option.splits)
  have "balances_ok e s'"
    using assms om om_del_subset [of ?k "Balances s"]
    by (auto simp: balances_ok_def s'_def om_set_entries)
  then have "ledger_step e a (\<lambda>d'. if d' = d then x - bal s a d else 0) s s'"
    using b h by (simp add: ledger_step_def s'_def)
  with run show ?thesis by blast
qed

section \<open>One coin\<close>

lemma SafeSub_single:
  assumes "vd d" "int256 x" "int256 y" "0 \<le> x" "0 \<le> y"
  shows "Coins_SafeSub vd [\<lparr> Denom = d, Amount = x \<rparr>] [\<lparr> Denom = d, Amount = y \<rparr>] =
    Inr (if x = y then [] else [\<lparr> Denom = d, Amount = x - y \<rparr>], x < y)"
  using assms int256_diff [of x y]
  by (auto simp: Coins_SafeSub_def NewCoins_def sanitizeCoins_def removeZeroCoins_def Coins_Sort_def Coins_Validate_def
      validate_single_def ValidateDenom_def Coins_safeAdd_def Coins_negative_def uniq_step_def Coin_Add_def same_denom_def
      Int_Neg_def Coins_IsAnyNegative_def sdkint)

lemma SafeSub_none:
  assumes "vd d" "0 \<le> y"
  shows "Coins_SafeSub vd [] [\<lparr> Denom = d, Amount = y \<rparr>] =
    Inr (if y = 0 then [] else [\<lparr> Denom = d, Amount = - y \<rparr>], 0 < y)"
  using assms
  by (auto simp: Coins_SafeSub_def NewCoins_def sanitizeCoins_def removeZeroCoins_def Coins_Sort_def Coins_Validate_def
      validate_single_def ValidateDenom_def Coins_safeAdd_def Coins_negative_def uniq_step_def
      Int_Neg_def Coins_IsAnyNegative_def)

lemma Find_locked:
  assumes "denom_sorted cs"
  shows "(case Coins_Find cs d of Some c \<Rightarrow> c | None \<Rightarrow> \<lparr> Denom = d, Amount = 0 \<rparr>) = \<lparr> Denom = d, Amount = camt cs d \<rparr>"
  using Coins_Find_correct [OF assms, of d] AmountOf_sorted [OF assms, of d]
  by (auto simp: AmountOfNoDenomValidation_def split: option.splits)

definition valid_coin :: "bank_env \<Rightarrow> Coin \<Rightarrow> bool" where
  "valid_coin e c \<longleftrightarrow> validDenom e (Denom c) \<and> 0 < Amount c \<and> int256 (Amount c)"

lemma sub_unlocked_coin_run:
  assumes "balances_ok e s" "coins_ok (validDenom e) locked" "valid_coin e c"
  shows "if camt locked (Denom c) + Amount c \<le> bal s a (Denom c)
    then \<exists>s'. sub_unlocked_coin e a locked c s = (Inr (), s') \<and> ledger_step e a (\<lambda>d. - camt [c] d) s s'
    else sub_unlocked_coin e a locked c s = (Inl ErrInsufficientFunds, s)"
proof -
  let ?d = "Denom c" and ?b = "bal s a (Denom c)" and ?l = "camt locked (Denom c)"
  have vd: "validDenom e ?d" and c: "0 < Amount c" "int256 (Amount c)" "c = \<lparr> Denom = ?d, Amount = Amount c \<rparr>"
    using assms(3) by (auto simp: valid_coin_def)
  have b: "0 \<le> ?b" "int256 ?b" using bal_bounds [OF assms(1)] by auto
  have l: "0 \<le> ?l" "int256 ?l" using coins_ok_nonneg [OF assms(2)] coins_ok_fits [OF assms(2)] by auto
  have find: "(case Coins_Find locked ?d of Some c \<Rightarrow> c | None \<Rightarrow> \<lparr> Denom = ?d, Amount = 0 \<rparr>) = \<lparr> Denom = ?d, Amount = ?l \<rparr>"
    by (rule Find_locked) (rule coins_ok_denom_sorted [OF assms(2)])
  have s1: "Coins_SafeSub (validDenom e) [\<lparr> Denom = ?d, Amount = ?b \<rparr>] [\<lparr> Denom = ?d, Amount = ?l \<rparr>] =
    Inr (if ?b = ?l then [] else [\<lparr> Denom = ?d, Amount = ?b - ?l \<rparr>], ?b < ?l)"
    using vd b l by (intro SafeSub_single)
  have s2: "\<exists>x. Coins_SafeSub (validDenom e) (if ?b = ?l then [] else [\<lparr> Denom = ?d, Amount = ?b - ?l \<rparr>]) [c] =
    Inr (x, ?b - ?l < Amount c)" if "?l \<le> ?b"
    using SafeSub_single [of "validDenom e" ?d "?b - ?l" "Amount c"] SafeSub_none [of "validDenom e" ?d "Amount c"] vd int256_diff [OF b(2) l(2) b(1) l(1)] c that
    by (cases "?b = ?l") auto
  note run = sub_unlocked_coin_def GetBalance_run [OF assms(1) vd] find s1
  show ?thesis
  proof (cases "?l + Amount c \<le> ?b")
    case True
    let ?n = "\<lparr> Denom = ?d, Amount = ?b - Amount c \<rparr>"
    have le: "?l \<le> ?b" "Amount c \<le> ?b" using True c l by linarith+
    have "Coin_Sub \<lparr> Denom = ?d, Amount = ?b \<rparr> c = Inr ?n"
      using int256_diff [OF b(2) c(2) b(1)] c le
      by (auto simp: Coin_Sub_def Coin_SafeSub_def sdkint)
    moreover obtain s' where s': "setBalance e a ?n s = (Inr (), s')"
      "ledger_step e a (\<lambda>d. if d = ?d then (?b - Amount c) - bal s a ?d else 0) s s'"
      using setBalance_step [OF assms(1) vd, of "?b - Amount c" a] le int256_diff [OF b(2) c(2) b(1)] c by auto
    moreover have "(\<lambda>d. if d = ?d then (?b - Amount c) - bal s a ?d else 0) = (\<lambda>d. - camt [c] d)"
      by auto
    ultimately show ?thesis
      using True le s2 by (auto simp: run sbind_def sm_run)
  next
    case False
    then show ?thesis
      using s2 by (cases "?l \<le> ?b") (auto simp: run sbind_def sm_run)
  qed
qed

lemma add_coin_run:
  assumes "balances_ok e s" "valid_coin e c"
  shows "if int256 (bal s a (Denom c) + Amount c)
    then \<exists>s'. add_coin e a c s = (Inr (), s') \<and> ledger_step e a (camt [c]) s s'
    else \<exists>m. add_coin e a c s = (Inl (Panic m), s)"
proof -
  let ?d = "Denom c" and ?b = "bal s a (Denom c)"
  let ?n = "\<lparr> Denom = ?d, Amount = ?b + Amount c \<rparr>"
  have vd: "validDenom e ?d" and c: "0 < Amount c" using assms(2) by (auto simp: valid_coin_def)
  have b: "0 \<le> ?b" using bal_bounds [OF assms(1)] by auto
  show ?thesis
  proof (cases "int256 (?b + Amount c)")
    case True
    obtain s' where s': "setBalance e a ?n s = (Inr (), s')"
      "ledger_step e a (\<lambda>d. if d = ?d then (?b + Amount c) - bal s a ?d else 0) s s'"
      using setBalance_step [OF assms(1) vd, of "?b + Amount c" a] b c True by auto
    have "(\<lambda>d. if d = ?d then (?b + Amount c) - bal s a ?d else 0) = camt [c]" by auto
    with s' True show ?thesis
      by (auto simp: add_coin_def GetBalance_run [OF assms(1) vd] sbind_def sm_run Coin_Add_def same_denom_def sdkint)
  next
    case False
    then show ?thesis
      by (auto simp: add_coin_def GetBalance_run [OF assms(1) vd] sbind_def sm_run Coin_Add_def same_denom_def sdkint)
  qed
qed

section \<open>Coin sets\<close>

lemma coins_ok_valid:
  assumes "coins_ok (validDenom e) cs"
  shows "\<forall>c \<in> set cs. valid_coin e c" "distinct (map Denom cs)"
  using assms coins_ok_denom_sorted [OF assms]
  by (auto simp: coins_ok_iff valid_coin_def denom_sorted_def strict_sorted_iff)

text \<open>A loop over the coins of a set whose iterations concern one denomination each: it succeeds iff every
  iteration would succeed in the initial state, and stops at a fault of the kind of its iterations
  otherwise.\<close>

lemma coin_loop_run:
  fixes f :: "Coin \<Rightarrow> ('s, unit) sm"
  assumes "distinct (map Denom cs)" "I s"
    and one: "\<And>c s. c \<in> set cs \<Longrightarrow> I s \<Longrightarrow>
      if P s c then \<exists>s'. f c s = (Inr (), s') \<and> R [c] s s' else \<exists>x s'. f c s = (Inl x, s') \<and> F x"
    and inv: "\<And>c s s'. R [c] s s' \<Longrightarrow> I s'"
    and other: "\<And>c c' s s'. Denom c \<noteq> Denom c' \<Longrightarrow> R [c] s s' \<Longrightarrow> P s' c' = P s c'"
    and nil: "\<And>s. I s \<Longrightarrow> R [] s s"
    and trans: "\<And>c cs s t u. R [c] s t \<Longrightarrow> R cs t u \<Longrightarrow> R (c # cs) s u"
  shows "if \<forall>c \<in> set cs. P s c then \<exists>s'. sforeach f cs s = (Inr (), s') \<and> R cs s s'
    else \<exists>x s'. sforeach f cs s = (Inl x, s') \<and> F x"
  using assms(1-3)
proof (induction cs arbitrary: s)
  case Nil
  then show ?case using nil by (simp add: sm_run)
next
  case (Cons c cs)
  show ?case
  proof (cases "P s c")
    case True
    obtain t where t: "f c s = (Inr (), t)" "R [c] s t"
      using Cons.prems(3) [of c s] Cons.prems(2) True by auto
    have same: "P t c' = P s c'" if "c' \<in> set cs" for c'
      using other [OF _ t(2)] Cons.prems(1) that by auto
    have IH: "if \<forall>c \<in> set cs. P t c then \<exists>s'. sforeach f cs t = (Inr (), s') \<and> R cs t s'
      else \<exists>x s'. sforeach f cs t = (Inl x, s') \<and> F x"
    proof (rule Cons.IH)
      show "if P s c then \<exists>s'. f c s = (Inr (), s') \<and> R [c] s s' else \<exists>x s'. f c s = (Inl x, s') \<and> F x"
        if "c \<in> set cs" "I s" for c s by (rule Cons.prems(3)) (use that in simp_all)
    qed (use Cons.prems(1) inv [OF t(2)] in simp_all)
    show ?thesis
    proof (cases "\<forall>c' \<in> set cs. P t c'")
      case all: True
      with IH obtain s' where s': "sforeach f cs t = (Inr (), s')" "R cs t s'" by auto
      with trans [OF t(2) s'(2)] t(1) True all same show ?thesis by (auto simp: sbind_def)
    next
      case False
      with IH obtain x s' where "sforeach f cs t = (Inl x, s')" "F x" by (auto split: if_split_asm)
      with False t same show ?thesis by (auto simp: sbind_def)
    qed
  next
    case False
    then obtain x t where "f c s = (Inl x, t)" "F x" using Cons.prems(3) [of c s] Cons.prems(2) by auto
    with False show ?thesis by (auto simp: sbind_def)
  qed
qed

lemma sub_loop_run:
  assumes "coins_ok (validDenom e) l" "balances_ok e s" "coins_ok (validDenom e) cs"
  shows "if \<forall>c \<in> set cs. camt l (Denom c) + Amount c \<le> bal s a (Denom c)
    then \<exists>s'. sforeach (sub_unlocked_coin e a l) cs s = (Inr (), s') \<and> ledger_step e a (\<lambda>d. - camt cs d) s s'
    else \<exists>x s'. sforeach (sub_unlocked_coin e a l) cs s = (Inl x, s') \<and> x = ErrInsufficientFunds"
proof (rule coin_loop_run [where I = "balances_ok e"])
  show "distinct (map Denom cs)" by (rule coins_ok_valid(2) [OF assms(3)])
  show "if camt l (Denom c) + Amount c \<le> bal t a (Denom c)
      then \<exists>s'. sub_unlocked_coin e a l c t = (Inr (), s') \<and> ledger_step e a (\<lambda>d. - camt [c] d) t s'
      else \<exists>x s'. sub_unlocked_coin e a l c t = (Inl x, s') \<and> x = ErrInsufficientFunds"
    if "c \<in> set cs" "balances_ok e t" for c t
    using sub_unlocked_coin_run [OF that(2) assms(1), of c a] coins_ok_valid(1) [OF assms(3)] that(1) by auto
  show "ledger_step e a (\<lambda>d. - camt (c # cs') d) t v"
    if "ledger_step e a (\<lambda>d. - camt [c] d) t u" "ledger_step e a (\<lambda>d. - camt cs' d) u v" for c cs' t u v
    using ledger_step_trans [OF that] by (simp add: ledger_step_def)
qed (use assms(2) in \<open>auto simp: ledger_step_def\<close>)

lemma add_loop_run:
  assumes "balances_ok e s" "coins_ok (validDenom e) cs"
  shows "if \<forall>c \<in> set cs. int256 (bal s a (Denom c) + Amount c)
    then \<exists>s'. sforeach (add_coin e a) cs s = (Inr (), s') \<and> ledger_step e a (camt cs) s s'
    else \<exists>x s'. sforeach (add_coin e a) cs s = (Inl x, s') \<and> (\<exists>m. x = Panic m)"
proof (rule coin_loop_run [where I = "balances_ok e"])
  show "distinct (map Denom cs)" by (rule coins_ok_valid(2) [OF assms(2)])
  show "if int256 (bal t a (Denom c) + Amount c)
      then \<exists>s'. add_coin e a c t = (Inr (), s') \<and> ledger_step e a (camt [c]) t s'
      else \<exists>x s'. add_coin e a c t = (Inl x, s') \<and> (\<exists>m. x = Panic m)"
    if "c \<in> set cs" "balances_ok e t" for c t
    using add_coin_run [OF that(2), of c a] coins_ok_valid(1) [OF assms(2)] that(1) by auto
  show "ledger_step e a (camt (c # cs')) t v"
    if "ledger_step e a (camt [c]) t u" "ledger_step e a (camt cs') u v" for c cs' t u v
    using ledger_step_trans [OF that] by (simp add: ledger_step_def)
qed (use assms(1) in \<open>auto simp: ledger_step_def\<close>)

section \<open>Locked coins\<close>

definition vesting_ok :: "bank_env \<Rightarrow> bank_state \<Rightarrow> bool" where
  "vesting_ok e s \<longleftrightarrow> (\<forall>k b va. map_of (Accounts s) k = Some (VestingAcc b va) \<longrightarrow> va_ok (validDenom e) va)"

text \<open>The amount of a denomination that an account cannot spend now.\<close>

definition locked :: "bank_env \<Rightarrow> bank_state \<Rightarrow> string \<Rightarrow> string \<Rightarrow> int" where
  "locked e s a d = (case LockedCoins e a s of (Inr l, _) \<Rightarrow> camt l d | _ \<Rightarrow> 0)"

lemma LockedCoins_run:
  assumes "vesting_ok e s"
  shows "\<exists>l. LockedCoins e a s = (Inr l, s) \<and> coins_ok (validDenom e) l \<and> camt l = locked e s a"
proof -
  have "\<exists>l. LockedCoins e a s = (Inr l, s) \<and> coins_ok (validDenom e) l"
  proof (cases "\<exists>b va. map_of (Accounts s) a = Some (VestingAcc b va)")
    case True
    then obtain b va where a: "map_of (Accounts s) a = Some (VestingAcc b va)" by blast
    with assms have "va_ok (validDenom e) va" by (auto simp: vesting_ok_def)
    from va_coins [OF this, of "BlockTime s"] obtain l where
      "va_LockedCoins (validDenom e) va (BlockTime s) = Inr l" "coins_ok (validDenom e) l" by blast
    with a show ?thesis by (simp add: LockedCoins_def GetAccount_def sm_run)
  next
    case False
    then have "LockedCoins e a s = (Inr [], s)" "coins_ok (validDenom e) []"
      by (auto simp: LockedCoins_def GetAccount_def sm_run coins_ok_iff split: option.splits account.splits)
    then show ?thesis by blast
  qed
  then show ?thesis by (auto simp: locked_def fun_eq_iff)
qed

lemma locked_nonneg: "vesting_ok e s \<Longrightarrow> 0 \<le> locked e s a d"
  using LockedCoins_run [of e s a] coins_ok_nonneg by metis

lemma locked_cong: "Accounts s' = Accounts s \<Longrightarrow> BlockTime s' = BlockTime s \<Longrightarrow> locked e s' a d = locked e s a d"
  by (cases "map_of (Accounts s) a"; cases "the (map_of (Accounts s) a)")
    (simp_all add: locked_def LockedCoins_def GetAccount_def sm_run)

lemma vesting_ok_cong: "Accounts s' = Accounts s \<Longrightarrow> vesting_ok e s' = vesting_ok e s"
  by (simp add: vesting_ok_def)

section \<open>Debits and credits\<close>

definition covered :: "bank_env \<Rightarrow> bank_state \<Rightarrow> string \<Rightarrow> Coin list \<Rightarrow> bool" where
  "covered e s a cs \<longleftrightarrow> (\<forall>d. camt cs d \<noteq> 0 \<longrightarrow> locked e s a d + camt cs d \<le> bal s a d)"

definition fits :: "bank_state \<Rightarrow> string \<Rightarrow> Coin list \<Rightarrow> bool" where
  "fits s a cs \<longleftrightarrow> (\<forall>d. camt cs d \<noteq> 0 \<longrightarrow> int256 (bal s a d + camt cs d))"

lemma ledger_step_events [simp]: "ledger_step e a f s (t\<lparr>Events := v\<rparr>) = ledger_step e a f s t"
  by (simp add: ledger_step_def balances_ok_def bal_def held_def)

lemma subUnlockedCoins_run:
  assumes "balances_ok e s" "vesting_ok e s" "coins_ok (validDenom e) cs"
  shows "if covered e s a cs
    then case BytesToString e a of
        Inr _ \<Rightarrow> \<exists>s'. subUnlockedCoins e a cs s = (Inr (), s') \<and> ledger_step e a (\<lambda>d. - camt cs d) s s'
      | Inl f \<Rightarrow> \<exists>s'. subUnlockedCoins e a cs s = (Inl f, s')
    else \<exists>s'. subUnlockedCoins e a cs s = (Inl ErrInsufficientFunds, s')"
proof -
  obtain l where l: "LockedCoins e a s = (Inr l, s)" "coins_ok (validDenom e) l" "camt l = locked e s a"
    using LockedCoins_run [OF assms(2)] by blast
  have eq: "(\<forall>c \<in> set cs. camt l (Denom c) + Amount c \<le> bal s a (Denom c)) = covered e s a cs"
    unfolding covered_def l(3)
    using ball_amt [OF assms(3), of "\<lambda>d x. x \<noteq> 0 \<longrightarrow> locked e s a d + x \<le> bal s a d"] coins_ok_valid(1) [OF assms(3)]
    by (auto simp: valid_coin_def)
  from sub_loop_run [OF l(2) assms(1,3), of a, unfolded eq] show ?thesis
    by (auto simp: subUnlockedCoins_def l(1) sbind_def sm_run EmitKV_def split: sum.splits)
qed

lemma addCoins_run:
  assumes "balances_ok e s" "coins_ok (validDenom e) cs"
  shows "if fits s a cs
    then case BytesToString e a of
        Inr _ \<Rightarrow> \<exists>s'. addCoins e a cs s = (Inr (), s') \<and> ledger_step e a (camt cs) s s'
      | Inl f \<Rightarrow> \<exists>s'. addCoins e a cs s = (Inl f, s')
    else \<exists>m s'. addCoins e a cs s = (Inl (Panic m), s')"
proof -
  have eq: "(\<forall>c \<in> set cs. int256 (bal s a (Denom c) + Amount c)) = fits s a cs"
    unfolding fits_def
    using ball_amt [OF assms(2), of "\<lambda>d x. x \<noteq> 0 \<longrightarrow> int256 (bal s a d + x)"] coins_ok_valid(1) [OF assms(2)]
    by (auto simp: valid_coin_def)
  from add_loop_run [OF assms, of a, unfolded eq] show ?thesis
    by (auto simp: addCoins_def sbind_def sm_run EmitKV_def split: sum.splits)
qed

section \<open>The supply invariant\<close>

definition supply_ok :: "bank_env \<Rightarrow> bank_state \<Rightarrow> bool" where
  "supply_ok e s \<longleftrightarrow> om_ok (Supply s) \<and>
     (\<forall>x \<in> set (Supply s). validDenom e (fst x) \<and> 0 < snd x \<and> int256 (snd x))"

text \<open>The invariant of the bank: well-formed collections, valid vesting accounts, and for every
  denomination a supply that is the sum of all balances.\<close>

definition bank_ok :: "bank_env \<Rightarrow> bank_state \<Rightarrow> bool" where
  "bank_ok e s \<longleftrightarrow> balances_ok e s \<and> supply_ok e s \<and> accounts_ok (Accounts s) \<and> vesting_ok e s \<and>
     (\<forall>d. held s d = sup_of s d)"

lemma bank_okD:
  "bank_ok e s \<Longrightarrow> balances_ok e s" "bank_ok e s \<Longrightarrow> supply_ok e s" "bank_ok e s \<Longrightarrow> accounts_ok (Accounts s)"
  "bank_ok e s \<Longrightarrow> vesting_ok e s" "bank_ok e s \<Longrightarrow> held s d = sup_of s d"
  by (simp_all add: bank_ok_def)

lemma supply_bounds: "supply_ok e s \<Longrightarrow> 0 \<le> sup_of s d \<and> int256 (sup_of s d)"
proof -
  assume ok: "supply_ok e s"
  then have "sup_of s d = (case map_of (Supply s) d of None \<Rightarrow> 0 | Some x \<Rightarrow> x)"
    by (simp add: supply_ok_def amt_map_of om_ok_distinct)
  moreover have "0 < x \<and> int256 x" if "map_of (Supply s) d = Some x" for x
    using ok map_of_SomeD [OF that] by (auto simp: supply_ok_def)
  ultimately show ?thesis by (auto simp: int256_def split: option.splits)
qed

lemma bal_entries: "om_ok (Balances s) \<Longrightarrow> bal s a d = (\<Sum>x\<leftarrow>Balances s. if fst x = (a, d) then snd x else 0)"
proof -
  have "om_ok xs \<Longrightarrow> (case map_of xs k of None \<Rightarrow> 0 | Some x \<Rightarrow> x) = (\<Sum>x\<leftarrow>xs. if fst x = k then snd x else 0)"
    for k :: "string \<times> string" and xs :: "((string \<times> string) \<times> int) list"
  proof (induction xs)
    case (Cons y ys)
    have "(\<Sum>x\<leftarrow>ys. if fst x = fst y then snd x else 0) = 0"
    proof -
      have "(if fst x = fst y then snd x else 0) = 0" if "x \<in> set ys" for x
        using Cons.prems that by (cases y) auto
      then have "map (\<lambda>x. if fst x = fst y then snd x else 0) ys = map (\<lambda>x. 0) ys" by (rule map_cong [OF refl])
      then show ?thesis by (simp only: sum_list_0)
    qed
    with Cons show ?case by (cases y) auto
  qed simp
  then show "om_ok (Balances s) \<Longrightarrow> ?thesis" by (simp add: bal_def)
qed

lemma sum_bal_held:
  assumes "balances_ok e s" "finite A"
  shows "(\<Sum>a\<in>A. bal s a d) \<le> held s d"
proof -
  let ?f = "\<lambda>a x. if fst x = (a, d) then snd x else (0 :: int)"
  have om: "om_ok (Balances s)" using assms(1) by (simp add: balances_ok_def)
  have swap: "(\<Sum>a\<in>A. \<Sum>x\<leftarrow>xs. ?f a x) = (\<Sum>x\<leftarrow>xs. \<Sum>a\<in>A. ?f a x)" for xs
    by (induction xs) (simp_all add: sum.distrib)
  have "(\<Sum>a\<in>A. ?f a x) = (if snd (fst x) = d \<and> fst (fst x) \<in> A then snd x else 0)" for x
  proof -
    have "?f a x = (if fst (fst x) = a then if snd (fst x) = d then snd x else 0 else 0)" for a by (cases x) auto
    then show ?thesis using assms(2) by (simp add: sum.delta')
  qed
  then have "(\<Sum>a\<in>A. bal s a d) = (\<Sum>x\<leftarrow>Balances s. if snd (fst x) = d \<and> fst (fst x) \<in> A then snd x else 0)"
    by (simp add: bal_entries [OF om] swap)
  also have "\<dots> \<le> held s d"
    unfolding held_def using assms(1) by (intro sum_list_mono) (auto simp: balances_ok_def)
  finally show ?thesis .
qed

lemma bal_le_held: "balances_ok e s \<Longrightarrow> bal s a d \<le> held s d"
  using sum_bal_held [of e s "{a}" d] by simp

lemma fits_below:
  assumes "balances_ok e s" "coins_ok (validDenom e) cs" "\<And>d. int256 (held s d + camt cs d)"
  shows "fits s a cs"
  unfolding fits_def
proof (intro allI impI)
  fix d
  show "int256 (bal s a d + camt cs d)"
    using bal_le_held [OF assms(1), of a d] bal_bounds [OF assms(1), of a d] coins_ok_nonneg [OF assms(2), of d]
    by (intro int256_between [OF assms(3) [of d]]) auto
qed

section \<open>Transfers\<close>

definition transferred :: "bank_env \<Rightarrow> string \<Rightarrow> string \<Rightarrow> Coin list \<Rightarrow> bank_state \<Rightarrow> bank_state \<Rightarrow> bool" where
  "transferred e a b cs s s' \<longleftrightarrow> bank_ok e s' \<and> Supply s' = Supply s \<and>
     (\<forall>x d. bal s' x d = bal s x d - (if x = a then camt cs d else 0) + (if x = b then camt cs d else 0))"

lemma bank_ok_same:
  assumes "bank_ok e s" "same_rest s s'" "balances_ok e s'" "\<And>d. held s' d = held s d"
  shows "bank_ok e s'"
  using assms same_rest_fields [OF assms(2)] by (simp add: bank_ok_def supply_ok_def vesting_ok_def)

lemma SendCoins_run:
  assumes "bank_ok e s" "coins_ok (validDenom e) cs" "sendRestriction_apply e a b cs = Inr b'"
    and "BytesToString e a = Inr astr" "BytesToString e b' = Inr bstr"
  shows "if covered e s a cs
    then \<exists>s'. SendCoins e a b cs s = (Inr (), s') \<and> transferred e a b' cs s s' \<and> same_rest s s'
    else \<exists>s'. SendCoins e a b cs s = (Inl ErrInsufficientFunds, s')"
proof -
  have valid: "Coins_IsValid (validDenom e) cs" using assms(2) by (simp add: coins_ok_def)
  note ok = bank_okD [OF assms(1)]
  note sub = subUnlockedCoins_run [OF ok(1,4) assms(2), of a]
  show ?thesis
  proof (cases "covered e s a cs")
    case True
    with sub assms(4) obtain t where t: "subUnlockedCoins e a cs s = (Inr (), t)" "ledger_step e a (\<lambda>d. - camt cs d) s t"
      by auto
    have bt: "balances_ok e t" by (rule ledger_stepD(1) [OF t(2)])
    have held: "held t d + camt cs d = sup_of s d" for d using ledger_stepD(4) [OF t(2), of d] ok(5) [of d] by simp
    then have "fits t b' cs" using supply_bounds [OF ok(2)] by (intro fits_below [OF bt assms(2)]) simp
    with addCoins_run [OF bt assms(2), of b'] assms(5) obtain u where
      u: "addCoins e b' cs t = (Inr (), u)" "ledger_step e b' (camt cs) t u" by auto
    let ?s = "u\<lparr>Events := Events u @ [EventTransfer bstr astr cs]\<rparr>"
    have same: "same_rest s ?s" using t(2) u(2) by (auto simp: ledger_step_def intro: same_rest_trans)
    moreover have "bank_ok e ?s"
    proof (rule bank_ok_same [OF assms(1) same])
      show "balances_ok e ?s" using ledger_stepD(1) [OF u(2)] by (simp add: balances_ok_def)
      show "held ?s d = held s d" for d
        using ledger_stepD(4) [OF u(2), of d] ledger_stepD(4) [OF t(2), of d] by (simp add: held_def)
    qed
    moreover have "bal ?s x d = bal s x d - (if x = a then camt cs d else 0) + (if x = b' then camt cs d else 0)" for x d
      using ledger_stepD(3) [OF u(2), of x d] ledger_stepD(3) [OF t(2), of x d] by (simp add: bal_def)
    ultimately have "transferred e a b' cs s ?s" using same_rest_fields(2) [OF same] by (simp add: transferred_def)
    moreover have "SendCoins e a b cs s = (Inr (), ?s)"
      by (simp add: SendCoins_def valid assms(3-5) t(1) u(1) sbind_def sm_run EmitKV_def)
    ultimately show ?thesis using True same by auto
  next
    case False
    with sub show ?thesis by (auto simp: SendCoins_def valid assms(3) sbind_def)
  qed
qed

text \<open>Every successful send is one of these.\<close>

lemma SendCoins_success:
  assumes "bank_ok e s" "\<forall>c \<in> set cs. int256 (Amount c)" "SendCoins e a b cs s = (Inr u, s')"
  shows "\<exists>b'. sendRestriction_apply e a b cs = Inr b' \<and> coins_ok (validDenom e) cs \<and> covered e s a cs \<and>
    transferred e a b' cs s s' \<and> same_rest s s'"
proof -
  from assms(3) obtain b' astr bstr t1 t2 where
    valid: "Coins_IsValid (validDenom e) cs" and r: "sendRestriction_apply e a b cs = Inr b'"
    and str: "BytesToString e a = Inr astr" "BytesToString e b' = Inr bstr"
    by (auto simp: SendCoins_def sm_simps split: if_splits)
  then have ok: "coins_ok (validDenom e) cs" using assms(2) by (simp add: coins_ok_def list_all_iff)
  from SendCoins_run [OF assms(1) ok r str] assms(3) r ok show ?thesis by (auto split: if_splits)
qed

section \<open>Supply\<close>

definition supply_step :: "bank_env \<Rightarrow> (string \<Rightarrow> int) \<Rightarrow> bank_state \<Rightarrow> bank_state \<Rightarrow> bool" where
  "supply_step e f s s' \<longleftrightarrow> supply_ok e s' \<and> s'\<lparr>Supply := []\<rparr> = s\<lparr>Supply := []\<rparr> \<and>
     (\<forall>d. sup_of s' d = sup_of s d + f d)"

lemma supply_step_trans:
  "supply_step e f s t \<Longrightarrow> supply_step e g t u \<Longrightarrow> supply_step e (\<lambda>d. f d + g d) s u"
  by (simp add: supply_step_def)

lemma supply_step_fields:
  assumes "supply_step e f s s'"
  shows "Accounts s' = Accounts s" "Balances s' = Balances s" "BlockTime s' = BlockTime s"
  using assms by (cases s; cases s'; simp add: supply_step_def)+

lemma GetSupply_run:
  assumes "supply_ok e s" "validDenom e d"
  shows "GetSupply e d s = (Inr \<lparr> Denom = d, Amount = sup_of s d \<rparr>, s)"
proof -
  have "sup_of s d = (case map_of (Supply s) d of None \<Rightarrow> 0 | Some x \<Rightarrow> x)"
    using assms(1) by (simp add: supply_ok_def amt_map_of om_ok_distinct)
  with supply_bounds [OF assms(1), of d] assms(2) show ?thesis
    by (auto simp: GetSupply_def NewCoin_def Coin_Validate_def sm_simps ValidateDenom_def split: option.splits)
qed

lemma setSupply_step:
  assumes "supply_ok e s" "validDenom e d" "0 \<le> x" "int256 x"
  shows "\<exists>s'. setSupply \<lparr> Denom = d, Amount = x \<rparr> s = (Inr (), s') \<and>
    supply_step e (\<lambda>d'. if d' = d then x - sup_of s d else 0) s s'"
proof -
  define s' where "s' = s\<lparr>Supply := if x = 0 then om_del d (Supply s) else om_set d x (Supply s)\<rparr>"
  have run: "setSupply \<lparr> Denom = d, Amount = x \<rparr> s = (Inr (), s')"
    by (simp add: setSupply_def s'_def sm_simps)
  have om: "om_ok (Supply s)" "om_ok (Supply s')" using assms(1) by (simp_all add: supply_ok_def s'_def)
  have "map_of (Supply s') = (map_of (Supply s))(d := if x = 0 then None else Some x)"
    using om by (simp add: s'_def om_simps)
  then have "sup_of s' d' = sup_of s d' + (if d' = d then x - sup_of s d else 0)" for d'
    using om by (simp add: amt_map_of om_ok_distinct)
  moreover have "supply_ok e s'"
    using assms om om_del_subset [of d "Supply s"] by (auto simp: supply_ok_def s'_def om_set_entries)
  ultimately show ?thesis using run by (auto simp: supply_step_def s'_def)
qed

lemma add_supply_run:
  assumes "supply_ok e s" "valid_coin e c"
  shows "if int256 (sup_of s (Denom c) + Amount c)
    then \<exists>s'. add_supply e c s = (Inr (), s') \<and> supply_step e (camt [c]) s s'
    else \<exists>x s'. add_supply e c s = (Inl x, s') \<and> (\<exists>m. x = Panic m)"
proof -
  let ?d = "Denom c" and ?b = "sup_of s (Denom c)"
  have vd: "validDenom e ?d" and c: "0 < Amount c" using assms(2) by (auto simp: valid_coin_def)
  have b: "0 \<le> ?b" using supply_bounds [OF assms(1)] by auto
  note run = add_supply_def GetSupply_run [OF assms(1) vd] sbind_def sm_run Coin_Add_def same_denom_def sdkint
  show ?thesis
  proof (cases "int256 (?b + Amount c)")
    case True
    then obtain s' where s': "setSupply \<lparr> Denom = ?d, Amount = ?b + Amount c \<rparr> s = (Inr (), s')"
      "supply_step e (\<lambda>d. if d = ?d then (?b + Amount c) - sup_of s ?d else 0) s s'"
      using setSupply_step [OF assms(1) vd, of "?b + Amount c"] b c by auto
    have "(\<lambda>d. if d = ?d then (?b + Amount c) - sup_of s ?d else 0) = camt [c]" by auto
    with s' True show ?thesis by (auto simp: run)
  qed (auto simp: run)
qed

lemma sub_supply_run:
  assumes "supply_ok e s" "valid_coin e c"
  shows "if Amount c \<le> sup_of s (Denom c)
    then \<exists>s'. sub_supply e c s = (Inr (), s') \<and> supply_step e (\<lambda>d. - camt [c] d) s s'
    else \<exists>x s'. sub_supply e c s = (Inl x, s') \<and> (\<exists>m. x = Panic m)"
proof -
  let ?d = "Denom c" and ?b = "sup_of s (Denom c)"
  have vd: "validDenom e ?d" and c: "0 < Amount c" "int256 (Amount c)" using assms(2) by (auto simp: valid_coin_def)
  have b: "0 \<le> ?b" "int256 ?b" using supply_bounds [OF assms(1)] by auto
  have i: "int256 (?b - Amount c)" using int256_diff [OF b(2) c(2) b(1)] c by simp
  note run = sub_supply_def GetSupply_run [OF assms(1) vd] sbind_def sm_run Coin_Sub_def Coin_SafeSub_def sdkint
  show ?thesis
  proof (cases "Amount c \<le> ?b")
    case True
    then obtain s' where s': "setSupply \<lparr> Denom = ?d, Amount = ?b - Amount c \<rparr> s = (Inr (), s')"
      "supply_step e (\<lambda>d. if d = ?d then (?b - Amount c) - sup_of s ?d else 0) s s'"
      using setSupply_step [OF assms(1) vd, of "?b - Amount c"] i by auto
    have "(\<lambda>d. if d = ?d then (?b - Amount c) - sup_of s ?d else 0) = (\<lambda>d. - camt [c] d)" by auto
    with s' True i show ?thesis by (auto simp: run)
  qed (use i in \<open>auto simp: run\<close>)
qed

lemma add_supply_loop_run:
  assumes "supply_ok e s" "coins_ok (validDenom e) cs"
  shows "if \<forall>c \<in> set cs. int256 (sup_of s (Denom c) + Amount c)
    then \<exists>s'. sforeach (add_supply e) cs s = (Inr (), s') \<and> supply_step e (camt cs) s s'
    else \<exists>x s'. sforeach (add_supply e) cs s = (Inl x, s') \<and> (\<exists>m. x = Panic m)"
proof (rule coin_loop_run [where I = "supply_ok e"])
  show "distinct (map Denom cs)" by (rule coins_ok_valid(2) [OF assms(2)])
  show "if int256 (sup_of t (Denom c) + Amount c)
      then \<exists>s'. add_supply e c t = (Inr (), s') \<and> supply_step e (camt [c]) t s'
      else \<exists>x s'. add_supply e c t = (Inl x, s') \<and> (\<exists>m. x = Panic m)"
    if "c \<in> set cs" "supply_ok e t" for c t
    using add_supply_run [OF that(2), of c] coins_ok_valid(1) [OF assms(2)] that(1) by auto
  show "supply_step e (camt (c # cs')) t v"
    if "supply_step e (camt [c]) t u" "supply_step e (camt cs') u v" for c cs' t u v
    using supply_step_trans [OF that] by (simp add: supply_step_def)
qed (use assms(1) in \<open>auto simp: supply_step_def\<close>)

lemma sub_supply_loop_run:
  assumes "supply_ok e s" "coins_ok (validDenom e) cs"
  shows "if \<forall>c \<in> set cs. Amount c \<le> sup_of s (Denom c)
    then \<exists>s'. sforeach (sub_supply e) cs s = (Inr (), s') \<and> supply_step e (\<lambda>d. - camt cs d) s s'
    else \<exists>x s'. sforeach (sub_supply e) cs s = (Inl x, s') \<and> (\<exists>m. x = Panic m)"
proof (rule coin_loop_run [where I = "supply_ok e"])
  show "distinct (map Denom cs)" by (rule coins_ok_valid(2) [OF assms(2)])
  show "if Amount c \<le> sup_of t (Denom c)
      then \<exists>s'. sub_supply e c t = (Inr (), s') \<and> supply_step e (\<lambda>d. - camt [c] d) t s'
      else \<exists>x s'. sub_supply e c t = (Inl x, s') \<and> (\<exists>m. x = Panic m)"
    if "c \<in> set cs" "supply_ok e t" for c t
    using sub_supply_run [OF that(2), of c] coins_ok_valid(1) [OF assms(2)] that(1) by auto
  show "supply_step e (\<lambda>d. - camt (c # cs') d) t v"
    if "supply_step e (\<lambda>d. - camt [c] d) t u" "supply_step e (\<lambda>d. - camt cs' d) u v" for c cs' t u v
    using supply_step_trans [OF that] by (simp add: supply_step_def)
qed (use assms(1) in \<open>auto simp: supply_step_def\<close>)

section \<open>Operations on the ledger\<close>

text \<open>The abstract effect of an operation: \<open>f\<close> is added to the balances and \<open>g\<close> to the supply, and the
  invariant holds again.\<close>

definition ledger_update ::
  "bank_env \<Rightarrow> (string \<Rightarrow> string \<Rightarrow> int) \<Rightarrow> (string \<Rightarrow> int) \<Rightarrow> bank_state \<Rightarrow> bank_state \<Rightarrow> bool" where
  "ledger_update e f g s s' \<longleftrightarrow> bank_ok e s' \<and> (\<forall>a d. bal s' a d = bal s a d + f a d) \<and>
     (\<forall>d. sup_of s' d = sup_of s d + g d)"

definition pay :: "string \<Rightarrow> string \<Rightarrow> Coin list \<Rightarrow> string \<Rightarrow> string \<Rightarrow> int" where
  "pay a b cs x d = (if x = b then camt cs d else 0) - (if x = a then camt cs d else 0)"

definition credit :: "string \<Rightarrow> Coin list \<Rightarrow> string \<Rightarrow> string \<Rightarrow> int" where
  "credit a cs x d = (if x = a then camt cs d else 0)"

lemma transferred_update: "transferred e a b cs s s' \<Longrightarrow> ledger_update e (pay a b cs) (\<lambda>_. 0) s s'"
  by (simp add: transferred_def ledger_update_def pay_def)

lemma ledger_update_trans:
  "ledger_update e f g s t \<Longrightarrow> ledger_update e f' g' t u \<Longrightarrow>
     ledger_update e (\<lambda>a d. f a d + f' a d) (\<lambda>d. g d + g' d) s u"
  by (simp add: ledger_update_def)

lemma more_fields:
  assumes "auth_state.more s' = auth_state.more (s :: bank_state)"
  shows "Balances s' = Balances s" "Supply s' = Supply s" "BlockTime s' = BlockTime s" "Events s' = Events s"
    "SendEnabledMap s' = SendEnabledMap s" "ParamsItem s' = ParamsItem s" "DenomMetadata s' = DenomMetadata s"
  using assms by (cases s; cases s'; simp)+

lemma GetModuleAccount_bank:
  assumes "bank_ok e s" "GetModuleAccount e m s = (Inr (Some acc), t)"
  shows "ledger_update e (\<lambda>_ _. 0) (\<lambda>_. 0) s t \<and> is_ModuleAccount acc \<and> GetModuleAddress e m = Some (GetAddress acc) \<and>
    Balances t = Balances s \<and> Supply t = Supply s"
proof -
  note m = GetModuleAccount_ok [OF bank_okD(3) [OF assms(1)] assms(2)]
  then have more: "auth_state.more t = auth_state.more s" by blast
  note f = more_fields [OF more]
  have "vesting_ok e t"
    using m module_account_added_vesting [of "GetAddress acc" "Accounts s" "Accounts t"] bank_okD(4) [OF assms(1)]
    unfolding vesting_ok_def by blast
  with assms(1) f m show ?thesis
    by (auto simp: ledger_update_def bank_ok_def balances_ok_def supply_ok_def bal_def held_def)
qed

lemma emit_run [simp]: "EmitKV ev s = (Inr (), s\<lparr>Events := Events s @ [ev]\<rparr>)"
  by (simp add: EmitKV_def sm_run)

lemma ledger_update_events [simp]: "ledger_update e f g s (t\<lparr>Events := v\<rparr>) = ledger_update e f g s t"
  by (simp add: ledger_update_def bank_ok_def balances_ok_def supply_ok_def vesting_ok_def bal_def held_def)

text \<open>A change of one balance and the matching change of the supply.\<close>

lemma ledger_and_supply:
  assumes "bank_ok e s" "ledger_step e a f s t" "supply_step e f t u"
  shows "ledger_update e (\<lambda>x d. if x = a then f d else 0) f s u"
proof -
  note r = same_rest_fields [OF ledger_stepD(2) [OF assms(2)]] and q = supply_step_fields [OF assms(3)]
  have "held u d = held s d + f d" "sup_of u d = sup_of s d + f d" for d
    using assms(3) ledger_stepD(4) [OF assms(2), of d] r(2) q(2) by (simp_all add: held_def supply_step_def)
  moreover have "bal u x d = bal s x d + (if x = a then f d else 0)" for x d
    using ledger_stepD(3) [OF assms(2), of x d] q(2) by (simp add: bal_def)
  moreover have "balances_ok e u" using ledger_stepD(1) [OF assms(2)] q(2) by (simp add: balances_ok_def)
  moreover have "supply_ok e u" using assms(3) by (simp add: supply_step_def)
  ultimately show ?thesis using assms(1) r(1) q(1) by (simp add: ledger_update_def bank_ok_def vesting_ok_def)
qed

lemma MintCoins_run:
  assumes "bank_ok e s" "coins_ok (validDenom e) cs" "mintCoinsRestrictionFn e cs = Inr ()"
    and "GetModuleAccount e m s = (Inr (Some acc), t)" "HasPermission (GetPermissions acc) ''minter''"
    and "BytesToString e (GetAddress acc) = Inr astr"
  shows "if \<forall>d. camt cs d \<noteq> 0 \<longrightarrow> int256 (sup_of s d + camt cs d)
    then \<exists>s'. MintCoins e m cs s = (Inr (), s') \<and> ledger_update e (credit (GetAddress acc) cs) (camt cs) s s'
    else \<exists>x s'. MintCoins e m cs s = (Inl (Panic x), s')"
proof -
  let ?a = "GetAddress acc"
  have valid: "Coins_IsValid (validDenom e) cs" using assms(2) by (simp add: coins_ok_def)
  note mod = GetModuleAccount_bank [OF assms(1,4)]
  then have ok: "bank_ok e t" by (simp add: ledger_update_def)
  have sup: "sup_of t = sup_of s" using mod by simp
  note run = MintCoins_def assms(3-6) valid sbind_def sm_run
  note add = addCoins_run [OF bank_okD(1) [OF ok] assms(2), of ?a]
  show ?thesis
  proof (cases "fits t ?a cs")
    case True
    with add assms(6) obtain u where u: "addCoins e ?a cs t = (Inr (), u)" "ledger_step e ?a (camt cs) t u" by auto
    note r = same_rest_fields [OF ledger_stepD(2) [OF u(2)]]
    have supu: "supply_ok e u" using bank_okD(2) [OF ok] r(2) by (simp add: supply_ok_def)
    have eq: "(\<forall>c \<in> set cs. int256 (sup_of u (Denom c) + Amount c)) = (\<forall>d. camt cs d \<noteq> 0 \<longrightarrow> int256 (sup_of s d + camt cs d))"
      using ball_amt [OF assms(2), of "\<lambda>d x. x \<noteq> 0 \<longrightarrow> int256 (sup_of s d + x)"] coins_ok_valid(1) [OF assms(2)] r(2) sup
      by (auto simp: valid_coin_def)
    note loop = add_supply_loop_run [OF supu assms(2), unfolded eq]
    show ?thesis
    proof (cases "\<forall>d. camt cs d \<noteq> 0 \<longrightarrow> int256 (sup_of s d + camt cs d)")
      case fit: True
      with loop obtain v where v: "sforeach (add_supply e) cs u = (Inr (), v)" "supply_step e (camt cs) u v" by auto
      have "ledger_update e (credit ?a cs) (camt cs) s v"
        using ledger_update_trans [OF conjunct1 [OF mod] ledger_and_supply [OF ok u(2) v(2)]] by (simp add: credit_def [abs_def])
      with fit u(1) v(1) show ?thesis by (simp add: run)
    next
      case False
      with loop obtain x v where "sforeach (add_supply e) cs u = (Inl (Panic x), v)" by (auto split: if_split_asm)
      with False u(1) show ?thesis by (auto simp: run)
    qed
  next
    case False
    then obtain d where d: "camt cs d \<noteq> 0" "\<not> int256 (bal t ?a d + camt cs d)" by (auto simp: fits_def)
    have "\<not> int256 (sup_of s d + camt cs d)"
    proof
      assume i: "int256 (sup_of s d + camt cs d)"
      have "bal t ?a d \<le> sup_of s d" using bal_le_held [OF bank_okD(1) [OF ok], of ?a d] bank_okD(5) [OF ok, of d] sup by simp
      then have "int256 (bal t ?a d + camt cs d)"
        using bal_bounds [OF bank_okD(1) [OF ok], of ?a d] coins_ok_nonneg [OF assms(2), of d]
        by (intro int256_between [OF i]) auto
      with d(2) show False by contradiction
    qed
    with d(1) have nf: "\<not> (\<forall>d. camt cs d \<noteq> 0 \<longrightarrow> int256 (sup_of s d + camt cs d))" by blast
    from False add obtain x u where "addCoins e ?a cs t = (Inl (Panic x), u)" by auto
    with nf show ?thesis by (auto simp: run)
  qed
qed

lemma BurnCoins_run:
  assumes "bank_ok e s" "coins_ok (validDenom e) cs" "map_of (Accounts s) a = Some acc"
    and "is_ModuleAccount acc \<longrightarrow> HasPermission (GetPermissions acc) ''burner''" "BytesToString e a = Inr astr"
  shows "if covered e s a cs
    then \<exists>s'. BurnCoins e a cs s = (Inr (), s') \<and> ledger_update e (\<lambda>x d. - credit a cs x d) (\<lambda>d. - camt cs d) s s'
    else \<exists>s'. BurnCoins e a cs s = (Inl ErrInsufficientFunds, s')"
proof -
  have valid: "Coins_IsValid (validDenom e) cs" using assms(2) by (simp add: coins_ok_def)
  have addr: "GetAddress acc = a" by (rule accounts_ok_addr [OF bank_okD(3) [OF assms(1)] assms(3)])
  note ok = bank_okD [OF assms(1)]
  note run = BurnCoins_def GetAccount_def addr assms(3-5) valid sbind_def sm_run
  note sub = subUnlockedCoins_run [OF ok(1,4) assms(2), of a]
  show ?thesis
  proof (cases "covered e s a cs")
    case True
    with sub assms(5) obtain u where u: "subUnlockedCoins e a cs s = (Inr (), u)" "ledger_step e a (\<lambda>d. - camt cs d) s u" by auto
    note r = same_rest_fields [OF ledger_stepD(2) [OF u(2)]]
    have supu: "supply_ok e u" using ok(2) r(2) by (simp add: supply_ok_def)
    have "camt cs d \<le> sup_of u d" for d
      using True bal_le_held [OF ok(1), of a d] ok(5) [of d] locked_nonneg [OF ok(4), of a d] supply_bounds [OF ok(2), of d] r(2)
      by (cases "camt cs d = 0") (auto simp: covered_def)
    then have "\<forall>c \<in> set cs. Amount c \<le> sup_of u (Denom c)" using coins_ok_amt [OF assms(2)] by metis
    with sub_supply_loop_run [OF supu assms(2)] obtain v where
      v: "sforeach (sub_supply e) cs u = (Inr (), v)" "supply_step e (\<lambda>d. - camt cs d) u v" by auto
    have "(\<lambda>x d. if x = a then - camt cs d else 0) = (\<lambda>x d. - credit a cs x d)" by (auto simp: credit_def fun_eq_iff)
    with ledger_and_supply [OF assms(1) u(2) v(2)]
    have "ledger_update e (\<lambda>x d. - credit a cs x d) (\<lambda>d. - camt cs d) s v" by simp
    with True u(1) v(1) show ?thesis by (auto simp: run)
  next
    case False
    with sub show ?thesis by (auto simp: run)
  qed
qed

lemma typed_ok: "Coins_IsValid vd cs \<Longrightarrow> \<forall>c \<in> set cs. int256 (Amount c) \<Longrightarrow> coins_ok vd cs"
  by (simp add: coins_ok_def list_all_iff)

lemma MintCoins_success:
  assumes "bank_ok e s" "\<forall>c \<in> set cs. int256 (Amount c)" "MintCoins e m cs s = (Inr u, s')"
  shows "\<exists>a. GetModuleAddress e m = Some a \<and> coins_ok (validDenom e) cs \<and> ledger_update e (credit a cs) (camt cs) s s'"
proof -
  from assms(3) obtain acc t astr where p: "mintCoinsRestrictionFn e cs = Inr ()"
    "GetModuleAccount e m s = (Inr (Some acc), t)" "HasPermission (GetPermissions acc) ''minter''"
    "BytesToString e (GetAddress acc) = Inr astr" and valid: "Coins_IsValid (validDenom e) cs"
    by (auto simp: MintCoins_def sm_simps split: option.splits if_splits)
  note ok = typed_ok [OF valid assms(2)]
  from MintCoins_run [OF assms(1) ok p] assms(3) ok GetModuleAccount_bank [OF assms(1) p(2)] show ?thesis
    by (auto split: if_split_asm)
qed

lemma BurnCoins_success:
  assumes "bank_ok e s" "\<forall>c \<in> set cs. int256 (Amount c)" "BurnCoins e a cs s = (Inr u, s')"
  shows "coins_ok (validDenom e) cs \<and> covered e s a cs \<and>
    (\<exists>acc. map_of (Accounts s) a = Some acc \<and> (is_ModuleAccount acc \<longrightarrow> HasPermission (GetPermissions acc) ''burner'')) \<and>
    ledger_update e (\<lambda>x d. - credit a cs x d) (\<lambda>d. - camt cs d) s s'"
proof -
  from assms(3) obtain acc astr where p: "map_of (Accounts s) a = Some acc"
    "is_ModuleAccount acc \<longrightarrow> HasPermission (GetPermissions acc) ''burner''"
    and str: "BytesToString e (GetAddress acc) = Inr astr" and valid: "Coins_IsValid (validDenom e) cs"
    by (auto simp: BurnCoins_def GetAccount_def sm_simps split: option.splits if_splits)
  have str': "BytesToString e a = Inr astr"
    using str accounts_ok_addr [OF bank_okD(3) [OF assms(1)] p(1)] by simp
  note ok = typed_ok [OF valid assms(2)]
  from BurnCoins_run [OF assms(1) ok p str'] assms(3) ok p show ?thesis
    by (auto split: if_split_asm)
qed

subsection \<open>Delegation\<close>

text \<open>Recording a delegation changes at most one vesting account.\<close>

definition accounts_step :: "bank_env \<Rightarrow> bank_state \<Rightarrow> bank_state \<Rightarrow> bool" where
  "accounts_step e s s' \<longleftrightarrow> (\<exists>accs. s' = s\<lparr>Accounts := accs\<rparr> \<and> accounts_ok accs \<and> vesting_ok e s')"

lemma track_step:
  assumes "accounts_ok (Accounts s)" "vesting_ok e s" "track s = (Inr u, s')"
    and run: "track s = (case map_of (Accounts s) a of
        Some (VestingAcc b va) \<Rightarrow> (case f va of Inl x \<Rightarrow> (Inl x, s) | Inr va' \<Rightarrow> SetAccount (VestingAcc b va') s)
      | r \<Rightarrow> (g r, s))"
    and keeps: "\<And>va va'. va_ok (validDenom e) va \<Longrightarrow> f va = Inr va' \<Longrightarrow> va_ok (validDenom e) va'"
  shows "accounts_step e s s'"
proof (cases "\<exists>b va. map_of (Accounts s) a = Some (VestingAcc b va)")
  case True
  then obtain b va where va: "map_of (Accounts s) a = Some (VestingAcc b va)" by blast
  with assms(3) run obtain va' where va': "f va = Inr va'" "SetAccount (VestingAcc b va') s = (Inr u, s')"
    by (auto split: sum.splits)
  have ok: "va_ok (validDenom e) va'" using assms(2) va keeps [OF _ va'(1)] by (auto simp: vesting_ok_def)
  have "GetAddress (VestingAcc b va) = a" by (rule accounts_ok_addr [OF assms(1) va])
  then have a: "GetAddress (VestingAcc b va') = a" by (simp add: GetAddress_def)
  have s': "accounts_ok (Accounts s')" "s' = s\<lparr>Accounts := om_set a (VestingAcc b va') (Accounts s)\<rparr>"
    using SetAccount_ok [OF assms(1) va'(2)] a by auto
  moreover have "vesting_ok e s'"
    using assms(2) ok by (auto simp: vesting_ok_def s'(2) om_simps split: if_splits)
  moreover have "accounts_ok (om_set a (VestingAcc b va') (Accounts s))" using s'(1) unfolding s'(2) by simp
  ultimately show ?thesis unfolding accounts_step_def by blast
next
  case False
  with assms(3) run have "s' = s" by (auto split: option.splits account.splits)
  then show ?thesis using assms(1,2) by (auto simp: accounts_step_def intro!: exI [of _ "Accounts s"])
qed

lemma trackDelegation_step:
  assumes "accounts_ok (Accounts s)" "vesting_ok e s" "coins_ok (validDenom e) cs" "trackDelegation e a bs cs s = (Inr u, s')"
  shows "accounts_step e s s'"
  using assms(1,2,4)
proof (rule track_step)
  show "trackDelegation e a bs cs s = (case map_of (Accounts s) a of
      Some (VestingAcc b va) \<Rightarrow> (case va_TrackDelegation (validDenom e) va (BlockTime s) bs cs of
        Inl x \<Rightarrow> (Inl x, s) | Inr va' \<Rightarrow> SetAccount (VestingAcc b va') s)
    | r \<Rightarrow> (if r = None \<and> \<not> IsAccountsModuleAccount e a then Inl ErrUnknownAddress else Inr (), s))"
    by (auto simp: trackDelegation_def GetAccount_def HasAccount_def sm_run sbind_def split: option.splits account.splits sum.splits)
qed (rule va_TrackDelegation_keeps [OF _ assms(3)])

lemma trackUndelegation_step:
  assumes "accounts_ok (Accounts s)" "vesting_ok e s" "coins_ok (validDenom e) cs" "trackUndelegation e a cs s = (Inr u, s')"
  shows "accounts_step e s s'"
  using assms(1,2,4)
proof (rule track_step)
  show "trackUndelegation e a cs s = (case map_of (Accounts s) a of
      Some (VestingAcc b va) \<Rightarrow> (case va_TrackUndelegation (validDenom e) va cs of
        Inl x \<Rightarrow> (Inl x, s) | Inr va' \<Rightarrow> SetAccount (VestingAcc b va') s)
    | r \<Rightarrow> (if r = None \<and> \<not> IsAccountsModuleAccount e a then Inl ErrUnknownAddress else Inr (), s))"
    by (auto simp: trackUndelegation_def GetAccount_def HasAccount_def sm_run sbind_def split: option.splits account.splits sum.splits)
qed (rule va_TrackUndelegation_keeps [OF _ assms(3)])

text \<open>A debit, a change of the account store and a credit of the same coins.\<close>

lemma debit_track_credit:
  assumes "bank_ok e s" "ledger_step e a (\<lambda>d. - camt cs d) s t" "accounts_step e t u"
    and "ledger_step e b (camt cs) u v"
  shows "ledger_update e (pay a b cs) (\<lambda>_. 0) s v"
proof -
  obtain accs where u: "u = t\<lparr>Accounts := accs\<rparr>" "accounts_ok accs" "vesting_ok e u"
    using assms(3) by (auto simp: accounts_step_def)
  have eq: "bal u = bal t" "held u = held t" "Supply u = Supply t"
    by (simp_all add: u(1) bal_def held_def fun_eq_iff)
  note r = same_rest_fields [OF ledger_stepD(2) [OF assms(2)]] and q = same_rest_fields [OF ledger_stepD(2) [OF assms(4)]]
  have "held v d = held s d" for d
    using ledger_stepD(4) [OF assms(4), of d] ledger_stepD(4) [OF assms(2), of d] eq by simp
  moreover have "Supply v = Supply s" using r(2) q(2) eq by simp
  moreover have "bal v x d = bal s x d + pay a b cs x d" for x d
    using ledger_stepD(3) [OF assms(4), of x d] ledger_stepD(3) [OF assms(2), of x d] eq by (simp add: pay_def)
  moreover have "accounts_ok (Accounts v)" "vesting_ok e v"
    using u q(1) by (simp_all add: vesting_ok_def)
  ultimately show ?thesis
    using assms(1) ledger_stepD(1) [OF assms(4)] by (simp add: ledger_update_def bank_ok_def supply_ok_def)
qed

lemma delegate_coin_success:
  assumes "balances_ok e s" "valid_coin e c" "delegate_coin e a bs c s = (Inr bs', s')"
  shows "ledger_step e a (\<lambda>d. - camt [c] d) s s' \<and> Amount c \<le> bal s a (Denom c)"
proof -
  let ?d = "Denom c" and ?b = "bal s a (Denom c)"
  have vd: "validDenom e ?d" and c: "0 < Amount c" "int256 (Amount c)" using assms(2) by (auto simp: valid_coin_def)
  have b: "0 \<le> ?b" "int256 ?b" using bal_bounds [OF assms(1)] by auto
  have i: "int256 (?b - Amount c)" using int256_diff [OF b(2) c(2) b(1)] c by simp
  have le: "Amount c \<le> ?b" and set: "setBalance e a \<lparr> Denom = ?d, Amount = ?b - Amount c \<rparr> s = (Inr (), s')"
    using assms(3) i
    by (auto simp: delegate_coin_def GetBalance_run [OF assms(1) vd] sm_simps Coin_IsLT_def same_denom_def Coin_Sub_def
        Coin_SafeSub_def sdkint split: if_splits)
  have "(\<lambda>d. if d = ?d then (?b - Amount c) - bal s a ?d else 0) = (\<lambda>d. - camt [c] d)" by auto
  with setBalance_step [OF assms(1) vd _ i, of a] set le show ?thesis by auto
qed

lemma delegate_loop_success:
  assumes "balances_ok e s" "\<forall>c \<in> set cs. valid_coin e c" "sfold (delegate_coin e a) bs cs s = (Inr bs', s')"
  shows "ledger_step e a (\<lambda>d. - camt cs d) s s'"
  using assms
proof (induction cs arbitrary: bs s)
  case Nil
  then show ?case by (simp add: sm_run ledger_step_def)
next
  case (Cons c cs)
  from Cons.prems(3) obtain b t where t: "delegate_coin e a bs c s = (Inr b, t)" "sfold (delegate_coin e a) b cs t = (Inr bs', s')"
    by (auto simp: sm_simps)
  have l: "ledger_step e a (\<lambda>d. - camt [c] d) s t" using delegate_coin_success [OF Cons.prems(1) _ t(1)] Cons.prems(2) by simp
  have "ledger_step e a (\<lambda>d. - camt cs d) t s'" using Cons.IH [OF ledger_stepD(1) [OF l] _ t(2)] Cons.prems(2) by simp
  from ledger_step_trans [OF l this] show ?case by (simp add: ledger_step_def)
qed

lemma DelegateCoins_success:
  assumes "bank_ok e s" "\<forall>c \<in> set cs. int256 (Amount c)" "DelegateCoins e a b cs s = (Inr u, s')"
  shows "coins_ok (validDenom e) cs \<and> ledger_update e (pay a b cs) (\<lambda>_. 0) s s'"
proof -
  from assms(3) obtain bs t w astr where valid: "Coins_IsValid (validDenom e) cs"
    and t: "sfold (delegate_coin e a) [] cs s = (Inr bs, t)" and w: "trackDelegation e a bs cs t = (Inr (), w)"
    and v: "addCoins e b cs (w\<lparr>Events := Events w @ [EventCoinSpent astr cs]\<rparr>) = (Inr (), s')"
    by (auto simp: DelegateCoins_def GetAccount_def sm_simps split: if_splits)
  note ok = typed_ok [OF valid assms(2)]
  have lt: "ledger_step e a (\<lambda>d. - camt cs d) s t"
    by (rule delegate_loop_success [OF bank_okD(1) [OF assms(1)] coins_ok_valid(1) [OF ok] t])
  note r = same_rest_fields [OF ledger_stepD(2) [OF lt]]
  have acc: "accounts_step e t w"
    using trackDelegation_step [OF _ _ ok w] bank_okD(3,4) [OF assms(1)] r(1) by (simp add: vesting_ok_def)
  let ?w = "w\<lparr>Events := Events w @ [EventCoinSpent astr cs]\<rparr>"
  let ?t = "t\<lparr>Events := Events w @ [EventCoinSpent astr cs]\<rparr>"
  obtain accs where accs: "w = t\<lparr>Accounts := accs\<rparr>" "accounts_ok accs" "vesting_ok e w"
    using acc by (auto simp: accounts_step_def)
  then have acc': "accounts_step e ?t ?w"
    unfolding accounts_step_def by (intro exI [of _ accs]) (simp add: vesting_ok_def)
  have "balances_ok e ?w" using ledger_stepD(1) [OF lt] acc by (auto simp: accounts_step_def balances_ok_def)
  from addCoins_run [OF this ok, of b] v have "ledger_step e b (camt cs) ?w s'" by (auto split: if_split_asm sum.splits)
  with debit_track_credit [OF assms(1) _ acc', of a cs b s'] lt ok show ?thesis by simp
qed

lemma UndelegateCoins_success:
  assumes "bank_ok e s" "\<forall>c \<in> set cs. int256 (Amount c)" "UndelegateCoins e a b cs s = (Inr u, s')"
  shows "coins_ok (validDenom e) cs \<and> covered e s a cs \<and> ledger_update e (pay a b cs) (\<lambda>_. 0) s s'"
proof -
  from assms(3) obtain t w where valid: "Coins_IsValid (validDenom e) cs"
    and t: "subUnlockedCoins e a cs s = (Inr (), t)" and w: "trackUndelegation e b cs t = (Inr (), w)"
    and v: "addCoins e b cs w = (Inr (), s')"
    by (auto simp: UndelegateCoins_def GetAccount_def sm_simps split: if_splits)
  note ok = typed_ok [OF valid assms(2)]
  have lt: "ledger_step e a (\<lambda>d. - camt cs d) s t" "covered e s a cs"
    using subUnlockedCoins_run [OF bank_okD(1,4) [OF assms(1)] ok, of a] t by (auto split: if_split_asm sum.splits)
  note r = same_rest_fields [OF ledger_stepD(2) [OF lt(1)]]
  have acc: "accounts_step e t w"
    using trackUndelegation_step [OF _ _ ok w] bank_okD(3,4) [OF assms(1)] r(1) by (simp add: vesting_ok_def)
  have "balances_ok e w" using ledger_stepD(1) [OF lt(1)] acc by (auto simp: accounts_step_def balances_ok_def)
  from addCoins_run [OF this ok, of b] v have "ledger_step e b (camt cs) w s'" by (auto split: if_split_asm sum.splits)
  with debit_track_credit [OF assms(1) lt(1) acc, of b s'] lt ok show ?thesis by simp
qed

subsection \<open>Multi-send\<close>

definition outputs_typed :: "Output list \<Rightarrow> bool" where
  "outputs_typed outs \<longleftrightarrow> (\<forall>out \<in> set outs. \<forall>c \<in> set (OCoins out). int256 (Amount c))"

lemma Coins_Equal_amt: "Coins_Equal a b \<Longrightarrow> camt a = camt b"
  using camt_Sort [of a] camt_Sort [of b] by (auto simp: Coins_Equal_def list_all2_eq [symmetric])

lemma outputs_sum:
  assumes "rfold (\<lambda>total out. rbind (Output_ValidateBasic e out) (\<lambda>_. Coins_Add total (OCoins out))) acc outs = Inr r"
    and "coins_ok (validDenom e) acc" "outputs_typed outs"
  shows "(\<forall>out \<in> set outs. coins_ok (validDenom e) (OCoins out)) \<and>
    (\<forall>d. camt r d = camt acc d + (\<Sum>out\<leftarrow>outs. camt (OCoins out) d))"
  using assms
proof (induction outs arbitrary: acc)
  case (Cons out outs)
  from Cons.prems(1) obtain t where valid: "Coins_IsValid (validDenom e) (OCoins out)" and t: "Coins_Add acc (OCoins out) = Inr t"
    and rest: "rfold (\<lambda>total out. rbind (Output_ValidateBasic e out) (\<lambda>_. Coins_Add total (OCoins out))) t outs = Inr r"
    by (auto simp: res_simps Output_ValidateBasic_def split: if_splits)
  have ok: "coins_ok (validDenom e) (OCoins out)"
    using typed_ok [OF valid] Cons.prems(3) by (simp add: outputs_typed_def)
  note add = Coins_Add_ok [OF Cons.prems(2) ok t]
  show ?case using Cons.IH [OF rest] add ok Cons.prems(3) by (simp add: outputs_typed_def)
qed simp

lemma ValidateInputOutputs_ok:
  assumes "ValidateInputOutputs e i outs = Inr u" "outputs_typed outs" "\<forall>c \<in> set (ICoins i). int256 (Amount c)"
  shows "coins_ok (validDenom e) (ICoins i) \<and> (\<forall>out \<in> set outs. coins_ok (validDenom e) (OCoins out)) \<and>
    (\<forall>d. camt (ICoins i) d = (\<Sum>out\<leftarrow>outs. camt (OCoins out) d))"
proof -
  from assms(1) obtain r where valid: "Coins_IsValid (validDenom e) (ICoins i)" and eq: "Coins_Equal (ICoins i) r"
    and r: "rfold (\<lambda>total out. rbind (Output_ValidateBasic e out) (\<lambda>_. Coins_Add total (OCoins out))) [] outs = Inr r"
    by (auto simp: ValidateInputOutputs_def Input_ValidateBasic_def res_simps split: if_splits)
  have "coins_ok (validDenom e) []" by (simp add: coins_ok_iff)
  from outputs_sum [OF r this assms(2)] Coins_Equal_amt [OF eq] typed_ok [OF valid assms(3)] show ?thesis by simp
qed

lemma credit_loop_success:
  assumes "balances_ok e s" "\<forall>(b, out) \<in> set sending. coins_ok (validDenom e) (OCoins out)"
    and "sforeach (\<lambda>(b, out). sbind (addCoins e b (OCoins out)) (\<lambda>_. EmitKV (ev out))) sending s = (Inr u, s')"
  shows "balances_ok e s' \<and> same_rest s s' \<and>
    (\<forall>x d. bal s' x d = bal s x d + (\<Sum>(b, out)\<leftarrow>sending. credit b (OCoins out) x d)) \<and>
    (\<forall>d. held s' d = held s d + (\<Sum>(b, out)\<leftarrow>sending. camt (OCoins out) d))"
  using assms
proof (induction sending arbitrary: s)
  case (Cons p sending)
  obtain b out where p: "p = (b, out)" by force
  from Cons.prems(3) p obtain t v t' where t: "addCoins e b (OCoins out) s = (Inr (), t)"
    and t': "EmitKV (ev out) t = (Inr v, t')"
    and rest: "sforeach (\<lambda>(b, out). sbind (addCoins e b (OCoins out)) (\<lambda>_. EmitKV (ev out))) sending t' = (Inr u, s')"
    by (auto simp: sbind_Inr_iff simp del: emit_run)
  from t' rest have rest: "sforeach (\<lambda>(b, out). sbind (addCoins e b (OCoins out)) (\<lambda>_. EmitKV (ev out))) sending
      (t\<lparr>Events := Events t @ [ev out]\<rparr>) = (Inr u, s')"
    unfolding emit_run by auto
  have "coins_ok (validDenom e) (OCoins out)" using Cons.prems(2) p by simp
  from addCoins_run [OF Cons.prems(1) this, of b] t
  have l: "ledger_step e b (camt (OCoins out)) s (t\<lparr>Events := Events t @ [ev out]\<rparr>)"
    by (auto split: if_split_asm sum.splits)
  have IH: "balances_ok e s' \<and> same_rest (t\<lparr>Events := Events t @ [ev out]\<rparr>) s' \<and>
    (\<forall>x d. bal s' x d = bal (t\<lparr>Events := Events t @ [ev out]\<rparr>) x d + (\<Sum>(b, out)\<leftarrow>sending. credit b (OCoins out) x d)) \<and>
    (\<forall>d. held s' d = held (t\<lparr>Events := Events t @ [ev out]\<rparr>) d + (\<Sum>(b, out)\<leftarrow>sending. camt (OCoins out) d))"
    using Cons.IH [OF ledger_stepD(1) [OF l] _ rest] Cons.prems(2) by simp
  have "same_rest s s'" using same_rest_trans [OF ledger_stepD(2) [OF l]] IH by blast
  with IH ledger_stepD(3,4) [OF l] show ?case by (simp add: p credit_def)
qed (simp add: sm_run)

lemma InputOutputCoins_success:
  assumes "bank_ok e s" "\<forall>c \<in> set (ICoins i). int256 (Amount c)" "outputs_typed outs"
    and "InputOutputCoins e i outs s = (Inr u, s')"
  shows "\<exists>a sending. StringToBytes e (IAddress i) = Inr a \<and> map snd sending = outs \<and>
    list_all (\<lambda>(b, out). \<exists>o'. StringToBytes e (OAddress out) = Inr o' \<and> sendRestriction_apply e a o' (OCoins out) = Inr b) sending \<and>
    covered e s a (ICoins i) \<and>
    ledger_update e (\<lambda>x d. (\<Sum>(b, out)\<leftarrow>sending. credit b (OCoins out) x d) - credit a (ICoins i) x d) (\<lambda>_. 0) s s'"
proof -
  from assms(4) obtain a sending t where v: "ValidateInputOutputs e i outs = Inr ()" and a: "StringToBytes e (IAddress i) = Inr a"
    and sending: "rmap (\<lambda>out. rbind (StringToBytes e (OAddress out)) (\<lambda>o'.
      rbind (sendRestriction_apply e a o' (OCoins out)) (\<lambda>b. Inr (b, out)))) outs = Inr sending"
    and t: "subUnlockedCoins e a (ICoins i) s = (Inr (), t)"
    and loop: "sforeach (\<lambda>(b, out). sbind (addCoins e b (OCoins out))
      (\<lambda>_. EmitKV (EventTransfer (OAddress out) (IAddress i) (OCoins out)))) sending t = (Inr u, s')"
    by (auto simp: InputOutputCoins_def sm_simps)
  have l2: "list_all2 (\<lambda>out p. snd p = out \<and> (\<exists>o'. StringToBytes e (OAddress out) = Inr o' \<and>
      sendRestriction_apply e a o' (OCoins out) = Inr (fst p))) outs sending"
    using sending unfolding rmap_Inr_iff by (rule list_all2_mono) (auto simp: res_simps)
  then have out: "map snd sending = outs" by (induction rule: list_all2_induct) auto
  note ok = ValidateInputOutputs_ok [OF v assms(3,2)]
  have lt: "ledger_step e a (\<lambda>d. - camt (ICoins i) d) s t" "covered e s a (ICoins i)"
    using subUnlockedCoins_run [OF bank_okD(1,4) [OF assms(1)] conjunct1 [OF ok], of a] t by (auto split: if_split_asm sum.splits)
  have "\<forall>(b, out) \<in> set sending. coins_ok (validDenom e) (OCoins out)" using ok out by fastforce
  note cr = credit_loop_success [OF ledger_stepD(1) [OF lt(1)] this loop]
  have total: "(\<Sum>(b, out)\<leftarrow>sending. camt (OCoins out) d) = camt (ICoins i) d" for d
    using ok unfolding out [symmetric] by (simp add: comp_def case_prod_beta')
  have same: "same_rest s s'" using cr ledger_stepD(2) [OF lt(1)] same_rest_trans by blast
  have held: "held s' d = held s d" for d using cr ledger_stepD(4) [OF lt(1), of d] total [of d] by simp
  have "bank_ok e s'" using bank_ok_same [OF assms(1) same] cr held by blast
  moreover have "bal s' x d = bal s x d + ((\<Sum>(b, out)\<leftarrow>sending. credit b (OCoins out) x d) - credit a (ICoins i) x d)" for x d
    using cr ledger_stepD(3) [OF lt(1), of x d] by (simp add: credit_def)
  ultimately have "ledger_update e (\<lambda>x d. (\<Sum>(b, out)\<leftarrow>sending. credit b (OCoins out) x d) - credit a (ICoins i) x d) (\<lambda>_. 0) s s'"
    using same_rest_fields(2) [OF same] by (simp add: ledger_update_def)
  moreover have "list_all (\<lambda>(b, out). \<exists>o'. StringToBytes e (OAddress out) = Inr o' \<and> sendRestriction_apply e a o' (OCoins out) = Inr b) sending"
    using l2 by (induction rule: list_all2_induct) auto
  ultimately show ?thesis using a out lt(2) by blast
qed

section \<open>Views\<close>

lemma collect_coins:
  assumes "om_ok es" "\<forall>x \<in> set es. fst (fst x) = a \<and> validDenom e (snd (fst x)) \<and> 0 < snd x \<and> int256 (snd x)"
    and "coins_ok (validDenom e) acc" "\<forall>x \<in> set es. camt acc (snd (fst x)) = 0"
  shows "\<exists>r. rfold (\<lambda>balances ((_, denom), x). rbind (NewCoin (validDenom e) denom x) (\<lambda>b. Coins_Add balances [b])) acc es = Inr r \<and>
    coins_ok (validDenom e) r \<and> (\<forall>d. camt r d = camt acc d + (\<Sum>x\<leftarrow>es. if snd (fst x) = d then snd x else 0))"
  using assms
proof (induction es arbitrary: acc)
  case (Cons y es)
  obtain d x where y: "y = ((a, d), x)" using Cons.prems(2) by (cases y) auto
  let ?c = "\<lparr> Denom = d, Amount = x \<rparr>"
  have v: "validDenom e d" "0 < x" "int256 x" and z: "camt acc d = 0" using Cons.prems(2,4) y by auto
  have c: "coins_ok (validDenom e) [?c]" using v by (simp add: coins_ok_iff)
  have "int256 (camt acc d' + camt [?c] d')" for d'
    using z v coins_ok_fits [OF Cons.prems(3), of d'] by (cases "d' = d") auto
  then obtain t where t: "Coins_Add acc [?c] = Inr t" using Coins_Add_total [OF Cons.prems(3) c] by blast
  note add = Coins_Add_ok [OF Cons.prems(3) c t]
  have "snd (fst w) \<noteq> d" if "w \<in> set es" for w
    using Cons.prems(1,2) that y by (cases w) (force simp: om_ok_def)
  then have "\<forall>w \<in> set es. camt t (snd (fst w)) = 0" using add Cons.prems(4) by auto
  with Cons.IH [of t] Cons.prems(1,2) add y obtain r where
    "rfold (\<lambda>balances ((_, denom), x). rbind (NewCoin (validDenom e) denom x) (\<lambda>b. Coins_Add balances [b])) t es = Inr r"
    "coins_ok (validDenom e) r" "\<forall>d'. camt r d' = camt t d' + (\<Sum>x\<leftarrow>es. if snd (fst x) = d' then snd x else 0)"
    by auto
  then show ?case using y v t add by (auto simp: NewCoin_ok)
qed simp

lemma bal_filter:
  "om_ok (Balances s) \<Longrightarrow>
     (\<Sum>x\<leftarrow>filter (\<lambda>((b, _), _). b = a) (Balances s). if snd (fst x) = d then snd x else 0) = bal s a d"
proof -
  have "(\<Sum>x\<leftarrow>filter (\<lambda>((b, _), _). b = a) xs. if snd (fst x) = d then snd x else 0) =
    (\<Sum>x\<leftarrow>xs. if fst x = (a, d) then snd x else (0 :: int))" for xs :: "((string \<times> string) \<times> int) list"
    by (induction xs) auto
  then show "om_ok (Balances s) \<Longrightarrow> ?thesis" by (simp add: bal_entries)
qed

lemma GetAllBalances_run:
  assumes "balances_ok e s"
  shows "\<exists>cs. GetAllBalances e a s = (Inr cs, s) \<and> coins_ok (validDenom e) cs \<and> camt cs = bal s a"
proof -
  let ?es = "filter (\<lambda>((b, _), _). b = a) (Balances s)"
  have om: "om_ok (Balances s)" using assms by (simp add: balances_ok_def)
  have "\<exists>r. rfold (\<lambda>balances ((_, denom), x). rbind (NewCoin (validDenom e) denom x) (\<lambda>b. Coins_Add balances [b])) [] ?es = Inr r \<and>
    coins_ok (validDenom e) r \<and> (\<forall>d. camt r d = camt [] d + (\<Sum>x\<leftarrow>?es. if snd (fst x) = d then snd x else 0))"
    using assms by (intro collect_coins [where a = a]) (auto simp: balances_ok_def coins_ok_iff)
  then obtain r where r: "rfold (\<lambda>balances ((_, denom), x). rbind (NewCoin (validDenom e) denom x) (\<lambda>b. Coins_Add balances [b])) [] ?es = Inr r"
    "coins_ok (validDenom e) r" "\<forall>d. camt r d = bal s a d"
    using bal_filter [OF om] by auto
  have "Coins_Sort r = r"
    using r(2) by (simp add: Coins_Sort_def coins_ok_iff canon_sorted sort_key_id_if_sorted)
  with r show ?thesis by (auto simp: GetAllBalances_def sm_run)
qed

lemma coins_ok_positive_part:
  assumes "canon (cps cs)" "\<forall>x \<in> set cs. int256 (Amount x)" "\<And>d. camt cs d \<noteq> 0 \<Longrightarrow> vd d"
  shows "coins_ok vd (filter Coin_IsPositive cs) \<and> (\<forall>d. camt (filter Coin_IsPositive cs) d = max 0 (camt cs d))"
proof -
  have f: "cps (filter Coin_IsPositive cs) = filter (\<lambda>x. 0 < snd x) (cps cs)" by (induction cs) auto
  have ok: "om_ok (cps cs)" using assms(1) by (simp add: canon_def)
  have "amt (filter (\<lambda>x. 0 < snd x) xs) d = max 0 (amt xs d)" if "om_ok xs" for xs d
    using that
  proof (induction xs)
    case (Cons x xs)
    have "fst x = d \<Longrightarrow> amt xs d = 0 \<and> amt (filter (\<lambda>x. 0 < snd x) xs) d = 0"
      using Cons.prems by (cases x) (auto intro!: amt_absent)
    with Cons show ?case by (cases x) auto
  qed simp
  then have a: "camt (filter Coin_IsPositive cs) d = max 0 (camt cs d)" for d using f ok by simp
  have "vd (Denom x)" if "x \<in> set cs" for x using canon_denoms [OF assms(1) that] assms(3) by auto
  then have "coins_ok vd (filter Coin_IsPositive cs)"
    using ok assms(2) by (auto simp: coins_ok_iff canon_def f)
  with a show ?thesis by blast
qed

lemma SpendableCoins_run:
  assumes "balances_ok e s" "vesting_ok e s"
  shows "\<exists>cs. SpendableCoins e a s = (Inr cs, s) \<and> coins_ok (validDenom e) cs \<and>
    (\<forall>d. camt cs d = max 0 (bal s a d - locked e s a d))"
proof -
  obtain t where t: "GetAllBalances e a s = (Inr t, s)" "coins_ok (validDenom e) t" "camt t = bal s a"
    using GetAllBalances_run [OF assms(1)] by blast
  obtain l where l: "LockedCoins e a s = (Inr l, s)" "coins_ok (validDenom e) l" "camt l = locked e s a"
    using LockedCoins_run [OF assms(2)] by blast
  have nn: "0 \<le> bal s a d" "0 \<le> locked e s a d" for d
    using bal_bounds [OF assms(1)] locked_nonneg [OF assms(2)] by auto
  note run = SpendableCoins_def t(1) l(1) sbind_def sm_run
  show ?thesis
  proof (cases "Coins_IsZero l")
    case True
    then have "locked e s a d = 0" for d
      unfolding l(3) [symmetric] using camt_in [of l d] coins_ok_amt [OF l(2)] by (auto simp: Coins_IsZero_def list_all_iff)
    then show ?thesis using True t nn by (auto simp: run)
  next
    case False
    obtain diff where diff: "Coins_SafeSub (validDenom e) t l = Inr (diff, \<exists>d. camt t d < camt l d)" "canon (cps diff)"
      "\<forall>d. camt diff d = camt t d - camt l d" "\<forall>x \<in> set diff. int256 (Amount x)"
      using Coins_SafeSub_ok [OF t(2) l(2)] by blast
    have vd: "validDenom e d" if "camt diff d \<noteq> 0" for d
      using that diff(3) coins_ok_vd [OF t(2), of d] coins_ok_vd [OF l(2), of d] by fastforce
    note pos = coins_ok_positive_part [OF diff(2,4) vd]
    show ?thesis
    proof (cases "\<exists>d. camt t d < camt l d")
      case True
      then show ?thesis using False diff pos t(3) l(3) by (auto simp: run)
    next
      case ge: False
      then have "coins_ok (validDenom e) diff" using diff vd by (intro coins_okI) (auto simp: not_less)
      with ge False diff t(3) l(3) show ?thesis by (auto simp: run not_less)
    qed
  qed
qed

lemma SpendableCoin_run:
  assumes "balances_ok e s" "vesting_ok e s" "validDenom e d"
  shows "SpendableCoin e a d s = (Inr \<lparr> Denom = d, Amount = max 0 (bal s a d - locked e s a d) \<rparr>, s)"
proof -
  obtain l where l: "LockedCoins e a s = (Inr l, s)" "coins_ok (validDenom e) l" "camt l = locked e s a"
    using LockedCoins_run [OF assms(2)] by blast
  have b: "0 \<le> bal s a d" "int256 (bal s a d)" "0 \<le> locked e s a d" "int256 (locked e s a d)"
    using bal_bounds [OF assms(1)] locked_nonneg [OF assms(2)] coins_ok_fits [OF l(2), of d] l(3) by auto
  have "Coins_AmountOf (validDenom e) l d = Inr (locked e s a d)" using Coins_AmountOf_ok [OF l(2) assms(3)] l(3) by simp
  with int256_diff [OF b(2,4,1,3)] b(1,3) assms(3) show ?thesis
    by (auto simp: SpendableCoin_def GetBalance_run [OF assms(1,3)] l(1) sbind_def sm_run Coin_SubAmount_def sdkint NewCoin_ok)
qed

section \<open>The contract of the keeper\<close>

text \<open>
  What modules that mint and pay out coins rely on (\<open>BankKeeper\<close> of \<open>src/x/mint/types/expected_keepers.go\<close>):
  an invariant under which no set of accounts holds more than the supply, a mint that credits the
  account of the module and raises the supply by the same coins, and a transfer from the account of one module to that of
  another, or to the one a send restriction redirects it to, that moves coins the sender has and keeps the supply.
\<close>

locale bank_ledger =
  fixes inv :: "'s \<Rightarrow> bool"
    and balance :: "'s \<Rightarrow> string \<Rightarrow> string \<Rightarrow> int"
    and total :: "'s \<Rightarrow> string \<Rightarrow> int"
    and account_of :: "string \<Rightarrow> string option"
    and redirect :: "string \<Rightarrow> string \<Rightarrow> Coin list \<Rightarrow> string res"
    and mint :: "string \<Rightarrow> Coin list \<Rightarrow> ('s, unit) sm"
    and transfer :: "string \<Rightarrow> string \<Rightarrow> Coin list \<Rightarrow> ('s, unit) sm"
  assumes balance_nonneg: "inv s \<Longrightarrow> 0 \<le> balance s a d"
    and balance_sum: "inv s \<Longrightarrow> finite A \<Longrightarrow> (\<Sum>a\<in>A. balance s a d) \<le> total s d"
    and mint_law: "inv s \<Longrightarrow> \<forall>c \<in> set cs. int256 (Amount c) \<Longrightarrow> mint m cs s = (Inr u, s') \<Longrightarrow>
      inv s' \<and> (\<forall>d. total s' d = total s d + camt cs d) \<and>
      (\<exists>a. account_of m = Some a \<and> (\<forall>x d. balance s' x d = balance s x d + credit a cs x d))"
    and transfer_law: "inv s \<Longrightarrow> \<forall>c \<in> set cs. int256 (Amount c) \<Longrightarrow> transfer m m' cs s = (Inr u, s') \<Longrightarrow>
      inv s' \<and> total s' = total s \<and>
      (\<exists>a c b. account_of m = Some a \<and> account_of m' = Some c \<and> redirect a c cs = Inr b \<and>
        (\<forall>d. camt cs d \<le> balance s a d) \<and> (\<forall>x d. balance s' x d = balance s x d + pay a b cs x d))"
begin

lemma total_nonneg: "inv s \<Longrightarrow> 0 \<le> total s d"
  using balance_sum [of s "{}" d] by simp

text \<open>Coins minted and paid out leave the account of the module as it was and reach the account of the other module.\<close>

lemma mint_and_transfer:
  assumes "inv s" "\<forall>c \<in> set cs. int256 (Amount c)" "mint m cs s = (Inr u, t)" "transfer m m' cs t = (Inr v, s')"
  shows "inv s' \<and> (\<forall>d. total s' d = total s d + camt cs d) \<and>
    (\<exists>a c b. account_of m = Some a \<and> account_of m' = Some c \<and> redirect a c cs = Inr b \<and>
      (\<forall>x d. balance s' x d = balance s x d + credit b cs x d))"
proof -
  from mint_law [OF assms(1,2,3)] obtain a where a: "inv t" "\<forall>d. total t d = total s d + camt cs d" "account_of m = Some a"
    "\<forall>x d. balance t x d = balance s x d + credit a cs x d" by blast
  from transfer_law [OF a(1) assms(2,4)] a(3) obtain c b where b: "inv s'" "total s' = total t"
    "\<forall>x d. balance s' x d = balance t x d + pay a b cs x d" "account_of m' = Some c" "redirect a c cs = Inr b" by auto
  have "balance s' x d = balance s x d + credit b cs x d" for x d
    using a(4) b(3) by (simp add: pay_def credit_def)
  with a(2,3) b(1,2,4,5) show ?thesis by auto
qed

end

lemma ModuleToModule_success:
  assumes "bank_ok e s" "\<forall>c \<in> set cs. int256 (Amount c)" "SendCoinsFromModuleToModule e m m' cs s = (Inr u, s')"
  shows "\<exists>a c b. GetModuleAddress e m = Some a \<and> GetModuleAddress e m' = Some c \<and> sendRestriction_apply e a c cs = Inr b \<and>
    (\<forall>d. camt cs d \<le> bal s a d) \<and> ledger_update e (pay a b cs) (\<lambda>_. 0) s s'"
proof -
  from assms(3) obtain a acc t where a: "GetModuleAddress e m = Some a"
    and t: "GetModuleAccount e m' s = (Inr (Some acc), t)" "SendCoins e a (GetAddress acc) cs t = (Inr u, s')"
    by (auto simp: SendCoinsFromModuleToModule_def sm_simps split: option.splits)
  note l = GetModuleAccount_bank [OF assms(1) t(1)]
  then have ok: "bank_ok e t" and bt: "bal t = bal s" by (auto simp: ledger_update_def bal_def intro!: ext)
  from SendCoins_success [OF ok assms(2) t(2)] obtain b where b: "covered e t a cs" "transferred e a b cs t s'"
    "sendRestriction_apply e a (GetAddress acc) cs = Inr b" by blast
  have "camt cs d \<le> bal s a d" for d
    using b(1) locked_nonneg [OF bank_okD(4) [OF ok], of a d] bal_bounds [OF bank_okD(1) [OF ok], of a d] bt
    by (cases "camt cs d = 0") (auto simp: covered_def dest!: spec [of _ d])
  with a l b(3) ledger_update_trans [OF conjunct1 [OF l] transferred_update [OF b(2)]] show ?thesis by auto
qed

interpretation keeper: bank_ledger "bank_ok e" bal sup_of "GetModuleAddress e" "sendRestriction_apply e"
  "MintCoins e" "SendCoinsFromModuleToModule e"
  for e
proof (unfold_locales, goal_cases)
  case (1 s a d)
  then show ?case using bal_bounds [OF bank_okD(1)] by blast
next
  case (2 s A d)
  then show ?case using sum_bal_held [OF bank_okD(1)] bank_okD(5) by metis
next
  case (3 s cs m u s')
  then show ?case using MintCoins_success [of e s cs m u s'] by (auto simp: ledger_update_def)
next
  case (4 s cs m m' u s')
  then show ?case using ModuleToModule_success [of e s cs m m' u s'] by (fastforce simp: ledger_update_def)
qed

end
