(* ===== verification/BankMsgs.thy ===== *)
theory BankMsgs
  imports BankLedger
begin

text \<open>
  The message server of \<open>x/bank\<close> (\<open>src/x/bank/keeper/msg_server.go\<close>, \<open>src/x/bank/types/params.go\<close>)
  and the state machine of the bank: its transactions and the calls of other modules as a step relation
  whose reachable states keep the supply invariant.
\<close>

section \<open>Messages\<close>

record MsgSend =
  FromAddress :: string
  ToAddress :: string
  MAmount :: "Coin list"

record MsgMultiSend =
  Inputs :: "Input list"
  Outputs :: "Output list"

record MsgUpdateParams =
  UAuthority :: string
  UParams :: Params

record MsgSetSendEnabled =
  SAuthority :: string
  SSendEnabled :: "SendEnabled list"
  UseDefaultFor :: "string list"

record MsgBurn =
  BFromAddress :: string
  BAmount :: "Coin list"

definition msg_Send :: "bank_env \<Rightarrow> MsgSend \<Rightarrow> unit bank" where
  "msg_Send e msg =
     sbind (slift (StringToBytes e (FromAddress msg))) (\<lambda>from.
     sbind (slift (StringToBytes e (ToAddress msg))) (\<lambda>to.
       if \<not> Coins_IsValid (validDenom e) (MAmount msg) then sfail ErrInvalidCoins
       else if \<not> Coins_IsAllPositive (MAmount msg) then sfail ErrInvalidCoins
       else sbind (IsSendEnabledCoins (MAmount msg)) (\<lambda>_.
         sbind (slift (BlockedAddr e to)) (\<lambda>blocked.
           if blocked then sfail ErrUnauthorized else SendCoins e from to (MAmount msg)))))"

definition msg_MultiSend :: "bank_env \<Rightarrow> MsgMultiSend \<Rightarrow> unit bank" where
  "msg_MultiSend e msg =
     (case Inputs msg of
        [] \<Rightarrow> sfail (Err ''no inputs to send transaction'')
      | _ # _ # _ \<Rightarrow> sfail (Err ''multiple senders not allowed'')
      | [i] \<Rightarrow>
          if Outputs msg = [] then sfail (Err ''no outputs to send transaction'')
          else sbind (slift (ValidateInputOutputs e i (Outputs msg))) (\<lambda>_.
            sbind (sforeach (\<lambda>inp. IsSendEnabledCoins (ICoins inp)) (Inputs msg)) (\<lambda>_.
            sbind (sforeach (\<lambda>out.
              sbind (slift (StringToBytes e (OAddress out))) (\<lambda>accAddr.
              sbind (slift (BlockedAddr e accAddr)) (\<lambda>blocked.
                if blocked then sfail ErrUnauthorized else sret ()))) (Outputs msg)) (\<lambda>_.
              InputOutputCoins e i (Outputs msg)))))"

definition Params_Validate :: "Params \<Rightarrow> unit res" where
  "Params_Validate p =
     (if PSendEnabled p \<noteq> [] then Inl (Err ''use of send_enabled in params is no longer supported'') else Inr ())"

definition msg_UpdateParams :: "bank_env \<Rightarrow> MsgUpdateParams \<Rightarrow> unit bank" where
  "msg_UpdateParams e req =
     (if authority e \<noteq> UAuthority req then sfail (Err ''invalid authority'')
      else sbind (slift (Params_Validate (UParams req))) (\<lambda>_. SetParams (UParams req)))"

definition SendEnabled_Validate :: "bank_env \<Rightarrow> SendEnabled \<Rightarrow> unit res" where
  "SendEnabled_Validate e se = ValidateDenom (validDenom e) (SEDenom se)"

fun check_send_enabled :: "bank_env \<Rightarrow> string set \<Rightarrow> SendEnabled list \<Rightarrow> unit res" where
  "check_send_enabled e seen [] = Inr ()"
| "check_send_enabled e seen (se # ses) =
     (if SEDenom se \<in> seen then Inl (Err ''duplicate denom entries found'')
      else rbind (SendEnabled_Validate e se) (\<lambda>_. check_send_enabled e (insert (SEDenom se) seen) ses))"

definition msg_SetSendEnabled :: "bank_env \<Rightarrow> MsgSetSendEnabled \<Rightarrow> unit bank" where
  "msg_SetSendEnabled e msg =
     (if authority e \<noteq> SAuthority msg then sfail (Err ''invalid authority'')
      else sbind (slift (check_send_enabled e {} (SSendEnabled msg))) (\<lambda>_.
        sbind (slift (rfold (\<lambda>_ denom. ValidateDenom (validDenom e) denom) () (UseDefaultFor msg))) (\<lambda>_.
        sbind (if SSendEnabled msg \<noteq> [] then SetAllSendEnabled (SSendEnabled msg) else sret ()) (\<lambda>_.
          if UseDefaultFor msg \<noteq> [] then DeleteSendEnabled (UseDefaultFor msg) else sret ()))))"

definition msg_Burn :: "bank_env \<Rightarrow> MsgBurn \<Rightarrow> unit bank" where
  "msg_Burn e msg =
     sbind (slift (rfold (\<lambda>coins coin. rbind (NewCoin (validDenom e) (Denom coin) (Amount coin)) (\<lambda>c. Coins_Add coins [c]))
       [] (BAmount msg))) (\<lambda>coins.
     sbind (slift (StringToBytes e (BFromAddress msg))) (\<lambda>from.
       if \<not> Coins_IsValid (validDenom e) coins then sfail ErrInvalidCoins
       else if \<not> Coins_IsAllPositive coins then sfail ErrInvalidCoins
       else BurnCoins e from coins))"

section \<open>Effects of the messages\<close>

lemma IsSendEnabledCoins_state: "IsSendEnabledCoins cs s = (r, s') \<Longrightarrow> s' = s"
proof -
  have "sforeach (\<lambda>coin. sbind (getSendEnabledOrDefault (Denom coin) v) (\<lambda>b. if \<not> b then sfail ErrSendDisabled else sret ())) cs t = (r', t')
    \<Longrightarrow> t' = t" for v cs t r' t'
    by (erule sforeach_invariant [where I = "\<lambda>x. x = t"]) (auto simp: getSendEnabledOrDefault_def sm_run split: if_splits)
  then show "IsSendEnabledCoins cs s = (r, s') \<Longrightarrow> s' = s"
    by (auto simp: IsSendEnabledCoins_def GetParams_def sm_run split: if_splits)
qed

lemma send_enabled_frame:
  "SetSendEnabled d v s = (Inr (), s\<lparr>SendEnabledMap := om_set d v (SendEnabledMap s)\<rparr>)"
  by (simp add: SetSendEnabled_def sm_run)

text \<open>The part of the state that the ledger depends on.\<close>

definition ledger_part :: "bank_state \<Rightarrow> bank_state" where
  "ledger_part s = s\<lparr>SendEnabledMap := [], ParamsItem := None, DenomMetadata := [], Events := []\<rparr>"

lemma ledger_part_fields:
  assumes "ledger_part s' = ledger_part s"
  shows "Balances s' = Balances s" "Supply s' = Supply s" "Accounts s' = Accounts s" "BlockTime s' = BlockTime s"
  using assms by (cases s; cases s'; simp add: ledger_part_def)+

lemma ledger_part_update:
  assumes "ledger_part s' = ledger_part s" "bank_ok e s"
  shows "ledger_update e (\<lambda>_ _. 0) (\<lambda>_. 0) s s'"
  using assms(2) ledger_part_fields [OF assms(1)]
  by (simp add: ledger_update_def bank_ok_def balances_ok_def supply_ok_def vesting_ok_def bal_def held_def)

lemma SetAllSendEnabled_frame: "SetAllSendEnabled es s = (r, s') \<Longrightarrow> ledger_part s' = ledger_part s"
  unfolding SetAllSendEnabled_def
  by (erule sforeach_invariant [where I = "\<lambda>t. ledger_part t = ledger_part s"]) (auto simp: send_enabled_frame ledger_part_def)

lemma DeleteSendEnabled_frame: "DeleteSendEnabled ds s = (r, s') \<Longrightarrow> ledger_part s' = ledger_part s"
  unfolding DeleteSendEnabled_def
  by (erule sforeach_invariant [where I = "\<lambda>t. ledger_part t = ledger_part s"]) (auto simp: sm_run ledger_part_def)

lemma SetParams_frame: "SetParams p s = (Inr u, s') \<Longrightarrow> ledger_part s' = ledger_part s"
  by (auto simp: SetParams_def sm_simps Let_def split: if_splits dest!: SetAllSendEnabled_frame) (simp_all add: ledger_part_def)

lemma msg_params_frame:
  "msg_UpdateParams e req s = (Inr u, s') \<Longrightarrow> ledger_part s' = ledger_part s \<and> UAuthority req = authority e"
  "msg_SetSendEnabled e msg s = (Inr u, s') \<Longrightarrow> ledger_part s' = ledger_part s \<and> SAuthority msg = authority e"
  by (auto simp: msg_UpdateParams_def msg_SetSendEnabled_def sm_simps split: if_splits
      dest!: SetParams_frame SetAllSendEnabled_frame DeleteSendEnabled_frame)

definition typed :: "Coin list \<Rightarrow> bool" where
  "typed cs \<longleftrightarrow> (\<forall>c \<in> set cs. int256 (Amount c))"

lemma msg_Send_success:
  assumes "bank_ok e s" "typed (MAmount msg)" "msg_Send e msg s = (Inr u, s')"
  shows "\<exists>a b b'. StringToBytes e (FromAddress msg) = Inr a \<and> StringToBytes e (ToAddress msg) = Inr b \<and>
    BlockedAddr e b = Inr False \<and> IsSendEnabledCoins (MAmount msg) s = (Inr (), s) \<and>
    sendRestriction_apply e a b (MAmount msg) = Inr b' \<and> coins_ok (validDenom e) (MAmount msg) \<and>
    covered e s a (MAmount msg) \<and> same_rest s s' \<and> ledger_update e (pay a b' (MAmount msg)) (\<lambda>_. 0) s s'"
proof -
  from assms(3) obtain a b t where p: "StringToBytes e (FromAddress msg) = Inr a" "StringToBytes e (ToAddress msg) = Inr b"
    "BlockedAddr e b = Inr False" and en: "IsSendEnabledCoins (MAmount msg) s = (Inr (), t)" and send: "SendCoins e a b (MAmount msg) t = (Inr u, s')"
    by (auto simp: msg_Send_def sm_simps split: if_splits)
  have t: "t = s" by (rule IsSendEnabledCoins_state [OF en])
  from SendCoins_success [OF assms(1) _ send [unfolded t]] assms(2) p en [unfolded t] show ?thesis
    by (auto simp: typed_def dest: transferred_update)
qed

lemma checks_state: "sforeach (\<lambda>x. sbind (slift (f x)) (\<lambda>y. sbind (slift (g y)) (\<lambda>b. if b then sfail z else sret ()))) xs s = (r, s') \<Longrightarrow> s' = s"
  by (erule sforeach_invariant [where I = "\<lambda>t. t = s"])
    (auto simp: sbind_def sm_run split: if_splits sum.splits)

lemma checks_pass: "sforeach (\<lambda>x. sbind (slift (f x)) (\<lambda>y. sbind (slift (g y)) (\<lambda>b. if b then sfail z else sret ()))) xs s = (Inr u, s') \<Longrightarrow>
    x \<in> set xs \<Longrightarrow> f x = Inr y \<Longrightarrow> g y = Inr False"
  by (induction xs arbitrary: s) (auto simp: sbind_def sm_run split: if_splits sum.splits prod.splits)

text \<open>The recipients of the outputs: the decoded address of an output is not blocked, and the restriction maps it to the one credited.\<close>

definition output_recipient :: "bank_env \<Rightarrow> string \<Rightarrow> string \<times> Output \<Rightarrow> bool" where
  "output_recipient e a = (\<lambda>(b, out). \<exists>to. StringToBytes e (OAddress out) = Inr to \<and> BlockedAddr e to = Inr False \<and>
     sendRestriction_apply e a to (OCoins out) = Inr b)"

lemma msg_MultiSend_success:
  assumes "bank_ok e s" "msg_MultiSend e msg s = (Inr u, s')"
    and "\<forall>i \<in> set (Inputs msg). typed (ICoins i)" "outputs_typed (Outputs msg)"
  shows "\<exists>i a sending. Inputs msg = [i] \<and> StringToBytes e (IAddress i) = Inr a \<and> map snd sending = Outputs msg \<and>
    list_all (output_recipient e a) sending \<and> covered e s a (ICoins i) \<and>
    ledger_update e (\<lambda>x d. (\<Sum>(b, out)\<leftarrow>sending. credit b (OCoins out) x d) - credit a (ICoins i) x d) (\<lambda>_. 0) s s'"
proof -
  from assms(2) obtain i t1 t2 where i: "Inputs msg = [i]"
    and t1: "IsSendEnabledCoins (ICoins i) s = (Inr (), t1)"
    and t2: "sforeach (\<lambda>out. sbind (slift (StringToBytes e (OAddress out))) (\<lambda>a. sbind (slift (BlockedAddr e a))
      (\<lambda>b. if b then sfail ErrUnauthorized else sret ()))) (Outputs msg) t1 = (Inr (), t2)"
    and io: "InputOutputCoins e i (Outputs msg) t2 = (Inr u, s')"
    by (auto simp: msg_MultiSend_def sm_simps split: list.splits if_splits)
  have "t2 = s" using IsSendEnabledCoins_state [OF t1] checks_state [OF t2] by simp
  moreover have "\<forall>c \<in> set (ICoins i). int256 (Amount c)" using assms(3) i by (auto simp: typed_def)
  ultimately obtain a sending where r: "StringToBytes e (IAddress i) = Inr a" "map snd sending = Outputs msg"
    "list_all (\<lambda>(b, out). \<exists>o'. StringToBytes e (OAddress out) = Inr o' \<and> sendRestriction_apply e a o' (OCoins out) = Inr b) sending"
    "covered e s a (ICoins i)"
    "ledger_update e (\<lambda>x d. (\<Sum>(b, out)\<leftarrow>sending. credit b (OCoins out) x d) - credit a (ICoins i) x d) (\<lambda>_. 0) s s'"
    using InputOutputCoins_success [OF assms(1) _ assms(4), of i u s'] io by blast
  have "out \<in> set (Outputs msg)" if "(b, out) \<in> set sending" for b out
    using that unfolding r(2) [symmetric] by force
  then have "list_all (output_recipient e a) sending"
    using r(3) checks_pass [OF t2] by (fastforce simp: list_all_iff output_recipient_def)
  with i r show ?thesis by blast
qed

lemma burn_coins_typed:
  assumes "rfold (\<lambda>coins coin. rbind (NewCoin vd (Denom coin) (Amount coin)) (\<lambda>c. Coins_Add coins [c])) acc cs = Inr r"
    and "\<forall>x \<in> set acc. int256 (Amount x)" "typed cs"
  shows "\<forall>x \<in> set r. int256 (Amount x)"
  using assms(1)
proof (rule rfold_invariant [where I = "\<lambda>cs. \<forall>x \<in> set cs. int256 (Amount x)"])
  fix a x b
  assume x: "x \<in> set cs" and a: "\<forall>y \<in> set a. int256 (Amount y)"
    and b: "rbind (NewCoin vd (Denom x) (Amount x)) (\<lambda>c. Coins_Add a [c]) = Inr b"
  from b obtain c where "NewCoin vd (Denom x) (Amount x) = Inr c" "Coins_safeAdd a [c] = Inr b"
    by (auto simp: res_simps Coins_Add_def)
  then show "\<forall>y \<in> set b. int256 (Amount y)"
    using x a assms(3) by (intro Coins_safeAdd_int256) (auto simp: NewCoin_Inr typed_def)
qed (rule assms(2))

lemma msg_Burn_success:
  assumes "bank_ok e s" "typed (BAmount msg)" "msg_Burn e msg s = (Inr u, s')"
  shows "\<exists>a cs. StringToBytes e (BFromAddress msg) = Inr a \<and> coins_ok (validDenom e) cs \<and> covered e s a cs \<and>
    (\<exists>acc. map_of (Accounts s) a = Some acc \<and> (is_ModuleAccount acc \<longrightarrow> HasPermission (GetPermissions acc) ''burner'')) \<and>
    ledger_update e (\<lambda>x d. - credit a cs x d) (\<lambda>d. - camt cs d) s s'"
proof -
  from assms(3) obtain a cs where a: "StringToBytes e (BFromAddress msg) = Inr a"
    and cs: "rfold (\<lambda>coins coin. rbind (NewCoin (validDenom e) (Denom coin) (Amount coin)) (\<lambda>c. Coins_Add coins [c])) [] (BAmount msg) = Inr cs"
    and burn: "BurnCoins e a cs s = (Inr u, s')"
    by (auto simp: msg_Burn_def sm_simps split: if_splits)
  have "\<forall>x \<in> set cs. int256 (Amount x)" by (rule burn_coins_typed [OF cs _ assms(2)]) simp
  from BurnCoins_success [OF assms(1) this burn] a show ?thesis by blast
qed

section \<open>Calls of other modules\<close>

lemma module_send_success:
  assumes "bank_ok e s" "typed cs"
    and "sbind (GetModuleAccount e m) (\<lambda>r. case r of None \<Rightarrow> sfail ErrUnknownAddress
        | Some acc \<Rightarrow> SendCoins e a (GetAddress acc) cs) s = (Inr u, s')"
  shows "\<exists>b. ledger_update e (pay a b cs) (\<lambda>_. 0) s s'"
proof -
  from assms(3) obtain acc t where t: "GetModuleAccount e m s = (Inr (Some acc), t)" "SendCoins e a (GetAddress acc) cs t = (Inr u, s')"
    by (auto simp: sm_simps split: option.splits)
  note l = GetModuleAccount_bank [OF assms(1) t(1)]
  then have "bank_ok e t" by (simp add: ledger_update_def)
  from SendCoins_success [OF this _ t(2)] assms(2) obtain b where "transferred e a b cs t s'" by (auto simp: typed_def)
  from ledger_update_trans [OF conjunct1 [OF l] transferred_update [OF this]] show ?thesis by auto
qed

lemma module_call_success:
  assumes "bank_ok e s"
    and "sbind (GetModuleAccount e m) (\<lambda>r. case r of None \<Rightarrow> sfail ErrUnknownAddress
        | Some acc \<Rightarrow> if \<not> HasPermission (GetPermissions acc) p then sfail ErrUnauthorized else f (GetAddress acc)) s = (Inr u, s')"
    and "\<And>a t. bank_ok e t \<Longrightarrow> f a t = (Inr u, s') \<Longrightarrow> \<exists>h. ledger_update e h (\<lambda>_. 0) t s'"
  shows "\<exists>h. ledger_update e h (\<lambda>_. 0) s s'"
proof -
  from assms(2) obtain acc t where t: "GetModuleAccount e m s = (Inr (Some acc), t)" "f (GetAddress acc) t = (Inr u, s')"
    by (auto simp: sm_simps split: option.splits if_splits)
  note l = GetModuleAccount_bank [OF assms(1) t(1)]
  then have "bank_ok e t" by (simp add: ledger_update_def)
  from assms(3) [OF this t(2)] obtain h where "ledger_update e h (\<lambda>_. 0) t s'" by blast
  from ledger_update_trans [OF conjunct1 [OF l] this] show ?thesis by auto
qed

lemma keeper_calls_success:
  assumes "bank_ok e s" "typed cs"
  shows "SendCoinsFromModuleToAccount e m b cs s = (Inr u, s') \<Longrightarrow> \<exists>f. ledger_update e f (\<lambda>_. 0) s s'"
    and "SendCoinsFromModuleToModule e m m' cs s = (Inr u, s') \<Longrightarrow> \<exists>f. ledger_update e f (\<lambda>_. 0) s s'"
    and "SendCoinsFromAccountToModule e a m cs s = (Inr u, s') \<Longrightarrow> \<exists>f. ledger_update e f (\<lambda>_. 0) s s'"
    and "DelegateCoinsFromAccountToModule e a m cs s = (Inr u, s') \<Longrightarrow> \<exists>f. ledger_update e f (\<lambda>_. 0) s s'"
    and "UndelegateCoinsFromModuleToAccount e m a cs s = (Inr u, s') \<Longrightarrow> \<exists>f. ledger_update e f (\<lambda>_. 0) s s'"
proof -
  have cs: "\<forall>c \<in> set cs. int256 (Amount c)" using assms(2) by (simp add: typed_def)
  show "SendCoinsFromModuleToAccount e m b cs s = (Inr u, s') \<Longrightarrow> \<exists>f. ledger_update e f (\<lambda>_. 0) s s'"
    using SendCoins_success [OF assms(1) cs] transferred_update
    by (fastforce simp: SendCoinsFromModuleToAccount_def sm_simps split: option.splits if_splits)
  show "SendCoinsFromModuleToModule e m m' cs s = (Inr u, s') \<Longrightarrow> \<exists>f. ledger_update e f (\<lambda>_. 0) s s'"
    using module_send_success [OF assms] by (fastforce simp: SendCoinsFromModuleToModule_def sm_run split: option.splits)
  show "SendCoinsFromAccountToModule e a m cs s = (Inr u, s') \<Longrightarrow> \<exists>f. ledger_update e f (\<lambda>_. 0) s s'"
    unfolding SendCoinsFromAccountToModule_def using module_send_success [OF assms] by blast
  show "DelegateCoinsFromAccountToModule e a m cs s = (Inr u, s') \<Longrightarrow> \<exists>f. ledger_update e f (\<lambda>_. 0) s s'"
    unfolding DelegateCoinsFromAccountToModule_def
    by (erule module_call_success [OF assms(1)]) (use DelegateCoins_success [OF _ cs] in blast)
  show "UndelegateCoinsFromModuleToAccount e m a cs s = (Inr u, s') \<Longrightarrow> \<exists>f. ledger_update e f (\<lambda>_. 0) s s'"
    unfolding UndelegateCoinsFromModuleToAccount_def
    by (erule module_call_success [OF assms(1)]) (use UndelegateCoins_success [OF _ cs] in blast)
qed

section \<open>The state machine\<close>

text \<open>The operations by which the state of the bank changes: its messages, and the keeper calls of other
  modules.\<close>

datatype bank_op =
    OpSend MsgSend | OpMultiSend MsgMultiSend | OpBurnMsg MsgBurn
  | OpUpdateParams MsgUpdateParams | OpSetSendEnabled MsgSetSendEnabled
  | OpMint string "Coin list" | OpBurn string "Coin list" | OpSendCoins string string "Coin list"
  | OpModuleToAccount string string "Coin list" | OpModuleToModule string string "Coin list"
  | OpAccountToModule string string "Coin list"
  | OpDelegate string string "Coin list" | OpUndelegate string string "Coin list" | OpSetMetadata Metadata

fun run_op :: "bank_env \<Rightarrow> bank_op \<Rightarrow> unit bank" where
  "run_op e (OpSend msg) = msg_Send e msg"
| "run_op e (OpMultiSend msg) = msg_MultiSend e msg"
| "run_op e (OpBurnMsg msg) = msg_Burn e msg"
| "run_op e (OpUpdateParams msg) = msg_UpdateParams e msg"
| "run_op e (OpSetSendEnabled msg) = msg_SetSendEnabled e msg"
| "run_op e (OpMint m cs) = MintCoins e m cs"
| "run_op e (OpBurn a cs) = BurnCoins e a cs"
| "run_op e (OpSendCoins a b cs) = SendCoins e a b cs"
| "run_op e (OpModuleToAccount m b cs) = SendCoinsFromModuleToAccount e m b cs"
| "run_op e (OpModuleToModule m m' cs) = SendCoinsFromModuleToModule e m m' cs"
| "run_op e (OpAccountToModule a m cs) = SendCoinsFromAccountToModule e a m cs"
| "run_op e (OpDelegate a m cs) = DelegateCoinsFromAccountToModule e a m cs"
| "run_op e (OpUndelegate m a cs) = UndelegateCoinsFromModuleToAccount e m a cs"
| "run_op e (OpSetMetadata m) = SetDenomMetaData m"

text \<open>Amounts in messages and calls are 256-bit integers.\<close>

fun op_typed :: "bank_op \<Rightarrow> bool" where
  "op_typed (OpSend msg) = typed (MAmount msg)"
| "op_typed (OpMultiSend msg) \<longleftrightarrow> list_all (\<lambda>i. typed (ICoins i)) (Inputs msg) \<and> outputs_typed (Outputs msg)"
| "op_typed (OpBurnMsg msg) = typed (BAmount msg)"
| "op_typed (OpMint m cs) = typed cs"
| "op_typed (OpBurn a cs) = typed cs"
| "op_typed (OpSendCoins a b cs) = typed cs"
| "op_typed (OpModuleToAccount m b cs) = typed cs"
| "op_typed (OpModuleToModule m m' cs) = typed cs"
| "op_typed (OpAccountToModule a m cs) = typed cs"
| "op_typed (OpDelegate a m cs) = typed cs"
| "op_typed (OpUndelegate m a cs) = typed cs"
| "op_typed _ = True"

fun is_mint :: "bank_op \<Rightarrow> bool" where
  "is_mint (OpMint _ _) = True"
| "is_mint _ = False"

fun is_burn :: "bank_op \<Rightarrow> bool" where
  "is_burn (OpBurn _ _) = True"
| "is_burn (OpBurnMsg _) = True"
| "is_burn _ = False"

text \<open>Every successful operation is an update of the ledger; only minting adds to the supply and only
  burning takes from it.\<close>

lemma run_op_update:
  assumes "bank_ok e s" "op_typed op" "run_op e op s = (Inr u, s')"
  shows "\<exists>f g. ledger_update e f g s s' \<and> (\<forall>d. 0 < g d \<longrightarrow> is_mint op) \<and> (\<forall>d. g d < 0 \<longrightarrow> is_burn op)"
proof (cases op)
  case (OpSend msg)
  then show ?thesis using msg_Send_success [OF assms(1)] assms by fastforce
next
  case (OpMultiSend msg)
  then show ?thesis using msg_MultiSend_success [OF assms(1), of msg] assms by (fastforce simp: list_all_iff)
next
  case (OpBurnMsg msg)
  then obtain a cs where cs: "coins_ok (validDenom e) cs" "ledger_update e (\<lambda>x d. - credit a cs x d) (\<lambda>d. - camt cs d) s s'"
    using msg_Burn_success [OF assms(1), of msg] assms by auto
  show ?thesis by (intro exI conjI, rule cs(2)) (use OpBurnMsg coins_ok_nonneg [OF cs(1)] in \<open>auto simp: not_less\<close>)
next
  case (OpUpdateParams msg)
  then show ?thesis using ledger_part_update [OF _ assms(1), of s'] msg_params_frame(1) [of e msg s u s'] assms(3) by fastforce
next
  case (OpSetSendEnabled msg)
  then show ?thesis using ledger_part_update [OF _ assms(1), of s'] msg_params_frame(2) [of e msg s u s'] assms(3) by fastforce
next
  case (OpMint m cs)
  then obtain a where cs: "coins_ok (validDenom e) cs" "ledger_update e (credit a cs) (camt cs) s s'"
    using MintCoins_success [OF assms(1), of cs m u s'] assms by (auto simp: typed_def)
  show ?thesis by (intro exI conjI, rule cs(2)) (use OpMint coins_ok_nonneg [OF cs(1)] in \<open>auto simp: not_less\<close>)
next
  case (OpBurn a cs)
  then have cs: "coins_ok (validDenom e) cs" "ledger_update e (\<lambda>x d. - credit a cs x d) (\<lambda>d. - camt cs d) s s'"
    using BurnCoins_success [OF assms(1)] assms by (auto simp: typed_def)
  show ?thesis by (intro exI conjI, rule cs(2)) (use OpBurn coins_ok_nonneg [OF cs(1)] in \<open>auto simp: not_less\<close>)
next
  case (OpSendCoins a b cs)
  then show ?thesis using SendCoins_success [OF assms(1)] transferred_update assms by (fastforce simp: typed_def)
next
  case (OpSetMetadata m)
  then have "ledger_part s' = ledger_part s" using assms by (auto simp: SetDenomMetaData_def sm_run ledger_part_def)
  with ledger_part_update [OF _ assms(1)] show ?thesis by fastforce
qed (use assms keeper_calls_success [OF assms(1)] in fastforce)+

text \<open>
  One step of the chain as the bank sees it.  A transaction or call runs on a branch of the state that is
  written back only when it succeeds (the branch is the cache store of \<open>src/store/cachekv\<close>), so a fault
  leaves the state as it was.  Accounts come from \<open>x/auth\<close>.  \<open>SetAccount\<close> itself checks nothing; the step admits only
  vesting accounts that have passed \<open>Validate\<close>, as the constructors of \<open>src/x/auth/vesting/types\<close> make them, and whose
  schedule does not overflow, which \<open>Validate\<close> does not exclude (the end of the theory \<open>Vesting\<close> has the examples).
\<close>

inductive bank_step :: "bank_env \<Rightarrow> bank_state \<Rightarrow> bank_state \<Rightarrow> bool" for e where
  committed: "op_typed op \<Longrightarrow> run_op e op s = (Inr (), s') \<Longrightarrow> bank_step e s s'"
| rolled_back: "run_op e op s = (Inl f, t) \<Longrightarrow> bank_step e s s"
| new_block: "BlockTime s \<le> t \<Longrightarrow> bank_step e s (s\<lparr>BlockTime := t, Events := []\<rparr>)"
| set_account: "\<forall>b va. acc = VestingAcc b va \<longrightarrow> va_ok (validDenom e) va \<Longrightarrow>
    SetAccount acc s = (Inr (), s') \<Longrightarrow> bank_step e s s'"

inductive_cases bank_stepE: "bank_step e s s'"

lemma set_account_ok:
  assumes "bank_ok e s" "\<forall>b va. acc = VestingAcc b va \<longrightarrow> va_ok (validDenom e) va" "SetAccount acc s = (Inr u, s')"
  shows "bank_ok e s'"
proof -
  note set = SetAccount_ok [OF bank_okD(3) [OF assms(1)] assms(3)]
  then have s': "s' = s\<lparr>Accounts := om_set (GetAddress acc) acc (Accounts s)\<rparr>" and ok: "accounts_ok (Accounts s')" by auto
  have "vesting_ok e s'"
    using bank_okD(4) [OF assms(1)] assms(2) by (auto simp: vesting_ok_def s' om_simps split: if_splits)
  with ok assms(1) show ?thesis by (auto simp: bank_ok_def balances_ok_def supply_ok_def held_def s')
qed

lemma bank_step_ok: "bank_step e s s' \<Longrightarrow> bank_ok e s \<Longrightarrow> bank_ok e s'"
proof (induction rule: bank_step.induct)
  case (committed op s s')
  then show ?case using run_op_update [of e s op "()" s'] by (auto simp: ledger_update_def)
next
  case (new_block s t)
  then show ?case by (simp add: bank_ok_def balances_ok_def supply_ok_def vesting_ok_def held_def)
next
  case (set_account acc s s')
  then show ?case using set_account_ok by blast
qed auto

lemma bank_reachable_ok: "(bank_step e)\<^sup>*\<^sup>* s s' \<Longrightarrow> bank_ok e s \<Longrightarrow> bank_ok e s'"
  by (induction rule: rtranclp_induct) (auto intro: bank_step_ok)

section \<open>When a send succeeds\<close>

definition send_enabled :: "bank_state \<Rightarrow> string \<Rightarrow> bool" where
  "send_enabled s d = (case map_of (SendEnabledMap s) d of Some v \<Rightarrow> v
     | None \<Rightarrow> (case ParamsItem s of Some p \<Rightarrow> DefaultSendEnabled p | None \<Rightarrow> False))"

lemma IsSendEnabledCoins_run:
  "IsSendEnabledCoins cs s = (if \<forall>c \<in> set cs. send_enabled s (Denom c) then Inr () else Inl ErrSendDisabled, s)"
proof -
  define v where "v = DefaultSendEnabled (case ParamsItem s of Some p \<Rightarrow> p | None \<Rightarrow> \<lparr> PSendEnabled = [], DefaultSendEnabled = False \<rparr>)"
  have v: "v = (case ParamsItem s of Some p \<Rightarrow> DefaultSendEnabled p | None \<Rightarrow> False)" by (simp add: v_def split: option.splits)
  have "sforeach (\<lambda>coin. sbind (getSendEnabledOrDefault (Denom coin) v) (\<lambda>b. if \<not> b then sfail ErrSendDisabled else sret ())) cs s
    = (if \<forall>c \<in> set cs. send_enabled s (Denom c) then Inr () else Inl ErrSendDisabled, s)" for cs
    unfolding send_enabled_def v [symmetric]
    by (induction cs) (auto simp: getSendEnabledOrDefault_def sm_run sbind_def)
  from this [of cs] show ?thesis
    unfolding IsSendEnabledCoins_def GetParams_def sbind_prim(3) v_def
    by (cases "cs = []") (simp_all only: if_True if_False sbind_prim(3), simp add: sm_run)
qed

text \<open>The guards of \<open>MsgSend\<close> before the transfer itself.\<close>

definition send_admitted :: "bank_env \<Rightarrow> MsgSend \<Rightarrow> bank_state \<Rightarrow> string \<Rightarrow> string \<Rightarrow> bool" where
  "send_admitted e msg s a b \<longleftrightarrow> StringToBytes e (FromAddress msg) = Inr a \<and> StringToBytes e (ToAddress msg) = Inr b \<and>
     Coins_IsValid (validDenom e) (MAmount msg) \<and> MAmount msg \<noteq> [] \<and>
     (\<forall>c \<in> set (MAmount msg). send_enabled s (Denom c)) \<and> BlockedAddr e b = Inr False"

lemma valid_all_positive: "Coins_IsValid vd cs \<Longrightarrow> Coins_IsAllPositive cs \<longleftrightarrow> cs \<noteq> []"
  by (auto simp: Coins_IsAllPositive_def Coins_IsValid_def Coins_Validate_iff list_all_iff)

lemma msg_Send_admitted:
  assumes "send_admitted e msg s a b"
  shows "msg_Send e msg s = SendCoins e a b (MAmount msg) s"
  using assms valid_all_positive [of "validDenom e" "MAmount msg"]
  by (auto simp: send_admitted_def msg_Send_def IsSendEnabledCoins_run sbind_def sm_run)

lemma msg_Send_refused:
  assumes "\<nexists>a b. send_admitted e msg s a b"
  shows "\<exists>f. msg_Send e msg s = (Inl f, s)"
  using assms valid_all_positive [of "validDenom e" "MAmount msg"]
  by (auto simp: send_admitted_def msg_Send_def IsSendEnabledCoins_run sbind_def sm_run split: sum.splits)

section \<open>An example chain\<close>

definition example_env :: bank_env where
  "example_env = \<lparr> maccPerms = (\<lambda>m. if m = ''mint'' then Some [''minter''] else None), NewModuleAddress = id,
     IsAccountsModuleAccount = (\<lambda>_. False), validDenom = (\<lambda>_. True), StringToBytes = Inr, BytesToString = Inr,
     AccAddressFromBech32 = Inr, blockedAddrs = (\<lambda>a. a = ''mint''), authority = ''gov'', sendRestrictionFn = None,
     mintCoinsRestrictionFn = (\<lambda>_. Inr ()) \<rparr>"

definition stake :: "int \<Rightarrow> Coin list" where
  "stake n = [\<lparr> Denom = ''stake'', Amount = n \<rparr>]"

definition example_bank :: bank_state where
  "example_bank = \<lparr> Accounts = [(''alice'', BaseAccount \<lparr> Address = ''alice'', AccountNumber = 0, Sequence = 0 \<rparr>)],
     AccountNumberSeq = 1, Balances = [((''alice'', ''stake''), 10)], Supply = [(''stake'', 10)], SendEnabledMap = [],
     DenomMetadata = [], ParamsItem = Some \<lparr> PSendEnabled = [], DefaultSendEnabled = True \<rparr>, Events = [], BlockTime = 0 \<rparr>"

lemma example_bank_ok: "bank_ok example_env example_bank"
  by (auto simp: bank_ok_def balances_ok_def supply_ok_def accounts_ok_def vesting_ok_def held_def example_bank_def
      example_env_def int256_def GetAddress_def)

lemma stake_ok: "0 < n \<Longrightarrow> int256 n \<Longrightarrow> coins_ok (validDenom example_env) (stake n)"
  by (simp add: stake_def coins_ok_iff example_env_def)

section \<open>Properties\<close>

text \<open>
  C1: The supply invariant of the bank.  Whatever sequence of messages, keeper calls of other modules, failed
  transactions, new blocks and new accounts (a vesting account validates and its schedule does not overflow) the
  chain goes through, for every denomination the recorded
  supply is the sum of all balances, no balance is negative, no set of accounts holds more than the
  supply, and the stored balances, supplies and vesting accounts stay well formed.
\<close>

theorem bank_supply_invariant:
  assumes "bank_ok e s" "(bank_step e)\<^sup>*\<^sup>* s s'"
  shows "bank_ok e s' \<and> (\<forall>d. held s' d = sup_of s' d) \<and> (\<forall>a d. 0 \<le> bal s' a d) \<and>
    (\<forall>A d. finite A \<longrightarrow> (\<Sum>a\<in>A. bal s' a d) \<le> sup_of s' d)"
proof -
  have ok: "bank_ok e s'" by (rule bank_reachable_ok [OF assms(2,1)])
  with bank_okD [OF ok] bal_bounds [of e s'] sum_bal_held [of e s'] show ?thesis by simp
qed

theorem bank_supply_invariant_witness:
  "\<exists>s'. (bank_step example_env)\<^sup>*\<^sup>* example_bank s' \<and> BlockTime s' = 5 \<and> held s' ''stake'' = sup_of s' ''stake''"
proof -
  have step: "bank_step example_env example_bank (example_bank\<lparr>BlockTime := 5, Events := []\<rparr>)"
    by (rule bank_step.new_block) (simp add: example_bank_def)
  from bank_supply_invariant [OF example_bank_ok r_into_rtranclp [where r = "bank_step example_env", OF step]] step
  show ?thesis by (intro exI [of _ "example_bank\<lparr>BlockTime := 5, Events := []\<rparr>"]) auto
qed

text \<open>
  C2: Who may change the supply.  A successful operation that raises the supply of a denomination is a mint
  by a module whose account has the minter permission, of exactly the minted amount, credited to that
  account; one that lowers it is a burn from an existing account, which has the burner permission if it is
  a module account.  Every other operation moves coins and creates or destroys none.
\<close>

theorem bank_supply_authority:
  assumes "bank_ok e s" "op_typed op" "run_op e op s = (Inr (), s')"
  shows "(sup_of s d < sup_of s' d \<longrightarrow> (\<exists>m cs acc t. op = OpMint m cs \<and> GetModuleAccount e m s = (Inr (Some acc), t) \<and>
       HasPermission (GetPermissions acc) ''minter'' \<and> sup_of s' d = sup_of s d + camt cs d \<and>
       bal s' (GetAddress acc) d = bal s (GetAddress acc) d + camt cs d)) \<and>
    (sup_of s' d < sup_of s d \<longrightarrow> is_burn op \<and> (\<exists>a cs acc. map_of (Accounts s) a = Some acc \<and>
       (is_ModuleAccount acc \<longrightarrow> HasPermission (GetPermissions acc) ''burner'') \<and>
       sup_of s' d = sup_of s d - camt cs d \<and> bal s' a d = bal s a d - camt cs d)) \<and>
    (\<not> is_mint op \<longrightarrow> \<not> is_burn op \<longrightarrow> sup_of s' = sup_of s)"
proof -
  from run_op_update [OF assms] obtain f g where fg: "ledger_update e f g s s'"
    "\<forall>d. 0 < g d \<longrightarrow> is_mint op" "\<forall>d. g d < 0 \<longrightarrow> is_burn op" by blast
  then have g: "sup_of s' x = sup_of s x + g x" for x by (simp add: ledger_update_def)
  have mint: "\<exists>m cs acc t. op = OpMint m cs \<and> GetModuleAccount e m s = (Inr (Some acc), t) \<and>
       HasPermission (GetPermissions acc) ''minter'' \<and> sup_of s' d = sup_of s d + camt cs d \<and>
       bal s' (GetAddress acc) d = bal s (GetAddress acc) d + camt cs d" if "is_mint op"
  proof -
    from that obtain m cs where op: "op = OpMint m cs" by (cases op) auto
    with assms obtain acc t where t: "GetModuleAccount e m s = (Inr (Some acc), t)" "HasPermission (GetPermissions acc) ''minter''"
      by (auto simp: MintCoins_def sm_simps split: option.splits if_splits)
    from MintCoins_success [OF assms(1), of cs m "()" s'] assms op obtain a where
      "GetModuleAddress e m = Some a" "ledger_update e (credit a cs) (camt cs) s s'" by (auto simp: typed_def)
    with GetModuleAccount_bank [OF assms(1) t(1)] op t show ?thesis
      by (auto simp: ledger_update_def credit_def)
  qed
  have burn: "\<exists>a cs acc. map_of (Accounts s) a = Some acc \<and>
       (is_ModuleAccount acc \<longrightarrow> HasPermission (GetPermissions acc) ''burner'') \<and>
       sup_of s' d = sup_of s d - camt cs d \<and> bal s' a d = bal s a d - camt cs d" if "is_burn op"
  proof -
    from that consider (msg) msg where "op = OpBurnMsg msg" | (call) a cs where "op = OpBurn a cs" by (cases op) auto
    then obtain a cs acc where "map_of (Accounts s) a = Some acc" "is_ModuleAccount acc \<longrightarrow> HasPermission (GetPermissions acc) ''burner''"
      "ledger_update e (\<lambda>x d. - credit a cs x d) (\<lambda>d. - camt cs d) s s'"
    proof cases
      case msg
      then show ?thesis using msg_Burn_success [OF assms(1), of msg "()" s'] assms that by auto
    next
      case call
      then show ?thesis using BurnCoins_success [OF assms(1), of cs a "()" s'] assms that by (auto simp: typed_def)
    qed
    then show ?thesis by (intro exI [of _ a] exI [of _ cs] exI [of _ acc]) (auto simp: ledger_update_def credit_def)
  qed
  have "sup_of s' = sup_of s" if "\<not> is_mint op" "\<not> is_burn op"
    using g fg(2,3) that by (metis add.right_neutral linorder_neqE_linordered_idom ext)
  then show ?thesis using mint burn g fg(2,3) by auto
qed

theorem bank_supply_authority_witness:
  "\<exists>s'. run_op example_env (OpMint ''mint'' (stake 5)) example_bank = (Inr (), s') \<and> sup_of s' ''stake'' = 15"
proof -
  let ?op = "OpMint ''mint'' (stake 5)"
  have "op_typed ?op" by (simp add: typed_def stake_def int256_def)
  moreover obtain s' where s': "run_op example_env ?op example_bank = (Inr (), s')" "sup_of example_bank ''stake'' < sup_of s' ''stake''"
  proof -
    obtain acc t where t: "GetModuleAccount example_env ''mint'' example_bank = (Inr (Some acc), t)"
      "HasPermission (GetPermissions acc) ''minter''"
      by (auto simp: GetModuleAccount_def GetModuleAccountAndPermissions_def GetModuleAddressAndPermissions_def GetAccount_def
          NewEmptyModuleAccount_def validatePermissions_def NewAccount_def NextAccountNumber_def SetAccount_def example_env_def
          example_bank_def sm_run sbind_def HasPermission_def SetAccountNumber_def GetAccountNumber_def GetAddress_def)
    have "BytesToString example_env (GetAddress acc) = Inr (GetAddress acc)" "mintCoinsRestrictionFn example_env (stake 5) = Inr ()"
      by (simp_all add: example_env_def)
    from MintCoins_run [OF example_bank_ok stake_ok this(2) t this(1)] that show ?thesis
      by (auto simp: int256_def stake_def example_bank_def ledger_update_def split: if_split_asm)
  qed
  ultimately show ?thesis
    using bank_supply_authority [OF example_bank_ok _ s'(1), of "''stake''"] by (auto simp: stake_def example_bank_def)
qed

lemma msg_Send_covered:
  assumes "bank_ok e s" "typed (MAmount msg)" "send_admitted e msg s a b" "sendRestriction_apply e a b (MAmount msg) = Inr b'"
    and "BytesToString e a = Inr astr" "BytesToString e b' = Inr bstr"
  shows "if covered e s a (MAmount msg)
    then \<exists>s'. msg_Send e msg s = (Inr (), s') \<and> transferred e a b' (MAmount msg) s s' \<and> same_rest s s'
    else \<exists>s'. msg_Send e msg s = (Inl ErrInsufficientFunds, s')"
proof -
  have "coins_ok (validDenom e) (MAmount msg)"
    using assms(2,3) by (intro typed_ok) (simp_all add: send_admitted_def typed_def)
  from SendCoins_run [OF assms(1) this assms(4-6)] show ?thesis unfolding msg_Send_admitted [OF assms(3)] .
qed

text \<open>
  C3: What \<open>MsgSend\<close> does.  It succeeds exactly when both addresses decode, the coins are valid and not empty,
  every denomination is enabled for sending, the recipient is not blocked, the send restriction accepts
  and the sender holds every amount on top of what is locked by vesting.  It then moves exactly these
  coins from the sender to the recipient the restriction chose, leaves every other balance, the supply
  and all other state as they were, and the sender still holds its locked coins of the sent
  denominations.
\<close>

theorem msg_Send_exact:
  assumes "bank_ok e s" "typed (MAmount msg)"
  shows "((\<exists>s'. msg_Send e msg s = (Inr (), s')) \<longleftrightarrow>
      (\<exists>a b b' astr bstr. send_admitted e msg s a b \<and> sendRestriction_apply e a b (MAmount msg) = Inr b' \<and>
         BytesToString e a = Inr astr \<and> BytesToString e b' = Inr bstr \<and>
         (\<forall>d. camt (MAmount msg) d \<noteq> 0 \<longrightarrow> locked e s a d + camt (MAmount msg) d \<le> bal s a d))) \<and>
    (\<forall>s'. msg_Send e msg s = (Inr (), s') \<longrightarrow> (\<exists>a b b'. send_admitted e msg s a b \<and>
       sendRestriction_apply e a b (MAmount msg) = Inr b' \<and> bank_ok e s' \<and> same_rest s s' \<and>
       (\<forall>x d. bal s' x d = bal s x d - (if x = a then camt (MAmount msg) d else 0) + (if x = b' then camt (MAmount msg) d else 0)) \<and>
       (\<forall>d. camt (MAmount msg) d \<noteq> 0 \<longrightarrow> locked e s' a d \<le> bal s' a d)))"
proof -
  let ?cs = "MAmount msg"
  have inv: "\<exists>a b b' astr bstr. send_admitted e msg s a b \<and> sendRestriction_apply e a b ?cs = Inr b' \<and>
         BytesToString e a = Inr astr \<and> BytesToString e b' = Inr bstr \<and> covered e s a ?cs \<and> transferred e a b' ?cs s s' \<and> same_rest s s'"
    if run: "msg_Send e msg s = (Inr (), s')" for s'
  proof -
    obtain a b where ad: "send_admitted e msg s a b" using msg_Send_refused [of e msg s] run by fastforce
    with run have "SendCoins e a b ?cs s = (Inr (), s')" using msg_Send_admitted by simp
    then obtain b' astr bstr where "sendRestriction_apply e a b ?cs = Inr b'" "BytesToString e a = Inr astr" "BytesToString e b' = Inr bstr"
      by (auto simp: SendCoins_def sm_simps split: if_splits)
    with msg_Send_covered [OF assms ad this] run ad show ?thesis by (fastforce split: if_split_asm)
  qed
  have lock: "locked e s' a d \<le> bal s' a d"
    if "send_admitted e msg s a b" "covered e s a ?cs" "transferred e a b' ?cs s s'" "same_rest s s'" "camt ?cs d \<noteq> 0" for s' a b b' d
  proof -
    have "coins_ok (validDenom e) ?cs" using that(1) assms(2) by (intro typed_ok) (simp_all add: send_admitted_def typed_def)
    then have "0 \<le> camt ?cs d" by (rule coins_ok_nonneg)
    moreover have "locked e s a d + camt ?cs d \<le> bal s a d" using that(2,5) by (simp add: covered_def)
    moreover have "bal s' a d = bal s a d - camt ?cs d + (if a = b' then camt ?cs d else 0)"
      using that(3) by (simp add: transferred_def)
    moreover have "locked e s' a d = locked e s a d" by (rule locked_cong) (rule same_rest_fields [OF that(4)])+
    ultimately show ?thesis by (auto split: if_split_asm)
  qed
  have ex: "\<exists>s'. msg_Send e msg s = (Inr (), s')"
    if "send_admitted e msg s a b" "sendRestriction_apply e a b ?cs = Inr b'" "BytesToString e a = Inr astr" "BytesToString e b' = Inr bstr"
      "\<forall>d. camt ?cs d \<noteq> 0 \<longrightarrow> locked e s a d + camt ?cs d \<le> bal s a d" for a b b' astr bstr
    using msg_Send_covered [OF assms that(1-4)] that(5) by (auto simp: covered_def split: if_split_asm)
  show ?thesis
  proof (intro conjI iffI allI impI)
    assume "\<exists>s'. msg_Send e msg s = (Inr (), s')"
    with inv show "\<exists>a b b' astr bstr. send_admitted e msg s a b \<and> sendRestriction_apply e a b ?cs = Inr b' \<and>
         BytesToString e a = Inr astr \<and> BytesToString e b' = Inr bstr \<and>
         (\<forall>d. camt ?cs d \<noteq> 0 \<longrightarrow> locked e s a d + camt ?cs d \<le> bal s a d)"
      unfolding covered_def by blast
  next
    fix s'
    assume "msg_Send e msg s = (Inr (), s')"
    from inv [OF this] obtain a b b' where p: "send_admitted e msg s a b" "sendRestriction_apply e a b ?cs = Inr b'"
      "covered e s a ?cs" "transferred e a b' ?cs s s'" "same_rest s s'" by blast
    with lock [OF p(1,3,4,5)] show "\<exists>a b b'. send_admitted e msg s a b \<and>
       sendRestriction_apply e a b ?cs = Inr b' \<and> bank_ok e s' \<and> same_rest s s' \<and>
       (\<forall>x d. bal s' x d = bal s x d - (if x = a then camt ?cs d else 0) + (if x = b' then camt ?cs d else 0)) \<and>
       (\<forall>d. camt ?cs d \<noteq> 0 \<longrightarrow> locked e s' a d \<le> bal s' a d)"
      unfolding transferred_def by blast
  qed (use ex in blast)
qed


definition example_send :: "string \<Rightarrow> int \<Rightarrow> MsgSend" where
  "example_send to n = \<lparr> FromAddress = ''alice'', ToAddress = to, MAmount = stake n \<rparr>"

lemma example_send_typed: "int256 n \<Longrightarrow> typed (MAmount (example_send to n))"
  by (simp add: typed_def example_send_def stake_def)

lemma example_locked: "locked example_env example_bank a d = 0"
  by (auto simp: locked_def LockedCoins_def GetAccount_def example_bank_def sm_run NewCoins_def sanitizeCoins_def removeZeroCoins_def
      Coins_Validate_def split: option.splits account.splits)

lemma example_bal: "bal example_bank a d = (if a = ''alice'' \<and> d = ''stake'' then 10 else 0)"
  by (simp add: bal_def example_bank_def)

lemma example_admitted:
  "0 < n \<Longrightarrow> int256 n \<Longrightarrow> to \<noteq> ''mint'' \<Longrightarrow> send_admitted example_env (example_send to n) example_bank ''alice'' to"
  using stake_ok [of n]
  by (auto simp: send_admitted_def example_send_def coins_ok_def stake_def send_enabled_def example_bank_def BlockedAddr_def example_env_def)

theorem msg_Send_exact_witness:
  "\<exists>s'. msg_Send example_env (example_send ''bob'' 4) example_bank = (Inr (), s') \<and>
     bal s' ''alice'' ''stake'' = 6 \<and> bal s' ''bob'' ''stake'' = 4"
proof -
  let ?m = "example_send ''bob'' 4"
  have i: "int256 4" by (simp add: int256_def)
  note ad = example_admitted [of 4 "''bob''", OF _ i]
  have r: "sendRestriction_apply example_env a b cs = Inr b" "BytesToString example_env a = Inr a" for a b cs
    by (simp_all add: sendRestriction_apply_def example_env_def)
  have "camt (MAmount ?m) d \<noteq> 0 \<longrightarrow> locked example_env example_bank ''alice'' d + camt (MAmount ?m) d \<le> bal example_bank ''alice'' d" for d
    by (simp add: example_locked example_bal example_send_def stake_def)
  with msg_Send_exact [OF example_bank_ok example_send_typed [OF i], of "''bob''"] ad r obtain s' a b b' where
    s': "msg_Send example_env ?m example_bank = (Inr (), s')" "send_admitted example_env ?m example_bank a b"
    "sendRestriction_apply example_env a b (MAmount ?m) = Inr b'"
    "\<forall>x d. bal s' x d = bal example_bank x d - (if x = a then camt (MAmount ?m) d else 0) + (if x = b' then camt (MAmount ?m) d else 0)"
    by fastforce
  moreover have "a = ''alice''" "b' = ''bob''"
    using s'(2,3) r by (auto simp: send_admitted_def example_env_def example_send_def)
  ultimately show ?thesis by (auto simp: example_send_def stake_def example_bal)
qed

text \<open>
  C4: Refused sends.  A \<open>MsgSend\<close> with a denomination that is disabled, with a blocked recipient or with a
  malformed address or coin set returns an error before anything is written; an admitted one whose
  sender lacks spendable funds returns \<open>ErrInsufficientFunds\<close>.
\<close>

theorem msg_Send_errors:
  assumes "bank_ok e s" "typed (MAmount msg)"
  shows "((\<nexists>a b. send_admitted e msg s a b) \<longrightarrow> (\<exists>f. msg_Send e msg s = (Inl f, s))) \<and>
    (StringToBytes e (FromAddress msg) = Inr a \<longrightarrow> StringToBytes e (ToAddress msg) = Inr b \<longrightarrow>
       Coins_IsValid (validDenom e) (MAmount msg) \<longrightarrow> MAmount msg \<noteq> [] \<longrightarrow>
       ((\<exists>c \<in> set (MAmount msg). \<not> send_enabled s (Denom c)) \<longrightarrow> msg_Send e msg s = (Inl ErrSendDisabled, s)) \<and>
       ((\<forall>c \<in> set (MAmount msg). send_enabled s (Denom c)) \<longrightarrow> BlockedAddr e b = Inr True \<longrightarrow>
         msg_Send e msg s = (Inl ErrUnauthorized, s))) \<and>
    (send_admitted e msg s a b \<longrightarrow> sendRestriction_apply e a b (MAmount msg) = Inr b' \<longrightarrow>
       BytesToString e a = Inr astr \<longrightarrow> BytesToString e b' = Inr bstr \<longrightarrow>
       camt (MAmount msg) d \<noteq> 0 \<longrightarrow> bal s a d < locked e s a d + camt (MAmount msg) d \<longrightarrow>
       (\<exists>s'. msg_Send e msg s = (Inl ErrInsufficientFunds, s')))"
proof (intro conjI impI)
  show "\<exists>f. msg_Send e msg s = (Inl f, s)" if "\<nexists>a b. send_admitted e msg s a b" by (rule msg_Send_refused [OF that])
next
  assume "send_admitted e msg s a b" "sendRestriction_apply e a b (MAmount msg) = Inr b'" "BytesToString e a = Inr astr"
    "BytesToString e b' = Inr bstr" and d: "camt (MAmount msg) d \<noteq> 0" "bal s a d < locked e s a d + camt (MAmount msg) d"
  from msg_Send_covered [OF assms this(1-4)] d show "\<exists>s'. msg_Send e msg s = (Inl ErrInsufficientFunds, s')"
    by (auto simp: covered_def not_le split: if_split_asm)
qed (use valid_all_positive [of "validDenom e" "MAmount msg"] in
    \<open>auto simp: msg_Send_def IsSendEnabledCoins_run sbind_def sm_run\<close>)

theorem msg_Send_errors_witness:
  "msg_Send example_env (example_send ''mint'' 4) example_bank = (Inl ErrUnauthorized, example_bank) \<and>
   (\<exists>s'. msg_Send example_env (example_send ''bob'' 11) example_bank = (Inl ErrInsufficientFunds, s'))"
proof -
  have i: "int256 4" "int256 11" by (simp_all add: int256_def)
  have r: "sendRestriction_apply example_env a b cs = Inr b" "BytesToString example_env a = Inr a" "StringToBytes example_env a = Inr a" for a b cs
    by (simp_all add: sendRestriction_apply_def example_env_def)
  have en: "send_enabled example_bank d" "BlockedAddr example_env ''mint'' = Inr True" for d
    by (simp_all add: send_enabled_def example_bank_def BlockedAddr_def example_env_def)
  have v: "Coins_IsValid (validDenom example_env) (stake 4)" using stake_ok [of 4] i by (simp add: coins_ok_def)
  from msg_Send_errors [OF example_bank_ok example_send_typed [OF i(1)], of "''mint''" "''alice''" "''mint''"] r en v
  have "msg_Send example_env (example_send ''mint'' 4) example_bank = (Inl ErrUnauthorized, example_bank)"
    by (simp add: example_send_def stake_def)
  moreover from msg_Send_errors [OF example_bank_ok example_send_typed [OF i(2)], of "''bob''" "''alice''" "''bob''" "''bob''" "''alice''" "''bob''" "''stake''"]
    example_admitted [of 11 "''bob''"] i r
  have "\<exists>s'. msg_Send example_env (example_send ''bob'' 11) example_bank = (Inl ErrInsufficientFunds, s')"
    by (simp add: example_locked example_bal) (simp add: example_send_def stake_def)
  ultimately show ?thesis by blast
qed

text \<open>
  C7: What \<open>MsgMultiSend\<close> does.  A successful one has exactly one input, whose sender held all its coins on top
  of what is locked.  Every output names an address that is not blocked and is credited to the address the send
  restriction returns for the sender, that address and the coins of the output; the input is debited, so that all
  balances change by exactly the difference, and the supply and the invariant are kept: the outputs add up to the
  input.
\<close>

theorem msg_MultiSend_exact:
  assumes "bank_ok e s" "op_typed (OpMultiSend msg)" "msg_MultiSend e msg s = (Inr (), s')"
  shows "\<exists>i a sending. Inputs msg = [i] \<and> StringToBytes e (IAddress i) = Inr a \<and> map snd sending = Outputs msg \<and>
    list_all (\<lambda>(b, out). \<exists>to. StringToBytes e (OAddress out) = Inr to \<and> BlockedAddr e to = Inr False \<and>
      sendRestriction_apply e a to (OCoins out) = Inr b) sending \<and>
    (\<forall>d. camt (ICoins i) d \<noteq> 0 \<longrightarrow> locked e s a d + camt (ICoins i) d \<le> bal s a d) \<and>
    (\<forall>x d. bal s' x d = bal s x d - (if x = a then camt (ICoins i) d else 0) +
       (\<Sum>(b, out)\<leftarrow>sending. if x = b then camt (OCoins out) d else 0)) \<and>
    (\<forall>d. (\<Sum>out\<leftarrow>Outputs msg. camt (OCoins out) d) = camt (ICoins i) d) \<and>
    sup_of s' = sup_of s \<and> bank_ok e s'"
proof -
  have typed: "\<forall>i \<in> set (Inputs msg). typed (ICoins i)" "outputs_typed (Outputs msg)"
    using assms(2) by (auto simp: list_all_iff)
  from msg_MultiSend_success [OF assms(1,3) typed] obtain i a sending where
    i: "Inputs msg = [i]" "StringToBytes e (IAddress i) = Inr a" "map snd sending = Outputs msg"
      "list_all (output_recipient e a) sending" "covered e s a (ICoins i)"
    and u: "ledger_update e (\<lambda>x d. (\<Sum>(b, out)\<leftarrow>sending. credit b (OCoins out) x d) - credit a (ICoins i) x d) (\<lambda>_. 0) s s'"
    by blast
  have "ValidateInputOutputs e i (Outputs msg) = Inr ()"
    using assms(3) i(1) by (auto simp: msg_MultiSend_def sm_simps split: if_splits)
  from ValidateInputOutputs_ok [OF this typed(2)] typed(1) i(1)
  have "(\<Sum>out\<leftarrow>Outputs msg. camt (OCoins out) d) = camt (ICoins i) d" for d by (simp add: typed_def)
  then show ?thesis using i u unfolding output_recipient_def
    by (intro exI [of _ i] exI [of _ a] exI [of _ sending]) (auto simp: ledger_update_def covered_def credit_def)
qed

definition example_multi :: MsgMultiSend where
  "example_multi = \<lparr> Inputs = [\<lparr> IAddress = ''alice'', ICoins = stake 7 \<rparr>],
     Outputs = [\<lparr> OAddress = ''bob'', OCoins = stake 3 \<rparr>, \<lparr> OAddress = ''carol'', OCoins = stake 4 \<rparr>] \<rparr>"

theorem msg_MultiSend_exact_witness:
  "\<exists>s'. msg_MultiSend example_env example_multi example_bank = (Inr (), s') \<and> sup_of s' = sup_of example_bank \<and>
     bal s' ''alice'' ''stake'' = 3 \<and> bal s' ''bob'' ''stake'' = 3 \<and> bal s' ''carol'' ''stake'' = 4"
proof -
  have t: "op_typed (OpMultiSend example_multi)"
    by (simp add: example_multi_def typed_def outputs_typed_def stake_def int256_def)
  have r: "sendRestriction_apply example_env a b cs = Inr b" "StringToBytes example_env a = Inr a" for a b cs
    by (simp_all add: sendRestriction_apply_def example_env_def)
  have "fst (msg_MultiSend example_env example_multi example_bank) = Inr ()" by code_simp
  then obtain s' where s': "msg_MultiSend example_env example_multi example_bank = (Inr (), s')" by (metis prod.collapse)
  from msg_MultiSend_exact [OF example_bank_ok t s'] obtain sending where
    "map snd sending = Outputs example_multi" "list_all (\<lambda>(b, out). b = OAddress out) sending" "sup_of s' = sup_of example_bank"
    "\<forall>x d. bal s' x d = bal example_bank x d - (if x = ''alice'' then camt (stake 7) d else 0) +
       (\<Sum>(b, out)\<leftarrow>sending. if x = b then camt (OCoins out) d else 0)"
    by (fastforce simp: r example_multi_def)
  with s' show ?thesis by (auto simp: example_multi_def example_bal stake_def map_eq_Cons_conv)
qed

text \<open>
  C8: The views agree with the ledger and with each other.  \<open>GetAllBalances\<close> is the canonical coin set of an
  account's balances, \<open>SpendableCoins\<close> that of the balances less the locked amounts (nothing where more
  is locked than held), \<open>SpendableCoin\<close> its entry for one denomination, and none of them changes the
  state.  A send of valid coins is covered exactly when no sent denomination exceeds the spendable amount.
\<close>

theorem bank_views:
  assumes "bank_ok e s" "coins_ok (validDenom e) cs" "validDenom e d"
  shows "\<exists>total spendable. GetAllBalances e a s = (Inr total, s) \<and> SpendableCoins e a s = (Inr spendable, s) \<and>
    coins_ok (validDenom e) total \<and> coins_ok (validDenom e) spendable \<and>
    (\<forall>d. camt total d = bal s a d \<and> camt spendable d = max 0 (bal s a d - locked e s a d)) \<and>
    SpendableCoin e a d s = (Inr \<lparr> Denom = d, Amount = camt spendable d \<rparr>, s) \<and>
    (covered e s a cs \<longleftrightarrow> (\<forall>d. camt cs d \<le> camt spendable d))"
proof -
  note ok = bank_okD [OF assms(1)]
  obtain t where t: "GetAllBalances e a s = (Inr t, s)" "coins_ok (validDenom e) t" "camt t = bal s a"
    using GetAllBalances_run [OF ok(1)] by blast
  obtain r where r: "SpendableCoins e a s = (Inr r, s)" "coins_ok (validDenom e) r"
    "\<forall>d. camt r d = max 0 (bal s a d - locked e s a d)"
    using SpendableCoins_run [OF ok(1,4)] by blast
  have one: "camt cs x \<le> max 0 (bal s a x - locked e s a x) \<longleftrightarrow> camt cs x = 0 \<or> locked e s a x + camt cs x \<le> bal s a x" for x
    using coins_ok_nonneg [OF assms(2), of x] by (auto simp: le_max_iff_disj)
  have "covered e s a cs \<longleftrightarrow> (\<forall>x. camt cs x \<le> camt r x)"
    unfolding covered_def r(3) [rule_format] one by blast
  with t r SpendableCoin_run [OF ok(1,4) assms(3), of a] show ?thesis by auto
qed

theorem bank_views_witness:
  "\<exists>spendable. SpendableCoins example_env ''alice'' example_bank = (Inr spendable, example_bank) \<and> camt spendable ''stake'' = 10"
proof -
  have "validDenom example_env ''stake''" by (simp add: example_env_def)
  from bank_views [OF example_bank_ok stake_ok [of 1] this, of "''alice''"] show ?thesis
    by (auto simp: int256_def example_bal example_locked)
qed

end
