(* ===== verification/BankGenesis.thy ===== *)
theory BankGenesis
  imports BankMsgs
begin

text \<open>
  The genesis of \<open>x/bank\<close> (\<open>src/x/bank/keeper/genesis.go\<close>, \<open>src/x/bank/types/genesis.go\<close>,
  \<open>balance.go\<close>, \<open>metadata.go\<close>, \<open>src/types/mapcoins.go\<close>): validation, import and export of the
  whole state of the module.  An import establishes the supply invariant, and importing an export
  restores the state.
\<close>

section \<open>Genesis state\<close>

record Balance =
  BalAddress :: string
  BalCoins :: "Coin list"

record GenesisState =
  GParams :: Params
  GBalances :: "Balance list"
  GSupply :: "Coin list"
  GDenomMetadata :: "Metadata list"
  GSendEnabled :: "SendEnabled list"

definition GetAllSendEnabled :: "GenesisState \<Rightarrow> SendEnabled list" where
  "GetAllSendEnabled gs =
     (if PSendEnabled (GParams gs) = [] then GSendEnabled gs
      else GSendEnabled gs @
        filter (\<lambda>se. SEDenom se \<notin> SEDenom ` set (GSendEnabled gs)) (PSendEnabled (GParams gs)))"

definition MigrateSendEnabled :: "GenesisState \<Rightarrow> GenesisState" where
  "MigrateSendEnabled gs =
     gs\<lparr>GSendEnabled := GetAllSendEnabled gs, GParams := (GParams gs)\<lparr>PSendEnabled := []\<rparr>\<rparr>"

definition NewGenesisState ::
  "Params \<Rightarrow> Balance list \<Rightarrow> Coin list \<Rightarrow> Metadata list \<Rightarrow> SendEnabled list \<Rightarrow> GenesisState" where
  "NewGenesisState params balances supply denomMetaData sendEnabled = MigrateSendEnabled
     \<lparr> GParams = params, GBalances = balances, GSupply = supply, GDenomMetadata = denomMetaData, GSendEnabled = sendEnabled \<rparr>"

definition map_coin_add :: "(string \<times> int) list \<Rightarrow> Coin \<Rightarrow> (string \<times> int) list res" where
  "map_coin_add m coin =
     (case map_of m (Denom coin) of
        Some existAmt \<Rightarrow> rbind (Int_Add existAmt (Amount coin)) (\<lambda>a. Inr (AList.update (Denom coin) a m))
      | None \<Rightarrow> Inr (AList.update (Denom coin) (Amount coin) m))"

definition MapCoins_Add :: "(string \<times> int) list \<Rightarrow> Coin list \<Rightarrow> (string \<times> int) list res" where
  "MapCoins_Add m coins = rfold map_coin_add m coins"

definition MapCoins_ToCoins :: "(string \<Rightarrow> bool) \<Rightarrow> (string \<times> int) list \<Rightarrow> Coin list res" where
  "MapCoins_ToCoins vd m =
     rbind (rmap (\<lambda>(denom, a). NewCoin vd denom a) (filter (\<lambda>(denom, a). a \<noteq> 0) m)) (\<lambda>coins. Inr (Coins_Sort coins))"

text \<open>Duplicate addresses panic; the balances are then sorted by decoded address.\<close>

definition SanitizeGenesisBalances :: "bank_env \<Rightarrow> Balance list \<Rightarrow> Balance list res" where
  "SanitizeGenesisBalances e balances =
     rbind (rfold (\<lambda>addresses balance. rbind (StringToBytes e (BalAddress balance)) (\<lambda>addr.
         if addr \<in> set (map fst addresses) then Inl (Panic ''genesis state has a duplicate account'')
         else Inr (addresses @ [(addr, balance)]))) [] balances)
       (\<lambda>addresses. Inr (map snd (sort_key fst addresses)))"

definition DenomUnit_Validate :: "(string \<Rightarrow> bool) \<Rightarrow> DenomUnit \<Rightarrow> unit res" where
  "DenomUnit_Validate vd du =
     rbind (ValidateDenom vd (UDenom du)) (\<lambda>_.
     rbind (rfold (\<lambda>seenAliases alias.
         if alias \<in> set seenAliases then Inl (Err ''duplicate denomination unit alias'')
         else if blank_bytes (map of_char alias) then Inl (Err ''alias for denom unit cannot be blank'')
         else Inr (alias # seenAliases)) [] (Aliases du)) (\<lambda>_. Inr ()))"

text \<open>The loop over the denomination units; \<open>prev\<close> is the exponent of the previous unit, \<open>None\<close> at the first one.\<close>

fun validate_units ::
  "(string \<Rightarrow> bool) \<Rightarrow> Metadata \<Rightarrow> nat option \<Rightarrow> string list \<Rightarrow> bool \<Rightarrow> DenomUnit list \<Rightarrow> bool res" where
  "validate_units vd m prev seenUnits hasDisplay [] = Inr hasDisplay"
| "validate_units vd m prev seenUnits hasDisplay (u # us) =
     rbind (case prev of
         None \<Rightarrow>
           if UDenom u \<noteq> Base m then Inl (Err ''first denomination unit must be the one with base denom'')
           else if Exponent u \<noteq> 0 then Inl (Err ''the exponent for base denomination unit must be 0'') else Inr ()
       | Some currentExponent \<Rightarrow>
           if currentExponent \<ge> Exponent u then Inl (Err ''denom units should be sorted asc by exponent'') else Inr ()) (\<lambda>_.
       if UDenom u \<in> set seenUnits then Inl (Err ''duplicate denomination unit'')
       else rbind (DenomUnit_Validate vd u) (\<lambda>_.
         validate_units vd m (Some (Exponent u)) (UDenom u # seenUnits) (hasDisplay \<or> UDenom u = Display m) us))"

definition Metadata_Validate :: "(string \<Rightarrow> bool) \<Rightarrow> Metadata \<Rightarrow> unit res" where
  "Metadata_Validate vd m =
     (if blank_bytes (map of_char (Name m)) then Inl (Err ''name field cannot be blank'')
      else if blank_bytes (map of_char (Symbol m)) then Inl (Err ''symbol field cannot be blank'')
      else rbind (ValidateDenom vd (Base m)) (\<lambda>_.
        rbind (ValidateDenom vd (Display m)) (\<lambda>_.
        rbind (validate_units vd m None [] False (DenomUnits m)) (\<lambda>hasDisplay.
          if \<not> hasDisplay then Inl (Err ''metadata must contain a denomination unit with display denom'') else Inr ()))))"

definition Balance_Validate :: "bank_env \<Rightarrow> Balance \<Rightarrow> unit res" where
  "Balance_Validate e b =
     rbind (AccAddressFromBech32 e (BalAddress b)) (\<lambda>_. Coins_Validate (validDenom e) (BalCoins b))"

definition GenesisState_Validate :: "bank_env \<Rightarrow> GenesisState \<Rightarrow> unit res" where
  "GenesisState_Validate e gs =
     (if PSendEnabled (GParams gs) \<noteq> [] \<and> GSendEnabled gs \<noteq> []
      then Inl (Err ''send_enabled defined in both the send_enabled field and in params'')
      else rbind (Params_Validate (GParams gs)) (\<lambda>_.
        rbind (check_send_enabled e {} (GetAllSendEnabled gs)) (\<lambda>_.
        rbind (rfold (\<lambda>(seenBalances, totalSupply) balance.
            if BalAddress balance \<in> set seenBalances then Inl (Err ''duplicate balance for address'')
            else rbind (Balance_Validate e balance) (\<lambda>_.
              rbind (Coins_Add totalSupply (BalCoins balance)) (\<lambda>t. Inr (BalAddress balance # seenBalances, t))))
          ([], []) (GBalances gs)) (\<lambda>(_, totalSupply).
        rbind (rfold (\<lambda>seenMetadatas metadata.
            if Base metadata \<in> set seenMetadatas then Inl (Err ''duplicate client metadata for denom'')
            else rbind (Metadata_Validate (validDenom e) metadata) (\<lambda>_. Inr (Base metadata # seenMetadatas)))
          [] (GDenomMetadata gs)) (\<lambda>_.
          if GSupply gs = [] then Inr ()
          else rbind (Coins_Validate (validDenom e) (GSupply gs)) (\<lambda>_.
            if \<not> Coins_Equal (GSupply gs) totalSupply then Inl (Err ''genesis supply is incorrect'') else Inr ()))))))"

definition init_balance :: "bank_env \<Rightarrow> (string \<times> int) list \<Rightarrow> Balance \<Rightarrow> (string \<times> int) list bank" where
  "init_balance e totalSupplyMap balance =
     sbind (slift (StringToBytes e (BalAddress balance))) (\<lambda>bz.
     sbind (sforeach (\<lambda>coin. smodify (\<lambda>s. s\<lparr>Balances := om_set (bz, Denom coin) (Amount coin) (Balances s)\<rparr>)) (BalCoins balance)) (\<lambda>_.
       slift (MapCoins_Add totalSupplyMap (BalCoins balance))))"

definition InitGenesis :: "bank_env \<Rightarrow> GenesisState \<Rightarrow> unit bank" where
  "InitGenesis e genState =
     sbind (SetParams (GParams genState)) (\<lambda>_.
     sbind (sforeach (\<lambda>se. SetSendEnabled (SEDenom se) (Enabled se)) (GetAllSendEnabled genState)) (\<lambda>_.
     sbind (slift (SanitizeGenesisBalances e (GBalances genState))) (\<lambda>balances.
     sbind (sfold (init_balance e) [] balances) (\<lambda>totalSupplyMap.
     sbind (slift (MapCoins_ToCoins (validDenom e) totalSupplyMap)) (\<lambda>totalSupply.
       if GSupply genState \<noteq> [] \<and> \<not> Coins_Equal (GSupply genState) totalSupply
       then sfail (Err ''genesis supply is incorrect'')
       else sbind (sforeach setSupply totalSupply) (\<lambda>_.
         sforeach SetDenomMetaData (GDenomMetadata genState)))))))"

definition collect_balance ::
  "bank_env \<Rightarrow> Balance list \<Rightarrow> (string \<times> string) \<times> int \<Rightarrow> Balance list res" where
  "collect_balance e balances = (\<lambda>((addr, denom), amount).
     rbind (NewCoin (validDenom e) denom amount) (\<lambda>balance.
     rbind (must (BytesToString e addr)) (\<lambda>addrStr.
       if addrStr \<in> set (map BalAddress balances)
       then rmap (\<lambda>b. if BalAddress b = addrStr
           then rbind (Coins_Add (BalCoins b) [balance]) (\<lambda>cs. Inr (b\<lparr>BalCoins := Coins_Sort cs\<rparr>)) else Inr b) balances
       else rbind (NewCoins (validDenom e) [balance]) (\<lambda>cs.
         Inr (balances @ [\<lparr> BalAddress = addrStr, BalCoins = cs \<rparr>])))))"

definition GetAccountsBalances :: "bank_env \<Rightarrow> Balance list bank" where
  "GetAccountsBalances e = sbind (sgets Balances) (\<lambda>entries. slift (rfold (collect_balance e) [] entries))"

text \<open>The page request of the export has the maximal limit, so the page is the whole supply.\<close>

definition GetTotalSupply :: "bank_env \<Rightarrow> Coin list bank" where
  "GetTotalSupply e = sbind (sgets Supply) (\<lambda>entries. slift (rmap (\<lambda>(denom, a). NewCoin (validDenom e) denom a) entries))"

definition GetAllSendEnabledEntries :: "SendEnabled list bank" where
  "GetAllSendEnabledEntries = sgets (\<lambda>s. map (\<lambda>(d, v). \<lparr> SEDenom = d, Enabled = v \<rparr>) (SendEnabledMap s))"

definition ExportGenesis :: "bank_env \<Rightarrow> GenesisState bank" where
  "ExportGenesis e =
     sbind (GetTotalSupply e) (\<lambda>totalSupply.
     sbind GetParams (\<lambda>params.
     sbind (GetAccountsBalances e) (\<lambda>balances.
     sbind GetAllDenomMetaData (\<lambda>metadata.
     sbind GetAllSendEnabledEntries (\<lambda>sendEnabled.
       sret (NewGenesisState params balances totalSupply metadata sendEnabled))))))"

section \<open>Sums of coins in a map\<close>

definition mc_ok :: "(string \<Rightarrow> bool) \<Rightarrow> (string \<times> int) list \<Rightarrow> bool" where
  "mc_ok vd m \<longleftrightarrow> distinct (map fst m) \<and> (\<forall>x \<in> set m. vd (fst x) \<and> 0 < snd x \<and> int256 (snd x))"

lemma map_coin_add_run:
  assumes "mc_ok vd m" "vd (Denom c)" "0 < Amount c" "int256 (Amount c)"
  shows "if int256 (amt m (Denom c) + Amount c)
    then \<exists>m'. map_coin_add m c = Inr m' \<and> mc_ok vd m' \<and> (\<forall>d. amt m' d = amt m d + camt [c] d)
    else \<exists>f. map_coin_add m c = Inl f"
proof -
  let ?d = "Denom c"
  have dist: "distinct (map fst m)" using assms(1) by (simp add: mc_ok_def)
  have upd: "mc_ok vd (AList.update ?d x m) \<and> (\<forall>d. amt (AList.update ?d x m) d = amt m d + (if d = ?d then x - amt m ?d else 0))"
    if "0 < x" "int256 x" for x
    using assms(1,2) that update_subset [of ?d x m] sum_update [OF dist, of "\<lambda>x. if fst x = d then snd x else 0" ?d x for d]
    by (auto simp: mc_ok_def distinct_update amt_def amt_map_of [OF dist, unfolded amt_def] split: option.splits)
  show ?thesis
  proof (cases "map_of m ?d")
    case None
    then have "amt m ?d = 0" by (simp add: amt_map_of [OF dist])
    with None upd [OF assms(3,4)] assms(4) show ?thesis by (auto simp: map_coin_add_def)
  next
    case (Some x)
    then have "amt m ?d = x" "0 < x" using assms(1) map_of_SomeD [OF Some] by (auto simp: amt_map_of [OF dist] mc_ok_def)
    with Some upd [of "x + Amount c"] assms(3) show ?thesis by (auto simp: map_coin_add_def sdkint)
  qed
qed

lemma MapCoins_Add_success:
  assumes "mc_ok vd m" "coins_ok vd cs" "MapCoins_Add m cs = Inr m'"
  shows "mc_ok vd m' \<and> (\<forall>d. amt m' d = amt m d + camt cs d)"
proof -
  have "\<forall>c \<in> set cs. vd (Denom c) \<and> 0 < Amount c \<and> int256 (Amount c)" using assms(2) by (simp add: coins_ok_iff)
  then show ?thesis using assms(1,3) unfolding MapCoins_Add_def
  proof (induction cs arbitrary: m)
    case (Cons c cs)
    from Cons.prems(3) obtain t where t: "map_coin_add m c = Inr t" "rfold map_coin_add t cs = Inr m'" by (auto simp: res_simps)
    from map_coin_add_run [OF Cons.prems(2), of c] Cons.prems(1) t(1)
    have "mc_ok vd t \<and> (\<forall>d. amt t d = amt m d + camt [c] d)" by (auto split: if_split_asm)
    with Cons.IH [of t] Cons.prems(1) t(2) show ?case by auto
  qed simp
qed

lemma MapCoins_Add_total:
  assumes "mc_ok vd m" "coins_ok vd cs" "\<And>d. int256 (amt m d + camt cs d)"
  shows "\<exists>m'. MapCoins_Add m cs = Inr m'"
proof -
  have "\<forall>c \<in> set cs. vd (Denom c) \<and> 0 < Amount c \<and> int256 (Amount c)" using assms(2) by (simp add: coins_ok_iff)
  then show ?thesis using assms(1,3) unfolding MapCoins_Add_def
  proof (induction cs arbitrary: m)
    case (Cons c cs)
    have nn: "0 \<le> camt cs d" "0 \<le> amt m d" for d
      using Cons.prems(1,2) by (auto intro!: amt_sign simp: set_cps mc_ok_def less_imp_le)
    have "int256 (amt m (Denom c) + Amount c)"
      using Cons.prems(1) Cons.prems(3) [of "Denom c"] nn [of "Denom c"]
      by (intro int256_between [OF Cons.prems(3) [of "Denom c"]]) auto
    with map_coin_add_run [OF Cons.prems(2), of c] Cons.prems(1) obtain t where
      t: "map_coin_add m c = Inr t" "mc_ok vd t" "\<forall>d. amt t d = amt m d + camt [c] d" by auto
    have "int256 (amt t d + camt cs d)" for d using Cons.prems(3) [of d] t(3) by (simp add: add.assoc)
    with Cons.IH [of t] Cons.prems(1) t show ?case by simp
  qed simp
qed

lemma MapCoins_ToCoins_ok:
  assumes "mc_ok vd m"
  shows "\<exists>cs. MapCoins_ToCoins vd m = Inr cs \<and> coins_ok vd cs \<and> (\<forall>d. camt cs d = amt m d)"
proof -
  let ?cs = "map (\<lambda>(d, a). \<lparr> Denom = d, Amount = a \<rparr>) m"
  have f: "filter (\<lambda>(denom, a). a \<noteq> 0) m = m" using assms by (auto simp: mc_ok_def filter_id_conv)
  have "rmap (\<lambda>(denom, a). NewCoin vd denom a) m = Inr ?cs"
    using assms by (intro rmap_total) (auto simp: mc_ok_def NewCoin_ok)
  moreover have "cps ?cs = m" by (induction m) auto
  moreover have "canon (sort_key fst m)" using assms by (intro canon_sort_key) (auto simp: mc_ok_def)
  then have "coins_ok vd (Coins_Sort ?cs)"
    using assms calculation(2) by (auto simp: coins_ok_iff cps_Sort mc_ok_def)
  ultimately show ?thesis using f by (auto simp: MapCoins_ToCoins_def)
qed

section \<open>Loading balances\<close>

lemma load_coins:
  assumes "balances_ok e s" "\<forall>c \<in> set cs. valid_coin e c" "distinct (map Denom cs)" "\<forall>c \<in> set cs. bal s a (Denom c) = 0"
  shows "\<exists>s'. sforeach (\<lambda>coin. smodify (\<lambda>s. s\<lparr>Balances := om_set (a, Denom coin) (Amount coin) (Balances s)\<rparr>)) cs s = (Inr (), s') \<and>
    ledger_step e a (camt cs) s s'"
  using assms
proof (induction cs arbitrary: s)
  case Nil
  then show ?case by (simp add: sm_run ledger_step_def)
next
  case (Cons c cs)
  let ?t = "s\<lparr>Balances := om_set (a, Denom c) (Amount c) (Balances s)\<rparr>"
  have c: "validDenom e (Denom c)" "0 < Amount c" "int256 (Amount c)" using Cons.prems(2) by (simp_all add: valid_coin_def)
  have "setBalance e a \<lparr> Denom = Denom c, Amount = Amount c \<rparr> s = (Inr (), ?t)"
    using c by (simp add: setBalance_def Coin_IsValid_def Coin_Validate_def ValidateDenom_def sm_run)
  moreover have "(\<lambda>d. if d = Denom c then Amount c - bal s a (Denom c) else 0) = camt [c]" using Cons.prems(4) by auto
  ultimately have t: "ledger_step e a (camt [c]) s ?t"
    using setBalance_step [OF Cons.prems(1) c(1) _ c(3), of a] c(2) by simp
  have "bal ?t a (Denom x) = 0" if "x \<in> set cs" for x
    using ledger_stepD(3) [OF t, of a "Denom x"] Cons.prems(3,4) that by auto
  with Cons.IH [OF ledger_stepD(1) [OF t]] Cons.prems(2,3) obtain s' where
    s': "sforeach (\<lambda>coin. smodify (\<lambda>s. s\<lparr>Balances := om_set (a, Denom coin) (Amount coin) (Balances s)\<rparr>)) cs ?t = (Inr (), s')"
    "ledger_step e a (camt cs) ?t s'" by auto
  from ledger_step_trans [OF t s'(2)] s'(1) show ?case by (auto simp: ledger_step_def)
qed

definition dec :: "bank_env \<Rightarrow> Balance \<Rightarrow> string" where
  "dec e b = (case StringToBytes e (BalAddress b) of Inr a \<Rightarrow> a | Inl _ \<Rightarrow> [])"

definition decodes :: "bank_env \<Rightarrow> Balance \<Rightarrow> bool" where
  "decodes e b \<longleftrightarrow> StringToBytes e (BalAddress b) = Inr (dec e b)"

text \<open>What a list of genesis balances assigns to an account.\<close>

definition assigned :: "bank_env \<Rightarrow> Balance list \<Rightarrow> string \<Rightarrow> string \<Rightarrow> int" where
  "assigned e bs a d = (\<Sum>b\<leftarrow>bs. if dec e b = a then camt (BalCoins b) d else 0)"

lemma load_balances:
  assumes "balances_ok e s" "mc_ok (validDenom e) m" "\<forall>b \<in> set bs. coins_ok (validDenom e) (BalCoins b) \<and> decodes e b"
    and "distinct (map (dec e) bs)" "\<forall>b \<in> set bs. \<forall>d. bal s (dec e b) d = 0"
  shows "(sfold (init_balance e) m bs s = (Inr m', s') \<longrightarrow>
      mc_ok (validDenom e) m' \<and> balances_ok e s' \<and> same_rest s s' \<and> (\<forall>a d. bal s' a d = bal s a d + assigned e bs a d) \<and>
      (\<forall>d. held s' d = held s d + (\<Sum>b\<leftarrow>bs. camt (BalCoins b) d) \<and> amt m' d = amt m d + (\<Sum>b\<leftarrow>bs. camt (BalCoins b) d))) \<and>
    ((\<forall>d. int256 (amt m d + (\<Sum>b\<leftarrow>bs. camt (BalCoins b) d))) \<longrightarrow> (\<exists>m' s'. sfold (init_balance e) m bs s = (Inr m', s')))"
  using assms
proof (induction bs arbitrary: s m)
  case Nil
  then show ?case by (auto simp: sm_run assigned_def)
next
  case (Cons b bs)
  let ?cs = "BalCoins b"
  have ok: "coins_ok (validDenom e) ?cs" and d: "StringToBytes e (BalAddress b) = Inr (dec e b)"
    using Cons.prems(3) by (simp_all add: decodes_def)
  obtain t where t: "sforeach (\<lambda>coin. smodify (\<lambda>s. s\<lparr>Balances := om_set (dec e b, Denom coin) (Amount coin) (Balances s)\<rparr>)) ?cs s = (Inr (), t)"
    "ledger_step e (dec e b) (camt ?cs) s t"
    using load_coins [OF Cons.prems(1) coins_ok_valid [OF ok], of "dec e b"] Cons.prems(5) by auto
  have run: "sfold (init_balance e) m (b # bs) s =
    (case MapCoins_Add m ?cs of Inl f \<Rightarrow> (Inl f, t) | Inr m1 \<Rightarrow> sfold (init_balance e) m1 bs t)"
    by (simp add: init_balance_def d t(1) sbind_def sm_run split: sum.splits)
  have IH: "(sfold (init_balance e) m1 bs t = (Inr m', s') \<longrightarrow>
      mc_ok (validDenom e) m' \<and> balances_ok e s' \<and> same_rest t s' \<and> (\<forall>a d. bal s' a d = bal t a d + assigned e bs a d) \<and>
      (\<forall>d. held s' d = held t d + (\<Sum>b\<leftarrow>bs. camt (BalCoins b) d) \<and> amt m' d = amt m1 d + (\<Sum>b\<leftarrow>bs. camt (BalCoins b) d))) \<and>
    ((\<forall>d. int256 (amt m1 d + (\<Sum>b\<leftarrow>bs. camt (BalCoins b) d))) \<longrightarrow> (\<exists>m' s'. sfold (init_balance e) m1 bs t = (Inr m', s')))"
    if "mc_ok (validDenom e) m1" for m1
  proof (rule Cons.IH [OF ledger_stepD(1) [OF t(2)] that])
    show "\<forall>b \<in> set bs. \<forall>d. bal t (dec e b) d = 0"
      using Cons.prems(4,5) ledger_stepD(3) [OF t(2)] by (auto simp: image_iff)
  qed (use Cons.prems(3,4) in auto)
  have part: "mc_ok (validDenom e) m' \<and> balances_ok e s' \<and> same_rest s s' \<and> (\<forall>a d. bal s' a d = bal s a d + assigned e (b # bs) a d) \<and>
      (\<forall>d. held s' d = held s d + (\<Sum>b\<leftarrow>b # bs. camt (BalCoins b) d) \<and> amt m' d = amt m d + (\<Sum>b\<leftarrow>b # bs. camt (BalCoins b) d))"
    if "sfold (init_balance e) m (b # bs) s = (Inr m', s')"
  proof -
    from that run obtain m1 where m1: "MapCoins_Add m ?cs = Inr m1" "sfold (init_balance e) m1 bs t = (Inr m', s')"
      by (auto split: sum.splits)
    note add = MapCoins_Add_success [OF Cons.prems(2) ok m1(1)]
    with IH [of m1] m1(2) same_rest_trans [OF ledger_stepD(2) [OF t(2)]] ledger_stepD(3,4) [OF t(2)] show ?thesis
      by (auto simp: assigned_def)
  qed
  have tot: "\<exists>m' s'. sfold (init_balance e) m (b # bs) s = (Inr m', s')"
    if f: "\<forall>d. int256 (amt m d + (\<Sum>b\<leftarrow>b # bs. camt (BalCoins b) d))"
  proof -
    have "0 \<le> amt m d" for d using Cons.prems(2) by (intro amt_sign) (auto simp: mc_ok_def less_imp_le)
    moreover have "0 \<le> (\<Sum>b\<leftarrow>bs. camt (BalCoins b) d)" for d
      by (rule sum_list_nonneg) (use Cons.prems(3) coins_ok_nonneg in auto)
    moreover have "0 \<le> camt ?cs d" for d by (rule coins_ok_nonneg [OF ok])
    ultimately have "int256 (amt m d + camt ?cs d)" for d
      using f [rule_format, of d] by (intro int256_between [OF f [rule_format, of d]]) auto
    then obtain m1 where m1: "MapCoins_Add m ?cs = Inr m1" using MapCoins_Add_total [OF Cons.prems(2) ok] by blast
    note add = MapCoins_Add_success [OF Cons.prems(2) ok m1]
    with IH [of m1] f m1 show ?thesis unfolding run by (simp add: add.assoc)
  qed
  from part tot show ?case by blast
qed

section \<open>Import\<close>

lemma sanitize_total:
  assumes "\<forall>b \<in> set bs. decodes e b" "distinct (map fst acc @ map (dec e) bs)" "\<forall>(a, b) \<in> set acc. a = dec e b"
  shows "rfold (\<lambda>addresses balance. rbind (StringToBytes e (BalAddress balance)) (\<lambda>addr.
         if addr \<in> set (map fst addresses) then Inl (Panic ''genesis state has a duplicate account'')
         else Inr (addresses @ [(addr, balance)]))) acc bs = Inr (acc @ map (\<lambda>b. (dec e b, b)) bs)"
  using assms
proof (induction bs arbitrary: acc)
  case (Cons b bs)
  then have "StringToBytes e (BalAddress b) = Inr (dec e b)" by (simp add: decodes_def)
  with Cons.IH [of "acc @ [(dec e b, b)]"] Cons.prems show ?case by auto
qed simp

lemma sanitize_success:
  assumes "rfold (\<lambda>addresses balance. rbind (StringToBytes e (BalAddress balance)) (\<lambda>addr.
         if addr \<in> set (map fst addresses) then Inl (Panic ''genesis state has a duplicate account'')
         else Inr (addresses @ [(addr, balance)]))) acc bs = Inr r"
    and "distinct (map fst acc)" "\<forall>(a, b) \<in> set acc. a = dec e b \<and> decodes e b"
  shows "distinct (map fst r) \<and> (\<forall>(a, b) \<in> set r. a = dec e b \<and> decodes e b) \<and> map snd r = map snd acc @ bs"
  using assms
proof (induction bs arbitrary: acc)
  case (Cons b bs)
  then obtain addr where a: "StringToBytes e (BalAddress b) = Inr addr" by (auto simp: res_simps)
  then have "decodes e b" "dec e b = addr" by (simp_all add: decodes_def dec_def)
  with Cons.IH [of "acc @ [(addr, b)]"] Cons.prems a show ?case by (auto split: if_split_asm)
qed auto

lemma SanitizeGenesisBalances_success:
  assumes "SanitizeGenesisBalances e bs = Inr bs'"
  shows "mset bs' = mset bs \<and> (\<forall>b \<in> set bs'. decodes e b) \<and> distinct (map (dec e) bs')"
proof -
  from assms obtain r where r: "rfold (\<lambda>addresses balance. rbind (StringToBytes e (BalAddress balance)) (\<lambda>addr.
         if addr \<in> set (map fst addresses) then Inl (Panic ''genesis state has a duplicate account'')
         else Inr (addresses @ [(addr, balance)]))) [] bs = Inr r" and bs': "bs' = map snd (sort_key fst r)"
    by (auto simp: SanitizeGenesisBalances_def res_simps)
  from sanitize_success [OF r] have p: "distinct (map fst r)" "\<forall>(a, b) \<in> set r. a = dec e b \<and> decodes e b" "map snd r = bs"
    by simp_all
  have "mset bs' = mset bs" unfolding bs' p(3) [symmetric] by (simp only: mset_map mset_sort)
  moreover have "map (dec e) bs' = map fst (sort_key fst r)" unfolding bs' using p(2) by auto
  then have "distinct (map (dec e) bs')" using sort_key_distinct [OF p(1)] by (simp only:)
  moreover have "\<forall>b \<in> set bs'. decodes e b" using p(2) by (auto simp: bs')
  ultimately show ?thesis by blast
qed

lemma setSupply_loop:
  assumes "supply_ok e s" "coins_ok (validDenom e) cs" "\<forall>c \<in> set cs. sup_of s (Denom c) = 0"
  shows "\<exists>s'. sforeach setSupply cs s = (Inr (), s') \<and> supply_step e (camt cs) s s'"
proof -
  have "\<forall>c \<in> set cs. valid_coin e c" "distinct (map Denom cs)" using coins_ok_valid [OF assms(2)] by auto
  then show ?thesis using assms(1,3)
  proof (induction cs arbitrary: s)
    case (Cons c cs)
    have c: "validDenom e (Denom c)" "0 \<le> Amount c" "int256 (Amount c)" "c = \<lparr> Denom = Denom c, Amount = Amount c \<rparr>"
      using Cons.prems(1) by (simp_all add: valid_coin_def)
    obtain t where t: "setSupply c s = (Inr (), t)" "supply_step e (\<lambda>d. if d = Denom c then Amount c - sup_of s (Denom c) else 0) s t"
      using setSupply_step [OF Cons.prems(3) c(1-3)] c(4) by auto
    have "(\<lambda>d. if d = Denom c then Amount c - sup_of s (Denom c) else 0) = camt [c]" using Cons.prems(4) by auto
    with t have t2: "supply_step e (camt [c]) s t" by simp
    then have "\<forall>x \<in> set cs. sup_of t (Denom x) = 0" "supply_ok e t" using Cons.prems(2,4) by (auto simp: supply_step_def)
    with Cons.IH [of t] Cons.prems(1,2) obtain s' where "sforeach setSupply cs t = (Inr (), s')" "supply_step e (camt cs) t s'" by auto
    with supply_step_trans [OF t2] t(1) show ?case by (auto simp: sbind_def supply_step_def)
  qed (simp add: sm_run supply_step_def)
qed

lemma SetDenomMetaData_loop:
  "sforeach SetDenomMetaData ms s = (Inr (), s\<lparr>DenomMetadata := om_load (map (\<lambda>m. (Base m, m)) ms) (DenomMetadata s)\<rparr>)"
  by (induction ms arbitrary: s) (simp_all add: sm_run sbind_def SetDenomMetaData_def)

lemma SetSendEnabled_loop:
  "sforeach (\<lambda>se. SetSendEnabled (SEDenom se) (Enabled se)) es s =
     (Inr (), s\<lparr>SendEnabledMap := om_load (map (\<lambda>se. (SEDenom se, Enabled se)) es) (SendEnabledMap s)\<rparr>)"
  by (induction es arbitrary: s) (simp_all add: sm_run sbind_def send_enabled_frame)

text \<open>The bank before genesis: no balances and no supply; accounts are imported before.\<close>

definition fresh_bank :: "bank_env \<Rightarrow> bank_state \<Rightarrow> bool" where
  "fresh_bank e s \<longleftrightarrow> Balances s = [] \<and> Supply s = [] \<and> accounts_ok (Accounts s) \<and> vesting_ok e s"

definition genesis_typed :: "bank_env \<Rightarrow> GenesisState \<Rightarrow> bool" where
  "genesis_typed e gs \<longleftrightarrow> (\<forall>b \<in> set (GBalances gs). coins_ok (validDenom e) (BalCoins b))"

lemma InitGenesis_success:
  assumes "fresh_bank e s" "genesis_typed e gs" "InitGenesis e gs s = (Inr u, s')"
  shows "bank_ok e s' \<and> (\<forall>b \<in> set (GBalances gs). decodes e b) \<and> distinct (map (dec e) (GBalances gs)) \<and>
    (\<forall>a d. bal s' a d = assigned e (GBalances gs) a d) \<and>
    (\<forall>d. sup_of s' d = (\<Sum>b\<leftarrow>GBalances gs. camt (BalCoins b) d)) \<and>
    (GSupply gs \<noteq> [] \<longrightarrow> camt (GSupply gs) = sup_of s')"
proof -
  from assms(3) obtain t1 bs m t2 cs t3 where t1: "SetParams (GParams gs) s = (Inr (), t1)"
    and bs: "SanitizeGenesisBalances e (GBalances gs) = Inr bs"
    and load: "sfold (init_balance e) [] bs (t1\<lparr>SendEnabledMap :=
      om_load (map (\<lambda>se. (SEDenom se, Enabled se)) (GetAllSendEnabled gs)) (SendEnabledMap t1)\<rparr>) = (Inr m, t2)"
    and cs: "MapCoins_ToCoins (validDenom e) m = Inr cs" and sup: "GSupply gs = [] \<or> Coins_Equal (GSupply gs) cs"
    and t3: "sforeach setSupply cs t2 = (Inr (), t3)"
    and s': "s' = t3\<lparr>DenomMetadata := om_load (map (\<lambda>m. (Base m, m)) (GDenomMetadata gs)) (DenomMetadata t3)\<rparr>"
    by (auto simp: InitGenesis_def sm_simps SetSendEnabled_loop SetDenomMetaData_loop split: if_splits)
  let ?t = "t1\<lparr>SendEnabledMap := om_load (map (\<lambda>se. (SEDenom se, Enabled se)) (GetAllSendEnabled gs)) (SendEnabledMap t1)\<rparr>"
  note san = SanitizeGenesisBalances_success [OF bs]
  have "ledger_part t1 = ledger_part s" by (rule SetParams_frame [OF t1])
  then have "ledger_part ?t = ledger_part s" by (simp add: ledger_part_def)
  note t = ledger_part_fields [OF this]
  have fresh: "Balances ?t = []" "Supply ?t = []" using assms(1) t unfolding fresh_bank_def by metis+
  have z: "balances_ok e ?t" "mc_ok (validDenom e) []" "bal ?t a d = 0" "held ?t d = 0" for a d
    using fresh by (simp_all add: balances_ok_def mc_ok_def bal_def held_def)
  have ok: "\<forall>b \<in> set bs. coins_ok (validDenom e) (BalCoins b) \<and> decodes e b"
    using assms(2) san by (auto simp: genesis_typed_def dest: mset_eq_setD)
  from load_balances [OF z(1,2) ok, of m t2] san z load
  have l: "mc_ok (validDenom e) m" "balances_ok e t2" "same_rest ?t t2" "\<And>a d. bal t2 a d = assigned e bs a d"
    "\<And>d. held t2 d = (\<Sum>b\<leftarrow>bs. camt (BalCoins b) d)" "\<And>d. amt m d = (\<Sum>b\<leftarrow>bs. camt (BalCoins b) d)" by auto
  note r = same_rest_fields [OF l(3)]
  from MapCoins_ToCoins_ok [OF l(1)] cs have cs_ok: "coins_ok (validDenom e) cs" "\<And>d. camt cs d = amt m d" by auto
  have "supply_ok e t2" "\<forall>c \<in> set cs. sup_of t2 (Denom c) = 0" using r(2) fresh by (simp_all add: supply_ok_def)
  from setSupply_loop [OF this(1) cs_ok(1) this(2)] t3 have st: "supply_step e (camt cs) t2 t3" by simp
  note q = supply_step_fields [OF st]
  have sup3: "sup_of s' d = camt cs d" for d using st r(2) fresh by (simp add: s' supply_step_def)
  have perm: "(\<Sum>b\<leftarrow>bs. f b) = (\<Sum>b\<leftarrow>GBalances gs. f b)" for f :: "Balance \<Rightarrow> int"
    using san by (metis mset_map sum_mset_sum_list)
  have accs: "accounts_ok (Accounts s')" "vesting_ok e s'"
    using assms(1) q(1) r(1) t(3) by (simp_all add: s' fresh_bank_def vesting_ok_def)
  have "bank_ok e s'"
    using accs l(2,5,6) st q(2) sup3 cs_ok(2)
    by (simp add: bank_ok_def balances_ok_def supply_ok_def supply_step_def held_def s')
  moreover have "bal s' a d = assigned e (GBalances gs) a d" for a d
    using l(4) q(2) perm by (simp add: s' bal_def assigned_def)
  moreover have "sup_of s' d = (\<Sum>b\<leftarrow>GBalances gs. camt (BalCoins b) d)" for d
    using sup3 cs_ok(2) l(6) perm by simp
  moreover have "camt (GSupply gs) = sup_of s'" if "GSupply gs \<noteq> []"
    using sup that Coins_Equal_amt [of "GSupply gs" cs] sup3 by auto
  moreover have "distinct (map (dec e) (GBalances gs))" "\<forall>b \<in> set (GBalances gs). decodes e b"
    using san by (metis distinct_map mset_eq_imp_distinct_iff mset_map, metis mset_eq_setD)
  ultimately show ?thesis by blast
qed

lemma InitGenesis_config:
  assumes "InitGenesis e gs s = (Inr u, s')" "PSendEnabled (GParams gs) = []"
    and "fresh_bank e s" "genesis_typed e gs"
  shows "DenomMetadata s' = om_load (map (\<lambda>m. (Base m, m)) (GDenomMetadata gs)) (DenomMetadata s) \<and>
    SendEnabledMap s' = om_load (map (\<lambda>se. (SEDenom se, Enabled se)) (GSendEnabled gs)) (SendEnabledMap s) \<and>
    ParamsItem s' = Some (GParams gs)"
proof -
  let ?t = "s\<lparr>ParamsItem := Some (GParams gs), SendEnabledMap := om_load (map (\<lambda>se. (SEDenom se, Enabled se)) (GSendEnabled gs)) (SendEnabledMap s)\<rparr>"
  from assms(1) obtain bs m t2 cs t3 where bs: "SanitizeGenesisBalances e (GBalances gs) = Inr bs"
    and load: "sfold (init_balance e) [] bs ?t = (Inr m, t2)" and cs: "MapCoins_ToCoins (validDenom e) m = Inr cs"
    and t3: "sforeach setSupply cs t2 = (Inr (), t3)"
    and s': "s' = t3\<lparr>DenomMetadata := om_load (map (\<lambda>m. (Base m, m)) (GDenomMetadata gs)) (DenomMetadata t3)\<rparr>"
    by (auto simp: InitGenesis_def sm_simps SetSendEnabled_loop SetDenomMetaData_loop SetParams_def assms(2) GetAllSendEnabled_def split: if_splits)
  note san = SanitizeGenesisBalances_success [OF bs]
  have z: "balances_ok e ?t" "mc_ok (validDenom e) []" "bal ?t a d = 0" for a d
    using assms(3) by (simp_all add: fresh_bank_def balances_ok_def mc_ok_def bal_def)
  have ok: "\<forall>b \<in> set bs. coins_ok (validDenom e) (BalCoins b) \<and> decodes e b"
    using assms(4) san by (auto simp: genesis_typed_def dest: mset_eq_setD)
  from load_balances [OF z(1,2) ok, of m t2] san z load have l: "mc_ok (validDenom e) m" "same_rest ?t t2" by auto
  have frame: "t3\<lparr>Supply := []\<rparr> = t2\<lparr>Supply := []\<rparr>"
    using t3
    by (elim sforeach_invariant [where I = "\<lambda>t. t\<lparr>Supply := []\<rparr> = t2\<lparr>Supply := []\<rparr>"]) (auto simp: setSupply_def sm_run split: if_splits)
  then have "DenomMetadata t3 = DenomMetadata t2" "SendEnabledMap t3 = SendEnabledMap t2" "ParamsItem t3 = ParamsItem t2"
    by (cases t2; cases t3; simp)+
  with same_rest_fields [OF l(2)] show ?thesis by (simp add: s')
qed

lemma InitGenesis_total:
  assumes "fresh_bank e s" "genesis_typed e gs" "\<forall>b \<in> set (GBalances gs). decodes e b" "distinct (map (dec e) (GBalances gs))"
    and "\<And>d. int256 (\<Sum>b\<leftarrow>GBalances gs. camt (BalCoins b) d)" "PSendEnabled (GParams gs) = []"
    and "coins_ok (validDenom e) (GSupply gs)" "\<And>d. camt (GSupply gs) d = (\<Sum>b\<leftarrow>GBalances gs. camt (BalCoins b) d)"
  shows "\<exists>s'. InitGenesis e gs s = (Inr (), s')"
proof -
  let ?t = "s\<lparr>ParamsItem := Some (GParams gs), SendEnabledMap := om_load (map (\<lambda>se. (SEDenom se, Enabled se)) (GSendEnabled gs)) (SendEnabledMap s)\<rparr>"
  obtain bs where bs: "SanitizeGenesisBalances e (GBalances gs) = Inr bs"
    using sanitize_total [of "GBalances gs" e "[]"] assms(3,4) by (simp add: SanitizeGenesisBalances_def)
  note san = SanitizeGenesisBalances_success [OF bs]
  have z: "balances_ok e ?t" "mc_ok (validDenom e) []" "bal ?t a d = 0" for a d
    using assms(1) by (simp_all add: fresh_bank_def balances_ok_def mc_ok_def bal_def)
  have ok: "\<forall>b \<in> set bs. coins_ok (validDenom e) (BalCoins b) \<and> decodes e b"
    using assms(2) san by (auto simp: genesis_typed_def dest: mset_eq_setD)
  have perm: "(\<Sum>b\<leftarrow>bs. f b) = (\<Sum>b\<leftarrow>GBalances gs. f b)" for f :: "Balance \<Rightarrow> int"
    using san by (metis mset_map sum_mset_sum_list)
  obtain m t2 where m: "sfold (init_balance e) [] bs ?t = (Inr m, t2)"
    using load_balances [OF z(1,2) ok] san z assms(5) perm by force
  from load_balances [OF z(1,2) ok, of m t2] san z m perm
  have l: "mc_ok (validDenom e) m" "same_rest ?t t2" "\<And>d. amt m d = (\<Sum>b\<leftarrow>GBalances gs. camt (BalCoins b) d)" by auto
  obtain cs where cs: "MapCoins_ToCoins (validDenom e) m = Inr cs" "coins_ok (validDenom e) cs" "\<And>d. camt cs d = amt m d"
    using MapCoins_ToCoins_ok [OF l(1)] by blast
  have "cs = GSupply gs" by (rule coins_ok_ext [OF cs(2) assms(7)]) (simp add: cs(3) l(3) assms(8))
  then have eq: "Coins_Equal (GSupply gs) cs" by (simp add: Coins_Equal_def list_all2_eq [symmetric])
  have "supply_ok e t2" "\<forall>c \<in> set cs. sup_of t2 (Denom c) = 0"
    using same_rest_fields(2) [OF l(2)] assms(1) by (simp_all add: supply_ok_def fresh_bank_def)
  with setSupply_loop [OF this(1) cs(2) this(2)] obtain t3 where "sforeach setSupply cs t2 = (Inr (), t3)" by blast
  then show ?thesis
    using bs m cs(1) eq assms(6)
    by (auto simp: InitGenesis_def sbind_def sm_run SetSendEnabled_loop SetDenomMetaData_loop SetParams_def GetAllSendEnabled_def Let_def)
qed

section \<open>Export\<close>

text \<open>An address that the codec prints and reads back.\<close>

definition printable :: "bank_env \<Rightarrow> string \<Rightarrow> bool" where
  "printable e a \<longleftrightarrow> (\<exists>str. BytesToString e a = Inr str \<and> StringToBytes e str = Inr a)"

definition enc :: "bank_env \<Rightarrow> string \<Rightarrow> string" where
  "enc e a = (case BytesToString e a of Inr str \<Rightarrow> str | Inl _ \<Rightarrow> [])"

lemma printableD: "printable e a \<Longrightarrow> BytesToString e a = Inr (enc e a) \<and> StringToBytes e (enc e a) = Inr a"
  by (auto simp: printable_def enc_def)

lemma enc_inj: "printable e a \<Longrightarrow> printable e b \<Longrightarrow> enc e a = enc e b \<longleftrightarrow> a = b"
  by (metis printableD Inr_inject)

definition listed :: "Balance list \<Rightarrow> string \<Rightarrow> string \<Rightarrow> int" where
  "listed bs str d = (\<Sum>b\<leftarrow>bs. if BalAddress b = str then camt (BalCoins b) d else 0)"

lemma listed_absent: "str \<notin> BalAddress ` set bs \<Longrightarrow> listed bs str d = 0"
  by (induction bs) (auto simp: listed_def)

lemma listed_member: "distinct (map BalAddress bs) \<Longrightarrow> b \<in> set bs \<Longrightarrow> listed bs (BalAddress b) d = camt (BalCoins b) d"
proof (induction bs)
  case (Cons x bs)
  then show ?case
    using listed_absent [of "BalAddress x" bs d] by (auto simp: listed_def image_iff split: if_splits)
qed simp

lemma listed_update:
  assumes "distinct (map BalAddress bs)" "str \<in> BalAddress ` set bs" "\<And>b. BalAddress (f b) = BalAddress b"
    and "\<forall>b \<in> set bs. BalAddress b = str \<longrightarrow> camt (BalCoins (f b)) d = camt (BalCoins b) d + x"
  shows "listed (map (\<lambda>b. if BalAddress b = str then f b else b) bs) str' d = listed bs str' d + (if str' = str then x else 0)"
  using assms
proof (induction bs)
  case (Cons b bs)
  show ?case
  proof (cases "BalAddress b = str")
    case True
    then have no: "\<forall>y \<in> set bs. BalAddress y \<noteq> str" using Cons.prems(1) by (auto simp: image_iff)
    then have "map (\<lambda>b. if BalAddress b = str then f b else b) bs = bs" by (intro map_idI) auto
    with True Cons.prems(3,4) show ?thesis by (auto simp: listed_def)
  next
    case False
    with Cons show ?thesis by (auto simp: listed_def)
  qed
qed simp

lemma sum_update_balance:
  assumes "distinct (map BalAddress bs)" "str \<in> BalAddress ` set bs"
    and "\<forall>b \<in> set bs. BalAddress b = str \<longrightarrow> camt (BalCoins (f b)) d = camt (BalCoins b) d + x"
  shows "(\<Sum>b\<leftarrow>map (\<lambda>b. if BalAddress b = str then f b else b) bs. camt (BalCoins b) d) = (\<Sum>b\<leftarrow>bs. camt (BalCoins b) d) + x"
  using assms
proof (induction bs)
  case (Cons b bs)
  show ?case
  proof (cases "BalAddress b = str")
    case True
    then have no: "\<forall>y \<in> set bs. BalAddress y \<noteq> str" using Cons.prems(1) by (auto simp: image_iff)
    then have "map (\<lambda>b. if BalAddress b = str then f b else b) bs = bs" by (intro map_idI) auto
    with True Cons.prems(3) show ?thesis by simp
  next
    case False
    with Cons show ?thesis by auto
  qed
qed simp

text \<open>What the export has collected after the entries \<open>P\<close>.\<close>

definition collected :: "bank_env \<Rightarrow> ((string \<times> string) \<times> int) list \<Rightarrow> Balance list \<Rightarrow> bool" where
  "collected e P bs \<longleftrightarrow> distinct (map BalAddress bs) \<and>
     (\<forall>b \<in> set bs. coins_ok (validDenom e) (BalCoins b) \<and> (\<exists>a. printable e a \<and> BalAddress b = enc e a)) \<and>
     (\<forall>a d. printable e a \<longrightarrow> listed bs (enc e a) d = (\<Sum>x\<leftarrow>P. if fst x = (a, d) then snd x else 0)) \<and>
     (\<forall>d. (\<Sum>b\<leftarrow>bs. camt (BalCoins b) d) = (\<Sum>x\<leftarrow>P. if snd (fst x) = d then snd x else 0))"

lemma collect_balance_step:
  assumes "collected e P bs" "printable e a" "validDenom e d" "0 < x" "int256 x" "(a, d) \<notin> fst ` set P"
  shows "\<exists>bs'. collect_balance e bs ((a, d), x) = Inr bs' \<and> collected e (P @ [((a, d), x)]) bs'"
proof -
  let ?str = "enc e a" and ?c = "\<lparr> Denom = d, Amount = x \<rparr>"
  have P0: "(\<Sum>y\<leftarrow>P. if fst y = (a, d) then snd y else 0) = 0"
  proof -
    have "map (\<lambda>y. if fst y = (a, d) then snd y else 0) P = map (\<lambda>_. 0) P"
      using assms(6) by (intro map_cong) force+
    then show ?thesis by (simp only: sum_list_0)
  qed
  have str: "BytesToString e a = Inr ?str" using printableD [OF assms(2)] by simp
  have c: "NewCoin (validDenom e) d x = Inr ?c" "coins_ok (validDenom e) [?c]" using assms(3-5) by (simp_all add: NewCoin_ok coins_ok_iff)
  have sum: "(\<Sum>y\<leftarrow>P @ [((a, d), x)]. if fst y = (a', d') then snd y else 0) =
    (\<Sum>y\<leftarrow>P. if fst y = (a', d') then snd y else 0) + (if a' = a \<and> d' = d then x else 0)" for a' d' by auto
  show ?thesis
  proof (cases "?str \<in> BalAddress ` set bs")
    case True
    define f where "f b = (case Coins_Add (BalCoins b) [?c] of Inr cs \<Rightarrow> b\<lparr>BalCoins := cs\<rparr> | Inl _ \<Rightarrow> b)" for b :: Balance
    have f: "Coins_Add (BalCoins b) [?c] = Inr (BalCoins (f b)) \<and> coins_ok (validDenom e) (BalCoins (f b)) \<and>
        f b = b\<lparr>BalCoins := BalCoins (f b)\<rparr> \<and> (\<forall>d'. camt (BalCoins (f b)) d' = camt (BalCoins b) d' + (if d' = d then x else 0))"
      if b: "b \<in> set bs" "BalAddress b = ?str" for b
    proof -
      have ok: "coins_ok (validDenom e) (BalCoins b)" using assms(1) b by (simp add: collected_def)
      have "camt (BalCoins b) d = 0"
        using assms(1,2) listed_member [of bs b d] b P0 by (simp add: collected_def)
      then have "int256 (camt (BalCoins b) d' + camt [?c] d')" for d'
        using assms(5) coins_ok_fits [OF ok, of d'] by (cases "d' = d") auto
      then obtain cs where cs: "Coins_Add (BalCoins b) [?c] = Inr cs" using Coins_Add_total [OF ok c(2)] by blast
      with Coins_Add_ok [OF ok c(2) cs] show ?thesis by (auto simp: f_def)
    qed
    let ?upd = "\<lambda>b. if BalAddress b = ?str then f b else b"
    have addr: "BalAddress (f b) = BalAddress b" for b by (simp add: f_def split: sum.splits)
    have sorted: "Coins_Sort cs = cs" if "coins_ok (validDenom e) cs" for cs
      using that by (simp add: Coins_Sort_def coins_ok_iff canon_sorted sort_key_id_if_sorted)
    have "rmap (\<lambda>b. if BalAddress b = ?str then rbind (Coins_Add (BalCoins b) [?c]) (\<lambda>cs. Inr (b\<lparr>BalCoins := Coins_Sort cs\<rparr>)) else Inr b) bs
      = Inr (map ?upd bs)"
    proof (rule rmap_total)
      fix b
      assume b: "b \<in> set bs"
      show "(if BalAddress b = ?str then rbind (Coins_Add (BalCoins b) [?c]) (\<lambda>cs. Inr (b\<lparr>BalCoins := Coins_Sort cs\<rparr>)) else Inr b) = Inr (?upd b)"
      proof (cases "BalAddress b = ?str")
        case True
        then obtain cs where "Coins_Add (BalCoins b) [?c] = Inr cs" "coins_ok (validDenom e) cs" "f b = b\<lparr>BalCoins := cs\<rparr>"
          using f [OF b] by blast
        with True sorted show ?thesis by simp
      qed simp
    qed
    then have run: "collect_balance e bs ((a, d), x) = Inr (map ?upd bs)"
      using True by (simp add: collect_balance_def c(1) str)
    have "listed (map ?upd bs) (enc e a') d' = listed bs (enc e a') d' + (if enc e a' = ?str then if d' = d then x else 0 else 0)" for a' d'
      by (rule listed_update) (use assms(1) True addr f in \<open>auto simp: collected_def\<close>)
    then have sums: "\<forall>a' d'. printable e a' \<longrightarrow>
        listed (map ?upd bs) (enc e a') d' = (\<Sum>y\<leftarrow>P @ [((a, d), x)]. if fst y = (a', d') then snd y else 0)"
      unfolding sum using assms(1) enc_inj [OF _ assms(2)] by (simp add: collected_def)
    have tot: "\<forall>d'. (\<Sum>b\<leftarrow>map ?upd bs. camt (BalCoins b) d') = (\<Sum>y\<leftarrow>P @ [((a, d), x)]. if snd (fst y) = d' then snd y else 0)"
    proof
      fix d'
      have "(\<Sum>b\<leftarrow>map ?upd bs. camt (BalCoins b) d') = (\<Sum>b\<leftarrow>bs. camt (BalCoins b) d') + (if d' = d then x else 0)"
        by (rule sum_update_balance) (use assms(1) True f in \<open>auto simp: collected_def\<close>)
      then show "(\<Sum>b\<leftarrow>map ?upd bs. camt (BalCoins b) d') = (\<Sum>y\<leftarrow>P @ [((a, d), x)]. if snd (fst y) = d' then snd y else 0)"
        using assms(1) by (auto simp: collected_def simp del: map_map)
    qed
    have dist: "distinct (map BalAddress (map ?upd bs))"
      using assms(1) addr by (simp add: collected_def comp_def if_distrib cong: if_cong)
    have "coins_ok (validDenom e) (BalCoins (?upd b)) \<and> (\<exists>a. printable e a \<and> BalAddress (?upd b) = enc e a)" if "b \<in> set bs" for b
      using that assms(1,2) addr f [OF that] by (cases "BalAddress b = ?str") (auto simp: collected_def)
    then have entries: "\<forall>b \<in> set (map ?upd bs). coins_ok (validDenom e) (BalCoins b) \<and> (\<exists>a. printable e a \<and> BalAddress b = enc e a)"
      unfolding set_map ball_simps by blast
    have "collected e (P @ [((a, d), x)]) (map ?upd bs)"
      unfolding collected_def using dist entries sums tot by blast
    with run show ?thesis by blast
  next
    case False
    let ?b = "\<lparr> BalAddress = ?str, BalCoins = [?c] \<rparr>"
    have run: "collect_balance e bs ((a, d), x) = Inr (bs @ [?b])"
      using False c by (auto simp: collect_balance_def str)
    have "listed (bs @ [?b]) (enc e a') d' = (\<Sum>y\<leftarrow>P @ [((a, d), x)]. if fst y = (a', d') then snd y else 0)" if "printable e a'" for a' d'
      unfolding sum using assms(1) that enc_inj [OF that assms(2)] by (auto simp: collected_def listed_def)
    then have "collected e (P @ [((a, d), x)]) (bs @ [?b])"
      using assms(1,2) False c(2) unfolding collected_def by auto
    with run show ?thesis by blast
  qed
qed

lemma collect_balances:
  assumes "collected e P bs" "om_ok (P @ es)"
    and "\<forall>y \<in> set es. printable e (fst (fst y)) \<and> validDenom e (snd (fst y)) \<and> 0 < snd y \<and> int256 (snd y)"
  shows "\<exists>bs'. rfold (collect_balance e) bs es = Inr bs' \<and> collected e (P @ es) bs'"
  using assms
proof (induction es arbitrary: P bs)
  case (Cons y es)
  obtain a d x where y: "y = ((a, d), x)" by (metis prod.collapse)
  have "(a, d) \<notin> fst ` set P" using om_ok_distinct [OF Cons.prems(2)] y by auto
  with collect_balance_step [OF Cons.prems(1), of a d x] Cons.prems(3) y obtain t where
    t: "collect_balance e bs y = Inr t" "collected e (P @ [y]) t" by auto
  with Cons.IH [OF t(2)] Cons.prems(2,3) show ?case by simp
qed simp

text \<open>A state that a chain can export: the invariant holds, every holder's address is printable, and the
  configuration is stored the way the keeper stores it.\<close>

definition exportable :: "bank_env \<Rightarrow> bank_state \<Rightarrow> bool" where
  "exportable e s \<longleftrightarrow> bank_ok e s \<and> (\<forall>x \<in> set (Balances s). printable e (fst (fst x))) \<and>
     om_ok (SendEnabledMap s) \<and> om_ok (DenomMetadata s) \<and> (\<forall>(k, m) \<in> set (DenomMetadata s). k = Base m) \<and>
     (\<exists>p. ParamsItem s = Some p \<and> PSendEnabled p = [])"

lemma ExportGenesis_run:
  assumes "exportable e s"
  shows "\<exists>gs. ExportGenesis e s = (Inr gs, s) \<and> collected e (Balances s) (GBalances gs) \<and>
    coins_ok (validDenom e) (GSupply gs) \<and> cps (GSupply gs) = Supply s \<and> ParamsItem s = Some (GParams gs) \<and> PSendEnabled (GParams gs) = [] \<and>
    map (\<lambda>se. (SEDenom se, Enabled se)) (GSendEnabled gs) = SendEnabledMap s \<and>
    map (\<lambda>m. (Base m, m)) (GDenomMetadata gs) = DenomMetadata s"
proof -
  note ok = bank_okD [of e s]
  have b: "bank_ok e s" using assms by (simp add: exportable_def)
  obtain p where p: "ParamsItem s = Some p" "PSendEnabled p = []" using assms by (auto simp: exportable_def)
  have "collected e [] []" by (simp add: collected_def listed_def)
  with collect_balances [of e "[]" "[]" "Balances s"] assms ok(1) [OF b] obtain bs where
    bs: "rfold (collect_balance e) [] (Balances s) = Inr bs" "collected e (Balances s) bs"
    by (auto simp: exportable_def balances_ok_def)
  let ?sup = "map (\<lambda>(d, a). \<lparr> Denom = d, Amount = a \<rparr>) (Supply s)"
  have sup: "rmap (\<lambda>(denom, a). NewCoin (validDenom e) denom a) (Supply s) = Inr ?sup"
    using ok(2) [OF b] by (intro rmap_total) (auto simp: supply_ok_def NewCoin_ok)
  have cps: "cps ?sup = Supply s" by (simp add: cps_def case_prod_beta' comp_def)
  then have "coins_ok (validDenom e) ?sup" using ok(2) [OF b] by (auto simp: coins_ok_iff canon_def supply_ok_def)
  moreover have "map (\<lambda>m. (Base m, m)) (map snd (DenomMetadata s)) = DenomMetadata s"
    using assms unfolding map_map by (intro map_idI) (auto simp: exportable_def)
  moreover have "map (\<lambda>se. (SEDenom se, Enabled se)) (map (\<lambda>(d, v). \<lparr> SEDenom = d, Enabled = v \<rparr>) (SendEnabledMap s)) = SendEnabledMap s"
    unfolding map_map by (intro map_idI) auto
  ultimately show ?thesis
    using bs sup cps p
    by (simp add: ExportGenesis_def GetTotalSupply_def GetParams_def GetAccountsBalances_def GetAllDenomMetaData_def
        GetAllSendEnabledEntries_def NewGenesisState_def MigrateSendEnabled_def GetAllSendEnabled_def sbind_def sm_run)
qed

lemma collected_assigned:
  assumes "collected e (Balances s) bs" "om_ok (Balances s)" "\<forall>x \<in> set (Balances s). printable e (fst (fst x))"
  shows "(\<forall>b \<in> set bs. decodes e b) \<and> distinct (map (dec e) bs) \<and> assigned e bs a d = bal s a d"
proof -
  have b: "\<exists>x. printable e x \<and> BalAddress b = enc e x \<and> dec e b = x \<and> decodes e b" if "b \<in> set bs" for b
  proof -
    from assms(1) that obtain x where "printable e x" "BalAddress b = enc e x" by (auto simp: collected_def)
    with printableD [OF this(1)] show ?thesis by (simp add: dec_def decodes_def)
  qed
  have "distinct (map BalAddress bs)" using assms(1) by (simp add: collected_def)
  then have "distinct (map (dec e) bs)" unfolding distinct_map by (metis b inj_onD inj_onI)
  moreover have "assigned e bs a d = bal s a d"
  proof (cases "printable e a")
    case True
    have "assigned e bs a d = listed bs (enc e a) d"
      unfolding assigned_def listed_def by (intro arg_cong [of _ _ sum_list] map_cong) (use b enc_inj [OF _ True] in force)+
    then show ?thesis using assms(1) True bal_entries [OF assms(2), of a d] by (simp add: collected_def)
  next
    case False
    have "map (\<lambda>b. if dec e b = a then camt (BalCoins b) d else 0) bs = map (\<lambda>_. 0) bs"
      using b False by (intro map_cong) auto
    then have "assigned e bs a d = 0" unfolding assigned_def by (simp only: sum_list_0)
    moreover have "map_of (Balances s) (a, d) = None" using assms(3) False by (force simp: map_of_eq_None_iff)
    ultimately show ?thesis by (simp add: bal_def)
  qed
  ultimately show ?thesis using b by blast
qed

lemma assigned_total: "balances_ok e s \<Longrightarrow> (\<And>a d. bal s' a d = bal s a d) \<Longrightarrow> balances_ok e s' \<Longrightarrow> Balances s' = Balances s"
proof -
  assume ok: "balances_ok e s" "balances_ok e s'" and eq: "\<And>a d. bal s' a d = bal s a d"
  have m: "map_of (Balances t) (a, d) = (if bal t a d = 0 then None else Some (bal t a d))" if "balances_ok e t" for t a d
    using balances_entry [OF that, of a d] by (auto simp: bal_def split: option.splits)
  show "Balances s' = Balances s"
  proof (rule om_ok_unique)
    show "map_of (Balances s') = map_of (Balances s)" using m [OF ok(1)] m [OF ok(2)] eq by (auto simp: fun_eq_iff)
  qed (use ok in \<open>simp_all add: balances_ok_def\<close>)
qed

section \<open>Properties\<close>

text \<open>
  C6: Genesis establishes the invariant.  If a genesis state with valid balances is imported into a fresh
  bank, then every account has exactly the coins its entry assigns, no two entries were for the same
  address, the supply of each denomination is the sum of the entries and equals the supply the genesis
  state declares (if it declares one), and the invariant of the bank holds.
\<close>

theorem InitGenesis_establishes:
  assumes "fresh_bank e s" "genesis_typed e gs" "InitGenesis e gs s = (Inr (), s')"
  shows "bank_ok e s' \<and> distinct (map (dec e) (GBalances gs)) \<and>
    (\<forall>a d. bal s' a d = assigned e (GBalances gs) a d) \<and>
    (\<forall>d. sup_of s' d = (\<Sum>b\<leftarrow>GBalances gs. camt (BalCoins b) d)) \<and>
    (GSupply gs \<noteq> [] \<longrightarrow> camt (GSupply gs) = sup_of s')"
  using InitGenesis_success [OF assms] by blast

definition empty_bank :: bank_state where
  "empty_bank = \<lparr> Accounts = [], AccountNumberSeq = 0, Balances = [], Supply = [], SendEnabledMap = [],
     DenomMetadata = [], ParamsItem = None, Events = [], BlockTime = 0 \<rparr>"

definition example_genesis :: GenesisState where
  "example_genesis = \<lparr> GParams = \<lparr> PSendEnabled = [], DefaultSendEnabled = True \<rparr>,
     GBalances = [\<lparr> BalAddress = ''bob'', BalCoins = stake 3 \<rparr>, \<lparr> BalAddress = ''alice'', BalCoins = stake 7 \<rparr>],
     GSupply = stake 10, GDenomMetadata = [], GSendEnabled = [\<lparr> SEDenom = ''stake'', Enabled = True \<rparr>] \<rparr>"

lemma example_genesis_ok: "fresh_bank example_env empty_bank" "genesis_typed example_env example_genesis"
  by (auto simp: fresh_bank_def empty_bank_def accounts_ok_def vesting_ok_def genesis_typed_def example_genesis_def
      stake_def coins_ok_iff example_env_def int256_def)

theorem InitGenesis_establishes_witness:
  "\<exists>s'. InitGenesis example_env example_genesis empty_bank = (Inr (), s') \<and> sup_of s' ''stake'' = 10"
proof -
  have "fst (InitGenesis example_env example_genesis empty_bank) = Inr ()" by code_simp
  then obtain s' where s': "InitGenesis example_env example_genesis empty_bank = (Inr (), s')" by (metis prod.collapse)
  with InitGenesis_establishes [OF example_genesis_ok s'] show ?thesis by (auto simp: example_genesis_def stake_def)
qed

text \<open>
  C5: Export and import are inverse.  Exporting a state in which the invariant holds and every holder's address
  is printable always succeeds and changes nothing; importing the exported genesis state into a fresh
  bank without configuration succeeds and restores balances, supply, parameters, send flags and
  metadata exactly.
\<close>

theorem genesis_roundtrip:
  assumes "exportable e s" "fresh_bank e s0" "SendEnabledMap s0 = []" "DenomMetadata s0 = []"
  shows "\<exists>gs s'. ExportGenesis e s = (Inr gs, s) \<and> InitGenesis e gs s0 = (Inr (), s') \<and>
    Balances s' = Balances s \<and> Supply s' = Supply s \<and> ParamsItem s' = ParamsItem s \<and>
    SendEnabledMap s' = SendEnabledMap s \<and> DenomMetadata s' = DenomMetadata s"
proof -
  have b: "bank_ok e s" using assms(1) by (simp add: exportable_def)
  note ok = bank_okD [OF b]
  obtain gs where gs: "ExportGenesis e s = (Inr gs, s)" "collected e (Balances s) (GBalances gs)"
    "coins_ok (validDenom e) (GSupply gs)" "cps (GSupply gs) = Supply s" "ParamsItem s = Some (GParams gs)" "PSendEnabled (GParams gs) = []"
    "map (\<lambda>se. (SEDenom se, Enabled se)) (GSendEnabled gs) = SendEnabledMap s" "map (\<lambda>m. (Base m, m)) (GDenomMetadata gs) = DenomMetadata s"
    using ExportGenesis_run [OF assms(1)] by blast
  have om: "om_ok (Balances s)" "\<forall>x \<in> set (Balances s). printable e (fst (fst x))"
    using ok(1) assms(1) by (simp_all add: balances_ok_def exportable_def)
  note asg = collected_assigned [OF gs(2) om]
  have total: "(\<Sum>b\<leftarrow>GBalances gs. camt (BalCoins b) d) = sup_of s d" for d
    using gs(2) ok(5) [of d] by (simp add: collected_def held_def)
  have typed: "genesis_typed e gs" using gs(2) by (simp add: genesis_typed_def collected_def)
  obtain s' where s': "InitGenesis e gs s0 = (Inr (), s')"
  proof -
    have "\<exists>s'. InitGenesis e gs s0 = (Inr (), s')"
      by (rule InitGenesis_total [OF assms(2) typed]) (use asg total supply_bounds [OF ok(2)] gs in auto)
    with that show thesis by blast
  qed
  note init = InitGenesis_success [OF assms(2) typed s']
  have bs: "bank_ok e s'" using init by blast
  have "Balances s' = Balances s"
    by (rule assigned_total [OF ok(1) _ bank_okD(1) [OF bs]]) (use init asg in simp)
  moreover have "Supply s' = Supply s"
  proof -
    have "canon (Supply s')" "canon (Supply s)"
      using bank_okD(2) [OF bs] ok(2) by (auto simp: supply_ok_def canon_def)
    then show ?thesis by (rule canon_ext) (use init total in simp)
  qed
  moreover have "ParamsItem s' = ParamsItem s" "SendEnabledMap s' = SendEnabledMap s" "DenomMetadata s' = DenomMetadata s"
    using InitGenesis_config [OF s' gs(6) assms(2) typed] gs assms(1,3,4) by (simp_all add: om_load_self exportable_def)
  ultimately show ?thesis using gs(1) s' by blast
qed

lemma example_exportable: "exportable example_env example_bank"
  using example_bank_ok by (simp add: exportable_def) (simp add: example_bank_def printable_def example_env_def)

theorem genesis_roundtrip_witness:
  "\<exists>gs s'. ExportGenesis example_env example_bank = (Inr gs, example_bank) \<and>
     InitGenesis example_env gs empty_bank = (Inr (), s') \<and> Balances s' = [((''alice'', ''stake''), 10)]"
proof -
  have "SendEnabledMap empty_bank = []" "DenomMetadata empty_bank = []" by (simp_all add: empty_bank_def)
  with genesis_roundtrip [OF example_exportable example_genesis_ok(1) this] show ?thesis
    by (auto simp: example_bank_def)
qed

end
