(* ===== verification/Mint.thy ===== *)
theory Mint
  imports BankMsgs
begin

text \<open>
  The inflation module \<open>x/mint\<close> (\<open>src/x/mint/types/minter.go\<close>, \<open>params.go\<close>, \<open>genesis.go\<close>,
  \<open>src/x/mint/keeper/keeper.go\<close>, \<open>abci.go\<close>, \<open>genesis.go\<close>, \<open>msg_server.go\<close>, \<open>src/x/mint/epoch_hooks.go\<close>)
  with the pool queries of \<open>x/staking\<close> that it calls (\<open>src/x/staking/keeper/pool.go\<close>), as a client of the
  bank through the contract \<open>bank_ledger\<close>.

  The state holds the state of the bank, the minter, the parameters and the bond denomination of the
  staking parameters; a collection item that is not set is \<open>None\<close>.  Decimals are never nil.  The
  inflation function is an argument, as in \<open>DefaultMintFn\<close>; the default is \<open>NextInflationRate\<close>.
\<close>

section \<open>State\<close>

record Minter =
  Inflation :: dec
  AnnualProvisions :: dec
  Data :: string

record MintParams =
  MintDenom :: string
  InflationRateChange :: dec
  InflationMax :: dec
  InflationMin :: dec
  GoalBonded :: dec
  BlocksPerYear :: nat
  MaxSupply :: int

record mint_env =
  MBankEnv :: bank_env
  feeCollectorName :: string
  MAuthority :: string

record mint_state =
  MBank :: bank_state
  MinterItem :: "Minter option"
  MParamsItem :: "MintParams option"
  BondDenomItem :: "string option"

type_synonym 'a mint = "(mint_state, 'a) sm"

type_synonym inflation_fn = "Minter \<Rightarrow> MintParams \<Rightarrow> dec \<Rightarrow> dec res"
type_synonym mint_fn = "Minter \<Rightarrow> string \<Rightarrow> int \<Rightarrow> Minter mint"

definition on_bank :: "'a bank \<Rightarrow> 'a mint" where
  "on_bank m s = (let (r, b) = m (MBank s) in (r, s\<lparr>MBank := b\<rparr>))"

definition Item_Get :: "(mint_state \<Rightarrow> 'a option) \<Rightarrow> 'a mint" where
  "Item_Get item = sbind (sgets item) (\<lambda>v. case v of None \<Rightarrow> sfail (Err ''not found'') | Some x \<Rightarrow> sret x)"

section \<open>Parameters\<close>

definition validateMintDenom :: "(string \<Rightarrow> bool) \<Rightarrow> string \<Rightarrow> unit res" where
  "validateMintDenom vd v =
     (if blank_bytes (map of_char v) then Inl (Err ''mint denom cannot be blank'') else ValidateDenom vd v)"

definition validateInflationRateChange :: "dec \<Rightarrow> unit res" where
  "validateInflationRateChange v =
     (if v < 0 then Inl (Err ''inflation rate change cannot be negative'')
      else if v > LegacyOneDec then Inl (Err ''inflation rate change too large'') else Inr ())"

definition validateInflationMax :: "dec \<Rightarrow> unit res" where
  "validateInflationMax v =
     (if v < 0 then Inl (Err ''max inflation cannot be negative'')
      else if v > LegacyOneDec then Inl (Err ''max inflation too large'') else Inr ())"

definition validateInflationMin :: "dec \<Rightarrow> unit res" where
  "validateInflationMin v =
     (if v < 0 then Inl (Err ''min inflation cannot be negative'')
      else if v > LegacyOneDec then Inl (Err ''min inflation too large'') else Inr ())"

definition validateGoalBonded :: "dec \<Rightarrow> unit res" where
  "validateGoalBonded v =
     (if v < 0 \<or> v = 0 then Inl (Err ''goal bonded must be positive'')
      else if v > LegacyOneDec then Inl (Err ''goal bonded too large'') else Inr ())"

definition validateBlocksPerYear :: "nat \<Rightarrow> unit res" where
  "validateBlocksPerYear v = (if v = 0 then Inl (Err ''blocks per year must be positive'') else Inr ())"

definition validateMaxSupply :: "int \<Rightarrow> unit res" where
  "validateMaxSupply v = (if v < 0 then Inl (Err ''max supply must be positive'') else Inr ())"

definition MintParams_Validate :: "(string \<Rightarrow> bool) \<Rightarrow> MintParams \<Rightarrow> unit res" where
  "MintParams_Validate vd p =
     rbind (validateMintDenom vd (MintDenom p)) (\<lambda>_.
     rbind (validateInflationRateChange (InflationRateChange p)) (\<lambda>_.
     rbind (validateInflationMax (InflationMax p)) (\<lambda>_.
     rbind (validateInflationMin (InflationMin p)) (\<lambda>_.
     rbind (validateGoalBonded (GoalBonded p)) (\<lambda>_.
     rbind (validateBlocksPerYear (BlocksPerYear p)) (\<lambda>_.
     rbind (validateMaxSupply (MaxSupply p)) (\<lambda>_.
       if InflationMax p < InflationMin p then Inl (Err ''max inflation must be greater than or equal to min inflation'')
       else Inr ())))))))"

section \<open>The minter\<close>

definition ValidateMinter :: "Minter \<Rightarrow> unit res" where
  "ValidateMinter minter =
     (if Inflation minter < 0 then Inl (Err ''mint parameter Inflation should be positive'') else Inr ())"

definition NextInflationRate :: inflation_fn where
  "NextInflationRate m params bondedRatio =
     rbind (Dec_Quo bondedRatio (GoalBonded params)) (\<lambda>quo.
     rbind (Dec_Sub LegacyOneDec quo) (\<lambda>diff.
     rbind (Dec_Mul diff (InflationRateChange params)) (\<lambda>inflationRateChangePerYear.
     rbind (Dec_Quo inflationRateChangePerYear (LegacyNewDecFromInt (int64_of_uint64 (BlocksPerYear params)))) (\<lambda>inflationRateChange.
     rbind (Dec_Add (Inflation m) inflationRateChange) (\<lambda>inflation.
       let inflation = (if inflation > InflationMax params then InflationMax params else inflation);
           inflation = (if inflation < InflationMin params then InflationMin params else inflation)
       in Inr inflation)))))"

definition NextAnnualProvisions :: "Minter \<Rightarrow> int \<Rightarrow> dec res" where
  "NextAnnualProvisions m totalSupply = Dec_MulInt (Inflation m) totalSupply"

definition BlockProvision :: "(string \<Rightarrow> bool) \<Rightarrow> Minter \<Rightarrow> MintParams \<Rightarrow> Coin res" where
  "BlockProvision vd m params =
     rbind (Dec_QuoInt (AnnualProvisions m) (int64_of_uint64 (BlocksPerYear params))) (\<lambda>provisionAmt.
     rbind (Dec_TruncateInt provisionAmt) (\<lambda>amount. NewCoin vd (MintDenom params) amount))"

definition Minter_IsEqual :: "Minter \<Rightarrow> Minter \<Rightarrow> bool" where
  "Minter_IsEqual m minter \<longleftrightarrow>
     Inflation m = Inflation minter \<and> AnnualProvisions m = AnnualProvisions minter \<and> Data m = Data minter"

section \<open>Staking pool queries\<close>

definition StakingTokenSupply :: "mint_env \<Rightarrow> int mint" where
  "StakingTokenSupply e =
     sbind (Item_Get BondDenomItem) (\<lambda>bondDenom.
     sbind (on_bank (GetSupply (MBankEnv e) bondDenom)) (\<lambda>coin. sret (Amount coin)))"

text \<open>An unregistered pool has no account: the method call on the nil interface panics.\<close>

definition TotalBondedTokens :: "mint_env \<Rightarrow> int mint" where
  "TotalBondedTokens e =
     sbind (on_bank (GetModuleAccount (MBankEnv e) ''bonded_tokens_pool'')) (\<lambda>bondedPool.
     sbind (Item_Get BondDenomItem) (\<lambda>bondDenom. case bondedPool of
       None \<Rightarrow> sfail (Panic ''nil pointer dereference'')
     | Some acc \<Rightarrow> sbind (on_bank (GetBalance (MBankEnv e) (GetAddress acc) bondDenom)) (\<lambda>coin. sret (Amount coin))))"

definition BondedRatio :: "mint_env \<Rightarrow> dec mint" where
  "BondedRatio e =
     sbind (StakingTokenSupply e) (\<lambda>stakeSupply.
       if stakeSupply > 0 then
         sbind (TotalBondedTokens e) (\<lambda>totalBonded. slift (Dec_QuoInt (LegacyNewDecFromInt totalBonded) stakeSupply))
       else sret LegacyZeroDec)"

section \<open>The keeper\<close>

definition mint_MintCoins :: "mint_env \<Rightarrow> Coin list \<Rightarrow> unit mint" where
  "mint_MintCoins e newCoins =
     (if newCoins = [] then sret () else on_bank (MintCoins (MBankEnv e) ''mint'' newCoins))"

definition AddCollectedFees :: "mint_env \<Rightarrow> Coin list \<Rightarrow> unit mint" where
  "AddCollectedFees e fees =
     on_bank (SendCoinsFromModuleToModule (MBankEnv e) ''mint'' (feeCollectorName e) fees)"

text \<open>The new inflation, annual provisions and provision of the block.\<close>

definition update_minter ::
  "(string \<Rightarrow> bool) \<Rightarrow> inflation_fn \<Rightarrow> MintParams \<Rightarrow> dec \<Rightarrow> int \<Rightarrow> Minter \<Rightarrow> (Minter \<times> Coin) res" where
  "update_minter vd ic params bondedRatio stakingTokenSupply minter =
     rbind (ic minter params bondedRatio) (\<lambda>inflation.
     let minter = minter\<lparr>Inflation := inflation\<rparr> in
     rbind (NextAnnualProvisions minter stakingTokenSupply) (\<lambda>provisions.
     let minter = minter\<lparr>AnnualProvisions := provisions\<rparr> in
     rbind (BlockProvision vd minter params) (\<lambda>mintedCoin. Inr (minter, mintedCoin))))"

text \<open>The check against the maximal supply: \<open>None\<close> when it is reached, else the coins of the block, which are
  already minted if the provision was cut to the remaining difference.\<close>

definition cap_provision :: "mint_env \<Rightarrow> MintParams \<Rightarrow> int \<Rightarrow> Coin list \<Rightarrow> Coin list option mint" where
  "cap_provision e params totalSupply mintedCoins =
     (if MaxSupply params = 0 then sret (Some mintedCoins)
      else sbind (slift (Coins_AmountOf (validDenom (MBankEnv e)) mintedCoins (MintDenom params))) (\<lambda>minted.
        sbind (slift (Int_Add totalSupply minted)) (\<lambda>newSupply.
          if \<not> newSupply > MaxSupply params then sret (Some mintedCoins)
          else sbind (slift (Int_Sub (MaxSupply params) totalSupply)) (\<lambda>diff.
            if diff \<le> 0 then sret None
            else sbind (slift (NewCoin (validDenom (MBankEnv e)) (MintDenom params) diff)) (\<lambda>diffCoin.
              sbind (slift (NewCoins (validDenom (MBankEnv e)) [diffCoin])) (\<lambda>diffCoins.
              sbind (mint_MintCoins e diffCoins) (\<lambda>_. sret (Some diffCoins))))))))"

definition mint_below_cap :: "mint_env \<Rightarrow> MintParams \<Rightarrow> int \<Rightarrow> Coin list \<Rightarrow> unit mint" where
  "mint_below_cap e params totalSupply mintedCoins =
     (if MaxSupply params = 0 then mint_MintCoins e mintedCoins
      else sbind (slift (Coins_AmountOf (validDenom (MBankEnv e)) mintedCoins (MintDenom params))) (\<lambda>minted.
        sbind (slift (Int_Add totalSupply minted)) (\<lambda>newSupply.
          if newSupply < MaxSupply params then mint_MintCoins e mintedCoins else sret ())))"

text \<open>The minter behind the pointer is returned.\<close>

definition DefaultMintFn :: "inflation_fn \<Rightarrow> mint_env \<Rightarrow> mint_fn" where
  "DefaultMintFn ic e minter epochId epochNumber =
     (if epochId \<noteq> ''block'' then sret minter
      else sbind (StakingTokenSupply e) (\<lambda>stakingTokenSupply.
        sbind (BondedRatio e) (\<lambda>bondedRatio.
        sbind (Item_Get MParamsItem) (\<lambda>params.
        sbind (slift (update_minter (validDenom (MBankEnv e)) ic params bondedRatio stakingTokenSupply minter)) (\<lambda>(minter, mintedCoin).
        sbind (slift (NewCoins (validDenom (MBankEnv e)) [mintedCoin])) (\<lambda>mintedCoins.
        sbind (cap_provision e params stakingTokenSupply mintedCoins) (\<lambda>capped. case capped of
          None \<Rightarrow> sret minter
        | Some mintedCoins \<Rightarrow>
            sbind (mint_below_cap e params stakingTokenSupply mintedCoins) (\<lambda>_.
            sbind (AddCollectedFees e mintedCoins) (\<lambda>_.
            sbind (on_bank (EmitKV (EventMint bondedRatio (Inflation minter) (AnnualProvisions minter) (Amount mintedCoin)))) (\<lambda>_.
              sret minter))))))))))"

definition run_mint_fn :: "mint_fn \<Rightarrow> string \<Rightarrow> int \<Rightarrow> unit mint" where
  "run_mint_fn mintFn epochId epochNumber =
     sbind (Item_Get MinterItem) (\<lambda>oldMinter.
     sbind (mintFn oldMinter epochId epochNumber) (\<lambda>minter.
       if Minter_IsEqual minter oldMinter then sret ()
       else smodify (\<lambda>s. s\<lparr>MinterItem := Some minter\<rparr>)))"

definition mint_BeginBlocker :: "mint_fn \<Rightarrow> unit mint" where
  "mint_BeginBlocker mintFn = run_mint_fn mintFn ''block'' (- 1)"

definition mint_BeforeEpochStart :: "mint_fn \<Rightarrow> string \<Rightarrow> int \<Rightarrow> unit mint" where
  "mint_BeforeEpochStart mintFn epochIdentifier epochNumber = run_mint_fn mintFn epochIdentifier epochNumber"

definition mint_UpdateParams :: "mint_env \<Rightarrow> string \<Rightarrow> MintParams \<Rightarrow> unit mint" where
  "mint_UpdateParams e msgAuthority params =
     (if MAuthority e \<noteq> msgAuthority then sfail (Err ''expected authority account as only signer for proposal message'')
      else sbind (slift (MintParams_Validate (validDenom (MBankEnv e)) params)) (\<lambda>_.
        smodify (\<lambda>s. s\<lparr>MParamsItem := Some params\<rparr>)))"

definition mint_InitGenesis :: "mint_env \<Rightarrow> Minter \<Rightarrow> MintParams \<Rightarrow> unit mint" where
  "mint_InitGenesis e minter params =
     sbind (smodify (\<lambda>s. s\<lparr>MinterItem := Some minter\<rparr>)) (\<lambda>_.
     sbind (smodify (\<lambda>s. s\<lparr>MParamsItem := Some params\<rparr>)) (\<lambda>_.
     sbind (on_bank (GetModuleAccount (MBankEnv e) ''mint'')) (\<lambda>_. sret ())))"

definition mint_ExportGenesis :: "(Minter \<times> MintParams) mint" where
  "mint_ExportGenesis =
     sbind (Item_Get MinterItem) (\<lambda>minter. sbind (Item_Get MParamsItem) (\<lambda>params. sret (minter, params)))"

definition ValidateGenesis :: "(string \<Rightarrow> bool) \<Rightarrow> Minter \<Rightarrow> MintParams \<Rightarrow> unit res" where
  "ValidateGenesis vd minter params =
     rbind (MintParams_Validate vd params) (\<lambda>_. ValidateMinter minter)"

section \<open>Inflation\<close>

lemma params_valid:
  assumes "MintParams_Validate vd p = Inr ()"
  shows "vd (MintDenom p)" "0 \<le> InflationRateChange p" "InflationRateChange p \<le> precisionReuse"
    "0 \<le> InflationMin p" "InflationMin p \<le> InflationMax p" "InflationMax p \<le> precisionReuse"
    "0 < GoalBonded p" "GoalBonded p \<le> precisionReuse" "0 < BlocksPerYear p" "0 \<le> MaxSupply p"
  using assms
  by (auto simp: MintParams_Validate_def validateMintDenom_def validateInflationRateChange_def validateInflationMax_def
      validateInflationMin_def validateGoalBonded_def validateBlocksPerYear_def validateMaxSupply_def LegacyOneDec_def
      res_simps ValidateDenom_def guard_res_def split: if_splits)

lemma chop_between: "a * precisionReuse \<le> x \<Longrightarrow> x \<le> b * precisionReuse \<Longrightarrow> a \<le> chopPrecisionAndRound x \<and> chopPrecisionAndRound x \<le> b"
  using chopPrecisionAndRound_mono [of "a * precisionReuse" x] chopPrecisionAndRound_mono [of x "b * precisionReuse"] by simp

lemma chop_sign: "0 \<le> x \<Longrightarrow> 0 \<le> chopPrecisionAndRound x" "x \<le> 0 \<Longrightarrow> chopPrecisionAndRound x \<le> 0"
  using chopPrecisionAndRound_mono [of 0 x] chopPrecisionAndRound_mono [of x 0] chop_exact [of 0] by auto

lemma sdiv_pos: "(0 :: int) < b \<Longrightarrow> 0 \<le> a \<Longrightarrow> a sdiv b = a div b" "(0 :: int) < b \<Longrightarrow> a \<le> 0 \<Longrightarrow> a sdiv b = - (- a div b)"
  by (cases "a = 0"; simp add: signed_divide_int_def sgn_if)+

text \<open>The quotient of the bonded ratio by the goal.\<close>

lemma bonded_quotient:
  fixes r g :: int
  assumes "0 \<le> r" "r \<le> precisionReuse" "0 < g"
  defines "q \<equiv> chopPrecisionAndRound (r * squaredPrecisionReuse sdiv g)"
  shows "0 \<le> q" "q \<le> precisionReuse * precisionReuse" "r \<le> g \<Longrightarrow> q \<le> precisionReuse" "g \<le> r \<Longrightarrow> precisionReuse \<le> q"
proof -
  let ?P = precisionReuse
  have num: "0 \<le> r * squaredPrecisionReuse" using assms(1) by (simp add: squaredPrecisionReuse_def)
  then have d: "r * squaredPrecisionReuse sdiv g = r * squaredPrecisionReuse div g" using sdiv_pos(1) [OF assms(3)] by blast
  then have "0 \<le> r * squaredPrecisionReuse sdiv g" using num assms(3) by (simp add: pos_imp_zdiv_nonneg_iff)
  then show "0 \<le> q" unfolding q_def by (rule chop_sign(1))
  have "r * squaredPrecisionReuse div g \<le> r * squaredPrecisionReuse div 1" using num assms(3) by (intro zdiv_mono2) auto
  also have "\<dots> \<le> ?P * ?P * ?P" using assms(1,2) by (simp add: squaredPrecisionReuse_def)
  finally show "q \<le> ?P * ?P" unfolding q_def d using chop_between [of 0 _ "?P * ?P"] num assms(3) by (simp add: pos_imp_zdiv_nonneg_iff)
  { assume "r \<le> g"
    then have "r * squaredPrecisionReuse div g \<le> g * squaredPrecisionReuse div g"
      using assms(3) by (intro zdiv_mono1 mult_right_mono) (auto simp: squaredPrecisionReuse_def)
    then have "r * squaredPrecisionReuse div g \<le> ?P * ?P" using assms(3) by (simp add: squaredPrecisionReuse_def)
    from chopPrecisionAndRound_mono [OF this] show "q \<le> ?P" unfolding q_def d by simp }
  { assume "g \<le> r"
    then have "g * squaredPrecisionReuse div g \<le> r * squaredPrecisionReuse div g"
      using assms(3) by (intro zdiv_mono1 mult_right_mono) (auto simp: squaredPrecisionReuse_def)
    then have "?P * ?P \<le> r * squaredPrecisionReuse div g" using assms(3) by (simp add: squaredPrecisionReuse_def)
    from chopPrecisionAndRound_mono [OF this] show "?P \<le> q" unfolding q_def d by simp }
qed

text \<open>The change of the inflation rate for one block, from the yearly change.\<close>

lemma block_change:
  fixes x n :: int
  assumes "0 < n" "- precisionReuse * precisionReuse \<le> x" "x \<le> precisionReuse"
  defines "c \<equiv> chopPrecisionAndRound (x * squaredPrecisionReuse sdiv (n * precisionReuse))"
  shows "\<bar>c\<bar> \<le> precisionReuse * precisionReuse * precisionReuse" "0 \<le> x \<Longrightarrow> 0 \<le> c" "x \<le> 0 \<Longrightarrow> c \<le> 0" "\<bar>n * c - x\<bar> < n"
proof -
  let ?P = precisionReuse
  let ?t = "x * squaredPrecisionReuse sdiv (n * ?P)"
  have np: "0 < n * ?P" using assms(1) by simp
  have ax: "\<bar>x\<bar> \<le> ?P * ?P" using assms(2,3) mult_right_mono [of 1 ?P ?P] by (simp add: abs_le_iff) (simp add: precisionReuse_def)
  have "\<bar>?t\<bar> \<le> \<bar>x * squaredPrecisionReuse\<bar>" by (rule abs_sdiv_le)
  also have "\<dots> \<le> ?P * ?P * ?P * ?P" using mult_right_mono [OF ax, of "?P * ?P"] by (simp add: abs_mult squaredPrecisionReuse_def mult.assoc)
  finally show "\<bar>c\<bar> \<le> ?P * ?P * ?P" unfolding c_def using chop_between [of "- (?P * ?P * ?P)" ?t "?P * ?P * ?P"] by (simp add: abs_le_iff)
  show "0 \<le> x \<Longrightarrow> 0 \<le> c" unfolding c_def using np assms(1)
    by (intro chop_sign(1)) (simp add: sdiv_pos(1) pos_imp_zdiv_nonneg_iff squaredPrecisionReuse_def)
  show "x \<le> 0 \<Longrightarrow> c \<le> 0" unfolding c_def using np assms(1)
    by (intro chop_sign(2)) (simp add: sdiv_pos(2) pos_imp_zdiv_nonneg_iff squaredPrecisionReuse_def mult_nonpos_nonneg)
  have "2 * ?P * \<bar>x * ?P - c * (n * ?P)\<bar> < (?P + 2) * \<bar>n * ?P\<bar>"
    unfolding c_def by (rule quo_round_error) (use assms(1) in simp)
  moreover have "x * ?P - c * (n * ?P) = (x - n * c) * ?P" by (simp add: algebra_simps)
  then have "\<bar>x * ?P - c * (n * ?P)\<bar> = \<bar>n * c - x\<bar> * ?P" by (simp only: abs_mult precisionReuse_pos(4) abs_minus_commute [of x])
  ultimately have "2 * ?P * (\<bar>n * c - x\<bar> * ?P) < (?P + 2) * (n * ?P)" using assms(1) by (simp add: abs_mult)
  then have "(2 * ?P * \<bar>n * c - x\<bar>) * ?P < ((?P + 2) * n) * ?P" by (simp add: algebra_simps)
  then have "2 * ?P * \<bar>n * c - x\<bar> < (?P + 2) * n" by (simp only: mult_less_cancel_right_pos [OF precisionReuse_pos(1)])
  then show "\<bar>n * c - x\<bar> < n" using assms(1) by (simp add: precisionReuse_def)
qed

text \<open>A negative number of blocks turns the change around.\<close>

lemma block_change_minus:
  fixes x n :: int
  shows "chopPrecisionAndRound (x * squaredPrecisionReuse sdiv (n * precisionReuse)) =
    - chopPrecisionAndRound (x * squaredPrecisionReuse sdiv (- n * precisionReuse))"
proof -
  have "x * squaredPrecisionReuse sdiv (n * precisionReuse) = - (x * squaredPrecisionReuse sdiv (- n * precisionReuse))"
    by (simp add: signed_divide_int_def sgn_minus)
  moreover have "chopPrecisionAndRound (- y) = - chopPrecisionAndRound y" for y
    by (simp add: chopPrecisionAndRound_iff rounds_half_even_minus chopPrecisionAndRound_rounds)
  ultimately show ?thesis by simp
qed

lemma block_change_sign:
  fixes x n :: int
  assumes "n \<noteq> 0" "- precisionReuse * precisionReuse \<le> x" "x \<le> precisionReuse"
  defines "c \<equiv> chopPrecisionAndRound (x * squaredPrecisionReuse sdiv (n * precisionReuse))"
  shows "\<bar>c\<bar> \<le> precisionReuse * precisionReuse * precisionReuse" "0 \<le> x \<Longrightarrow> 0 \<le> sgn n * c" "x \<le> 0 \<Longrightarrow> sgn n * c \<le> 0" "n * c < x + \<bar>n\<bar>"
proof -
  define c' where "c' = chopPrecisionAndRound (x * squaredPrecisionReuse sdiv (\<bar>n\<bar> * precisionReuse))"
  have c: "c = sgn n * c'"
    unfolding c_def c'_def using block_change_minus [of x n] assms(1) by (auto simp: abs_if sgn_if)
  have "0 < \<bar>n\<bar>" using assms(1) by simp
  note b = block_change [OF this assms(2,3), folded c'_def]
  have sc: "sgn n * c = c'" "\<bar>c\<bar> = \<bar>c'\<bar>" "n * c = \<bar>n\<bar> * c'" using assms(1) by (auto simp: c sgn_if abs_if)
  show "\<bar>c\<bar> \<le> precisionReuse * precisionReuse * precisionReuse" "0 \<le> x \<Longrightarrow> 0 \<le> sgn n * c" "x \<le> 0 \<Longrightarrow> sgn n * c \<le> 0" "n * c < x + \<bar>n\<bar>"
    unfolding sc using b by linarith+
qed

text \<open>The rate before it is clamped between the minimum and the maximum.\<close>

lemma inflation_change:
  assumes "MintParams_Validate vd p = Inr ()" "BlocksPerYear p < 2 ^ 64" "0 \<le> r" "r \<le> precisionReuse"
    and "0 \<le> Inflation m" "Inflation m \<le> precisionReuse"
  defines "n \<equiv> int64_of_uint64 (BlocksPerYear p)"
  obtains c where "NextInflationRate m p r = Inr (max (InflationMin p) (min (InflationMax p) (Inflation m + c)))"
    "r \<le> GoalBonded p \<Longrightarrow> 0 \<le> sgn n * c" "GoalBonded p \<le> r \<Longrightarrow> sgn n * c \<le> 0" "n * c < InflationRateChange p + \<bar>n\<bar>"
proof -
  let ?P = precisionReuse and ?k = "InflationRateChange p"
  note v = params_valid [OF assms(1)]
  have n: "n \<noteq> 0" using v(9) assms(2) by (auto simp: n_def int64_of_uint64_def)
  define q where "q = chopPrecisionAndRound (r * squaredPrecisionReuse sdiv GoalBonded p)"
  note q = bonded_quotient [OF assms(3,4) v(7), folded q_def]
  define x where "x = chopPrecisionAndRound ((?P - q) * ?k)"
  have "(?P - q) * ?k \<le> ?P * ?k" using q(1) v(2) by (intro mult_right_mono) auto
  moreover have "- (?P * ?P) * ?P \<le> (?P - q) * ?k"
  proof (cases "q \<le> ?P")
    case True
    then have "0 \<le> (?P - q) * ?k" using v(2) by simp
    then show ?thesis by (rule order_trans [rotated]) simp
  next
    case False
    then have "(?P - q) * ?P \<le> (?P - q) * ?k" using v(3) by (intro mult_left_mono_neg) auto
    moreover have "- (?P * ?P) * ?P \<le> (?P - q) * ?P" using q(2) precisionReuse_pos(1) by (intro mult_right_mono) linarith+
    ultimately show ?thesis by linarith
  qed
  ultimately have x: "- ?P * ?P \<le> x" "x \<le> ?k"
    using chop_between [of "- (?P * ?P)" "(?P - q) * ?k" ?k] unfolding x_def by (simp_all add: mult.commute)
  then have x': "x \<le> ?P" using v(3) by simp
  have xs: "r \<le> GoalBonded p \<Longrightarrow> 0 \<le> x" "GoalBonded p \<le> r \<Longrightarrow> x \<le> 0"
    unfolding x_def using q(3,4) v(2) by (auto intro!: chop_sign mult_nonpos_nonneg)
  define c where "c = chopPrecisionAndRound (x * squaredPrecisionReuse sdiv (n * ?P))"
  note c = block_change_sign [OF n x(1) x', folded c_def]
  have big: "\<bar>y\<bar> \<le> 3 * (?P * ?P * ?P) \<Longrightarrow> assertInValidRange y = Inr y" for y
    by (rule assertInValidRange_ok) (simp add: upperLimit_def precisionReuse_def)
  have num: "?P \<le> ?P * ?P * ?P" "?P * ?P \<le> ?P * ?P * ?P" "0 \<le> ?P" "0 \<le> ?P * ?P * ?P" by (simp_all add: precisionReuse_def)
  note inr = q(1,2) x(1) x' c(1) assms(5,6) num
  have "assertInValidRange q = Inr q" "assertInValidRange (?P - q) = Inr (?P - q)" "assertInValidRange x = Inr x"
    "assertInValidRange c = Inr c" "assertInValidRange (Inflation m + c) = Inr (Inflation m + c)"
    by (rule big, use inr in linarith)+
  note range = this [unfolded q_def x_def c_def] this
  have "Dec_Quo r (GoalBonded p) = Inr q" using range v(7) by (simp add: Dec_Quo_def q_def)
  moreover have "Dec_Sub LegacyOneDec q = Inr (?P - q)" using range by (simp add: Dec_Sub_def LegacyOneDec_def)
  moreover have "Dec_Mul (?P - q) ?k = Inr x" using range by (simp add: Dec_Mul_def x_def)
  moreover have "Dec_Quo x (LegacyNewDecFromInt (int64_of_uint64 (BlocksPerYear p))) = Inr c"
    using range n by (simp add: Dec_Quo_def LegacyNewDecFromInt_def c_def flip: n_def)
  moreover have "Dec_Add (Inflation m) c = Inr (Inflation m + c)" using range by (simp add: Dec_Add_def)
  ultimately have "NextInflationRate m p r = Inr (max (InflationMin p) (min (InflationMax p) (Inflation m + c)))"
    using v(5) by (auto simp: NextInflationRate_def Let_def res_simps max_def min_def)
  moreover have "n * c < ?k + \<bar>n\<bar>" using c(4) x(2) by linarith
  ultimately show thesis using that c(2,3) xs by blast
qed

section \<open>Effects on the ledger\<close>

lemma on_bank_Inr [sm_simps]:
  "on_bank m s = (Inr x, s') \<longleftrightarrow> (\<exists>b. m (MBank s) = (Inr x, b) \<and> s' = s\<lparr>MBank := b\<rparr>)"
  by (auto simp: on_bank_def Let_def split: prod.splits)

lemma Item_Get_Inr [sm_simps]: "Item_Get item s = (Inr x, s') \<longleftrightarrow> item s = Some x \<and> s' = s"
  by (auto simp: Item_Get_def sm_run split: option.splits)

definition mint_ledger ::
  "mint_env \<Rightarrow> (string \<Rightarrow> string \<Rightarrow> int) \<Rightarrow> (string \<Rightarrow> int) \<Rightarrow> mint_state \<Rightarrow> mint_state \<Rightarrow> bool" where
  "mint_ledger e f g s s' \<longleftrightarrow> ledger_update (MBankEnv e) f g (MBank s) (MBank s') \<and> s' = s\<lparr>MBank := MBank s'\<rparr>"

lemma mint_ledger_refl: "bank_ok (MBankEnv e) (MBank s) \<Longrightarrow> mint_ledger e (\<lambda>_ _. 0) (\<lambda>_. 0) s s"
  by (simp add: mint_ledger_def ledger_update_def)

lemma mint_ledger_trans:
  "mint_ledger e f g s t \<Longrightarrow> mint_ledger e f' g' t u \<Longrightarrow> mint_ledger e (\<lambda>a d. f a d + f' a d) (\<lambda>d. g d + g' d) s u"
  unfolding mint_ledger_def
proof (elim conjE, intro conjI)
  assume "t = s\<lparr>MBank := MBank t\<rparr>" "u = t\<lparr>MBank := MBank u\<rparr>"
  then have "u = s\<lparr>MBank := MBank t\<rparr>\<lparr>MBank := MBank u\<rparr>" by metis
  then show "u = s\<lparr>MBank := MBank u\<rparr>" by simp
qed (rule ledger_update_trans)

lemma mint_ledger_cong:
  "mint_ledger e f g s s' \<Longrightarrow> (\<And>x d. f x d = f' x d) \<Longrightarrow> (\<And>d. g d = g' d) \<Longrightarrow> mint_ledger e f' g' s s'"
  by (simp add: mint_ledger_def ledger_update_def)

lemma StakingTokenSupply_success:
  assumes "bank_ok (MBankEnv e) (MBank s)" "StakingTokenSupply e s = (Inr v, s')" "BondDenomItem s = Some d"
  shows "s' = s \<and> v = sup_of (MBank s) d"
proof -
  from assms(2,3) obtain c b where c: "GetSupply (MBankEnv e) d (MBank s) = (Inr c, b)" "v = Amount c" "s' = s\<lparr>MBank := b\<rparr>"
    by (auto simp: StakingTokenSupply_def sm_simps)
  then have "validDenom (MBankEnv e) d" by (auto simp: GetSupply_def sm_run NewCoin_Inr split: option.splits)
  from GetSupply_run [OF bank_okD(2) [OF assms(1)] this] c show ?thesis by simp
qed

lemma BondedRatio_success:
  assumes "bank_ok (MBankEnv e) (MBank s)" "BondedRatio e s = (Inr r, s')"
  shows "mint_ledger e (\<lambda>_ _. 0) (\<lambda>_. 0) s s'"
proof -
  from assms(2) obtain v t where v: "StakingTokenSupply e s = (Inr v, t)"
    and r: "(if v > 0 then sbind (TotalBondedTokens e) (\<lambda>totalBonded. slift (Dec_QuoInt (LegacyNewDecFromInt totalBonded) v))
       else sret LegacyZeroDec) t = (Inr r, s')"
    unfolding BondedRatio_def sbind_Inr_iff by blast
  then obtain d where d: "BondDenomItem s = Some d" by (auto simp: StakingTokenSupply_def sm_simps)
  have t: "t = s" using StakingTokenSupply_success [OF assms(1) v d] by simp
  show ?thesis
  proof (cases "v > 0")
    case True
    with r t obtain acc b1 c b2 where a: "GetModuleAccount (MBankEnv e) ''bonded_tokens_pool'' (MBank s) = (Inr (Some acc), b1)"
      and c: "GetBalance (MBankEnv e) (GetAddress acc) d b1 = (Inr c, b2)" and s': "s' = s\<lparr>MBank := b1\<rparr>\<lparr>MBank := b2\<rparr>"
      using d by (auto simp: TotalBondedTokens_def sm_simps split: option.splits)
    note l = conjunct1 [OF GetModuleAccount_bank [OF assms(1) a]]
    from c have "b2 = b1" by (auto simp: GetBalance_def sm_simps split: option.splits)
    with l s' show ?thesis by (simp add: mint_ledger_def)
  next
    case False
    with r t assms(1) show ?thesis by (simp add: sm_run mint_ledger_refl)
  qed
qed

text \<open>Coins of one denomination.\<close>

lemma one_coin:
  assumes "NewCoins vd [\<lparr> Denom = d, Amount = n \<rparr>] = Inr cs" "0 \<le> n" "int256 n"
  shows "\<forall>c \<in> set cs. int256 (Amount c)" "camt cs x = (if x = d then n else 0)" "vd d \<Longrightarrow> Coins_AmountOf vd cs d = Inr n"
    "n \<noteq> 0 \<longrightarrow> cs = [\<lparr> Denom = d, Amount = n \<rparr>]"
proof -
  have cs: "cs = (if n = 0 then [] else [\<lparr> Denom = d, Amount = n \<rparr>])"
    using assms(1) by (auto simp: NewCoins_Inr sanitizeCoins_def removeZeroCoins_def Coin_IsZero_def Coins_Sort_def)
  then show "\<forall>c \<in> set cs. int256 (Amount c)" "camt cs x = (if x = d then n else 0)" "n \<noteq> 0 \<longrightarrow> cs = [\<lparr> Denom = d, Amount = n \<rparr>]"
    using assms(3) by (simp_all add: cps_def)
  show "vd d \<Longrightarrow> Coins_AmountOf vd cs d = Inr n"
    using cs assms by (auto simp: coins_ok_iff intro!: Coins_AmountOf_ok [THEN trans])
qed

text \<open>The account that the fees reach: that of the fee collector, or the one a send restriction puts in its place.\<close>

definition fee_recipient :: "mint_env \<Rightarrow> Coin list \<Rightarrow> string \<Rightarrow> bool" where
  "fee_recipient e cs b \<longleftrightarrow> (\<exists>fc. GetModuleAddress (MBankEnv e) (feeCollectorName e) = Some fc \<and>
     sendRestriction_apply (MBankEnv e) (NewModuleAddress (MBankEnv e) ''mint'') fc cs = Inr b)"

lemma fees_success:
  assumes "bank_ok (MBankEnv e) (MBank s)" "\<forall>c \<in> set cs. int256 (Amount c)" "AddCollectedFees e cs s = (Inr u, s')"
  shows "\<exists>b. fee_recipient e cs b \<and> mint_ledger e (pay (NewModuleAddress (MBankEnv e) ''mint'') b cs) (\<lambda>_. 0) s s' \<and>
    (\<forall>d. camt cs d \<le> bal (MBank s) (NewModuleAddress (MBankEnv e) ''mint'') d)"
proof -
  from assms(3) obtain t where t: "SendCoinsFromModuleToModule (MBankEnv e) ''mint'' (feeCollectorName e) cs (MBank s) = (Inr u, t)" "s' = s\<lparr>MBank := t\<rparr>"
    by (auto simp: AddCollectedFees_def sm_simps)
  from ModuleToModule_success [OF assms(1,2) t(1)] obtain a c b where
    "GetModuleAddress (MBankEnv e) ''mint'' = Some a" "GetModuleAddress (MBankEnv e) (feeCollectorName e) = Some c"
    "sendRestriction_apply (MBankEnv e) a c cs = Inr b" "\<forall>d. camt cs d \<le> bal (MBank s) a d"
    "ledger_update (MBankEnv e) (pay a b cs) (\<lambda>_. 0) (MBank s) t" by blast
  moreover from this(1) have "a = NewModuleAddress (MBankEnv e) ''mint''" by (simp add: GetModuleAddress_def split: option.splits)
  ultimately show ?thesis using t(2) by (auto simp: fee_recipient_def mint_ledger_def)
qed

lemma mint_forward:
  assumes "bank_ok (MBankEnv e) (MBank s)" "\<forall>c \<in> set cs. int256 (Amount c)"
    and "mint_MintCoins e cs s = (Inr u, t)" "AddCollectedFees e cs t = (Inr v, s')"
  shows "\<exists>b. fee_recipient e cs b \<and> mint_ledger e (credit b cs) (camt cs) s s'"
proof (cases "cs = []")
  case True
  with assms(3) have "t = s" by (simp add: mint_MintCoins_def sm_run)
  with fees_success [OF assms(1,2), of v s'] assms(4) obtain b where
    b: "fee_recipient e cs b" "mint_ledger e (pay (NewModuleAddress (MBankEnv e) ''mint'') b cs) (\<lambda>_. 0) s s'" by blast
  from b(2) have "mint_ledger e (credit b cs) (camt cs) s s'" by (rule mint_ledger_cong) (simp_all add: True pay_def credit_def cps_def)
  with b(1) show ?thesis by blast
next
  case False
  with assms(3,4) obtain b1 b2 where m: "MintCoins (MBankEnv e) ''mint'' cs (MBank s) = (Inr u, b1)" "t = s\<lparr>MBank := b1\<rparr>"
    "SendCoinsFromModuleToModule (MBankEnv e) ''mint'' (feeCollectorName e) cs b1 = (Inr v, b2)" "s' = s\<lparr>MBank := b2\<rparr>"
    by (auto simp: mint_MintCoins_def AddCollectedFees_def sm_simps)
  from keeper.mint_and_transfer [OF assms(1,2) m(1,3)] obtain a c b where
    r: "GetModuleAddress (MBankEnv e) ''mint'' = Some a" "GetModuleAddress (MBankEnv e) (feeCollectorName e) = Some c"
    "sendRestriction_apply (MBankEnv e) a c cs = Inr b" "\<forall>x d. bal b2 x d = bal (MBank s) x d + credit b cs x d"
    and ok: "bank_ok (MBankEnv e) b2" "\<forall>d. sup_of b2 d = sup_of (MBank s) d + camt cs d" by blast
  from r(1) have "a = NewModuleAddress (MBankEnv e) ''mint''" by (simp add: GetModuleAddress_def split: option.splits)
  with r ok m show ?thesis by (auto simp: fee_recipient_def mint_ledger_def ledger_update_def)
qed

section \<open>The block provision\<close>

text \<open>What a block mints and what it pays to the fee collector, for a provision of \<open>n\<close> at a supply of \<open>T\<close>.
  They differ when the provision reaches the maximal supply exactly: then nothing is minted.\<close>

definition block_mint :: "MintParams \<Rightarrow> int \<Rightarrow> int \<Rightarrow> int" where
  "block_mint p T n = (if MaxSupply p = 0 \<or> T + n < MaxSupply p then n
     else if T + n = MaxSupply p then 0 else max 0 (MaxSupply p - T))"

definition block_pay :: "MintParams \<Rightarrow> int \<Rightarrow> int \<Rightarrow> int" where
  "block_pay p T n = (if MaxSupply p = 0 \<or> T + n \<le> MaxSupply p then n else max 0 (MaxSupply p - T))"

definition on_denom :: "string \<Rightarrow> int \<Rightarrow> string \<Rightarrow> int" where
  "on_denom d0 n d = (if d = d0 then n else 0)"

definition provision_effect :: "mint_env \<Rightarrow> MintParams \<Rightarrow> int \<Rightarrow> int \<Rightarrow> mint_state \<Rightarrow> mint_state \<Rightarrow> bool" where
  "provision_effect e p T n s s' \<longleftrightarrow> (\<exists>b.
     (block_pay p T n \<noteq> 0 \<longrightarrow> fee_recipient e [\<lparr> Denom = MintDenom p, Amount = block_pay p T n \<rparr>] b) \<and> mint_ledger e
     (\<lambda>x d. on_denom (MintDenom p) ((if x = b then block_pay p T n else 0) -
       (if x = NewModuleAddress (MBankEnv e) ''mint'' then block_pay p T n - block_mint p T n else 0)) d)
     (on_denom (MintDenom p) (block_mint p T n)) s s') \<and>
     block_pay p T n - block_mint p T n \<le> bal (MBank s) (NewModuleAddress (MBankEnv e) ''mint'') (MintDenom p)"

lemma provision_effectI:
  assumes "mint_ledger e f g s s'"
    and "block_pay p T n \<noteq> 0 \<longrightarrow> fee_recipient e [\<lparr> Denom = MintDenom p, Amount = block_pay p T n \<rparr>] b"
    and "\<And>x d. f x d = on_denom (MintDenom p) ((if x = b then block_pay p T n else 0) -
       (if x = NewModuleAddress (MBankEnv e) ''mint'' then block_pay p T n - block_mint p T n else 0)) d"
    and "\<And>d. g d = on_denom (MintDenom p) (block_mint p T n) d"
    and "block_pay p T n - block_mint p T n \<le> bal (MBank s) (NewModuleAddress (MBankEnv e) ''mint'') (MintDenom p)"
  shows "provision_effect e p T n s s'"
  unfolding provision_effect_def
  by (rule conjI, rule exI [of _ b], rule conjI, rule assms(2), rule mint_ledger_cong [OF assms(1,3,4)], rule assms(5))

lemma provision_success:
  assumes ok: "bank_ok (MBankEnv e) (MBank s)" and vd: "validDenom (MBankEnv e) (MintDenom p)"
    and cs: "NewCoins (validDenom (MBankEnv e)) [\<lparr> Denom = MintDenom p, Amount = n \<rparr>] = Inr cs" "0 \<le> n" "int256 n"
    and cap: "cap_provision e p T cs s = (Inr r, t)"
    and rest: "case r of None \<Rightarrow> s' = t | Some ds \<Rightarrow>
      \<exists>u v t'. mint_below_cap e p T ds t = (Inr u, t') \<and> AddCollectedFees e ds t' = (Inr v, s')"
  shows "provision_effect e p T n s s'"
proof -
  note one = one_coin [OF cs] and nn = keeper.balance_nonneg [OF ok]
  have forward: "provision_effect e p T n s s'"
    if "NewCoins (validDenom (MBankEnv e)) [\<lparr> Denom = MintDenom p, Amount = k \<rparr>] = Inr ds" "0 \<le> k" "int256 k"
      "mint_MintCoins e ds s = (Inr u, t')" "AddCollectedFees e ds t' = (Inr v, s')" "block_mint p T n = k" "block_pay p T n = k"
    for k ds u v t'
  proof -
    from mint_forward [OF ok one_coin(1) [OF that(1-3)] that(4,5)] obtain b where
      b: "fee_recipient e ds b" "mint_ledger e (credit b ds) (camt ds) s s'" by blast
    from b(2) show ?thesis
      by (rule provision_effectI [where b = b])
        (use b(1) one_coin(4) [OF that(1-3)] in \<open>auto simp: credit_def on_denom_def one_coin(2) [OF that(1-3)] that(6,7) nn\<close>)
  qed
  show ?thesis
  proof (cases "MaxSupply p = 0")
    case True
    with cap rest obtain u v t' where "mint_MintCoins e cs s = (Inr u, t')" "AddCollectedFees e cs t' = (Inr v, s')"
      by (auto simp: cap_provision_def mint_below_cap_def sm_run)
    from forward [OF cs this] True show ?thesis by (simp add: block_mint_def block_pay_def)
  next
    case False
    note amount = one(3) [OF vd]
    show ?thesis
    proof (cases "T + n > MaxSupply p")
      case le: False
      with cap False amount have t: "t = s" "r = Some cs" "Int_Add T n = Inr (T + n)"
        by (auto simp: cap_provision_def sm_simps sdkint split: if_splits)
      with rest obtain u v t' where m: "mint_below_cap e p T cs s = (Inr u, t')" "AddCollectedFees e cs t' = (Inr v, s')" by auto
      show ?thesis
      proof (cases "T + n < MaxSupply p")
        case True
        with m(1) False amount t have "mint_MintCoins e cs s = (Inr u, t')" by (simp add: mint_below_cap_def)
        from forward [OF cs this m(2)] True show ?thesis by (simp add: block_mint_def block_pay_def)
      next
        case eq: False
        with m(1) False amount t have "t' = s" by (simp add: mint_below_cap_def sm_run)
        with fees_success [OF ok one(1), of v s'] m(2) obtain b where
          b: "mint_ledger e (pay (NewModuleAddress (MBankEnv e) ''mint'') b cs) (\<lambda>_. 0) s s'"
          "camt cs (MintDenom p) \<le> bal (MBank s) (NewModuleAddress (MBankEnv e) ''mint'') (MintDenom p)" "fee_recipient e cs b" by blast
        from b(1) show ?thesis
          by (rule provision_effectI [where b = b])
            (use eq le False b(2,3) one(4) in \<open>auto simp: pay_def on_denom_def one(2) block_mint_def block_pay_def\<close>)
      qed
    next
      case gt: True
      show ?thesis
      proof (cases "MaxSupply p - T \<le> 0")
        case True
        with cap False amount gt have "t = s" "r = None"
          by (auto simp: cap_provision_def sm_simps sdkint split: if_splits)
        with rest have "s' = s" by simp
        with mint_ledger_refl [OF ok] have "mint_ledger e (\<lambda>_ _. 0) (\<lambda>_. 0) s s'" by simp
        then show ?thesis
          by (rule provision_effectI) (use gt True False in \<open>simp_all add: block_mint_def block_pay_def on_denom_def nn\<close>)
      next
        case diff: False
        with cap False amount gt vd obtain ds u where
          ds: "NewCoins (validDenom (MBankEnv e)) [\<lparr> Denom = MintDenom p, Amount = MaxSupply p - T \<rparr>] = Inr ds"
          "int256 (MaxSupply p - T)" and m: "mint_MintCoins e ds s = (Inr u, t)" "r = Some ds"
          by (auto simp: cap_provision_def sm_simps sdkint NewCoin_Inr split: if_splits)
        have am: "Coins_AmountOf (validDenom (MBankEnv e)) ds (MintDenom p) = Inr (MaxSupply p - T)"
          by (rule one_coin(3) [OF ds(1) _ ds(2) vd]) (use diff in simp)
        from rest m False am obtain v where "AddCollectedFees e ds t = (Inr v, s')"
          by (auto simp: mint_below_cap_def sm_simps sdkint split: if_splits)
        from forward [OF ds(1) _ ds(2) m(1) this] gt diff False show ?thesis
          by (simp add: block_mint_def block_pay_def)
      qed
    qed
  qed
qed

lemma provision_effect_frame:
  assumes "mint_ledger e (\<lambda>_ _. 0) (\<lambda>_. 0) s t" "provision_effect e p T n t u" "mint_ledger e (\<lambda>_ _. 0) (\<lambda>_. 0) u v"
  shows "provision_effect e p T n s v"
proof -
  from assms(2) obtain b where b: "mint_ledger e (\<lambda>x d. on_denom (MintDenom p) ((if x = b then block_pay p T n else 0) -
       (if x = NewModuleAddress (MBankEnv e) ''mint'' then block_pay p T n - block_mint p T n else 0)) d)
     (on_denom (MintDenom p) (block_mint p T n)) t u"
    and r: "block_pay p T n \<noteq> 0 \<longrightarrow> fee_recipient e [\<lparr> Denom = MintDenom p, Amount = block_pay p T n \<rparr>] b"
    unfolding provision_effect_def by blast
  have "bal (MBank t) a d = bal (MBank s) a d" for a d using assms(1) by (simp add: mint_ledger_def ledger_update_def)
  with assms(2) show ?thesis
    by (intro provision_effectI [OF mint_ledger_trans [OF mint_ledger_trans [OF assms(1) b] assms(3)] r])
      (simp_all add: provision_effect_def)
qed

lemma emit_ledger:
  assumes "bank_ok (MBankEnv e) (MBank s)" "on_bank (EmitKV ev) s = (Inr u, s')"
  shows "mint_ledger e (\<lambda>_ _. 0) (\<lambda>_. 0) s s'"
  using assms ledger_part_update [OF _ assms(1), of "MBank s'"]
  by (auto simp: sm_simps EmitKV_def mint_ledger_def ledger_part_def)

lemma update_minter_coin:
  "update_minter vd ic p r T m = Inr (m', c) \<Longrightarrow>
     c = \<lparr> Denom = MintDenom p, Amount = Amount c \<rparr> \<and> 0 \<le> Amount c \<and> int256 (Amount c) \<and> vd (MintDenom p)"
  by (auto simp: update_minter_def BlockProvision_def NewCoin_Inr Dec_TruncateInt_def Let_def res_simps sdkint split: if_splits)

lemma DefaultMintFn_success:
  assumes ok: "bank_ok (MBankEnv e) (MBank s)" and p: "MParamsItem s = Some p" and d: "BondDenomItem s = Some D"
    and run: "DefaultMintFn ic e m ''block'' k s = (Inr m', s')"
  shows "\<exists>r t c. BondedRatio e s = (Inr r, t) \<and>
    update_minter (validDenom (MBankEnv e)) ic p r (sup_of (MBank s) D) m = Inr (m', c) \<and>
    provision_effect e p (sup_of (MBank s) D) (Amount c) s s'"
proof -
  let ?vd = "validDenom (MBankEnv e)" and ?T = "sup_of (MBank s) D"
  from run obtain v t0 r t p' t' where v: "StakingTokenSupply e s = (Inr v, t0)" and r: "BondedRatio e t0 = (Inr r, t)"
    and p': "Item_Get MParamsItem t = (Inr p', t')"
    and run1: "sbind (slift (update_minter ?vd ic p' r v m)) (\<lambda>(minter, mintedCoin).
        sbind (slift (NewCoins ?vd [mintedCoin])) (\<lambda>mintedCoins.
        sbind (cap_provision e p' v mintedCoins) (\<lambda>capped. case capped of
          None \<Rightarrow> sret minter
        | Some mintedCoins \<Rightarrow>
            sbind (mint_below_cap e p' v mintedCoins) (\<lambda>_.
            sbind (AddCollectedFees e mintedCoins) (\<lambda>_.
            sbind (on_bank (EmitKV (EventMint r (Inflation minter) (AnnualProvisions minter) (Amount mintedCoin)))) (\<lambda>_.
              sret minter)))))) t' = (Inr m', s')"
    unfolding DefaultMintFn_def by (simp add: sbind_Inr_iff) blast
  have t0: "t0 = s" "v = ?T" using StakingTokenSupply_success [OF ok v d] by simp_all
  note rt = r [unfolded t0]
  note l = BondedRatio_success [OF ok rt]
  have t: "t = s\<lparr>MBank := MBank t\<rparr>" and okt: "bank_ok (MBankEnv e) (MBank t)" using l by (simp_all add: mint_ledger_def ledger_update_def)
  have "MParamsItem t = Some p" by (subst t) (simp add: p)
  with p' have t': "t' = t" "p' = p" by (auto simp: Item_Get_Inr)
  note run2 = run1 [unfolded t' t0]
  from run2 obtain c where c: "update_minter ?vd ic p r ?T m = Inr (m', c)"
    by (auto simp: sm_simps split: prod.splits option.splits)
  with run2 obtain cs q t2 where cs: "NewCoins ?vd [c] = Inr cs" and q: "cap_provision e p ?T cs t = (Inr q, t2)"
    and rest: "(case q of None \<Rightarrow> sret m' | Some ds \<Rightarrow>
            sbind (mint_below_cap e p ?T ds) (\<lambda>_.
            sbind (AddCollectedFees e ds) (\<lambda>_.
            sbind (on_bank (EmitKV (EventMint r (Inflation m') (AnnualProvisions m') (Amount c)))) (\<lambda>_.
              sret m')))) t2 = (Inr m', s')"
    by (simp add: sbind_Inr_iff sm_run) blast
  obtain u where u: "case q of None \<Rightarrow> u = t2 | Some ds \<Rightarrow>
      \<exists>x y t'. mint_below_cap e p ?T ds t2 = (Inr x, t') \<and> AddCollectedFees e ds t' = (Inr y, u)"
    and s': "s' = u \<or> (\<exists>ev x. on_bank (EmitKV ev) u = (Inr x, s'))"
    using rest by (cases q) (auto simp: sbind_Inr_iff sm_run)
  note coin = update_minter_coin [OF c]
  then have cs': "NewCoins ?vd [\<lparr> Denom = MintDenom p, Amount = Amount c \<rparr>] = Inr cs" using cs by metis
  have eff: "provision_effect e p ?T (Amount c) t u"
    by (rule provision_success [OF okt _ cs' _ _ q u]) (use coin in simp_all)
  then have "bank_ok (MBankEnv e) (MBank u)" by (auto simp: provision_effect_def mint_ledger_def ledger_update_def)
  then have "mint_ledger e (\<lambda>_ _. 0) (\<lambda>_. 0) u s'" using s' emit_ledger mint_ledger_refl by blast
  from provision_effect_frame [OF l eff this] rt c show ?thesis by blast
qed

section \<open>Example\<close>

definition example_params :: MintParams where
  "example_params = \<lparr> MintDenom = ''stake'', InflationRateChange = 13 * 10 ^ 16, InflationMax = 2 * 10 ^ 17,
     InflationMin = 7 * 10 ^ 16, GoalBonded = 67 * 10 ^ 16, BlocksPerYear = 10, MaxSupply = 1020 \<rparr>"

definition example_minter :: Minter where
  "example_minter = \<lparr> Inflation = 2 * 10 ^ 17, AnnualProvisions = 0, Data = [] \<rparr>"

definition example_mint_env :: mint_env where
  "example_mint_env = \<lparr> MBankEnv = example_env\<lparr>maccPerms := (\<lambda>m. if m = ''mint'' then Some [''minter'']
       else if m = ''fee_collector'' \<or> m = ''bonded_tokens_pool'' then Some [] else None)\<rparr>,
     feeCollectorName = ''fee_collector'', MAuthority = ''gov'' \<rparr>"

definition example_accounts :: "(string \<times> account) list" where
  "example_accounts = [(''alice'', BaseAccount \<lparr> Address = ''alice'', AccountNumber = 0, Sequence = 0 \<rparr>),
     (''bonded_tokens_pool'', ModuleAccount \<lparr> Address = ''bonded_tokens_pool'', AccountNumber = 1, Sequence = 0 \<rparr> ''bonded_tokens_pool'' []),
     (''fee_collector'', ModuleAccount \<lparr> Address = ''fee_collector'', AccountNumber = 2, Sequence = 0 \<rparr> ''fee_collector'' []),
     (''mint'', ModuleAccount \<lparr> Address = ''mint'', AccountNumber = 3, Sequence = 0 \<rparr> ''mint'' [''minter''])]"

definition example_mint :: "int \<Rightarrow> mint_state" where
  "example_mint n = \<lparr> MBank = example_bank\<lparr>Accounts := example_accounts, AccountNumberSeq := 4,
       Balances := [((''alice'', ''stake''), n)], Supply := [(''stake'', n)]\<rparr>,
     MinterItem = Some example_minter, MParamsItem = Some example_params, BondDenomItem = Some ''stake'' \<rparr>"

lemma example_mint_ok: "0 < n \<Longrightarrow> int256 n \<Longrightarrow> bank_ok (MBankEnv example_mint_env) (MBank (example_mint n))"
  by (auto simp: bank_ok_def balances_ok_def supply_ok_def accounts_ok_def vesting_ok_def held_def example_mint_def
      example_mint_env_def example_bank_def example_env_def GetAddress_def GetAccountNumber_def example_accounts_def)

section \<open>Properties\<close>

text \<open>
  C15: The inflation rate.  With parameters that validate, a bonded ratio between 0 and 1 and a stored inflation
  between 0 and 1, the next rate is computed without a panic and lies between the minimal and the maximal inflation.
  When the number of blocks per year is below \<open>2\<^sup>6\<^sup>3\<close>, then from a rate within these bounds it does not fall while the
  bonded ratio is at most the goal, does not rise while it is at least the goal, and rises by no more per block than
  the share of the block in the maximal yearly change, up to one unit in the last place.  Validation accepts every
  positive 64-bit number of blocks, and from \<open>2\<^sup>6\<^sup>3\<close> on the conversion to \<open>int64\<close> is negative: there the rate moves
  the wrong way, it does not rise while the bonded ratio is at most the goal and does not fall while it is at least
  the goal.
\<close>

theorem inflation_rate_bounds:
  assumes "MintParams_Validate vd p = Inr ()" "BlocksPerYear p < 2 ^ 64"
    and "0 \<le> bondedRatio" "bondedRatio \<le> LegacyOneDec" "0 \<le> Inflation m" "Inflation m \<le> LegacyOneDec"
  shows "\<exists>i. NextInflationRate m p bondedRatio = Inr i \<and> InflationMin p \<le> i \<and> i \<le> InflationMax p \<and>
    (InflationMin p \<le> Inflation m \<and> Inflation m \<le> InflationMax p \<longrightarrow>
      (BlocksPerYear p < 2 ^ 63 \<longrightarrow>
        (bondedRatio \<le> GoalBonded p \<longrightarrow> Inflation m \<le> i) \<and> (GoalBonded p \<le> bondedRatio \<longrightarrow> i \<le> Inflation m) \<and>
        int (BlocksPerYear p) * (i - Inflation m) < InflationRateChange p + int (BlocksPerYear p)) \<and>
      (2 ^ 63 \<le> BlocksPerYear p \<longrightarrow>
        (bondedRatio \<le> GoalBonded p \<longrightarrow> i \<le> Inflation m) \<and> (GoalBonded p \<le> bondedRatio \<longrightarrow> Inflation m \<le> i)))"
proof -
  let ?n = "int64_of_uint64 (BlocksPerYear p)"
  from inflation_change [of vd p bondedRatio m] assms obtain c where
    i: "NextInflationRate m p bondedRatio = Inr (max (InflationMin p) (min (InflationMax p) (Inflation m + c)))"
    and c: "bondedRatio \<le> GoalBonded p \<longrightarrow> 0 \<le> sgn ?n * c" "GoalBonded p \<le> bondedRatio \<longrightarrow> sgn ?n * c \<le> 0"
      "?n * c < InflationRateChange p + \<bar>?n\<bar>"
    unfolding LegacyOneDec_def by metis
  let ?i = "max (InflationMin p) (min (InflationMax p) (Inflation m + c))"
  note v = params_valid [OF assms(1)]
  have sign: "BlocksPerYear p < 2 ^ 63 \<Longrightarrow> ?n = int (BlocksPerYear p) \<and> sgn ?n = 1" "2 ^ 63 \<le> BlocksPerYear p \<Longrightarrow> sgn ?n = - 1"
    using v(9) assms(2) by (auto simp: int64_of_uint64_def sgn_if)
  have "int (BlocksPerYear p) * (?i - Inflation m) < InflationRateChange p + int (BlocksPerYear p)"
    if "InflationMin p \<le> Inflation m" "BlocksPerYear p < 2 ^ 63"
  proof (cases "?i - Inflation m \<le> c")
    case True
    then have "int (BlocksPerYear p) * (?i - Inflation m) \<le> int (BlocksPerYear p) * c" by (intro mult_left_mono) simp_all
    with c(3) sign(1) [OF that(2)] show ?thesis by simp
  next
    case False
    with that have "?i - Inflation m \<le> 0" by (auto simp: max_def min_def split: if_splits)
    then have "int (BlocksPerYear p) * (?i - Inflation m) \<le> 0" by (intro mult_nonneg_nonpos) simp_all
    with v(2,9) show ?thesis by linarith
  qed
  with i c(1,2) sign v(5) show ?thesis by (intro exI [of _ ?i]) auto
qed

lemma example_params_valid: "0 < n \<Longrightarrow> MintParams_Validate (\<lambda>_. True) (example_params\<lparr>BlocksPerYear := n\<rparr>) = Inr ()"
  by (simp add: example_params_def MintParams_Validate_def validateMintDenom_def validateInflationRateChange_def
      validateInflationMax_def validateInflationMin_def validateGoalBonded_def validateBlocksPerYear_def validateMaxSupply_def
      LegacyOneDec_def precisionReuse_def LegacyPrecision_def ValidateDenom_def)

theorem inflation_rate_bounds_witness:
  "(\<exists>i. NextInflationRate (example_minter\<lparr>Inflation := 10 ^ 17\<rparr>) example_params (5 * 10 ^ 17) = Inr i \<and>
      10 ^ 17 \<le> i \<and> i \<le> 2 * 10 ^ 17) \<and>
   (\<exists>i. NextInflationRate (example_minter\<lparr>Inflation := 10 ^ 17\<rparr>) (example_params\<lparr>BlocksPerYear := 2 ^ 64 - 1\<rparr>) 0 = Inr i \<and>
      7 * 10 ^ 16 \<le> i \<and> i \<le> 10 ^ 17)"
proof -
  let ?m = "example_minter\<lparr>Inflation := 10 ^ 17\<rparr>"
  have one: "LegacyOneDec = 10 ^ 18" by (simp add: LegacyOneDec_def precisionReuse_def LegacyPrecision_def)
  have p: "example_params\<lparr>BlocksPerYear := 10\<rparr> = example_params" by (simp add: example_params_def)
  show ?thesis
    using inflation_rate_bounds [OF example_params_valid [of 10], of "5 * 10 ^ 17" ?m]
      inflation_rate_bounds [OF example_params_valid [of "2 ^ 64 - 1"], of 0 ?m]
    unfolding p one by (auto simp: example_params_def example_minter_def)
qed

text \<open>
  C13: The provision of a block.  When the mint module's begin blocker succeeds, the supply of the mint
  denomination grows by exactly what the maximal supply, compared with the supply \<open>T\<close> of the bond denomination,
  leaves of the provision, and no other supply changes.  What is paid out goes to the account of the fee collector,
  or to the one that the send restriction of the bank puts in its place for these coins, and no other account gains
  or, the mint account apart, loses any.  When the mint denomination is the bond denomination, a maximal supply is
  never exceeded.  The new minter is stored, and the bank stays consistent.
\<close>

theorem mint_block_provision:
  assumes "bank_ok (MBankEnv e) (MBank s)" "MinterItem s = Some m" "MParamsItem s = Some p" "BondDenomItem s = Some D"
    and "mint_BeginBlocker (DefaultMintFn ic e) s = (Inr (), s')"
  shows "\<exists>r t m' c b. let T = sup_of (MBank s) D; n = block_mint p T (Amount c); k = block_pay p T (Amount c) in
    BondedRatio e s = (Inr r, t) \<and> update_minter (validDenom (MBankEnv e)) ic p r T m = Inr (m', c) \<and> MinterItem s' = Some m' \<and>
    bank_ok (MBankEnv e) (MBank s') \<and> 0 \<le> n \<and> n \<le> k \<and>
    (k \<noteq> 0 \<longrightarrow> (\<exists>fc. GetModuleAddress (MBankEnv e) (feeCollectorName e) = Some fc \<and>
       sendRestriction_apply (MBankEnv e) (NewModuleAddress (MBankEnv e) ''mint'') fc [\<lparr> Denom = MintDenom p, Amount = k \<rparr>] = Inr b)) \<and>
    (\<forall>d. sup_of (MBank s') d = sup_of (MBank s) d + (if d = MintDenom p then n else 0)) \<and>
    (D = MintDenom p \<and> MaxSupply p \<noteq> 0 \<longrightarrow> sup_of (MBank s') (MintDenom p) \<le> max (MaxSupply p) T) \<and>
    (\<forall>x d. bal (MBank s') x d = bal (MBank s) x d + (if d = MintDenom p then
       (if x = b then k else 0) - (if x = NewModuleAddress (MBankEnv e) ''mint'' then k - n else 0) else 0))"
proof -
  from assms(2,5) obtain m' s1 where run: "DefaultMintFn ic e m ''block'' (- 1) s = (Inr m', s1)"
    and s': "s' = (if Minter_IsEqual m' m then s1 else s1\<lparr>MinterItem := Some m'\<rparr>)"
    by (auto simp: mint_BeginBlocker_def run_mint_fn_def sm_simps split: if_splits)
  let ?T = "sup_of (MBank s) D"
  from DefaultMintFn_success [OF assms(1,3,4) run] obtain r t c where
    r: "BondedRatio e s = (Inr r, t)" "update_minter (validDenom (MBankEnv e)) ic p r ?T m = Inr (m', c)"
    and eff: "provision_effect e p ?T (Amount c) s s1" by blast
  from eff obtain b where l: "mint_ledger e (\<lambda>x d. on_denom (MintDenom p) ((if x = b then block_pay p ?T (Amount c) else 0) -
       (if x = NewModuleAddress (MBankEnv e) ''mint'' then block_pay p ?T (Amount c) - block_mint p ?T (Amount c) else 0)) d)
     (on_denom (MintDenom p) (block_mint p ?T (Amount c))) s s1"
    and b: "block_pay p ?T (Amount c) \<noteq> 0 \<longrightarrow> fee_recipient e [\<lparr> Denom = MintDenom p, Amount = block_pay p ?T (Amount c) \<rparr>] b"
    unfolding provision_effect_def by blast
  then have s1: "s1 = s\<lparr>MBank := MBank s1\<rparr>" by (simp add: mint_ledger_def)
  have "MinterItem s1 = Some m" by (subst s1) (simp add: assms(2))
  then have item: "MinterItem s' = Some m'" using s' by (auto simp: Minter_IsEqual_def)
  have bank: "MBank s' = MBank s1" using s' by simp
  have nn: "0 \<le> Amount c" using update_minter_coin [OF r(2)] by simp
  have n: "0 \<le> block_mint p ?T (Amount c)" "block_mint p ?T (Amount c) \<le> block_pay p ?T (Amount c)"
    "MaxSupply p \<noteq> 0 \<longrightarrow> ?T + block_mint p ?T (Amount c) \<le> max (MaxSupply p) ?T"
    using nn by (auto simp: block_mint_def block_pay_def)
  show ?thesis unfolding Let_def
    by (rule exI [of _ r], rule exI [of _ t], rule exI [of _ m'], rule exI [of _ c], rule exI [of _ b])
      (use r item l b n in \<open>auto simp: bank mint_ledger_def ledger_update_def on_denom_def fee_recipient_def\<close>)
qed

theorem mint_block_provision_witness:
  "\<exists>s'. mint_BeginBlocker (DefaultMintFn NextInflationRate example_mint_env) (example_mint 1010) = (Inr (), s') \<and>
    sup_of (MBank s') ''stake'' \<le> 1020 \<and> bal (MBank s') ''fee_collector'' ''stake'' = 10"
proof -
  let ?run = "mint_BeginBlocker (DefaultMintFn NextInflationRate example_mint_env) (example_mint 1010)"
  have "case ?run of (r, t) \<Rightarrow> r = Inr () \<and> bal (MBank t) ''fee_collector'' ''stake'' = 10" by code_simp
  then have run: "?run = (Inr (), snd ?run)" and fee: "bal (MBank (snd ?run)) ''fee_collector'' ''stake'' = 10"
    by (auto simp: prod_eq_iff split: prod.splits)
  have "int256 1010" by code_simp
  note ok = example_mint_ok [OF _ this, simplified]
  have "sup_of (MBank (snd ?run)) ''stake'' \<le> max 1020 (sup_of (MBank (example_mint 1010)) ''stake'')"
    using mint_block_provision [OF ok _ _ _ run, of example_minter example_params "''stake''"]
    by (auto simp: Let_def example_mint_def example_params_def)
  moreover have "sup_of (MBank (example_mint 1010)) ''stake'' = 1010" by code_simp
  ultimately show ?thesis using run fee by (intro exI [of _ "snd ?run"]) simp
qed

text \<open>
  C14: A provision that reaches the maximal supply exactly.  When the supply of the bond denomination plus the
  positive provision of the block equals the maximal supply, the begin blocker mints nothing, so that no supply
  changes, and still pays the provision out of the mint account.  If the spendable balance of that account covers it,
  the begin blocker succeeds, the mint account loses the provision and the recipient of the fees gains it; otherwise
  the begin blocker returns \<open>ErrInsufficientFunds\<close>.  The module accounts are assumed to exist, the send restriction
  to accept the payment and the address codec to print the two addresses.
\<close>

theorem mint_exact_cap:
  assumes ok: "bank_ok (MBankEnv e) (MBank s)"
    and items: "MinterItem s = Some m" "MParamsItem s = Some p" "BondDenomItem s = Some D"
    and new: "BondedRatio e s = (Inr r, s)" "update_minter (validDenom (MBankEnv e)) ic p r (sup_of (MBank s) D) m = Inr (m', c)"
    and cap: "sup_of (MBank s) D + Amount c = MaxSupply p" "0 < Amount c" "int256 (MaxSupply p)"
    and accounts: "GetModuleAddress (MBankEnv e) ''mint'' = Some a"
      "GetModuleAccount (MBankEnv e) (feeCollectorName e) (MBank s) = (Inr (Some acc), MBank s)"
    and restriction: "sendRestriction_apply (MBankEnv e) a (GetAddress acc) [c] = Inr b"
    and codec: "BytesToString (MBankEnv e) a = Inr astr" "BytesToString (MBankEnv e) b = Inr bstr"
  shows "if locked (MBankEnv e) (MBank s) a (MintDenom p) + Amount c \<le> bal (MBank s) a (MintDenom p)
    then \<exists>s'. mint_BeginBlocker (DefaultMintFn ic e) s = (Inr (), s') \<and> bank_ok (MBankEnv e) (MBank s') \<and>
      MinterItem s' = Some m' \<and> (\<forall>d. sup_of (MBank s') d = sup_of (MBank s) d) \<and>
      (\<forall>x d. bal (MBank s') x d = bal (MBank s) x d +
        (if d = MintDenom p then (if x = b then Amount c else 0) - (if x = a then Amount c else 0) else 0))
    else \<exists>s'. mint_BeginBlocker (DefaultMintFn ic e) s = (Inl ErrInsufficientFunds, s')"
proof -
  let ?e = "MBankEnv e" and ?covered = "locked (MBankEnv e) (MBank s) a (MintDenom p) + Amount c \<le> bal (MBank s) a (MintDenom p)"
  note coin = update_minter_coin [OF new(2)]
  then obtain n where c: "c = \<lparr> Denom = MintDenom p, Amount = n \<rparr>" by metis
  have n: "0 < n" "int256 n" "validDenom ?e (MintDenom p)" using coin cap(2) by (simp_all add: c)
  have cs: "coins_ok (validDenom ?e) [c]" using n by (simp add: c coins_ok_iff)
  have new_coins: "NewCoins (validDenom ?e) [c] = Inr [c]" using n cs
    by (simp add: NewCoins_Inr c coins_ok_def sanitizeCoins_def removeZeroCoins_def Coin_IsZero_def Coins_Sort_def)
  have amount: "Coins_AmountOf (validDenom ?e) [c] (MintDenom p) = Inr n" using Coins_AmountOf_ok [OF cs n(3)] by (simp add: c)
  have max: "MaxSupply p \<noteq> 0" "sup_of (MBank s) D + n = MaxSupply p" using cap keeper.total_nonneg [OF ok, of D] by (simp_all add: c)
  have "covered ?e (MBank s) a [c] \<longleftrightarrow> ?covered" using n(1) by (auto simp: covered_def c)
  note send = SendCoins_run [OF ok cs restriction codec, unfolded this]
  have capped: "cap_provision e p (sup_of (MBank s) D) [c] s = (Inr (Some [c]), s)" "mint_below_cap e p (sup_of (MBank s) D) [c] s = (Inr (), s)"
    using max cap(3) by (simp_all add: cap_provision_def mint_below_cap_def amount sbind_def sm_run sdkint)
  have total: "StakingTokenSupply e s = (Inr (sup_of (MBank s) D), s)"
    using new(1) items(3) StakingTokenSupply_success [OF ok _ items(3)] unfolding BondedRatio_def
    by (cases "StakingTokenSupply e s") (auto simp: sbind_def split: sum.splits)
  have fees: "AddCollectedFees e [c] s = on_bank (SendCoins ?e a (GetAddress acc) [c]) s"
    using accounts by (simp add: AddCollectedFees_def SendCoinsFromModuleToModule_def on_bank_def sbind_def)
  let ?ev = "EventMint r (Inflation m') (AnnualProvisions m') (Amount c)"
  have fn: "DefaultMintFn ic e m ''block'' (- 1) s = sbind (on_bank (SendCoins ?e a (GetAddress acc) [c])) (\<lambda>_.
      sbind (on_bank (EmitKV ?ev)) (\<lambda>_. sret m')) s"
    using items(2) new total new_coins capped fees by (simp add: DefaultMintFn_def sbind_def sm_run Item_Get_def)
  show ?thesis
  proof (cases ?covered)
    case True
    with send obtain t where t: "SendCoins ?e a (GetAddress acc) [c] (MBank s) = (Inr (), t)" "transferred ?e a b [c] (MBank s) t" by auto
    let ?t = "s\<lparr>MBank := t\<lparr>Events := Events t @ [?ev]\<rparr>\<rparr>"
    have "DefaultMintFn ic e m ''block'' (- 1) s = (Inr m', ?t)"
      unfolding fn by (simp add: on_bank_def sbind_def sm_run t(1))
    then have run: "mint_BeginBlocker (DefaultMintFn ic e) s = (Inr (), if Minter_IsEqual m' m then ?t else ?t\<lparr>MinterItem := Some m'\<rparr>)"
      using items(1) by (simp add: mint_BeginBlocker_def run_mint_fn_def Item_Get_def sbind_def sm_run)
    have "bank_ok ?e t" using t(2) by (simp add: transferred_def)
    then have "bank_ok ?e (t\<lparr>Events := Events t @ [?ev]\<rparr>)"
      by (simp add: bank_ok_def balances_ok_def supply_ok_def vesting_ok_def held_def)
    with t(2) True run items(1) show ?thesis
      by (auto simp: transferred_def c bal_def Minter_IsEqual_def)
  next
    case False
    with send obtain t where "SendCoins ?e a (GetAddress acc) [c] (MBank s) = (Inl ErrInsufficientFunds, t)" by auto
    then have "DefaultMintFn ic e m ''block'' (- 1) s = (Inl ErrInsufficientFunds, s\<lparr>MBank := t\<rparr>)"
      unfolding fn by (simp add: on_bank_def sbind_def)
    with False items(1) show ?thesis
      by (simp add: mint_BeginBlocker_def run_mint_fn_def Item_Get_def sbind_def sm_run)
  qed
qed

theorem mint_exact_cap_witness:
  "(\<exists>t. mint_BeginBlocker (DefaultMintFn NextInflationRate example_mint_env) (example_mint 1000) = (Inl ErrInsufficientFunds, t)) \<and>
   fst (mint_BeginBlocker (DefaultMintFn NextInflationRate example_mint_env) (example_mint 1010)) = Inr ()"
proof -
  let ?s = "example_mint 1000" and ?e = "MBankEnv example_mint_env"
  let ?m = "example_minter\<lparr>AnnualProvisions := 200 * 10 ^ 18\<rparr>" and ?c = "\<lparr> Denom = ''stake'', Amount = 20 \<rparr>"
  let ?acc = "ModuleAccount \<lparr> Address = ''fee_collector'', AccountNumber = 2, Sequence = 0 \<rparr> ''fee_collector'' []"
  have "int256 1000" by code_simp
  note ok = example_mint_ok [OF _ this, simplified]
  have items: "MinterItem ?s = Some example_minter" "MParamsItem ?s = Some example_params" "BondDenomItem ?s = Some ''stake''"
    by (simp_all add: example_mint_def)
  have r: "BondedRatio example_mint_env ?s = (Inr 0, ?s)" by code_simp
  have c: "update_minter (validDenom ?e) NextInflationRate example_params 0 (sup_of (MBank ?s) ''stake'') example_minter = Inr (?m, ?c)"
    by code_simp
  have cap: "sup_of (MBank ?s) ''stake'' + Amount ?c = MaxSupply example_params" "0 < Amount ?c" "int256 (MaxSupply example_params)"
    by code_simp+
  have a: "GetModuleAddress ?e ''mint'' = Some ''mint''" by code_simp
  have acc: "GetModuleAccount ?e (feeCollectorName example_mint_env) (MBank ?s) = (Inr (Some ?acc), MBank ?s)" by code_simp
  have b: "sendRestriction_apply ?e ''mint'' (GetAddress ?acc) [?c] = Inr ''fee_collector''"
    "BytesToString ?e ''mint'' = Inr ''mint''" "BytesToString ?e ''fee_collector'' = Inr ''fee_collector''"
    by (simp_all add: example_mint_env_def example_env_def sendRestriction_apply_def GetAddress_def)
  have "\<not> locked ?e (MBank ?s) ''mint'' (MintDenom example_params) + Amount ?c \<le> bal (MBank ?s) ''mint'' (MintDenom example_params)"
    by code_simp
  moreover have "fst (mint_BeginBlocker (DefaultMintFn NextInflationRate example_mint_env) (example_mint 1010)) = Inr ()" by code_simp
  ultimately show ?thesis using mint_exact_cap [OF ok items r c cap a acc b] by simp
qed

end
