(* ===== verification/Feegrant.thy ===== *)
theory Feegrant
  imports Accounts Gas "HOL-Library.Product_Lexorder"
begin

text \<open>
  The fee allowances of \<open>x/feegrant\<close> (\<open>src/x/feegrant/basic_fee.go\<close>, \<open>periodic_fee.go\<close>, \<open>filtered_fee.go\<close>,
  \<open>grant.go\<close>, \<open>genesis.go\<close>, \<open>src/x/feegrant/keeper/keeper.go\<close>, \<open>msg_server.go\<close>): what an allowance accepts, the
  store of grants with its queue of expirations, and the messages.

  Times and durations are nanoseconds on an unbounded axis from the Unix epoch.  A nil \<open>SpendLimit\<close> is
  \<open>None\<close>.  An \<open>AllowedMsgAllowance\<close> holds its inner allowance in a protobuf \<open>Any\<close>: the bytes packed into it
  and a cached decoded value, which a method may change without repacking; \<open>wire\<close> is a trip through
  the store, which writes the bytes and decodes both from them again, and which does not tell an empty
  list from a nil one.  Both stores are ordered by their keys as times and byte strings, which for addresses of
  one length is the order of the length prefixed keys.  A message is its type URL.  Messages are charged to the gas meter of the
  transaction.  Events are left out.
\<close>

section \<open>Allowances\<close>

record BasicAllowance =
  SpendLimit :: "Coin list option"
  Expiration :: "int option"

record PeriodicAllowance =
  PBasic :: BasicAllowance
  Period :: int
  PeriodSpendLimit :: "Coin list"
  PeriodCanSpend :: "Coin list"
  PeriodReset :: int

datatype allowance =
    BasicFee BasicAllowance
  | PeriodicFee PeriodicAllowance
  | AllowedMsg (any_value: allowance) (any_cached: allowance) "string list"

definition ErrFeeLimitExceeded :: fault where "ErrFeeLimitExceeded = Err ''fee limit exceeded''"
definition ErrFeeLimitExpired :: fault where "ErrFeeLimitExpired = Err ''fee allowance expired''"
definition ErrMessageNotAllowed :: fault where "ErrMessageNotAllowed = Err ''message not allowed''"
definition ErrNotFound :: fault where "ErrNotFound = Err ''collections: not found''"
definition ErrInvalidRequest :: fault where "ErrInvalidRequest = Err ''invalid request''"
definition ErrInvalidAddress :: fault where "ErrInvalidAddress = Err ''invalid address''"
definition ErrCoins :: fault where "ErrCoins = Err ''invalid coins''"

definition wire_basic :: "BasicAllowance \<Rightarrow> BasicAllowance" where
  "wire_basic a = (if SpendLimit a = Some [] then a\<lparr>SpendLimit := None\<rparr> else a)"

fun wire :: "allowance \<Rightarrow> allowance" where
  "wire (BasicFee a) = BasicFee (wire_basic a)"
| "wire (PeriodicFee a) = PeriodicFee (a\<lparr>PBasic := wire_basic (PBasic a)\<rparr>)"
| "wire (AllowedMsg v c msgs) = AllowedMsg (wire v) (wire v) msgs"

definition SetAllowance :: "allowance \<Rightarrow> string list \<Rightarrow> allowance" where
  "SetAllowance a msgs = AllowedMsg a a msgs"

text \<open>An outcome of \<open>Accept\<close>: whether to remove the allowance, and the error or the updated allowance.\<close>

type_synonym 'a accepted = "bool \<times> (fault + 'a)"

definition basic_Accept :: "(string \<Rightarrow> bool) \<Rightarrow> int \<Rightarrow> BasicAllowance \<Rightarrow> Coin list \<Rightarrow> BasicAllowance accepted res" where
  "basic_Accept vd time a fee =
     (if (case Expiration a of None \<Rightarrow> False | Some t \<Rightarrow> t < time) then Inr (True, Inl ErrFeeLimitExpired)
      else case SpendLimit a of
        Some limit \<Rightarrow> rbind (Coins_SafeSub vd limit fee) (\<lambda>(left, invalid).
          if invalid then Inr (False, Inl ErrFeeLimitExceeded)
          else Inr (Coins_IsZero left, Inr (a\<lparr>SpendLimit := Some left\<rparr>)))
      | None \<Rightarrow> Inr (False, Inr a))"

definition basic_ValidateBasic :: "(string \<Rightarrow> bool) \<Rightarrow> BasicAllowance \<Rightarrow> unit res" where
  "basic_ValidateBasic vd a =
     (case SpendLimit a of
        Some limit \<Rightarrow>
          if \<not> Coins_IsValid vd limit then Inl ErrCoins
          else if \<not> Coins_IsAllPositive limit then Inl ErrCoins
          else (case Expiration a of Some t \<Rightarrow> if t < 0 then Inl (Err ''invalid duration'') else Inr () | None \<Rightarrow> Inr ())
      | None \<Rightarrow> (case Expiration a of Some t \<Rightarrow> if t < 0 then Inl (Err ''invalid duration'') else Inr () | None \<Rightarrow> Inr ()))"

definition periodic_UpdatePeriodReset :: "PeriodicAllowance \<Rightarrow> int \<Rightarrow> PeriodicAllowance" where
  "periodic_UpdatePeriodReset a validTime = a\<lparr>PeriodReset := validTime + Period a\<rparr>"

definition coins_of :: "Coin list option \<Rightarrow> Coin list" where
  "coins_of l = (case l of None \<Rightarrow> [] | Some cs \<Rightarrow> cs)"

definition tryResetPeriod :: "(string \<Rightarrow> bool) \<Rightarrow> PeriodicAllowance \<Rightarrow> int \<Rightarrow> PeriodicAllowance res" where
  "tryResetPeriod vd a blockTime =
     (if blockTime < PeriodReset a then Inr a
      else let limit = coins_of (SpendLimit (PBasic a)) in
        rbind (Coins_SafeSub vd limit (PeriodSpendLimit a)) (\<lambda>(_, isNeg).
          let a = a\<lparr>PeriodCanSpend := (if isNeg \<and> limit \<noteq> [] then limit else PeriodSpendLimit a)\<rparr>;
              a = periodic_UpdatePeriodReset a (PeriodReset a)
          in Inr (if blockTime > PeriodReset a then periodic_UpdatePeriodReset a blockTime else a)))"

definition periodic_Accept :: "(string \<Rightarrow> bool) \<Rightarrow> int \<Rightarrow> PeriodicAllowance \<Rightarrow> Coin list \<Rightarrow> PeriodicAllowance accepted res" where
  "periodic_Accept vd blockTime a fee =
     (if (case Expiration (PBasic a) of None \<Rightarrow> False | Some t \<Rightarrow> blockTime > t) then Inr (True, Inl ErrFeeLimitExpired)
      else rbind (tryResetPeriod vd a blockTime) (\<lambda>a.
        rbind (Coins_SafeSub vd (PeriodCanSpend a) fee) (\<lambda>(canSpend, isNeg).
          let a = a\<lparr>PeriodCanSpend := canSpend\<rparr> in
          if isNeg then Inr (False, Inl ErrFeeLimitExceeded)
          else case SpendLimit (PBasic a) of
            Some limit \<Rightarrow> rbind (Coins_SafeSub vd limit fee) (\<lambda>(left, isNeg).
              if isNeg then Inr (False, Inl ErrFeeLimitExceeded)
              else Inr (Coins_IsZero left, Inr (a\<lparr>PBasic := (PBasic a)\<lparr>SpendLimit := Some left\<rparr>\<rparr>)))
          | None \<Rightarrow> Inr (False, Inr a))))"

definition periodic_ValidateBasic :: "(string \<Rightarrow> bool) \<Rightarrow> PeriodicAllowance \<Rightarrow> unit res" where
  "periodic_ValidateBasic vd a =
     rbind (basic_ValidateBasic vd (PBasic a)) (\<lambda>_.
       if \<not> Coins_IsValid vd (PeriodSpendLimit a) then Inl ErrCoins
       else if \<not> Coins_IsAllPositive (PeriodSpendLimit a) then Inl ErrCoins
       else if \<not> Coins_IsValid vd (PeriodCanSpend a) then Inl ErrCoins
       else if Coins_IsAnyNegative (PeriodCanSpend a) then Inl ErrCoins
       else rbind (case SpendLimit (PBasic a) of None \<Rightarrow> Inr True
           | Some limit \<Rightarrow> DenomsSubsetOf vd (PeriodSpendLimit a) limit) (\<lambda>subset.
         if \<not> subset then Inl ErrCoins
         else if Period a < 0 then Inl (Err ''invalid duration'') else Inr ()))"

fun ExpiresAt :: "allowance \<Rightarrow> int option" where
  "ExpiresAt (BasicFee a) = Expiration a"
| "ExpiresAt (PeriodicFee a) = Expiration (PBasic a)"
| "ExpiresAt (AllowedMsg _ c _) = ExpiresAt c"

text \<open>The inner allowance of an \<open>AllowedMsgAllowance\<close> is updated behind its cached pointer and not repacked.\<close>

fun UpdatePeriodReset :: "allowance \<Rightarrow> int \<Rightarrow> allowance" where
  "UpdatePeriodReset (BasicFee a) _ = BasicFee a"
| "UpdatePeriodReset (PeriodicFee a) validTime = PeriodicFee (periodic_UpdatePeriodReset a validTime)"
| "UpdatePeriodReset (AllowedMsg v c msgs) validTime = AllowedMsg v (UpdatePeriodReset c validTime) msgs"

fun ValidateBasic :: "(string \<Rightarrow> bool) \<Rightarrow> allowance \<Rightarrow> unit res" where
  "ValidateBasic vd (BasicFee a) = basic_ValidateBasic vd a"
| "ValidateBasic vd (PeriodicFee a) = periodic_ValidateBasic vd a"
| "ValidateBasic vd (AllowedMsg _ c msgs) =
     (if msgs = [] then Inl (Err ''allowed messages are empty'') else ValidateBasic vd c)"

definition gasCostPerIteration :: gas where
  "gasCostPerIteration = 10"

text \<open>
  The gas meter of the environment is the \<open>CoreGasmeter\<close> of the runtime (\<open>src/runtime/gas.go\<close>): \<open>Consume\<close> passes the charge on
  to the meter of the store, which panics when it is refused, and otherwise returns no error.
\<close>

definition CoreGasmeter_Consume :: "'m meter_ops \<Rightarrow> gas \<Rightarrow> string \<Rightarrow> ('m, unit) sm" where
  "CoreGasmeter_Consume M amount descriptor = sbind (ConsumeGas M amount descriptor) (\<lambda>_. sret ())"

definition allowedMsgsToMap :: "'m meter_ops \<Rightarrow> string list \<Rightarrow> ('m, string set) sm" where
  "allowedMsgsToMap M allowedMessages =
     sbind (sforeach (\<lambda>_. CoreGasmeter_Consume M gasCostPerIteration ''check msg'') allowedMessages) (\<lambda>_. sret (set allowedMessages))"

fun check_msgs :: "'m meter_ops \<Rightarrow> string set \<Rightarrow> string list \<Rightarrow> ('m, bool) sm" where
  "check_msgs M msgsMap [] = sret True"
| "check_msgs M msgsMap (msg # msgs) =
     sbind (CoreGasmeter_Consume M gasCostPerIteration ''check msg'') (\<lambda>_.
       if msg \<notin> msgsMap then sret False else check_msgs M msgsMap msgs)"

definition allMsgTypesAllowed :: "'m meter_ops \<Rightarrow> string list \<Rightarrow> string list \<Rightarrow> ('m, bool) sm" where
  "allMsgTypesAllowed M allowedMessages msgs =
     sbind (allowedMsgsToMap M allowedMessages) (\<lambda>msgsMap. check_msgs M msgsMap msgs)"

fun Accept ::
  "'m meter_ops \<Rightarrow> (string \<Rightarrow> bool) \<Rightarrow> int \<Rightarrow> allowance \<Rightarrow> Coin list \<Rightarrow> string list \<Rightarrow> ('m, allowance accepted) sm" where
  "Accept M vd time (BasicFee a) fee msgs =
     sbind (slift (basic_Accept vd time a fee)) (\<lambda>(remove, r). sret (remove, map_sum id BasicFee r))"
| "Accept M vd time (PeriodicFee a) fee msgs =
     sbind (slift (periodic_Accept vd time a fee)) (\<lambda>(remove, r). sret (remove, map_sum id PeriodicFee r))"
| "Accept M vd time (AllowedMsg v c allowedMsgs) fee msgs =
     sbind (allMsgTypesAllowed M allowedMsgs msgs) (\<lambda>allowed.
       if \<not> allowed then sret (False, Inl ErrMessageNotAllowed)
       else sbind (Accept M vd time c fee msgs) (\<lambda>(remove, r).
         sret (remove, case r of Inl err \<Rightarrow> Inl err
           | Inr a \<Rightarrow> Inr (if remove then AllowedMsg v a allowedMsgs else SetAllowance a allowedMsgs))))"

section \<open>The keeper\<close>

record Grant =
  Granter :: string
  Grantee :: string
  Allowance :: allowance

record 'm feegrant_env =
  FMeter :: "'m meter_ops"
  FValidDenom :: "string \<Rightarrow> bool"
  FStringToBytes :: "string \<Rightarrow> string res"
  FBytesToString :: "string \<Rightarrow> string res"
  FEqualFold :: "string \<Rightarrow> string \<Rightarrow> bool"

record 'm feegrant_state =
  FeeAllowance :: "((string \<times> string) \<times> Grant) list"
  FeeAllowanceQueue :: "((int \<times> string \<times> string) \<times> bool) list"
  FTime :: int
  FGas :: 'm

type_synonym ('m, 'a) feegrant = "('m feegrant_state, 'a) sm"

definition on_gas :: "('m, 'a) sm \<Rightarrow> ('m, 'a) feegrant" where
  "on_gas m s = (let (r, g) = m (FGas s) in (r, s\<lparr>FGas := g\<rparr>))"

definition GetAllowance :: "string \<Rightarrow> string \<Rightarrow> ('m, allowance) feegrant" where
  "GetAllowance granter grantee =
     sbind (sgets FeeAllowance) (\<lambda>grants. case map_of grants (grantee, granter) of
       None \<Rightarrow> sfail ErrNotFound | Some grant \<Rightarrow> sret (Allowance grant))"

definition store_grant :: "'m feegrant_env \<Rightarrow> string \<Rightarrow> string \<Rightarrow> allowance \<Rightarrow> ('m, unit) feegrant" where
  "store_grant e granter grantee a =
     sbind (slift (FBytesToString e granter)) (\<lambda>granterStr.
     sbind (slift (FBytesToString e grantee)) (\<lambda>granteeStr.
       smodify (\<lambda>s. s\<lparr>FeeAllowance := om_set (grantee, granter)
         \<lparr> Granter = granterStr, Grantee = granteeStr, Allowance = wire a \<rparr> (FeeAllowance s)\<rparr>)))"

definition GrantAllowance :: "'m feegrant_env \<Rightarrow> string \<Rightarrow> string \<Rightarrow> allowance \<Rightarrow> ('m, unit) feegrant" where
  "GrantAllowance e granter grantee feeAllowance = sbind (sgets id) (\<lambda>s.
     if map_of (FeeAllowance s) (grantee, granter) \<noteq> None then sfail ErrInvalidRequest
     else if (case ExpiresAt feeAllowance of None \<Rightarrow> False | Some exp \<Rightarrow> exp < FTime s) then sfail ErrInvalidRequest
     else sbind (case ExpiresAt feeAllowance of None \<Rightarrow> sret ()
         | Some exp \<Rightarrow> smodify (\<lambda>s. s\<lparr>FeeAllowanceQueue := om_set (exp, grantee, granter) True (FeeAllowanceQueue s)\<rparr>)) (\<lambda>_.
       store_grant e granter grantee
         (if FTime s \<noteq> time_zero then UpdatePeriodReset feeAllowance (FTime s) else feeAllowance)))"

definition UpdateAllowance :: "'m feegrant_env \<Rightarrow> string \<Rightarrow> string \<Rightarrow> allowance \<Rightarrow> ('m, unit) feegrant" where
  "UpdateAllowance e granter grantee feeAllowance =
     sbind (GetAllowance granter grantee) (\<lambda>_. store_grant e granter grantee feeAllowance)"

definition revokeAllowance :: "'m feegrant_env \<Rightarrow> string \<Rightarrow> string \<Rightarrow> ('m, unit) feegrant" where
  "revokeAllowance e granter grantee =
     sbind (GetAllowance granter grantee) (\<lambda>grant.
     sbind (smodify (\<lambda>s. s\<lparr>FeeAllowance := om_del (grantee, granter) (FeeAllowance s)\<rparr>)) (\<lambda>_.
     sbind (case ExpiresAt grant of None \<Rightarrow> sret ()
         | Some exp \<Rightarrow> smodify (\<lambda>s. s\<lparr>FeeAllowanceQueue := om_del (exp, grantee, granter) (FeeAllowanceQueue s)\<rparr>)) (\<lambda>_.
     sbind (slift (FBytesToString e granter)) (\<lambda>_.
     sbind (slift (FBytesToString e grantee)) (\<lambda>_. sret ())))))"

definition UseGrantedFees :: "'m feegrant_env \<Rightarrow> string \<Rightarrow> string \<Rightarrow> Coin list \<Rightarrow> string list \<Rightarrow> ('m, unit) feegrant" where
  "UseGrantedFees e granter grantee fee msgs =
     sbind (GetAllowance granter grantee) (\<lambda>grant.
     sbind (slift (FBytesToString e granter)) (\<lambda>_.
     sbind (slift (FBytesToString e grantee)) (\<lambda>_.
     sbind (sgets FTime) (\<lambda>time.
     sbind (on_gas (Accept (FMeter e) (FValidDenom e) time grant fee msgs)) (\<lambda>(remove, r). case r of
       Inl err \<Rightarrow> sfail err
     | Inr grant \<Rightarrow>
         if remove then ignore_error (revokeAllowance e granter grantee)
         else UpdateAllowance e granter grantee grant)))))"

definition RemoveExpiredAllowances :: "int \<Rightarrow> ('m, unit) feegrant" where
  "RemoveExpiredAllowances limit = sbind (sgets id) (\<lambda>s.
     let expired = filter (\<lambda>k. fst k \<le> FTime s) (map fst (FeeAllowanceQueue s));
         keysToRemove = (if limit > 0 then take (nat limit) expired else expired) in
     sbind (sforeach (\<lambda>(_, grantee, granter). smodify (\<lambda>s. s\<lparr>FeeAllowance := om_del (grantee, granter) (FeeAllowance s)\<rparr>)) keysToRemove) (\<lambda>_.
       sforeach (\<lambda>key. smodify (\<lambda>s. s\<lparr>FeeAllowanceQueue := om_del key (FeeAllowanceQueue s)\<rparr>)) keysToRemove))"

section \<open>Messages and genesis\<close>

definition msg_GrantAllowance :: "'m feegrant_env \<Rightarrow> string \<Rightarrow> string \<Rightarrow> allowance \<Rightarrow> ('m, unit) feegrant" where
  "msg_GrantAllowance e msgGranter msgGrantee a =
     (if FEqualFold e msgGrantee msgGranter then sfail ErrInvalidAddress
      else sbind (slift (FStringToBytes e msgGrantee)) (\<lambda>grantee.
        sbind (slift (FStringToBytes e msgGranter)) (\<lambda>granter.
        sbind (sgets FeeAllowance) (\<lambda>grants.
          if map_of grants (grantee, granter) \<noteq> None then sfail ErrInvalidRequest
          else sbind (slift (ValidateBasic (FValidDenom e) a)) (\<lambda>_. GrantAllowance e granter grantee a)))))"

definition msg_RevokeAllowance :: "'m feegrant_env \<Rightarrow> string \<Rightarrow> string \<Rightarrow> ('m, unit) feegrant" where
  "msg_RevokeAllowance e msgGranter msgGrantee =
     (if msgGrantee = msgGranter then sfail ErrInvalidAddress
      else sbind (slift (FStringToBytes e msgGrantee)) (\<lambda>grantee.
        sbind (slift (FStringToBytes e msgGranter)) (\<lambda>granter. revokeAllowance e granter grantee)))"

definition msg_PruneAllowances :: "('m, unit) feegrant" where
  "msg_PruneAllowances = RemoveExpiredAllowances 75"

definition feegrant_EndBlocker :: "('m, unit) feegrant" where
  "feegrant_EndBlocker = RemoveExpiredAllowances 200"

definition Grant_ValidateBasic :: "(string \<Rightarrow> bool) \<Rightarrow> Grant \<Rightarrow> unit res" where
  "Grant_ValidateBasic vd a =
     (if Granter a = [] then Inl ErrInvalidAddress
      else if Grantee a = [] then Inl ErrInvalidAddress
      else if Grantee a = Granter a then Inl ErrInvalidAddress
      else ValidateBasic vd (Allowance a))"

definition feegrant_ValidateGenesis :: "(string \<Rightarrow> bool) \<Rightarrow> Grant list \<Rightarrow> unit res" where
  "feegrant_ValidateGenesis vd grants = rfold (\<lambda>_ f. ValidateBasic vd (Allowance f)) () grants"

definition feegrant_InitGenesis :: "'m feegrant_env \<Rightarrow> Grant list \<Rightarrow> ('m, unit) feegrant" where
  "feegrant_InitGenesis e grants = sforeach (\<lambda>f.
     sbind (slift (FStringToBytes e (Granter f))) (\<lambda>granter.
     sbind (slift (FStringToBytes e (Grantee f))) (\<lambda>grantee. GrantAllowance e granter grantee (Allowance f)))) grants"

definition feegrant_ExportGenesis :: "('m, Grant list) feegrant" where
  "feegrant_ExportGenesis = sgets (\<lambda>s. map snd (FeeAllowance s))"

section \<open>What an allowance accepts\<close>

lemma SafeSub_run:
  assumes "coins_ok vd a" "coins_ok vd b"
  shows "\<exists>diff. Coins_SafeSub vd a b = Inr (diff, \<exists>d. camt a d < camt b d) \<and>
    ((\<forall>d. camt b d \<le> camt a d) \<longrightarrow> coins_ok vd diff \<and> (\<forall>d. camt diff d = camt a d - camt b d))"
proof -
  obtain diff where diff: "Coins_SafeSub vd a b = Inr (diff, \<exists>d. camt a d < camt b d)" "canon (cps diff)"
    "\<forall>d. camt diff d = camt a d - camt b d" "\<forall>x \<in> set diff. int256 (Amount x)"
    using Coins_SafeSub_ok [OF assms] by blast
  have vd: "vd d" if "camt diff d \<noteq> 0" for d
    using that diff(3) coins_ok_vd [OF assms(1), of d] coins_ok_vd [OF assms(2), of d] by fastforce
  have "coins_ok vd diff" if "\<forall>d. camt b d \<le> camt a d"
    using that diff vd by (intro coins_okI) auto
  with diff show ?thesis by blast
qed

lemma coins_ok_zero: "coins_ok vd cs \<Longrightarrow> Coins_IsZero cs \<longleftrightarrow> cs = []"
  by (cases cs) (auto simp: coins_ok_iff Coins_IsZero_def Coin_IsZero_def)

fun spend_limit :: "allowance \<Rightarrow> Coin list option" where
  "spend_limit (BasicFee a) = SpendLimit a"
| "spend_limit (PeriodicFee a) = SpendLimit (PBasic a)"
| "spend_limit (AllowedMsg _ c _) = spend_limit c"

definition basic_ok :: "(string \<Rightarrow> bool) \<Rightarrow> BasicAllowance \<Rightarrow> bool" where
  "basic_ok vd a \<longleftrightarrow> (case SpendLimit a of None \<Rightarrow> True | Some l \<Rightarrow> coins_ok vd l \<and> l \<noteq> [])"

fun allow_ok :: "(string \<Rightarrow> bool) \<Rightarrow> allowance \<Rightarrow> bool" where
  "allow_ok vd (BasicFee a) = basic_ok vd a"
| "allow_ok vd (PeriodicFee a) \<longleftrightarrow>
     basic_ok vd (PBasic a) \<and> coins_ok vd (PeriodSpendLimit a) \<and> coins_ok vd (PeriodCanSpend a)"
| "allow_ok vd (AllowedMsg v c _) \<longleftrightarrow> v = c \<and> allow_ok vd c"

fun msgs_allowed :: "allowance \<Rightarrow> string list \<Rightarrow> bool" where
  "msgs_allowed (AllowedMsg _ c allowed) msgs \<longleftrightarrow> set msgs \<subseteq> set allowed \<and> msgs_allowed c msgs"
| "msgs_allowed _ msgs = True"

text \<open>What is left to spend in the period of a block time.\<close>

definition period_room :: "PeriodicAllowance \<Rightarrow> int \<Rightarrow> string \<Rightarrow> int" where
  "period_room a time d =
     (if time < PeriodReset a then camt (PeriodCanSpend a) d
      else case SpendLimit (PBasic a) of
        Some l \<Rightarrow> if \<forall>x. camt (PeriodSpendLimit a) x \<le> camt l x then camt (PeriodSpendLimit a) d else camt l d
      | None \<Rightarrow> camt (PeriodSpendLimit a) d)"

fun within_period :: "allowance \<Rightarrow> int \<Rightarrow> Coin list \<Rightarrow> bool" where
  "within_period (BasicFee _) time fee = True"
| "within_period (PeriodicFee a) time fee \<longleftrightarrow> (\<forall>d. camt fee d \<le> period_room a time d)"
| "within_period (AllowedMsg _ c _) time fee = within_period c time fee"

definition unexpired :: "allowance \<Rightarrow> int \<Rightarrow> bool" where
  "unexpired a time \<longleftrightarrow> (case ExpiresAt a of None \<Rightarrow> True | Some t \<Rightarrow> time \<le> t)"

text \<open>An accepted fee is within the limit and taken off it; the allowance is removed when nothing is left.\<close>

definition charged :: "(string \<Rightarrow> bool) \<Rightarrow> allowance \<Rightarrow> Coin list \<Rightarrow> bool \<Rightarrow> allowance \<Rightarrow> bool" where
  "charged vd a fee remove a' \<longleftrightarrow> ExpiresAt a' = ExpiresAt a \<and> (\<not> remove \<longrightarrow> allow_ok vd a') \<and>
     (case spend_limit a of None \<Rightarrow> spend_limit a' = None \<and> \<not> remove
      | Some l \<Rightarrow> \<exists>left. spend_limit a' = Some left \<and> coins_ok vd left \<and>
          (\<forall>d. camt left d = camt l d - camt fee d) \<and> (remove \<longleftrightarrow> left = []))"

lemma basic_Accept_success:
  assumes "basic_ok vd a" "coins_ok vd fee" "basic_Accept vd time a fee = Inr (remove, Inr a')"
  shows "unexpired (BasicFee a) time \<and> charged vd (BasicFee a) fee remove (BasicFee a')"
proof (cases "SpendLimit a")
  case None
  with assms show ?thesis
    by (auto simp: basic_Accept_def unexpired_def charged_def split: option.splits if_splits)
next
  case (Some l)
  then have l: "coins_ok vd l" using assms(1) by (simp add: basic_ok_def)
  from SafeSub_run [OF l assms(2)] obtain diff where
    "Coins_SafeSub vd l fee = Inr (diff, \<exists>d. camt l d < camt fee d)"
    and d: "(\<forall>d. camt fee d \<le> camt l d) \<longrightarrow> coins_ok vd diff \<and> (\<forall>d. camt diff d = camt l d - camt fee d)" by blast
  with Some assms(3) have "\<forall>d. camt fee d \<le> camt l d" "remove = Coins_IsZero diff" "a' = a\<lparr>SpendLimit := Some diff\<rparr>"
    "unexpired (BasicFee a) time"
    by (auto simp: basic_Accept_def unexpired_def not_less split: option.splits if_splits)
  with d Some show ?thesis by (auto simp: charged_def basic_ok_def coins_ok_zero)
qed

lemma tryResetPeriod_run:
  assumes "allow_ok vd (PeriodicFee a)"
  shows "\<exists>a'. tryResetPeriod vd a time = Inr a' \<and> PBasic a' = PBasic a \<and> PeriodSpendLimit a' = PeriodSpendLimit a \<and>
    coins_ok vd (PeriodCanSpend a') \<and> (\<forall>d. camt (PeriodCanSpend a') d = period_room a time d) \<and>
    Period a' = Period a \<and> (0 \<le> Period a \<longrightarrow> time \<le> PeriodReset a')"
proof (cases "time < PeriodReset a")
  case True
  with assms show ?thesis by (auto simp: tryResetPeriod_def period_room_def)
next
  case False
  let ?l = "coins_of (SpendLimit (PBasic a))"
  have l: "coins_ok vd ?l" using assms by (auto simp: coins_of_def basic_ok_def coins_ok_iff cps_def split: option.splits)
  have p: "coins_ok vd (PeriodSpendLimit a)" using assms by simp
  obtain diff where diff: "Coins_SafeSub vd ?l (PeriodSpendLimit a) = Inr (diff, \<exists>d. camt ?l d < camt (PeriodSpendLimit a) d)"
    using SafeSub_run [OF l p] by blast
  define can where "can = (if (\<exists>d. camt ?l d < camt (PeriodSpendLimit a) d) \<and> ?l \<noteq> [] then ?l else PeriodSpendLimit a)"
  have can: "coins_ok vd can" "camt can d = period_room a time d" for d
  proof -
    show "coins_ok vd can" using l p by (simp add: can_def)
    show "camt can d = period_room a time d"
      using False assms unfolding can_def period_room_def
      by (cases "SpendLimit (PBasic a)") (auto simp: coins_of_def basic_ok_def simp flip: not_less)
  qed
  have "tryResetPeriod vd a time = Inr (a\<lparr>PeriodCanSpend := can,
      PeriodReset := (if time > PeriodReset a + Period a then time else PeriodReset a) + Period a\<rparr>)"
    using False diff by (simp add: tryResetPeriod_def Let_def can_def periodic_UpdatePeriodReset_def)
  with can False show ?thesis by auto
qed

lemma periodic_Accept_success:
  assumes "allow_ok vd (PeriodicFee a)" "coins_ok vd fee" "periodic_Accept vd time a fee = Inr (remove, Inr a')"
  shows "unexpired (PeriodicFee a) time \<and> within_period (PeriodicFee a) time fee \<and>
    charged vd (PeriodicFee a) fee remove (PeriodicFee a')"
proof -
  obtain b where b: "tryResetPeriod vd a time = Inr b" "PBasic b = PBasic a" "PeriodSpendLimit b = PeriodSpendLimit a"
    "coins_ok vd (PeriodCanSpend b)" "\<forall>d. camt (PeriodCanSpend b) d = period_room a time d"
    using tryResetPeriod_run [OF assms(1)] by blast
  from SafeSub_run [OF b(4) assms(2)] obtain can where
    can: "Coins_SafeSub vd (PeriodCanSpend b) fee = Inr (can, \<exists>d. camt (PeriodCanSpend b) d < camt fee d)"
    and can': "(\<forall>d. camt fee d \<le> camt (PeriodCanSpend b) d) \<longrightarrow> coins_ok vd can" by blast
  from assms(3) b(1) can have exp: "unexpired (PeriodicFee a) time" and room: "\<forall>d. camt fee d \<le> camt (PeriodCanSpend b) d"
    by (auto simp: periodic_Accept_def unexpired_def Let_def not_less split: option.splits if_splits)
  show ?thesis
  proof (cases "SpendLimit (PBasic a)")
    case None
    with assms(1,3) b can can' room exp show ?thesis
      by (auto simp: periodic_Accept_def charged_def Let_def basic_ok_def split: option.splits if_splits)
  next
    case (Some l)
    then have l: "coins_ok vd l" using assms(1) by (simp add: basic_ok_def)
    from SafeSub_run [OF l assms(2)] obtain diff where
      "Coins_SafeSub vd l fee = Inr (diff, \<exists>d. camt l d < camt fee d)"
      and d: "(\<forall>d. camt fee d \<le> camt l d) \<longrightarrow> coins_ok vd diff \<and> (\<forall>d. camt diff d = camt l d - camt fee d)" by blast
    with Some assms(3) b can room have "\<forall>d. camt fee d \<le> camt l d" "remove = Coins_IsZero diff"
      "a' = b\<lparr>PeriodCanSpend := can, PBasic := (PBasic a)\<lparr>SpendLimit := Some diff\<rparr>\<rparr>"
      by (auto simp: periodic_Accept_def Let_def not_less split: option.splits if_splits)
    with d Some assms(1) b can' room exp show ?thesis by (auto simp: charged_def basic_ok_def coins_ok_zero)
  qed
qed

lemma check_msgs_True: "check_msgs M allowed msgs g = (Inr True, g') \<Longrightarrow> set msgs \<subseteq> allowed"
  by (induction msgs arbitrary: g) (auto simp: sm_simps split: if_splits)

lemma sum_Inr:
  "map_sum id f r = Inr y \<longleftrightarrow> (\<exists>x. r = Inr x \<and> y = f x)"
  "(case q of Inl e \<Rightarrow> Inl e | Inr a \<Rightarrow> Inr (h a)) = Inr z \<longleftrightarrow> (\<exists>x. q = Inr x \<and> z = h x)"
  by (cases r; auto) (cases q; auto)

lemma Accept_success:
  assumes "allow_ok vd a" "coins_ok vd fee" "Accept M vd time a fee msgs g = (Inr (remove, Inr a'), g')"
  shows "unexpired a time \<and> within_period a time fee \<and> msgs_allowed a msgs \<and> charged vd a fee remove a'"
  using assms(1,3)
proof (induction a arbitrary: a' g g')
  case (BasicFee a)
  then obtain b where "basic_Accept vd time a fee = Inr (remove, Inr b)" "a' = BasicFee b"
    by (auto simp: sm_simps sum_Inr(1) split: prod.splits)
  with basic_Accept_success [of vd a fee time remove b] BasicFee.prems(1) assms(2) show ?case by simp
next
  case (PeriodicFee a)
  then obtain b where "periodic_Accept vd time a fee = Inr (remove, Inr b)" "a' = PeriodicFee b"
    by (auto simp: sm_simps sum_Inr(1) split: prod.splits)
  with periodic_Accept_success [of vd a fee time remove b] PeriodicFee.prems(1) assms(2) show ?case by simp
next
  case (AllowedMsg v c allowed)
  from AllowedMsg.prems(2) obtain g1 b where all: "allMsgTypesAllowed M allowed msgs g = (Inr True, g1)"
    and inner: "Accept M vd time c fee msgs g1 = (Inr (remove, Inr b), g')"
    and a': "a' = (if remove then AllowedMsg v b allowed else SetAllowance b allowed)"
    by (auto simp: sm_simps sum_Inr(2) split: if_splits prod.splits)
  from AllowedMsg.IH(2) [OF _ inner] AllowedMsg.prems(1)
  have "unexpired c time \<and> within_period c time fee \<and> msgs_allowed c msgs \<and> charged vd c fee remove b" by simp
  moreover have "set msgs \<subseteq> set allowed"
    using all check_msgs_True by (fastforce simp: allMsgTypesAllowed_def allowedMsgsToMap_def sm_simps)
  ultimately show ?case using a'
    by (auto simp: unexpired_def charged_def SetAllowance_def split: option.splits)
qed

section \<open>Using a grant\<close>

fun packed :: "allowance \<Rightarrow> bool" where
  "packed (AllowedMsg v c _) \<longleftrightarrow> v = c \<and> packed c"
| "packed _ = True"

lemma allow_ok_packed: "allow_ok vd a \<Longrightarrow> packed a"
  by (induction a) auto

lemma allow_ok_wire [simp]: "allow_ok vd a \<Longrightarrow> wire a = a"
  by (induction a) (auto simp: wire_basic_def basic_ok_def)

lemma on_gas_Inr [sm_simps]:
  "on_gas m s = (Inr x, s') \<longleftrightarrow> (\<exists>g. m (FGas s) = (Inr x, g) \<and> s' = s\<lparr>FGas := g\<rparr>)"
  by (auto simp: on_gas_def Let_def split: prod.splits)

lemma case_error_Inr:
  "(case r of Inl err \<Rightarrow> sfail err | Inr a \<Rightarrow> f a) s = (Inr u, s') \<longleftrightarrow> (\<exists>x. r = Inr x \<and> f x s = (Inr u, s'))"
  by (cases r) (auto simp: sm_run)

text \<open>The effect of a call on the grants and on the queue.\<close>

definition grant_removed :: "string \<Rightarrow> string \<Rightarrow> allowance \<Rightarrow> 'm feegrant_state \<Rightarrow> 'm feegrant_state \<Rightarrow> bool" where
  "grant_removed granter grantee a s s' \<longleftrightarrow> FeeAllowance s' = om_del (grantee, granter) (FeeAllowance s) \<and>
     FeeAllowanceQueue s' = (case ExpiresAt a of None \<Rightarrow> FeeAllowanceQueue s
       | Some t \<Rightarrow> om_del (t, grantee, granter) (FeeAllowanceQueue s)) \<and> FTime s' = FTime s"

definition grant_stored :: "string \<Rightarrow> string \<Rightarrow> allowance \<Rightarrow> 'm feegrant_state \<Rightarrow> 'm feegrant_state \<Rightarrow> bool" where
  "grant_stored granter grantee a s s' \<longleftrightarrow>
     (\<exists>grant. FeeAllowance s' = om_set (grantee, granter) grant (FeeAllowance s) \<and> Allowance grant = wire a) \<and>
     FeeAllowanceQueue s' = FeeAllowanceQueue s \<and> FTime s' = FTime s"

lemma store_grant_success:
  "store_grant e granter grantee a s = (Inr u, s') \<Longrightarrow> grant_stored granter grantee a s s'"
  by (auto simp: store_grant_def grant_stored_def sm_simps)

lemma revoke_run:
  assumes "map_of (FeeAllowance s) (grantee, granter) = Some grant" "revokeAllowance e granter grantee s = (r, s')"
  shows "grant_removed granter grantee (Allowance grant) s s'"
  using assms
  by (auto simp: revokeAllowance_def GetAllowance_def grant_removed_def sbind_def sm_run split: option.splits sum.splits)

lemma UseGrantedFees_success:
  assumes "map_of (FeeAllowance s) (grantee, granter) = Some grant" "allow_ok (FValidDenom e) (Allowance grant)"
    and "coins_ok (FValidDenom e) fee" "UseGrantedFees e granter grantee fee msgs s = (Inr u, s')"
  shows "unexpired (Allowance grant) (FTime s) \<and> within_period (Allowance grant) (FTime s) fee \<and>
    msgs_allowed (Allowance grant) msgs \<and>
    (\<exists>remove a'. charged (FValidDenom e) (Allowance grant) fee remove a' \<and>
      (if remove then grant_removed granter grantee (Allowance grant) s s' else grant_stored granter grantee a' s s'))"
proof -
  from assms(1,4) obtain remove a' g where acc:
      "Accept (FMeter e) (FValidDenom e) (FTime s) (Allowance grant) fee msgs (FGas s) = (Inr (remove, Inr a'), g)"
    and rest: "(if remove then ignore_error (revokeAllowance e granter grantee) else UpdateAllowance e granter grantee a')
      (s\<lparr>FGas := g\<rparr>) = (Inr u, s')"
    by (auto simp: UseGrantedFees_def GetAllowance_def sm_simps case_error_Inr split: prod.splits)
  note a = Accept_success [OF assms(2,3) acc]
  have "if remove then grant_removed granter grantee (Allowance grant) s s' else grant_stored granter grantee a' s s'"
  proof (cases remove)
    case True
    obtain r t where t: "revokeAllowance e granter grantee (s\<lparr>FGas := g\<rparr>) = (r, t)" by fastforce
    with rest True have "s' = t" by (auto simp: ignore_error_def split: sum.splits fault.splits)
    with revoke_run [OF _ t, of grant] assms(1) True show ?thesis by (simp add: grant_removed_def split: option.splits)
  next
    case False
    with rest assms(1) have "store_grant e granter grantee a' (s\<lparr>FGas := g\<rparr>) = (Inr u, s')"
      by (auto simp: UpdateAllowance_def GetAllowance_def sm_simps)
    from store_grant_success [OF this] False show ?thesis by (simp add: grant_stored_def)
  qed
  with a show ?thesis by blast
qed

lemma UseGrantedFees_none:
  "map_of (FeeAllowance s) (grantee, granter) = None \<Longrightarrow> UseGrantedFees e granter grantee fee msgs s = (Inl ErrNotFound, s)"
  by (simp add: UseGrantedFees_def GetAllowance_def sbind_def sm_run)

text \<open>
  A run of the chain as seen from one grant: fees paid with it, whose sum is kept, and steps of the rest of the
  chain, which may revoke or prune the grant but not give it anew.
\<close>

inductive fee_run ::
  "'m feegrant_env \<Rightarrow> string \<Rightarrow> string \<Rightarrow> 'm feegrant_state \<Rightarrow> (string \<Rightarrow> int) \<Rightarrow> 'm feegrant_state \<Rightarrow> bool"
  for e granter grantee s where
  start: "fee_run e granter grantee s (\<lambda>_. 0) s"
| used: "fee_run e granter grantee s paid t \<Longrightarrow> coins_ok (FValidDenom e) fee \<Longrightarrow>
    UseGrantedFees e granter grantee fee msgs t = (Inr (), t') \<Longrightarrow> fee_run e granter grantee s (\<lambda>d. paid d + camt fee d) t'"
| other: "fee_run e granter grantee s paid t \<Longrightarrow>
    map_of (FeeAllowance t') (grantee, granter) \<in> {None, map_of (FeeAllowance t) (grantee, granter)} \<Longrightarrow>
    om_ok (FeeAllowance t') \<Longrightarrow> fee_run e granter grantee s paid t'"

text \<open>What is paid and what is left of the limit.\<close>

definition budget_ok ::
  "(string \<Rightarrow> bool) \<Rightarrow> string \<Rightarrow> string \<Rightarrow> Coin list \<Rightarrow> int option \<Rightarrow> (string \<Rightarrow> int) \<Rightarrow> 'm feegrant_state \<Rightarrow> bool" where
  "budget_ok vd granter grantee l exp paid t \<longleftrightarrow> om_ok (FeeAllowance t) \<and> (\<forall>d. paid d \<le> camt l d) \<and>
     (case map_of (FeeAllowance t) (grantee, granter) of None \<Rightarrow> True
      | Some grant \<Rightarrow> allow_ok vd (Allowance grant) \<and> ExpiresAt (Allowance grant) = exp \<and>
          (\<exists>left. spend_limit (Allowance grant) = Some left \<and> (\<forall>d. paid d + camt left d = camt l d)))"

lemma fee_run_budget:
  assumes "fee_run e granter grantee s paid t" "budget_ok (FValidDenom e) granter grantee l exp (\<lambda>_. 0) s"
  shows "budget_ok (FValidDenom e) granter grantee l exp paid t"
  using assms(1)
proof induction
  case start
  show ?case by (rule assms(2))
next
  case (used paid t fee msgs t')
  then obtain grant where grant: "map_of (FeeAllowance t) (grantee, granter) = Some grant"
    using UseGrantedFees_none [of t grantee granter e fee msgs] by (cases "map_of (FeeAllowance t) (grantee, granter)") auto
  with used.IH obtain left where left: "om_ok (FeeAllowance t)" "allow_ok (FValidDenom e) (Allowance grant)"
    "spend_limit (Allowance grant) = Some left" "\<forall>d. paid d + camt left d = camt l d" "ExpiresAt (Allowance grant) = exp"
    by (auto simp: budget_ok_def)
  from UseGrantedFees_success [OF grant left(2) used.hyps(2,3)] obtain remove a' where
    c: "charged (FValidDenom e) (Allowance grant) fee remove a'"
    and r: "if remove then grant_removed granter grantee (Allowance grant) t t' else grant_stored granter grantee a' t t'" by blast
  from c left(3) obtain left' where left': "spend_limit a' = Some left'" "coins_ok (FValidDenom e) left'"
    "\<forall>d. camt left' d = camt left d - camt fee d" "\<not> remove \<longrightarrow> allow_ok (FValidDenom e) a'"
    "ExpiresAt a' = exp" using left(5) by (auto simp: charged_def)
  have le: "paid d + camt fee d \<le> camt l d" for d
    using left(4) left'(3) coins_ok_nonneg [OF left'(2), of d] by (auto dest!: spec [of _ d])
  have eq: "paid d + camt fee d + camt left' d = camt l d" for d using left(4) left'(3) by (auto dest!: spec [of _ d])
  show ?case
    using r left(1) left' le eq allow_ok_packed [of "FValidDenom e" a']
    by (cases remove) (auto simp: budget_ok_def grant_removed_def grant_stored_def om_simps)
next
  case (other paid t t')
  then show ?case by (auto simp: budget_ok_def split: option.splits)
qed

section \<open>The queue of expirations\<close>

lemma ExpiresAt_wire [simp]: "packed a \<Longrightarrow> ExpiresAt (wire a) = ExpiresAt a"
  by (induction a) (auto simp: wire_basic_def)

lemma packed_wire [simp]: "packed (wire a)"
  by (induction a) auto

text \<open>Resetting the period of a packed allowance has no effect on the expiration that is stored.\<close>

lemma ExpiresAt_reset [simp]: "packed a \<Longrightarrow> ExpiresAt (wire (UpdatePeriodReset a t)) = ExpiresAt a"
  by (cases a) (auto simp: periodic_UpdatePeriodReset_def wire_basic_def)

text \<open>
  The period of a message filtered allowance is not reset when it is granted: the new reset time stays behind
  the cached pointer and what is stored is the allowance as it was packed.
\<close>

lemma filtered_reset_lost: "wire (UpdatePeriodReset (AllowedMsg v c msgs) t) = wire (AllowedMsg v c msgs)"
  by simp

definition expiring :: "'m feegrant_state \<Rightarrow> (int \<times> string \<times> string) set" where
  "expiring s = {(t, grantee, granter). \<exists>grant. map_of (FeeAllowance s) (grantee, granter) = Some grant \<and>
     ExpiresAt (Allowance grant) = Some t}"

definition feegrant_ok :: "'m feegrant_env \<Rightarrow> 'm feegrant_state \<Rightarrow> bool" where
  "feegrant_ok e s \<longleftrightarrow> om_ok (FeeAllowance s) \<and> om_ok (FeeAllowanceQueue s) \<and> fst ` set (FeeAllowanceQueue s) = expiring s \<and>
     (\<forall>k grant. map_of (FeeAllowance s) k = Some grant \<longrightarrow> allow_ok (FValidDenom e) (Allowance grant))"

lemma allow_ok_limit: "allow_ok vd a \<Longrightarrow> spend_limit a = Some l \<Longrightarrow> coins_ok vd l \<and> l \<noteq> []"
  by (induction a) (auto simp: basic_ok_def)

lemma removed_ok:
  assumes "feegrant_ok e s" "map_of (FeeAllowance s) (grantee, granter) = Some grant"
    and "grant_removed granter grantee (Allowance grant) s s'"
  shows "feegrant_ok e s'"
proof -
  note inv = assms(1) [unfolded feegrant_ok_def]
  have "expiring s' = expiring s - {k. snd k = (grantee, granter)}"
    using inv assms(3) by (auto simp: expiring_def grant_removed_def om_simps split: if_splits)
  moreover have "fst ` set (FeeAllowanceQueue s') = expiring s - {k. snd k = (grantee, granter)}"
    using inv assms(2,3) by (auto simp: grant_removed_def om_del_keys expiring_def split: option.splits)
  ultimately show ?thesis using inv assms(3)
    by (auto simp: feegrant_ok_def grant_removed_def om_simps split: if_splits option.splits)
qed

lemma updated_ok:
  assumes "feegrant_ok e s" "map_of (FeeAllowance s) (grantee, granter) = Some grant"
    and "grant_stored granter grantee a s s'" "allow_ok (FValidDenom e) a" "ExpiresAt a = ExpiresAt (Allowance grant)"
  shows "feegrant_ok e s'"
proof -
  note inv = assms(1) [unfolded feegrant_ok_def]
  have "expiring s' = expiring s"
    using inv assms(2-5) by (auto simp: expiring_def grant_stored_def om_simps split: if_splits)
  with inv assms(3,4) show ?thesis by (auto simp: feegrant_ok_def grant_stored_def om_simps split: if_splits)
qed

text \<open>Amounts in messages are 256-bit integers, and a decoded message is packed.\<close>

definition basic_typed :: "BasicAllowance \<Rightarrow> bool" where
  "basic_typed a \<longleftrightarrow> (\<forall>c \<in> set (coins_of (SpendLimit a)). int256 (Amount c))"

fun allow_typed :: "allowance \<Rightarrow> bool" where
  "allow_typed (BasicFee a) = basic_typed a"
| "allow_typed (PeriodicFee a) \<longleftrightarrow> basic_typed (PBasic a) \<and>
     (\<forall>c \<in> set (PeriodSpendLimit a) \<union> set (PeriodCanSpend a). int256 (Amount c))"
| "allow_typed (AllowedMsg v c _) \<longleftrightarrow> v = c \<and> allow_typed c"

lemma basic_validated: "basic_ValidateBasic vd a = Inr () \<Longrightarrow> basic_typed a \<Longrightarrow> basic_ok vd a"
  by (auto simp: basic_ValidateBasic_def basic_typed_def basic_ok_def coins_of_def coins_ok_def list_all_iff
      Coins_IsAllPositive_def split: option.splits if_splits)

lemma validated: "ValidateBasic vd a = Inr () \<Longrightarrow> allow_typed a \<Longrightarrow> allow_ok vd a"
proof (induction a)
  case (PeriodicFee a)
  then show ?case
    by (auto simp: periodic_ValidateBasic_def res_simps coins_ok_def list_all_iff split: if_splits intro: basic_validated)
qed (auto intro: basic_validated split: if_splits)

lemma reset_ok: "allow_ok vd a \<Longrightarrow> allow_ok vd (wire (UpdatePeriodReset a t))"
  by (cases a) (auto simp: periodic_UpdatePeriodReset_def wire_basic_def basic_ok_def)

lemma granted_ok:
  assumes "feegrant_ok e s" "allow_ok (FValidDenom e) a" "GrantAllowance e granter grantee a s = (Inr u, s')"
  shows "feegrant_ok e s' \<and> map_of (FeeAllowance s) (grantee, granter) = None"
proof -
  note inv = assms(1) [unfolded feegrant_ok_def]
  define b where "b = (if FTime s \<noteq> time_zero then UpdatePeriodReset a (FTime s) else a)"
  have b: "allow_ok (FValidDenom e) (wire b)" "ExpiresAt (wire b) = ExpiresAt a"
    using assms(2) allow_ok_packed [OF assms(2)] reset_ok [of "FValidDenom e" a "FTime s"] by (auto simp: b_def)
  let ?q = "case ExpiresAt a of None \<Rightarrow> FeeAllowanceQueue s | Some t \<Rightarrow> om_set (t, grantee, granter) True (FeeAllowanceQueue s)"
  from assms(3) have none: "map_of (FeeAllowance s) (grantee, granter) = None"
    and st: "grant_stored granter grantee b (s\<lparr>FeeAllowanceQueue := ?q\<rparr>) s'"
    by (auto simp: GrantAllowance_def sm_simps b_def split: if_splits option.splits dest!: store_grant_success)
  have "expiring s' = expiring s \<union> {k. snd k = (grantee, granter) \<and> ExpiresAt a = Some (fst k)}"
    using none st b(2) by (auto simp: expiring_def grant_stored_def om_simps split: if_splits)
  moreover have "fst ` set (FeeAllowanceQueue s') = expiring s \<union> {k. snd k = (grantee, granter) \<and> ExpiresAt a = Some (fst k)}"
    using st inv by (auto simp: grant_stored_def om_set_keys split: option.splits)
  ultimately have "feegrant_ok e s'"
    using inv st b(1) by (auto simp: feegrant_ok_def grant_stored_def om_simps split: if_splits option.splits)
  with none show ?thesis by blast
qed

lemma used_ok:
  assumes "feegrant_ok e s" "coins_ok (FValidDenom e) fee" "UseGrantedFees e granter grantee fee msgs s = (Inr u, s')"
  shows "feegrant_ok e s'"
proof -
  obtain grant where grant: "map_of (FeeAllowance s) (grantee, granter) = Some grant"
    using assms(3) UseGrantedFees_none [of s grantee granter e fee msgs] by (cases "map_of (FeeAllowance s) (grantee, granter)") auto
  then have ok: "allow_ok (FValidDenom e) (Allowance grant)" using assms(1) by (auto simp: feegrant_ok_def)
  from UseGrantedFees_success [OF grant ok assms(2,3)] obtain remove a' where
    "charged (FValidDenom e) (Allowance grant) fee remove a'"
    "if remove then grant_removed granter grantee (Allowance grant) s s' else grant_stored granter grantee a' s s'" by blast
  then show ?thesis using removed_ok [OF assms(1) grant] updated_ok [OF assms(1) grant, of a']
    by (cases remove) (auto simp: charged_def)
qed

lemma revoked_ok:
  assumes "feegrant_ok e s" "revokeAllowance e granter grantee s = (Inr u, s')"
  shows "feegrant_ok e s'"
proof -
  obtain grant where grant: "map_of (FeeAllowance s) (grantee, granter) = Some grant"
    using assms(2) by (auto simp: revokeAllowance_def GetAllowance_def sm_simps split: option.splits)
  show ?thesis by (rule removed_ok [OF assms(1) grant revoke_run [OF grant assms(2)]])
qed

subsection \<open>Pruning\<close>

lemma sforeach_smodify: "sforeach (\<lambda>x. smodify (f x)) xs s = (Inr (), fold f xs s)"
  by (induction xs arbitrary: s) (auto simp: sm_run)

definition om_dels :: "'k :: linorder list \<Rightarrow> ('k \<times> 'v) list \<Rightarrow> ('k \<times> 'v) list" where
  "om_dels ks xs = fold om_del ks xs"

lemma om_dels_ok [simp]: "om_ok xs \<Longrightarrow> om_ok (om_dels ks xs)"
  by (induction ks arbitrary: xs) (auto simp: om_dels_def)

lemma map_of_om_dels: "om_ok xs \<Longrightarrow> map_of (om_dels ks xs) k = (if k \<in> set ks then None else map_of xs k)"
  by (induction ks arbitrary: xs) (auto simp: om_dels_def om_simps)

lemma om_dels_keys: "om_ok xs \<Longrightarrow> fst ` set (om_dels ks xs) = fst ` set xs - set ks"
  by (induction ks arbitrary: xs) (auto simp: om_dels_def om_del_keys)

lemma fold_FeeAllowance:
  "fold (\<lambda>(_, grantee, granter) s. s\<lparr>FeeAllowance := om_del (grantee, granter) (FeeAllowance s)\<rparr>) ks s =
     s\<lparr>FeeAllowance := om_dels (map snd ks) (FeeAllowance s)\<rparr>"
  by (induction ks arbitrary: s) (auto simp: om_dels_def)

lemma fold_Queue:
  "fold (\<lambda>key s. s\<lparr>FeeAllowanceQueue := om_del key (FeeAllowanceQueue s)\<rparr>) ks s =
     s\<lparr>FeeAllowanceQueue := om_dels ks (FeeAllowanceQueue s)\<rparr>"
  by (induction ks arbitrary: s) (auto simp: om_dels_def)

definition expired_keys :: "'m feegrant_state \<Rightarrow> (int \<times> string \<times> string) list" where
  "expired_keys s = filter (\<lambda>k. fst k \<le> FTime s) (map fst (FeeAllowanceQueue s))"

lemma prune_run:
  "RemoveExpiredAllowances limit s =
    (let ks = (if limit > 0 then take (nat limit) (expired_keys s) else expired_keys s) in
     (Inr (), s\<lparr>FeeAllowance := om_dels (map snd ks) (FeeAllowance s),
        FeeAllowanceQueue := om_dels ks (FeeAllowanceQueue s)\<rparr>))"
proof -
  have f: "(\<lambda>(_ :: int, grantee, granter). smodify (\<lambda>s. s\<lparr>FeeAllowance := om_del (grantee, granter) (FeeAllowance s)\<rparr>)) =
    (\<lambda>k. smodify ((\<lambda>(_, grantee, granter) s. s\<lparr>FeeAllowance := om_del (grantee, granter) (FeeAllowance s)\<rparr>) k))"
    by (auto simp: fun_eq_iff)
  show ?thesis
    unfolding RemoveExpiredAllowances_def expired_keys_def f
    by (simp add: Let_def sbind_run(1) [OF sforeach_smodify] sforeach_smodify fold_FeeAllowance fold_Queue)
qed

lemma pruned_ok:
  assumes "feegrant_ok e s" "set ks \<subseteq> expiring s"
  shows "feegrant_ok e (s\<lparr>FeeAllowance := om_dels (map snd ks) (FeeAllowance s),
    FeeAllowanceQueue := om_dels ks (FeeAllowanceQueue s)\<rparr>)" (is "feegrant_ok e ?s'")
proof -
  note inv = assms(1) [unfolded feegrant_ok_def]
  have fa: "map_of (FeeAllowance ?s') k = (if k \<in> snd ` set ks then None else map_of (FeeAllowance s) k)" for k
    using inv by (simp add: map_of_om_dels)
  have "k \<in> set ks" if "k \<in> expiring s" "snd k \<in> snd ` set ks" for k
  proof -
    from that(2) obtain t where t: "(t, snd k) \<in> set ks" by force
    with assms(2) have "(t, snd k) \<in> expiring s" by blast
    with that(1) have "t = fst k" by (auto simp: expiring_def)
    with t show ?thesis by (metis prod.collapse)
  qed
  then have "expiring ?s' = expiring s - set ks"
    unfolding expiring_def [of ?s'] fa by (force simp: expiring_def)
  moreover have "fst ` set (FeeAllowanceQueue ?s') = expiring s - set ks" using inv by (simp add: om_dels_keys)
  ultimately show ?thesis using inv fa by (auto simp: feegrant_ok_def split: if_splits)
qed

lemma expired_keys_set: "feegrant_ok e s \<Longrightarrow> set (expired_keys s) = {k \<in> expiring s. fst k \<le> FTime s}"
  by (auto simp: expired_keys_def feegrant_ok_def)

lemma expired_keys_sorted: "feegrant_ok e s \<Longrightarrow> sorted_wrt (<) (expired_keys s)"
  unfolding expired_keys_def by (rule sorted_wrt_filter) (simp add: feegrant_ok_def om_ok_def)

lemma sorted_take_before:
  assumes "sorted_wrt (<) (xs :: 'k :: linorder list)"
  shows "\<forall>x \<in> set (take n xs). \<forall>y \<in> set xs - set (take n xs). x < y"
proof -
  have "sorted_wrt (<) (take n xs @ drop n xs)" using assms by simp
  then have "\<forall>x \<in> set (take n xs). \<forall>y \<in> set (drop n xs). x < y" unfolding sorted_wrt_append by blast
  moreover have "set xs = set (take n xs) \<union> set (drop n xs)" by (metis append_take_drop_id set_append)
  ultimately show ?thesis by auto
qed

lemma prune_ok:
  assumes "feegrant_ok e s" "RemoveExpiredAllowances limit s = (Inr u, s')"
  shows "feegrant_ok e s'"
proof -
  let ?ks = "if limit > 0 then take (nat limit) (expired_keys s) else expired_keys s"
  have "set ?ks \<subseteq> expiring s"
    using expired_keys_set [OF assms(1)] set_take_subset [of "nat limit" "expired_keys s"] by auto
  from pruned_ok [OF assms(1) this] assms(2) show ?thesis by (simp add: prune_run Let_def)
qed

section \<open>The state machine\<close>

inductive feegrant_step :: "'m feegrant_env \<Rightarrow> 'm feegrant_state \<Rightarrow> 'm feegrant_state \<Rightarrow> bool" for e where
  granted: "allow_typed a \<Longrightarrow> msg_GrantAllowance e granter grantee a s = (Inr (), s') \<Longrightarrow> feegrant_step e s s'"
| revoked: "msg_RevokeAllowance e granter grantee s = (Inr (), s') \<Longrightarrow> feegrant_step e s s'"
| pruned: "msg_PruneAllowances s = (Inr (), s') \<Longrightarrow> feegrant_step e s s'"
| end_block: "feegrant_EndBlocker s = (Inr (), s') \<Longrightarrow> feegrant_step e s s'"
| paid: "coins_ok (FValidDenom e) fee \<Longrightarrow> UseGrantedFees e granter grantee fee msgs s = (Inr (), s') \<Longrightarrow> feegrant_step e s s'"
| new_transaction: "feegrant_step e s (s\<lparr>FTime := time, FGas := g\<rparr>)"

lemma feegrant_step_ok: "feegrant_step e s s' \<Longrightarrow> feegrant_ok e s \<Longrightarrow> feegrant_ok e s'"
proof (induction rule: feegrant_step.induct)
  case (granted a granter grantee s s')
  then show ?case
    using granted_ok validated by (fastforce simp: msg_GrantAllowance_def sm_simps split: if_splits)
next
  case (revoked granter grantee s s')
  then show ?case by (auto simp: msg_RevokeAllowance_def sm_simps split: if_splits intro: revoked_ok)
next
  case (pruned s s')
  then show ?case by (auto simp: msg_PruneAllowances_def intro: prune_ok)
next
  case (end_block s s')
  then show ?case by (auto simp: feegrant_EndBlocker_def intro: prune_ok)
next
  case (paid fee granter grantee msgs s s')
  then show ?case by (auto intro: used_ok)
next
  case (new_transaction s time g)
  then show ?case by (simp add: feegrant_ok_def expiring_def)
qed

lemma feegrant_reachable_ok: "(feegrant_step e)\<^sup>*\<^sup>* s s' \<Longrightarrow> feegrant_ok e s \<Longrightarrow> feegrant_ok e s'"
  by (induction rule: rtranclp_induct) (auto intro: feegrant_step_ok)

section \<open>Periods\<close>

lemma periodic_Accept_accepts:
  assumes "allow_ok vd (PeriodicFee a)" "coins_ok vd fee" "Expiration (PBasic a) = None"
    and "\<forall>d. camt fee d \<le> period_room a time d" "SpendLimit (PBasic a) = Some l" "\<forall>d. camt fee d \<le> camt l d"
  shows "\<exists>remove a'. periodic_Accept vd time a fee = Inr (remove, Inr a')"
proof -
  obtain b where b: "tryResetPeriod vd a time = Inr b" "PBasic b = PBasic a"
    "coins_ok vd (PeriodCanSpend b)" "\<forall>d. camt (PeriodCanSpend b) d = period_room a time d"
    using tryResetPeriod_run [OF assms(1)] by blast
  have l: "coins_ok vd l" using assms(1,5) by (simp add: basic_ok_def)
  obtain can left where "Coins_SafeSub vd (PeriodCanSpend b) fee = Inr (can, \<exists>d. camt (PeriodCanSpend b) d < camt fee d)"
    "Coins_SafeSub vd l fee = Inr (left, \<exists>d. camt l d < camt fee d)"
    using SafeSub_run [OF b(3) assms(2)] SafeSub_run [OF l assms(2)] by blast
  moreover have "\<not> (\<exists>d. camt (PeriodCanSpend b) d < camt fee d)" "\<not> (\<exists>d. camt l d < camt fee d)"
    using assms(4,6) b(4) by (simp_all add: not_less)
  ultimately show ?thesis using assms(3,5) b(1,2) by (simp add: periodic_Accept_def Let_def)
qed

text \<open>Both limits are in one denomination.\<close>

definition one_denom :: "PeriodicAllowance \<Rightarrow> bool" where
  "one_denom a \<longleftrightarrow> (\<exists>d0. \<forall>d. d \<noteq> d0 \<longrightarrow> camt (PeriodSpendLimit a) d = 0 \<and> camt (coins_of (SpendLimit (PBasic a))) d = 0)"

lemma one_denom_room:
  assumes "PeriodReset a \<le> time" "one_denom a \<or> SpendLimit (PBasic a) = None"
  shows "period_room a time d \<le> camt (PeriodSpendLimit a) d"
proof (cases "SpendLimit (PBasic a)")
  case None
  with assms(1) show ?thesis by (simp add: period_room_def)
next
  case (Some l)
  with assms(2) obtain d0 where d0: "\<forall>d. d \<noteq> d0 \<longrightarrow> camt (PeriodSpendLimit a) d = 0 \<and> camt l d = 0"
    by (auto simp: one_denom_def coins_of_def)
  have "camt l d \<le> camt (PeriodSpendLimit a) d" if "\<not> (\<forall>x. camt (PeriodSpendLimit a) x \<le> camt l x)"
    using that d0 by (cases "d = d0") (auto, metis linorder_le_cases order.refl)
  with Some assms(1) show ?thesis by (auto simp: period_room_def)
qed

lemma periodic_Accept_room:
  assumes "allow_ok vd (PeriodicFee a)" "coins_ok vd fee" "periodic_Accept vd time a fee = Inr (remove, Inr a')"
  shows "\<exists>b. tryResetPeriod vd a time = Inr b \<and> PeriodReset a' = PeriodReset b \<and>
    (\<forall>d. camt (PeriodCanSpend a') d = period_room a time d - camt fee d)"
proof -
  obtain b where b: "tryResetPeriod vd a time = Inr b" "coins_ok vd (PeriodCanSpend b)"
    "\<forall>d. camt (PeriodCanSpend b) d = period_room a time d"
    using tryResetPeriod_run [OF assms(1)] by blast
  from SafeSub_run [OF b(2) assms(2)] obtain can where
    can: "Coins_SafeSub vd (PeriodCanSpend b) fee = Inr (can, \<exists>d. camt (PeriodCanSpend b) d < camt fee d)"
    and can': "(\<forall>d. camt fee d \<le> camt (PeriodCanSpend b) d) \<longrightarrow> (\<forall>d. camt can d = camt (PeriodCanSpend b) d - camt fee d)" by blast
  from assms(3) b(1) can have "\<forall>d. camt fee d \<le> camt (PeriodCanSpend b) d" "PeriodCanSpend a' = can" "PeriodReset a' = PeriodReset b"
    by (auto simp: periodic_Accept_def Let_def rbind_Inr_iff not_less split: option.splits if_splits)
  with b can' show ?thesis by auto
qed

text \<open>A series of payments with one allowance, until it is removed.\<close>

fun pays :: "(string \<Rightarrow> bool) \<Rightarrow> PeriodicAllowance \<Rightarrow> (int \<times> Coin list) list \<Rightarrow> bool" where
  "pays vd a [] = True"
| "pays vd a ((time, fee) # ps) = (case periodic_Accept vd time a fee of
     Inr (remove, Inr a') \<Rightarrow> if remove then ps = [] else pays vd a' ps | _ \<Rightarrow> False)"

definition paid_sum :: "(int \<times> Coin list) list \<Rightarrow> string \<Rightarrow> int" where
  "paid_sum ps d = (\<Sum>p\<leftarrow>ps. camt (snd p) d)"

lemma pays_Cons:
  assumes "allow_ok vd (PeriodicFee a)" "coins_ok vd fee" "pays vd a ((time, fee) # ps)"
  shows "\<exists>a' b. tryResetPeriod vd a time = Inr b \<and> PeriodReset a' = PeriodReset b \<and>
    (\<forall>d. camt fee d \<le> period_room a time d \<and> camt (PeriodCanSpend a') d = period_room a time d - camt fee d) \<and>
    (ps \<noteq> [] \<longrightarrow> allow_ok vd (PeriodicFee a') \<and> pays vd a' ps)"
proof -
  obtain remove a' where a': "periodic_Accept vd time a fee = Inr (remove, Inr a')" "if remove then ps = [] else pays vd a' ps"
    using assms(3) by (auto split: sum.splits)
  from periodic_Accept_room [OF assms(1,2) a'(1)] periodic_Accept_success [OF assms(1,2) a'(1)] a'(2)
  show ?thesis by (cases remove) (auto simp: charged_def)
qed

lemma pays_in_period:
  assumes "allow_ok vd (PeriodicFee a)" "pays vd a ps" "\<forall>p \<in> set ps. coins_ok vd (snd p) \<and> fst p < PeriodReset a"
  shows "paid_sum ps d \<le> camt (PeriodCanSpend a) d"
  using assms
proof (induction ps arbitrary: a)
  case Nil
  then show ?case using coins_ok_nonneg [of vd "PeriodCanSpend a" d] by (simp add: paid_sum_def)
next
  case (Cons p ps)
  obtain time fee where p: "p = (time, fee)" by (cases p)
  from pays_Cons [of vd a fee time ps] Cons.prems p obtain a' b where
    a': "tryResetPeriod vd a time = Inr b" "PeriodReset a' = PeriodReset b"
    "camt fee d \<le> period_room a time d" "camt (PeriodCanSpend a') d = period_room a time d - camt fee d"
    "ps \<noteq> [] \<longrightarrow> allow_ok vd (PeriodicFee a') \<and> pays vd a' ps" by auto
  have "PeriodReset a' = PeriodReset a" "period_room a time d = camt (PeriodCanSpend a) d"
    using Cons.prems(3) a'(1,2) p by (auto simp: tryResetPeriod_def period_room_def)
  with Cons.IH [of a'] Cons.prems(3) a' p show ?case by (cases "ps = []") (auto simp: paid_sum_def)
qed

lemma pays_new_period:
  assumes "allow_ok vd (PeriodicFee a)" "pays vd a ((time, fee) # ps)" "coins_ok vd fee"
    and "tryResetPeriod vd a time = Inr b" "\<forall>p \<in> set ps. coins_ok vd (snd p) \<and> fst p < PeriodReset b"
  shows "paid_sum ((time, fee) # ps) d \<le> period_room a time d"
proof -
  from pays_Cons [OF assms(1,3,2)] assms(4) obtain a' where
    a': "PeriodReset a' = PeriodReset b" "camt fee d \<le> period_room a time d"
    "camt (PeriodCanSpend a') d = period_room a time d - camt fee d"
    "ps \<noteq> [] \<longrightarrow> allow_ok vd (PeriodicFee a') \<and> pays vd a' ps" by auto
  with pays_in_period [of vd a' ps d] assms(5) show ?thesis by (cases "ps = []") (auto simp: paid_sum_def)
qed

section \<open>Properties\<close>

text \<open>
  C16: A grant never pays more than its spend limit.  Whatever fees are paid with a grant that has a limit, at whatever
  block times and with whatever happens on the rest of the chain, as long as the pair is not granted anew the
  fees paid add up to at most the limit, in every denomination; the next payment is only accepted within what
  is left, not after the expiration, within the current period and for allowed messages; and a grant whose
  limit is used up is gone.
\<close>

theorem feegrant_spending_bounded:
  assumes "feegrant_ok e s" "map_of (FeeAllowance s) (grantee, granter) = Some grant"
    and "spend_limit (Allowance grant) = Some l" "fee_run e granter grantee s paid t"
  shows "(\<forall>d. paid d \<le> camt l d) \<and>
    ((\<forall>d. paid d = camt l d) \<longrightarrow> map_of (FeeAllowance t) (grantee, granter) = None) \<and>
    (\<forall>fee msgs t'. coins_ok (FValidDenom e) fee \<and> UseGrantedFees e granter grantee fee msgs t = (Inr (), t') \<longrightarrow>
      (\<exists>now. map_of (FeeAllowance t) (grantee, granter) = Some now \<and> ExpiresAt (Allowance now) = ExpiresAt (Allowance grant) \<and>
        unexpired (Allowance now) (FTime t) \<and> within_period (Allowance now) (FTime t) fee \<and> msgs_allowed (Allowance now) msgs) \<and>
      (\<forall>d. paid d + camt fee d \<le> camt l d))"
proof -
  have ok: "allow_ok (FValidDenom e) (Allowance grant)" "om_ok (FeeAllowance s)" using assms(1,2) by (auto simp: feegrant_ok_def)
  note l = allow_ok_limit [OF ok(1) assms(3)]
  have "budget_ok (FValidDenom e) granter grantee l (ExpiresAt (Allowance grant)) (\<lambda>_. 0) s"
    using ok assms(2,3) l coins_ok_nonneg [of "FValidDenom e" l] by (simp add: budget_ok_def)
  note b = fee_run_budget [OF assms(4) this]
  have gone: "map_of (FeeAllowance t) (grantee, granter) = None" if "\<forall>d. paid d = camt l d"
  proof (cases "map_of (FeeAllowance t) (grantee, granter)")
    case (Some now)
    with b obtain left where left: "allow_ok (FValidDenom e) (Allowance now)" "spend_limit (Allowance now) = Some left"
      "\<forall>d. paid d + camt left d = camt l d" by (auto simp: budget_ok_def)
    note ne = allow_ok_limit [OF left(1,2)]
    have "camt left d = 0" for d using left(3) that by simp
    then have "left = []" using coins_ok_ext [of "FValidDenom e" left "[]"] ne by (simp add: coins_ok_iff cps_def)
    with ne show ?thesis by blast
  qed
  have pay: "(\<exists>now. map_of (FeeAllowance t) (grantee, granter) = Some now \<and> ExpiresAt (Allowance now) = ExpiresAt (Allowance grant) \<and>
        unexpired (Allowance now) (FTime t) \<and> within_period (Allowance now) (FTime t) fee \<and> msgs_allowed (Allowance now) msgs) \<and>
      (\<forall>d. paid d + camt fee d \<le> camt l d)"
    if use: "coins_ok (FValidDenom e) fee" "UseGrantedFees e granter grantee fee msgs t = (Inr (), t')" for fee msgs t'
  proof -
    obtain now where now: "map_of (FeeAllowance t) (grantee, granter) = Some now"
      using use(2) UseGrantedFees_none [of t grantee granter e fee msgs] by (cases "map_of (FeeAllowance t) (grantee, granter)") auto
    with b have n: "allow_ok (FValidDenom e) (Allowance now)" "ExpiresAt (Allowance now) = ExpiresAt (Allowance grant)"
      by (auto simp: budget_ok_def)
    from UseGrantedFees_success [OF now n(1) use] fee_run_budget [OF fee_run.used [OF assms(4) use] \<open>budget_ok _ _ _ _ _ (\<lambda>_. 0) s\<close>]
    show ?thesis using now n(2) by (auto simp: budget_ok_def)
  qed
  from b gone pay show ?thesis by (auto simp: budget_ok_def)
qed

definition example_feegrant_env :: "infiniteGasMeter feegrant_env" where
  "example_feegrant_env = \<lparr> FMeter = infinite_ops, FValidDenom = (\<lambda>_. True), FStringToBytes = Inr, FBytesToString = Inr, FEqualFold = (=) \<rparr>"

definition no_grants :: "infiniteGasMeter feegrant_state" where
  "no_grants = \<lparr> FeeAllowance = [], FeeAllowanceQueue = [], FTime = 5, FGas = NewInfiniteGasMeter \<rparr>"

definition example_allowance :: "int \<Rightarrow> allowance" where
  "example_allowance n = AllowedMsg (BasicFee \<lparr> SpendLimit = Some [\<lparr> Denom = ''stake'', Amount = n \<rparr>], Expiration = Some 9 \<rparr>)
     (BasicFee \<lparr> SpendLimit = Some [\<lparr> Denom = ''stake'', Amount = n \<rparr>], Expiration = Some 9 \<rparr>) [''send'']"

definition example_grants :: "int \<Rightarrow> infiniteGasMeter feegrant_state" where
  "example_grants n = no_grants\<lparr>FeeAllowance := [((''bob'', ''alice''), \<lparr> Granter = ''alice'', Grantee = ''bob'', Allowance = example_allowance n \<rparr>)],
     FeeAllowanceQueue := [((9, ''bob'', ''alice''), True)]\<rparr>"

theorem feegrant_spending_bounded_witness:
  "\<exists>t. fee_run example_feegrant_env ''alice'' ''bob'' (example_grants 10) (\<lambda>d. 0 + camt [\<lparr> Denom = ''stake'', Amount = 7 \<rparr>] d) t \<and>
    0 + camt [\<lparr> Denom = ''stake'', Amount = 7 \<rparr>] ''stake'' \<le> 10"
proof -
  let ?fee = "[\<lparr> Denom = ''stake'', Amount = 7 \<rparr>]"
  let ?run = "UseGrantedFees example_feegrant_env ''alice'' ''bob'' ?fee [''send''] (example_grants 10)"
  have "fst ?run = Inr ()" by code_simp
  then have use: "?run = (Inr (), snd ?run)" by (metis prod.collapse)
  have i: "int256 7" "int256 10" by code_simp+
  have fee: "coins_ok (FValidDenom example_feegrant_env) ?fee" using i by (simp add: example_feegrant_env_def coins_ok_iff)
  have ok: "feegrant_ok example_feegrant_env (example_grants 10)"
    using i by (auto simp: feegrant_ok_def example_grants_def no_grants_def expiring_def example_allowance_def basic_ok_def
        example_feegrant_env_def coins_ok_iff split: if_splits)
  note run = fee_run.used [OF fee_run.start fee use]
  show ?thesis
    using feegrant_spending_bounded [OF ok _ _ run, where grant = "\<lparr> Granter = ''alice'', Grantee = ''bob'', Allowance = example_allowance 10 \<rparr>"
        and l = "[\<lparr> Denom = ''stake'', Amount = 10 \<rparr>]"] run
    by (auto simp: example_grants_def example_allowance_def)
qed

text \<open>
  C17: The queue of expirations is exact.  Whatever sequence of grants, revocations, payments, prunings, block ends and
  new blocks is run from a consistent store, every grant that expires has its entry in the queue and every entry belongs to
  such a grant.  So pruning always succeeds and deletes only grants whose expiration has been reached: with a positive
  limit as many of them as the limit allows, those that expired first, and all of them without a limit.  Every other
  grant is left as it is.
\<close>

theorem feegrant_queue_exact:
  assumes "feegrant_ok e s" "(feegrant_step e)\<^sup>*\<^sup>* s t"
  defines "E \<equiv> {k \<in> expiring t. fst k \<le> FTime t}"
  shows "feegrant_ok e t \<and> fst ` set (FeeAllowanceQueue t) = expiring t \<and>
    (\<exists>t' R. RemoveExpiredAllowances limit t = (Inr (), t') \<and> feegrant_ok e t' \<and>
      R \<subseteq> E \<and> card R = (if 0 < limit then min (nat limit) (card E) else card E) \<and> (\<forall>k \<in> R. \<forall>k' \<in> E - R. fst k \<le> fst k') \<and>
      (\<forall>k. map_of (FeeAllowance t') k = (if k \<in> snd ` R then None else map_of (FeeAllowance t) k)))"
proof -
  have ok: "feegrant_ok e t" by (rule feegrant_reachable_ok [OF assms(2,1)])
  let ?ks = "if limit > 0 then take (nat limit) (expired_keys t) else expired_keys t"
  obtain t' where t': "RemoveExpiredAllowances limit t = (Inr (), t')" "FeeAllowance t' = om_dels (map snd ?ks) (FeeAllowance t)"
    by (simp add: prune_run Let_def)
  have om: "om_ok (FeeAllowance t)" using ok by (simp add: feegrant_ok_def)
  have E: "E = set (expired_keys t)" unfolding E_def by (rule expired_keys_set [OF ok, symmetric])
  note sorted = expired_keys_sorted [OF ok]
  then have "distinct (expired_keys t)" by (simp add: strict_sorted_iff)
  then have "card (set ?ks) = (if 0 < limit then min (nat limit) (card E) else card E)"
    by (simp add: E distinct_card min.commute)
  moreover have "\<forall>k \<in> set ?ks. \<forall>k' \<in> E - set ?ks. fst k \<le> fst k'"
  proof (cases "0 < limit")
    case True
    then have "k < k'" if "k \<in> set ?ks" "k' \<in> E - set ?ks" for k k'
      using sorted_take_before [OF sorted, of "nat limit"] that unfolding E by simp
    moreover have "fst k \<le> fst k'" if "k < k'" for k k' :: "int \<times> string \<times> string" using that by (auto simp: less_prod_def')
    ultimately show ?thesis by blast
  qed (simp add: E)
  moreover have "set ?ks \<subseteq> E" by (auto simp: E dest: in_set_takeD)
  moreover have "map_of (FeeAllowance t') k = (if k \<in> snd ` set ?ks then None else map_of (FeeAllowance t) k)" for k
    by (simp add: t'(2) map_of_om_dels [OF om])
  ultimately have "\<exists>t' R. RemoveExpiredAllowances limit t = (Inr (), t') \<and> feegrant_ok e t' \<and>
      R \<subseteq> E \<and> card R = (if 0 < limit then min (nat limit) (card E) else card E) \<and> (\<forall>k \<in> R. \<forall>k' \<in> E - R. fst k \<le> fst k') \<and>
      (\<forall>k. map_of (FeeAllowance t') k = (if k \<in> snd ` R then None else map_of (FeeAllowance t) k))"
    using t'(1) prune_ok [OF ok t'(1)] by (intro exI [of _ t'] exI [of _ "set ?ks"]) simp
  with ok show ?thesis by (simp add: feegrant_ok_def)
qed

text \<open>Two grants of alice, to bob until time 9 and to carol until time 12, both expired at time 20.\<close>

definition later_allowance :: allowance where
  "later_allowance = BasicFee \<lparr> SpendLimit = None, Expiration = Some 12 \<rparr>"

definition two_grants :: "infiniteGasMeter feegrant_state" where
  "two_grants = (let e = example_feegrant_env;
     s = snd (msg_GrantAllowance e ''alice'' ''bob'' (example_allowance 10) no_grants) in
     (snd (msg_GrantAllowance e ''alice'' ''carol'' later_allowance s))\<lparr>FTime := 20, FGas := NewInfiniteGasMeter\<rparr>)"

lemma two_grants_reachable: "(feegrant_step example_feegrant_env)\<^sup>*\<^sup>* no_grants two_grants"
proof -
  let ?e = example_feegrant_env and ?a = "example_allowance 10"
  let ?s = "snd (msg_GrantAllowance ?e ''alice'' ''bob'' ?a no_grants)"
  let ?t = "snd (msg_GrantAllowance ?e ''alice'' ''carol'' later_allowance ?s)"
  have typed: "allow_typed ?a" "allow_typed later_allowance" by code_simp+
  have "fst (msg_GrantAllowance ?e ''alice'' ''bob'' ?a no_grants) = Inr ()"
    "fst (msg_GrantAllowance ?e ''alice'' ''carol'' later_allowance ?s) = Inr ()"
    by code_simp+
  then have "msg_GrantAllowance ?e ''alice'' ''bob'' ?a no_grants = (Inr (), ?s)"
    "msg_GrantAllowance ?e ''alice'' ''carol'' later_allowance ?s = (Inr (), ?t)"
    by (simp_all add: prod_eq_iff)
  then have "feegrant_step ?e no_grants ?s" "feegrant_step ?e ?s ?t"
    using feegrant_step.granted [OF typed(1)] feegrant_step.granted [OF typed(2)] by blast+
  moreover have "feegrant_step ?e ?t two_grants" unfolding two_grants_def Let_def by (rule feegrant_step.new_transaction)
  ultimately show ?thesis by (meson converse_rtranclp_into_rtranclp rtranclp.rtrancl_refl)
qed

theorem feegrant_queue_exact_witness:
  "\<exists>t'. RemoveExpiredAllowances 1 two_grants = (Inr (), t') \<and> map_of (FeeAllowance t') (''bob'', ''alice'') = None \<and>
    map_of (FeeAllowance t') (''carol'', ''alice'') = map_of (FeeAllowance two_grants) (''carol'', ''alice'')"
proof -
  let ?b = "(9 :: int, ''bob'', ''alice'')" and ?c = "(12 :: int, ''carol'', ''alice'')"
  have t: "map fst (FeeAllowanceQueue two_grants) = [?b, ?c]" "FTime two_grants = 20" by code_simp+
  have ok: "feegrant_ok example_feegrant_env no_grants" by (simp add: feegrant_ok_def no_grants_def expiring_def)
  note q = feegrant_queue_exact [OF ok two_grants_reachable, of 1]
  have "fst ` set (FeeAllowanceQueue two_grants) = {?b, ?c}" using arg_cong [OF t(1), of set] by simp
  with q have exp: "expiring two_grants = {?b, ?c}" by auto
  then have E: "{k \<in> expiring two_grants. fst k \<le> FTime two_grants} = {?b, ?c}" using t(2) by auto
  from q obtain t' R where t': "RemoveExpiredAllowances 1 two_grants = (Inr (), t')" "R \<subseteq> {?b, ?c}" "card R = 1"
    "\<forall>k \<in> R. \<forall>k' \<in> {?b, ?c} - R. fst k \<le> fst k'"
    "\<forall>k. map_of (FeeAllowance t') k = (if k \<in> snd ` R then None else map_of (FeeAllowance two_grants) k)"
    unfolding E by auto
  from t'(3) obtain k where R: "R = {k}" by (auto simp: card_1_singleton_iff)
  have "k = ?b"
  proof (rule ccontr)
    assume "k \<noteq> ?b"
    then have "?b \<in> {?b, ?c} - R" "?c \<in> R" using t'(2) R by auto
    with t'(4) have "fst ?c \<le> fst ?b" by blast
    then show False by simp
  qed
  with t'(1,5) R show ?thesis by auto
qed

text \<open>
  C18: A periodic allowance pays at most its period limit per period, in one denomination or without an overall limit.
  From the payment that opens a period to the next reset the fees add up to at most \<open>PeriodSpendLimit\<close>.
  With two denominations this fails: when the overall limit is below the period limit in one of them, the reset
  makes the whole overall limit spendable, so for any two denominations there is an allowance that passes
  \<open>ValidateBasic\<close> and pays fifty times its period limit at once.
\<close>

theorem periodic_limit:
  assumes "allow_ok vd (PeriodicFee a)" "PeriodReset a \<le> time" "tryResetPeriod vd a time = Inr b"
    and "pays vd a ((time, fee) # ps)" "coins_ok vd fee" "\<forall>p \<in> set ps. coins_ok vd (snd p) \<and> fst p < PeriodReset b"
  shows "(one_denom a \<or> SpendLimit (PBasic a) = None \<longrightarrow> (\<forall>d. paid_sum ((time, fee) # ps) d \<le> camt (PeriodSpendLimit a) d)) \<and>
    (\<forall>d1 d2. vd d1 \<and> vd d2 \<and> d1 < d2 \<longrightarrow>
      (\<exists>a fee remove a'. periodic_ValidateBasic vd a = Inr () \<and> periodic_Accept vd 0 a fee = Inr (remove, Inr a') \<and>
        camt (PeriodSpendLimit a) d2 = 1 \<and> camt fee d2 = 50))"
proof (intro conjI allI impI, goal_cases)
  case (1 d)
  have "paid_sum ((time, fee) # ps) d \<le> period_room a time d" by (rule pays_new_period [OF assms(1,4,5,3,6)])
  also have "\<dots> \<le> camt (PeriodSpendLimit a) d" by (rule one_denom_room [OF assms(2) 1])
  finally show ?case .
next
  case (2 d1 d2)
  let ?l = "[\<lparr> Denom = d1, Amount = 5 \<rparr>, \<lparr> Denom = d2, Amount = 100 \<rparr>]"
  let ?p = "[\<lparr> Denom = d1, Amount = 10 \<rparr>, \<lparr> Denom = d2, Amount = 1 \<rparr>]"
  let ?a = "\<lparr> PBasic = \<lparr> SpendLimit = Some ?l, Expiration = None \<rparr>, Period = 10, PeriodSpendLimit = ?p,
    PeriodCanSpend = ?p, PeriodReset = 0 \<rparr>"
  let ?fee = "[\<lparr> Denom = d2, Amount = 50 \<rparr>]"
  have i: "int256 5" "int256 100" "int256 10" "int256 1" "int256 50" by code_simp+
  have ok: "coins_ok vd ?l" "coins_ok vd ?p" "coins_ok vd ?fee" using 2 i by (auto simp: coins_ok_iff)
  have v: "periodic_ValidateBasic vd ?a = Inr ()"
    using ok 2 DenomsSubsetOf_iff [OF ok(2,1)]
    by (auto simp: periodic_ValidateBasic_def basic_ValidateBasic_def coins_ok_def Coins_IsAllPositive_def Coins_IsAnyNegative_def
        Coin_IsNegative_def Coin_IsPositive_def)
  have "\<exists>remove a'. periodic_Accept vd 0 ?a ?fee = Inr (remove, Inr a')"
    using ok 2 by (intro periodic_Accept_accepts) (auto simp: basic_ok_def period_room_def)
  with v show ?case by (intro exI [of _ ?a] exI [of _ ?fee]) (use 2 in auto)
qed

theorem periodic_limit_witness:
  "\<exists>a. pays (\<lambda>_. True) a [(20, [\<lparr> Denom = ''stake'', Amount = 3 \<rparr>]), (24, [\<lparr> Denom = ''stake'', Amount = 4 \<rparr>])] \<and>
    camt (PeriodSpendLimit a) ''stake'' = 8 \<and>
    paid_sum [(20, [\<lparr> Denom = ''stake'', Amount = 3 \<rparr>]), (24, [\<lparr> Denom = ''stake'', Amount = 4 \<rparr>])] ''stake'' \<le> 8"
proof -
  let ?c = "\<lambda>n. [\<lparr> Denom = ''stake'', Amount = n \<rparr>]"
  let ?a = "\<lparr> PBasic = \<lparr> SpendLimit = Some (?c 100), Expiration = None \<rparr>, Period = 10, PeriodSpendLimit = ?c 8,
    PeriodCanSpend = ?c 1, PeriodReset = 15 \<rparr>"
  have i: "int256 100" "int256 8" "int256 1" "int256 3" "int256 4" by code_simp+
  have ok: "allow_ok (\<lambda>_. True) (PeriodicFee ?a)" "coins_ok (\<lambda>_. True) (?c 3)" "coins_ok (\<lambda>_. True) (?c 4)"
    using i by (simp_all add: basic_ok_def coins_ok_iff)
  have reset: "tryResetPeriod (\<lambda>_. True) ?a 20 = Inr (?a\<lparr>PeriodCanSpend := ?c 8, PeriodReset := 25\<rparr>)" by code_simp
  have pays: "pays (\<lambda>_. True) ?a [(20, ?c 3), (24, ?c 4)]" by code_simp
  have one: "one_denom ?a" by (auto simp: one_denom_def coins_of_def intro: exI [of _ "''stake''"])
  have "\<forall>d. paid_sum [(20, ?c 3), (24, ?c 4)] d \<le> camt (PeriodSpendLimit ?a) d"
    using periodic_limit [OF ok(1) _ reset pays ok(2)] ok(3) one by (auto simp del: pays.simps)
  from spec [OF this, of "''stake''"] pays show ?thesis by (intro exI [of _ ?a]) (simp del: pays.simps)
qed

end
