(* ===== verification/StakingTypes.thy ===== *)
theory StakingTypes
  imports LegacyDec
begin

text \<open>
  The types of \<open>x/staking\<close> with their pure operations (\<open>src/x/staking/types/validator.go\<close>, \<open>delegation.go\<close>,
  \<open>commission.go\<close>, \<open>src/types/staking.go\<close>): validators with their pool of tokens and the shares of their delegators,
  delegations, unbonding delegations, redelegations and commissions.

  A validator keeps the address of its consensus key in place of the key.  Whether a string is a request URI, which
  the source asks of \<open>net/url\<close>, is a parameter.  Times are nanoseconds on an unbounded axis.
\<close>

section \<open>Data\<close>

datatype BondStatus = Unspecified | Unbonded | Unbonding | Bonded

record Commission =
  Rate :: dec
  MaxRate :: dec
  MaxChangeRate :: dec
  UpdateTime :: int

record ValidatorMetadata =
  ProfilePicUri :: string
  SocialHandleUris :: "string list"

record Description =
  Moniker :: string
  Identity :: string
  Website :: string
  SecurityContact :: string
  Details :: string
  DescMetadata :: "ValidatorMetadata option"

record Validator =
  OperatorAddress :: string
  ConsAddr :: string
  Jailed :: bool
  Status :: BondStatus
  Tokens :: int
  DelegatorShares :: dec
  ValDescription :: Description
  UnbondingHeight :: int
  UnbondingTime :: int
  ValCommission :: Commission
  MinSelfDelegation :: int

record Delegation =
  DelegatorAddress :: string
  ValidatorAddress :: string
  Shares :: dec

record UnbondingDelegationEntry =
  CreationHeight :: int
  CompletionTime :: int
  InitialBalance :: int
  Balance :: int

record UnbondingDelegation =
  UDelegatorAddress :: string
  UValidatorAddress :: string
  UEntries :: "UnbondingDelegationEntry list"

record RedelegationEntry =
  RCreationHeight :: int
  RCompletionTime :: int
  RInitialBalance :: int
  SharesDst :: dec
  UnbondingOnHoldRefCount :: int

record Redelegation =
  RDelegatorAddress :: string
  ValidatorSrcAddress :: string
  ValidatorDstAddress :: string
  REntries :: "RedelegationEntry list"

definition ErrInsufficientShares :: fault where "ErrInsufficientShares = Err ''insufficient delegation shares''"

section \<open>Power\<close>

definition DefaultPowerReduction :: int where
  "DefaultPowerReduction = 1000000"

definition TokensToConsensusPower :: "int \<Rightarrow> int \<Rightarrow> int res" where
  "TokensToConsensusPower tokens powerReduction = rbind (Int_Quo tokens powerReduction) Int_Int64"

definition TokensFromConsensusPower :: "int \<Rightarrow> int \<Rightarrow> int res" where
  "TokensFromConsensusPower pow powerReduction = Int_Mul pow powerReduction"

section \<open>Validators\<close>

definition IsBonded :: "Validator \<Rightarrow> bool" where "IsBonded v \<longleftrightarrow> Status v = Bonded"

definition IsUnbonded :: "Validator \<Rightarrow> bool" where "IsUnbonded v \<longleftrightarrow> Status v = Unbonded"

definition IsUnbonding :: "Validator \<Rightarrow> bool" where "IsUnbonding v \<longleftrightarrow> Status v = Unbonding"

definition InvalidExRate :: "Validator \<Rightarrow> bool" where
  "InvalidExRate v \<longleftrightarrow> Tokens v = 0 \<and> DelegatorShares v > 0"

definition TokensFromShares :: "Validator \<Rightarrow> dec \<Rightarrow> dec res" where
  "TokensFromShares v shares = rbind (Dec_MulInt shares (Tokens v)) (\<lambda>x. Dec_Quo x (DelegatorShares v))"

definition TokensFromSharesTruncated :: "Validator \<Rightarrow> dec \<Rightarrow> dec res" where
  "TokensFromSharesTruncated v shares = rbind (Dec_MulInt shares (Tokens v)) (\<lambda>x. Dec_QuoTruncate x (DelegatorShares v))"

definition TokensFromSharesRoundUp :: "Validator \<Rightarrow> dec \<Rightarrow> dec res" where
  "TokensFromSharesRoundUp v shares = rbind (Dec_MulInt shares (Tokens v)) (\<lambda>x. Dec_QuoRoundUp x (DelegatorShares v))"

definition SharesFromTokens :: "Validator \<Rightarrow> int \<Rightarrow> dec res" where
  "SharesFromTokens v n =
     (if Tokens v = 0 then Inl ErrInsufficientShares
      else rbind (Dec_MulInt (DelegatorShares v) n) (\<lambda>x. Dec_QuoInt x (Tokens v)))"

definition SharesFromTokensTruncated :: "Validator \<Rightarrow> int \<Rightarrow> dec res" where
  "SharesFromTokensTruncated v n =
     (if Tokens v = 0 then Inl ErrInsufficientShares
      else rbind (Dec_MulInt (DelegatorShares v) n) (\<lambda>x. Dec_QuoTruncate x (LegacyNewDecFromInt (Tokens v))))"

definition BondedTokens :: "Validator \<Rightarrow> int" where
  "BondedTokens v = (if IsBonded v then Tokens v else 0)"

definition PotentialConsensusPower :: "Validator \<Rightarrow> int \<Rightarrow> int res" where
  "PotentialConsensusPower v r = TokensToConsensusPower (Tokens v) r"

definition ConsensusPower :: "Validator \<Rightarrow> int \<Rightarrow> int res" where
  "ConsensusPower v r = (if IsBonded v then PotentialConsensusPower v r else Inr 0)"

definition UpdateStatus :: "Validator \<Rightarrow> BondStatus \<Rightarrow> Validator" where
  "UpdateStatus v newStatus = v\<lparr>Status := newStatus\<rparr>"

definition AddTokensFromDel :: "Validator \<Rightarrow> int \<Rightarrow> (Validator \<times> dec) res" where
  "AddTokensFromDel v amount =
     rbind (if DelegatorShares v = 0 then Inr (LegacyNewDecFromInt amount) else must (SharesFromTokens v amount)) (\<lambda>issuedShares.
     rbind (Int_Add (Tokens v) amount) (\<lambda>tokens.
     rbind (Dec_Add (DelegatorShares v) issuedShares) (\<lambda>shares.
       Inr (v\<lparr>Tokens := tokens, DelegatorShares := shares\<rparr>, issuedShares))))"

definition RemoveTokens :: "Validator \<Rightarrow> int \<Rightarrow> Validator res" where
  "RemoveTokens v tokens =
     (if tokens < 0 then Inl (Panic ''should not happen: trying to remove negative tokens'')
      else if Tokens v < tokens then Inl (Panic ''should not happen: trying to remove more tokens'')
      else rbind (Int_Sub (Tokens v) tokens) (\<lambda>rest. Inr (v\<lparr>Tokens := rest\<rparr>)))"

definition RemoveDelShares :: "Validator \<Rightarrow> dec \<Rightarrow> (Validator \<times> int) res" where
  "RemoveDelShares v delShares =
     rbind (Dec_Sub (DelegatorShares v) delShares) (\<lambda>remainingShares.
     rbind (if remainingShares = 0 then Inr (Tokens v, 0)
         else rbind (rbind (TokensFromShares v delShares) Dec_TruncateInt) (\<lambda>issuedTokens.
           rbind (Int_Sub (Tokens v) issuedTokens) (\<lambda>tokens.
             if tokens < 0 then Inl (Panic ''attempting to remove more tokens than available in validator'')
             else Inr (issuedTokens, tokens)))) (\<lambda>(issuedTokens, tokens).
       Inr (v\<lparr>Tokens := tokens, DelegatorShares := remainingShares\<rparr>, issuedTokens)))"

section \<open>Commissions\<close>

definition CommissionRates_Validate :: "Commission \<Rightarrow> unit res" where
  "CommissionRates_Validate cr =
     (if MaxRate cr < 0 then Inl (Err ''commission must be positive'')
      else if MaxRate cr > LegacyOneDec then Inl (Err ''commission cannot be more than 100%'')
      else if Rate cr < 0 then Inl (Err ''commission must be positive'')
      else if Rate cr > MaxRate cr then Inl (Err ''commission cannot be more than the max rate'')
      else if MaxChangeRate cr < 0 then Inl (Err ''commission change rate must be positive'')
      else if MaxChangeRate cr > MaxRate cr then Inl (Err ''commission change rate cannot be more than the max rate'')
      else Inr ())"

text \<open>A difference of times of less than 24 hours, in nanoseconds.\<close>

definition ValidateNewRate :: "Commission \<Rightarrow> dec \<Rightarrow> int \<Rightarrow> unit res" where
  "ValidateNewRate c newRate blockTime =
     (if blockTime - UpdateTime c < 24 * 3600 * 10 ^ 9 then Inl (Err ''commission cannot be changed more than once in 24h'')
      else if newRate < 0 then Inl (Err ''commission must be positive'')
      else if newRate > MaxRate c then Inl (Err ''commission cannot be more than the max rate'')
      else rbind (Dec_Sub newRate (Rate c)) (\<lambda>change.
        if change > MaxChangeRate c then Inl (Err ''commission cannot be changed more than max change rate'') else Inr ()))"

definition SetInitialCommission :: "Validator \<Rightarrow> Commission \<Rightarrow> Validator res" where
  "SetInitialCommission v commission = rbind (CommissionRates_Validate commission) (\<lambda>_. Inr (v\<lparr>ValCommission := commission\<rparr>))"

section \<open>Descriptions\<close>

definition DoNotModifyDesc :: string where
  "DoNotModifyDesc = ''[do-not-modify]''"

definition EnsureLength :: "Description \<Rightarrow> Description res" where
  "EnsureLength d =
     (if length (Moniker d) > 70 then Inl (Err ''invalid moniker length'')
      else if length (Identity d) > 3000 then Inl (Err ''invalid identity length'')
      else if length (Website d) > 140 then Inl (Err ''invalid website length'')
      else if length (SecurityContact d) > 140 then Inl (Err ''invalid security contact length'')
      else if length (Details d) > 280 then Inl (Err ''invalid details length'')
      else Inr d)"

definition Description_IsEmpty :: "Description \<Rightarrow> bool" where
  "Description_IsEmpty d \<longleftrightarrow> Moniker d = [] \<and> Details d = [] \<and> Identity d = [] \<and> Website d = [] \<and> SecurityContact d = [] \<and>
     (case DescMetadata d of None \<Rightarrow> True | Some m \<Rightarrow> ProfilePicUri m = [] \<and> SocialHandleUris m = [])"

definition ValidatorMetadata_Validate :: "(string \<Rightarrow> bool) \<Rightarrow> ValidatorMetadata \<Rightarrow> unit res" where
  "ValidatorMetadata_Validate validURI m =
     (if ProfilePicUri m \<noteq> [] \<and> \<not> validURI (ProfilePicUri m) then Inl (Err ''invalid profile_pic_uri format'')
      else if \<not> list_all validURI (SocialHandleUris m) then Inl (Err ''invalid social_handle_uri'')
      else Inr ())"

definition Description_Validate :: "(string \<Rightarrow> bool) \<Rightarrow> Description \<Rightarrow> Description res" where
  "Description_Validate validURI d =
     rbind (case DescMetadata d of None \<Rightarrow> Inr () | Some m \<Rightarrow> ValidatorMetadata_Validate validURI m) (\<lambda>_. EnsureLength d)"

text \<open>A field to be kept is taken from the old description; the picture of a description without metadata is a nil dereference.\<close>

definition keep_field :: "string \<Rightarrow> string \<Rightarrow> string" where
  "keep_field old new = (if new = DoNotModifyDesc then old else new)"

definition keep_metadata :: "ValidatorMetadata option \<Rightarrow> ValidatorMetadata option \<Rightarrow> ValidatorMetadata option res" where
  "keep_metadata old new = (case new of
     None \<Rightarrow> Inr None
   | Some m \<Rightarrow> if ProfilePicUri m = DoNotModifyDesc
       then case old of None \<Rightarrow> Inl (Panic ''invalid memory address or nil pointer dereference'')
         | Some m' \<Rightarrow> Inr (Some (m\<lparr>ProfilePicUri := ProfilePicUri m'\<rparr>))
       else Inr (Some m))"

definition UpdateDescription :: "(string \<Rightarrow> bool) \<Rightarrow> Description \<Rightarrow> Description \<Rightarrow> Description res" where
  "UpdateDescription validURI d d2 =
     rbind (keep_metadata (DescMetadata d) (DescMetadata d2)) (\<lambda>m.
       Description_Validate validURI
         \<lparr> Moniker = keep_field (Moniker d) (Moniker d2), Identity = keep_field (Identity d) (Identity d2),
           Website = keep_field (Website d) (Website d2), SecurityContact = keep_field (SecurityContact d) (SecurityContact d2),
           Details = keep_field (Details d) (Details d2), DescMetadata = m \<rparr>)"

section \<open>Unbonding delegations and redelegations\<close>

definition NewUnbondingDelegationEntry :: "int \<Rightarrow> int \<Rightarrow> int \<Rightarrow> UnbondingDelegationEntry" where
  "NewUnbondingDelegationEntry creationHeight completionTime balance =
     \<lparr> CreationHeight = creationHeight, CompletionTime = completionTime, InitialBalance = balance, Balance = balance \<rparr>"

definition IsMature :: "UnbondingDelegationEntry \<Rightarrow> int \<Rightarrow> bool" where
  "IsMature entry currentTime \<longleftrightarrow> \<not> CompletionTime entry > currentTime"

fun find_entry :: "int \<Rightarrow> int \<Rightarrow> UnbondingDelegationEntry list \<Rightarrow> nat option" where
  "find_entry h t [] = None"
| "find_entry h t (x # xs) =
     (if CreationHeight x = h \<and> CompletionTime x = t then Some 0 else map_option Suc (find_entry h t xs))"

definition ubd_AddEntry :: "UnbondingDelegation \<Rightarrow> int \<Rightarrow> int \<Rightarrow> int \<Rightarrow> UnbondingDelegation res" where
  "ubd_AddEntry ubd creationHeight minTime balance =
     (case find_entry creationHeight minTime (UEntries ubd) of
        Some i \<Rightarrow> let entry = UEntries ubd ! i in
          rbind (Int_Add (Balance entry) balance) (\<lambda>b.
          rbind (Int_Add (InitialBalance entry) balance) (\<lambda>ib.
            Inr (ubd\<lparr>UEntries := (UEntries ubd)[i := entry\<lparr>Balance := b, InitialBalance := ib\<rparr>]\<rparr>)))
      | None \<Rightarrow> Inr (ubd\<lparr>UEntries := UEntries ubd @ [NewUnbondingDelegationEntry creationHeight minTime balance]\<rparr>))"

definition remove_at :: "nat \<Rightarrow> 'a list \<Rightarrow> 'a list" where
  "remove_at i xs = take i xs @ drop (Suc i) xs"

definition ubd_RemoveEntry :: "UnbondingDelegation \<Rightarrow> nat \<Rightarrow> UnbondingDelegation" where
  "ubd_RemoveEntry ubd i = ubd\<lparr>UEntries := remove_at i (UEntries ubd)\<rparr>"

definition NewRedelegationEntry :: "int \<Rightarrow> int \<Rightarrow> int \<Rightarrow> dec \<Rightarrow> RedelegationEntry" where
  "NewRedelegationEntry creationHeight completionTime balance sharesDst =
     \<lparr> RCreationHeight = creationHeight, RCompletionTime = completionTime, RInitialBalance = balance,
       SharesDst = sharesDst, UnbondingOnHoldRefCount = 0 \<rparr>"

definition red_IsMature :: "RedelegationEntry \<Rightarrow> int \<Rightarrow> bool" where
  "red_IsMature entry currentTime \<longleftrightarrow> \<not> RCompletionTime entry > currentTime"

definition OnHold :: "RedelegationEntry \<Rightarrow> bool" where
  "OnHold entry \<longleftrightarrow> UnbondingOnHoldRefCount entry > 0"

definition red_AddEntry :: "Redelegation \<Rightarrow> int \<Rightarrow> int \<Rightarrow> int \<Rightarrow> dec \<Rightarrow> Redelegation" where
  "red_AddEntry red creationHeight minTime balance sharesDst =
     red\<lparr>REntries := REntries red @ [NewRedelegationEntry creationHeight minTime balance sharesDst]\<rparr>"

definition red_RemoveEntry :: "Redelegation \<Rightarrow> nat \<Rightarrow> Redelegation" where
  "red_RemoveEntry red i = red\<lparr>REntries := remove_at i (REntries red)\<rparr>"

section \<open>The worth of shares\<close>

text \<open>Rounding the quotient at 18 digits never crosses a whole number of tokens.\<close>

lemma quo_le_whole:
  assumes "0 \<le> a" "0 < b" "a \<le> k * b"
  shows "chopPrecisionAndRound (a * squaredPrecisionReuse sdiv b) \<le> k * precisionReuse"
proof -
  have p: "0 \<le> squaredPrecisionReuse" by (simp add: squaredPrecisionReuse_def)
  have "a * squaredPrecisionReuse \<le> b * (k * squaredPrecisionReuse)"
    using mult_right_mono [OF assms(3) p] by (simp add: ac_simps)
  then have "a * squaredPrecisionReuse div b \<le> k * squaredPrecisionReuse"
    using assms(2) zdiv_mono1 [of _ _ b] by fastforce
  then have "a * squaredPrecisionReuse sdiv b \<le> k * squaredPrecisionReuse"
    using assms(1,2) p by (simp add: sdiv_nonneg_eq)
  from chopPrecisionAndRound_mono [OF this] show ?thesis by (simp add: squaredPrecisionReuse_def flip: mult.assoc)
qed

lemma quo_nonneg: "0 \<le> a \<Longrightarrow> 0 < b \<Longrightarrow> 0 \<le> chopPrecisionAndRound (a * squaredPrecisionReuse sdiv b)"
  using chopPrecisionAndRound_mono [of 0 "a * squaredPrecisionReuse sdiv b"] chop_exact [of 0]
  by (simp add: sdiv_nonneg_eq squaredPrecisionReuse_def pos_imp_zdiv_nonneg_iff)

text \<open>What a validator pays for shares: the whole tokens of their worth.\<close>

definition worth :: "Validator \<Rightarrow> dec \<Rightarrow> int" where
  "worth v d = chopPrecisionAndRound (d * Tokens v * squaredPrecisionReuse sdiv DelegatorShares v) div precisionReuse"

lemma worth_bounds:
  assumes "0 \<le> d" "0 \<le> Tokens v" "0 < DelegatorShares v"
  shows "0 \<le> worth v d"
    and "d * Tokens v \<le> k * DelegatorShares v \<Longrightarrow> worth v d \<le> k"
    and "(worth v d * DelegatorShares v - d * Tokens v) * precisionReuse \<le> DelegatorShares v"
    and "d * Tokens v * precisionReuse < (worth v d + 1) * DelegatorShares v * precisionReuse + DelegatorShares v"
proof -
  let ?S = "DelegatorShares v" let ?P = precisionReuse let ?x = "d * Tokens v"
  let ?q = "chopPrecisionAndRound (?x * squaredPrecisionReuse sdiv ?S)"
  have x: "0 \<le> ?x" using assms by simp
  have w: "worth v d = ?q div ?P" by (simp add: worth_def)
  show "0 \<le> worth v d" using quo_nonneg [OF x assms(3)] by (simp add: w pos_imp_zdiv_nonneg_iff)
  show "worth v d \<le> k" if "?x \<le> k * ?S"
    using zdiv_mono1 [OF quo_le_whole [OF x assms(3) that], of ?P] by (simp add: w)
  have "2 * ?P * \<bar>?x * ?P - ?q * ?S\<bar> < (?P + 2) * ?S" using quo_round_error [of ?S ?x] assms(3) by simp
  moreover have "(?P + 2) * ?S \<le> 2 * ?P * ?S" using assms(3) by (intro mult_right_mono) (simp_all add: precisionReuse_def)
  ultimately have "2 * ?P * \<bar>?x * ?P - ?q * ?S\<bar> < 2 * ?P * ?S" by linarith
  then have err: "\<bar>?x * ?P - ?q * ?S\<bar> < ?S" by (simp add: mult_less_cancel_left)
  have q: "worth v d * ?P \<le> ?q" "?q < (worth v d + 1) * ?P"
    using pos_mod_bound [of ?P ?q] pos_mod_sign [of ?P ?q] by (simp_all add: w algebra_simps flip: minus_div_mult_eq_mod)
  have "worth v d * ?P * ?S \<le> ?q * ?S" using q(1) assms(3) by (intro mult_right_mono) auto
  then show "(worth v d * ?S - ?x) * ?P \<le> ?S" using err by (simp add: algebra_simps)
  have "?q * ?S \<le> (worth v d + 1) * ?P * ?S" using q(2) assms(3) by (intro mult_right_mono) auto
  then show "?x * ?P < (worth v d + 1) * ?S * ?P + ?S" using err by (simp add: algebra_simps)
qed

lemma TokensFromShares_worth:
  assumes "0 \<le> d" "0 \<le> Tokens v" "0 < DelegatorShares v"
  shows "rbind (TokensFromShares v d) Dec_TruncateInt = Inr n \<Longrightarrow> n = worth v d"
    and "d * Tokens v \<le> upperLimit \<Longrightarrow> d \<le> DelegatorShares v \<Longrightarrow> int256 (Tokens v) \<Longrightarrow>
      rbind (TokensFromShares v d) Dec_TruncateInt = Inr (worth v d)"
proof -
  let ?q = "chopPrecisionAndRound (d * Tokens v * squaredPrecisionReuse sdiv DelegatorShares v)"
  have x: "0 \<le> d * Tokens v" using assms by simp
  have q: "0 \<le> ?q" by (rule quo_nonneg [OF x assms(3)])
  have chop: "chopPrecisionAndTruncate ?q = worth v d"
    using q by (simp add: chopPrecisionAndTruncate_def worth_def sdiv_nonneg_eq)
  show "n = worth v d" if "rbind (TokensFromShares v d) Dec_TruncateInt = Inr n"
    using that chop assms(3)
    by (auto simp: TokensFromShares_def Dec_MulInt_def Dec_Quo_def Dec_TruncateInt_def res_simps legacydec sdkint split: if_splits)
  assume r: "d * Tokens v \<le> upperLimit" "d \<le> DelegatorShares v" "int256 (Tokens v)"
  have "?q \<le> Tokens v * precisionReuse"
    using assms r(2) mult_right_mono [of d "DelegatorShares v" "Tokens v"]
    by (intro quo_le_whole) (simp_all add: mult.commute)
  moreover have "\<bar>Tokens v * precisionReuse\<bar> \<le> upperLimit" using r(3) by (simp only: scaled_in_range)
  ultimately have range: "\<bar>?q\<bar> \<le> upperLimit" using q by linarith
  show "rbind (TokensFromShares v d) Dec_TruncateInt = Inr (worth v d)"
    using r(1) x range assms(3) chop Dec_TruncateInt_total [OF range]
    by (simp add: TokensFromShares_def Dec_MulInt_def Dec_Quo_def assertInValidRange_ok)
qed

lemma AddTokensFromDel_success:
  assumes "AddTokensFromDel v n = Inr (v', sh)" "0 \<le> n" "0 \<le> Tokens v" "0 \<le> DelegatorShares v"
  shows "v' = v\<lparr>Tokens := Tokens v + n, DelegatorShares := DelegatorShares v + sh\<rparr>"
    and "sh = (if DelegatorShares v = 0 then n * precisionReuse else DelegatorShares v * n div Tokens v)"
    and "0 \<le> sh" "DelegatorShares v \<noteq> 0 \<Longrightarrow> 0 < Tokens v" "int256 (Tokens v + n)"
    and "DelegatorShares v + sh \<le> upperLimit"
proof -
  have *: "v' = v\<lparr>Tokens := Tokens v + n, DelegatorShares := DelegatorShares v + sh\<rparr> \<and>
      sh = (if DelegatorShares v = 0 then n * precisionReuse else DelegatorShares v * n div Tokens v) \<and>
      (DelegatorShares v \<noteq> 0 \<longrightarrow> 0 < Tokens v) \<and> int256 (Tokens v + n) \<and> DelegatorShares v + sh \<le> upperLimit"
    using assms
    by (auto simp: AddTokensFromDel_def SharesFromTokens_def Dec_MulInt_def Dec_QuoInt_def Dec_Add_def LegacyNewDecFromInt_def
        res_simps legacydec sdkint sdiv_nonneg_eq split: if_splits)
  then show "v' = v\<lparr>Tokens := Tokens v + n, DelegatorShares := DelegatorShares v + sh\<rparr>"
    "sh = (if DelegatorShares v = 0 then n * precisionReuse else DelegatorShares v * n div Tokens v)"
    "DelegatorShares v \<noteq> 0 \<Longrightarrow> 0 < Tokens v" "int256 (Tokens v + n)" "DelegatorShares v + sh \<le> upperLimit" by auto
  then show "0 \<le> sh" using assms(2-4) by (auto simp: pos_imp_zdiv_nonneg_iff split: if_splits)
qed

lemma RemoveDelShares_success:
  assumes "RemoveDelShares v d = Inr (v', n)" "0 \<le> d" "d \<le> DelegatorShares v" "0 \<le> Tokens v"
  shows "v' = v\<lparr>Tokens := Tokens v - n, DelegatorShares := DelegatorShares v - d\<rparr>"
    and "n = (if d = DelegatorShares v then Tokens v else worth v d)" "0 \<le> n" "n \<le> Tokens v"
proof -
  have S: "d \<noteq> DelegatorShares v \<Longrightarrow> 0 < DelegatorShares v" using assms(2,3) by linarith
  have *: "v' = v\<lparr>Tokens := Tokens v - n, DelegatorShares := DelegatorShares v - d\<rparr> \<and> n \<le> Tokens v \<and>
     n = (if d = DelegatorShares v then Tokens v else worth v d)"
    using assms(1) TokensFromShares_worth(1) [OF assms(2,4) S]
    by (auto simp: RemoveDelShares_def Dec_Sub_def res_simps legacydec sdkint split: if_splits)
  then show "v' = v\<lparr>Tokens := Tokens v - n, DelegatorShares := DelegatorShares v - d\<rparr>"
    "n = (if d = DelegatorShares v then Tokens v else worth v d)" "n \<le> Tokens v" by auto
  then show "0 \<le> n" using worth_bounds(1) [OF assms(2,4) S] assms(4) by auto
qed

lemma RemoveDelShares_total:
  assumes "0 \<le> d" "d \<le> DelegatorShares v" "0 \<le> Tokens v" "int256 (Tokens v)" "DelegatorShares v \<le> upperLimit"
    and "d * Tokens v \<le> upperLimit"
  shows "\<exists>v' n. RemoveDelShares v d = Inr (v', n)"
proof (cases "d = DelegatorShares v")
  case True
  then show ?thesis by (simp add: RemoveDelShares_def Dec_Sub_def assertInValidRange_ok)
next
  case False
  then have S: "0 < DelegatorShares v" using assms(1,2) by linarith
  have w: "worth v d \<le> Tokens v" "0 \<le> worth v d"
    using worth_bounds(1,2) [OF assms(1,3) S] mult_right_mono [OF assms(2,3)] by (simp_all add: mult.commute)
  then have "int256 (Tokens v - worth v d)" using assms(3,4) by (auto simp: int256_def)
  with False w TokensFromShares_worth(2) [OF assms(1,3) S assms(6,2,4)] show ?thesis
    using assms(1,2,5) by (simp add: RemoveDelShares_def Dec_Sub_def assertInValidRange_ok Int_arith_eq)
qed

lemma add_fair:
  assumes "0 < DelegatorShares v" "0 \<le> Tokens v" "0 \<le> n" "AddTokensFromDel v n = Inr (v', sh)"
  shows "Tokens v' = Tokens v + n" "DelegatorShares v' = DelegatorShares v + sh" "0 \<le> sh"
    and "Tokens v * DelegatorShares v' \<le> Tokens v' * DelegatorShares v" "sh * Tokens v' \<le> n * DelegatorShares v'"
    and "RemoveDelShares v' sh = Inr (v'', paid) \<Longrightarrow> paid \<le> n"
proof -
  note a = AddTokensFromDel_success [OF assms(4,3,2) less_imp_le [OF assms(1)]]
  have "DelegatorShares v * n div Tokens v * Tokens v \<le> DelegatorShares v * n"
    using a(4) assms(1) by (simp add: minus_mod_eq_div_mult [symmetric])
  then have sh: "sh * Tokens v \<le> DelegatorShares v * n" using a(2) assms(1) by simp
  show t: "Tokens v' = Tokens v + n" "DelegatorShares v' = DelegatorShares v + sh" "0 \<le> sh" using a by simp_all
  show "Tokens v * DelegatorShares v' \<le> Tokens v' * DelegatorShares v" and w: "sh * Tokens v' \<le> n * DelegatorShares v'"
    using sh unfolding t by (simp_all add: algebra_simps)
  show "paid \<le> n" if r: "RemoveDelShares v' sh = Inr (v'', paid)"
    using RemoveDelShares_success(2) [OF r t(3)] worth_bounds(2) [OF t(3) _ _ w] t assms(1-3) by simp
qed

lemma remove_fair:
  assumes "0 < DelegatorShares v" "0 \<le> Tokens v" "0 \<le> d" "d \<le> DelegatorShares v" "RemoveDelShares v d = Inr (v', n)"
  shows "Tokens v' + n = Tokens v \<and> DelegatorShares v' + d = DelegatorShares v \<and> 0 \<le> n \<and> 0 \<le> Tokens v' \<and>
        (d = DelegatorShares v \<longrightarrow> Tokens v' = 0) \<and>
        (d \<noteq> DelegatorShares v \<longrightarrow> (n * DelegatorShares v - d * Tokens v) * precisionReuse \<le> DelegatorShares v \<and>
          d * Tokens v * precisionReuse < (n + 1) * DelegatorShares v * precisionReuse + DelegatorShares v)"
  using RemoveDelShares_success [OF assms(5,3,4,2)] worth_bounds(3,4) [OF assms(3,2,1)] by simp

section \<open>Properties\<close>


definition example_validator :: Validator where
  "example_validator = \<lparr> OperatorAddress = ''val'', ConsAddr = ''cons'', Jailed = False, Status = Bonded, Tokens = 7,
     DelegatorShares = 10 * precisionReuse,
     ValDescription = \<lparr> Moniker = ''one'', Identity = [], Website = [], SecurityContact = [], Details = [], DescMetadata = None \<rparr>,
     UnbondingHeight = 0, UnbondingTime = 0,
     ValCommission = \<lparr> Rate = 0, MaxRate = 0, MaxChangeRate = 0, UpdateTime = 0 \<rparr>, MinSelfDelegation = 1 \<rparr>"


end
