(* ===== verification/Staking.thy ===== *)
theory Staking
  imports BankLedger StakingTypes "HOL-Library.Product_Lexorder"
begin

text \<open>
  The keeper of \<open>x/staking\<close> (\<open>src/x/staking/keeper/validator.go\<close>, \<open>delegation.go\<close>, \<open>slash.go\<close>, \<open>pool.go\<close>,
  \<open>val_state_change.go\<close>, \<open>cons_pubkey.go\<close>, \<open>params.go\<close>) and its messages (\<open>msg_server.go\<close>), as a client of the bank: delegations of
  tokens to validators against shares, unbonding and redelegation with their queues, slashing, and the
  transitions of validators between bonded, unbonding and unbonded at the end of a block.

  The state holds the state of the bank and one ordered map per collection; the byte keys of the index by power
  are triples of the power, the length and the inverted address, in the order of the bytes.  The hooks of other
  modules are a parameter: a hook may fail, and sees and changes the bank only.  A consensus key is represented by
  its address, and whether the consensus parameters accept a key is a parameter.  An error that only wraps another one
  is the wrapped one.  Events and logs are left out.
\<close>

section \<open>State\<close>

record StakingParams =
  UnbondingPeriod :: int
  MaxValidators :: nat
  MaxEntries :: nat
  BondDenom :: string
  MinCommissionRate :: dec
  KeyRotationFee :: Coin

datatype hook_call =
    AfterValidatorCreated string
  | BeforeValidatorModified string
  | AfterValidatorRemoved string string
  | AfterValidatorBonded string string
  | AfterValidatorBeginUnbonding string string
  | BeforeDelegationCreated string string
  | BeforeDelegationSharesModified string string
  | BeforeDelegationRemoved string string
  | AfterDelegationModified string string
  | BeforeValidatorSlashed string dec
  | AfterConsensusPubKeyUpdate string string Coin

record ConsPubKeyRotationHistory =
  HOperatorAddress :: string
  OldConsPubkey :: string
  NewConsPubkey :: string
  HHeight :: int
  HFee :: Coin

record staking_env =
  SBankEnv :: bank_env
  ValStringToBytes :: "string \<Rightarrow> string res"
  ValBytesToString :: "string \<Rightarrow> string res"
  ConsBytesToString :: "string \<Rightarrow> string res"
  KeyAccepted :: "string \<Rightarrow> unit res"
  ValidURI :: "string \<Rightarrow> bool"
  StakingAuthority :: string
  Hook :: "hook_call \<Rightarrow> unit bank"

record staking_state =
  SBank :: bank_state
  SParams :: "StakingParams option"
  Validators :: "(string \<times> Validator) list"
  ValidatorByConsensusAddress :: "(string \<times> string) list"
  ValidatorsByPowerIndex :: "((int \<times> nat \<times> string) \<times> string) list"
  LastValidatorPower :: "(string \<times> int) list"
  LastTotalPower :: int
  ValidatorQueue :: "((int \<times> int) \<times> string list) list"
  Delegations :: "((string \<times> string) \<times> Delegation) list"
  DelegationsByValidator :: "((string \<times> string) \<times> unit) list"
  UnbondingDelegations :: "((string \<times> string) \<times> UnbondingDelegation) list"
  UnbondingDelegationByValIndex :: "((string \<times> string) \<times> unit) list"
  UnbondingQueue :: "(int \<times> (string \<times> string) list) list"
  Redelegations :: "((string \<times> string \<times> string) \<times> Redelegation) list"
  RedelegationsByValSrc :: "((string \<times> string \<times> string) \<times> unit) list"
  RedelegationsByValDst :: "((string \<times> string \<times> string) \<times> unit) list"
  RedelegationQueue :: "(int \<times> (string \<times> string \<times> string) list) list"
  RotationHistory :: "((string \<times> int) \<times> ConsPubKeyRotationHistory) list"
  ConsKeyRotationRecordIndexKey :: "((string \<times> int) \<times> unit) list"
  ConsKeyRotationRecordQueue :: "(int \<times> string list) list"
  OldToNewConsAddrMap :: "(string \<times> string) list"
  ConsAddrToValidatorIdentifierMap :: "(string \<times> string) list"
  SHeight :: int
  STime :: int

type_synonym 'a staking = "(staking_state, 'a) sm"

definition ErrNoValidatorFound :: fault where "ErrNoValidatorFound = Err ''validator does not exist''"
definition ErrNoUnbondingDelegation :: fault where "ErrNoUnbondingDelegation = Err ''no unbonding delegation found''"
definition ErrStaking :: "string \<Rightarrow> fault" where "ErrStaking = Err"

definition in_bank :: "'a bank \<Rightarrow> 'a staking" where
  "in_bank m s = (let (r, b) = m (SBank s) in (r, s\<lparr>SBank := b\<rparr>))"

definition call_hook :: "staking_env \<Rightarrow> hook_call \<Rightarrow> unit staking" where
  "call_hook e h = in_bank (Hook e h)"

definition staking_Params :: "StakingParams staking" where
  "staking_Params = sbind (sgets SParams) (\<lambda>p. case p of None \<Rightarrow> sfail (Err ''collections: not found'') | Some q \<Rightarrow> sret q)"

section \<open>Pools\<close>

definition NotBondedPoolName :: string where "NotBondedPoolName = ''not_bonded_tokens_pool''"
definition BondedPoolName :: string where "BondedPoolName = ''bonded_tokens_pool''"

text \<open>\<open>sdk.NewCoins(sdk.NewCoin(bondDenom, tokens))\<close>\<close>

definition bond_coins :: "staking_env \<Rightarrow> int \<Rightarrow> Coin list staking" where
  "bond_coins e tokens = sbind staking_Params (\<lambda>p.
     slift (rbind (NewCoin (validDenom (SBankEnv e)) (BondDenom p) tokens) (\<lambda>c. NewCoins (validDenom (SBankEnv e)) [c])))"

definition bondedTokensToNotBonded :: "staking_env \<Rightarrow> int \<Rightarrow> unit staking" where
  "bondedTokensToNotBonded e tokens = sbind (bond_coins e tokens) (\<lambda>coins.
     in_bank (SendCoinsFromModuleToModule (SBankEnv e) BondedPoolName NotBondedPoolName coins))"

definition notBondedTokensToBonded :: "staking_env \<Rightarrow> int \<Rightarrow> unit staking" where
  "notBondedTokensToBonded e tokens = sbind (bond_coins e tokens) (\<lambda>coins.
     in_bank (SendCoinsFromModuleToModule (SBankEnv e) NotBondedPoolName BondedPoolName coins))"

definition burn_pool :: "staking_env \<Rightarrow> string \<Rightarrow> Coin list \<Rightarrow> unit staking" where
  "burn_pool e pool coins =
     in_bank (BurnCoins (SBankEnv e) (case GetModuleAddress (SBankEnv e) pool of None \<Rightarrow> [] | Some a \<Rightarrow> a) coins)"

definition burnBondedTokens :: "staking_env \<Rightarrow> int \<Rightarrow> unit staking" where
  "burnBondedTokens e tokens =
     (if \<not> tokens > 0 then sret () else sbind (bond_coins e tokens) (\<lambda>coins. burn_pool e BondedPoolName coins))"

definition burnNotBondedTokens :: "staking_env \<Rightarrow> int \<Rightarrow> unit staking" where
  "burnNotBondedTokens e tokens =
     (if \<not> tokens > 0 then sret () else sbind (bond_coins e tokens) (\<lambda>coins. burn_pool e NotBondedPoolName coins))"

section \<open>Validators\<close>

definition GetValidator :: "string \<Rightarrow> Validator staking" where
  "GetValidator addr = sbind (sgets Validators) (\<lambda>vs. case map_of vs addr of
     None \<Rightarrow> sfail ErrNoValidatorFound | Some v \<Rightarrow> sret v)"

definition GetValidatorByConsAddr :: "string \<Rightarrow> Validator staking" where
  "GetValidatorByConsAddr consAddr = sbind (sgets id) (\<lambda>s. case map_of (ValidatorByConsensusAddress s) consAddr of
     Some opAddr \<Rightarrow> GetValidator opAddr
   | None \<Rightarrow> (case map_of (OldToNewConsAddrMap s) consAddr of
       None \<Rightarrow> sfail ErrNoValidatorFound
     | Some newConsAddr \<Rightarrow> (case map_of (ValidatorByConsensusAddress s) newConsAddr of
         None \<Rightarrow> sfail ErrNoValidatorFound | Some opAddr \<Rightarrow> GetValidator opAddr)))"

definition SetValidator :: "staking_env \<Rightarrow> Validator \<Rightarrow> unit staking" where
  "SetValidator e v = sbind (slift (ValStringToBytes e (OperatorAddress v))) (\<lambda>valBz.
     smodify (\<lambda>s. s\<lparr>Validators := om_set valBz v (Validators s)\<rparr>))"

definition SetValidatorByConsAddr :: "staking_env \<Rightarrow> Validator \<Rightarrow> unit staking" where
  "SetValidatorByConsAddr e v = sbind (slift (ValStringToBytes e (OperatorAddress v))) (\<lambda>bz.
     smodify (\<lambda>s. s\<lparr>ValidatorByConsensusAddress := om_set (ConsAddr v) bz (ValidatorByConsensusAddress s)\<rparr>))"

definition GetValidatorsByPowerIndexKey :: "staking_env \<Rightarrow> Validator \<Rightarrow> (int \<times> nat \<times> string) res" where
  "GetValidatorsByPowerIndexKey e v =
     rbind (TokensToConsensusPower (Tokens v) DefaultPowerReduction) (\<lambda>consensusPower.
     rbind (must (ValStringToBytes e (OperatorAddress v))) (\<lambda>addr.
       Inr (consensusPower mod 2 ^ 64, length addr mod 256, map (\<lambda>c. char_of (255 - of_char c :: nat)) addr)))"

definition SetValidatorByPowerIndex :: "staking_env \<Rightarrow> Validator \<Rightarrow> unit staking" where
  "SetValidatorByPowerIndex e v =
     (if Jailed v then sret ()
      else sbind (slift (ValStringToBytes e (OperatorAddress v))) (\<lambda>str.
        sbind (slift (GetValidatorsByPowerIndexKey e v)) (\<lambda>key.
          smodify (\<lambda>s. s\<lparr>ValidatorsByPowerIndex := om_set key str (ValidatorsByPowerIndex s)\<rparr>))))"

definition DeleteValidatorByPowerIndex :: "staking_env \<Rightarrow> Validator \<Rightarrow> unit staking" where
  "DeleteValidatorByPowerIndex e v = sbind (slift (GetValidatorsByPowerIndexKey e v)) (\<lambda>key.
     smodify (\<lambda>s. s\<lparr>ValidatorsByPowerIndex := om_del key (ValidatorsByPowerIndex s)\<rparr>))"

definition SetNewValidatorByPowerIndex :: "staking_env \<Rightarrow> Validator \<Rightarrow> unit staking" where
  "SetNewValidatorByPowerIndex e v = sbind (slift (ValStringToBytes e (OperatorAddress v))) (\<lambda>str.
     sbind (slift (GetValidatorsByPowerIndexKey e v)) (\<lambda>key.
       smodify (\<lambda>s. s\<lparr>ValidatorsByPowerIndex := om_set key str (ValidatorsByPowerIndex s)\<rparr>)))"

definition AddValidatorTokensAndShares :: "staking_env \<Rightarrow> Validator \<Rightarrow> int \<Rightarrow> (Validator \<times> dec) staking" where
  "AddValidatorTokensAndShares e v tokensToAdd =
     sbind (DeleteValidatorByPowerIndex e v) (\<lambda>_.
     sbind (slift (AddTokensFromDel v tokensToAdd)) (\<lambda>(v, addedShares).
     sbind (SetValidator e v) (\<lambda>_.
     sbind (SetValidatorByPowerIndex e v) (\<lambda>_. sret (v, addedShares)))))"

definition RemoveValidatorTokensAndShares :: "staking_env \<Rightarrow> Validator \<Rightarrow> dec \<Rightarrow> (Validator \<times> int) staking" where
  "RemoveValidatorTokensAndShares e v sharesToRemove =
     sbind (DeleteValidatorByPowerIndex e v) (\<lambda>_.
     sbind (slift (RemoveDelShares v sharesToRemove)) (\<lambda>(v, removedTokens).
     sbind (SetValidator e v) (\<lambda>_.
     sbind (SetValidatorByPowerIndex e v) (\<lambda>_. sret (v, removedTokens)))))"

definition RemoveValidatorTokens :: "staking_env \<Rightarrow> Validator \<Rightarrow> int \<Rightarrow> Validator staking" where
  "RemoveValidatorTokens e v tokensToRemove =
     sbind (DeleteValidatorByPowerIndex e v) (\<lambda>_.
     sbind (slift (RemoveTokens v tokensToRemove)) (\<lambda>v.
     sbind (SetValidator e v) (\<lambda>_.
     sbind (SetValidatorByPowerIndex e v) (\<lambda>_. sret v))))"

definition UpdateValidatorCommission :: "Validator \<Rightarrow> dec \<Rightarrow> Commission staking" where
  "UpdateValidatorCommission v newRate =
     sbind (sgets STime) (\<lambda>blockTime.
     sbind (slift (ValidateNewRate (ValCommission v) newRate blockTime)) (\<lambda>_.
     sbind staking_Params (\<lambda>p.
       if newRate < MinCommissionRate p then sfail (ErrStaking ''commission below the minimum rate'')
       else sret ((ValCommission v)\<lparr>Rate := newRate, UpdateTime := blockTime\<rparr>))))"

definition RemoveValidator :: "staking_env \<Rightarrow> string \<Rightarrow> unit staking" where
  "RemoveValidator e address = sbind (sgets Validators) (\<lambda>vs. case map_of vs address of
     None \<Rightarrow> sret ()
   | Some v \<Rightarrow>
       if \<not> IsUnbonded v then sfail (ErrStaking ''cannot call RemoveValidator on bonded or unbonding validators'')
       else if Tokens v > 0 then sfail (ErrStaking ''attempting to remove a validator which still contains tokens'')
       else sbind (smodify (\<lambda>s. s\<lparr>Validators := om_del address (Validators s),
           ValidatorByConsensusAddress := om_del (ConsAddr v) (ValidatorByConsensusAddress s)\<rparr>)) (\<lambda>_.
         sbind (DeleteValidatorByPowerIndex e v) (\<lambda>_.
         sbind (slift (ValStringToBytes e (OperatorAddress v))) (\<lambda>str.
           call_hook e (AfterValidatorRemoved (ConsAddr v) str)))))"

definition jailValidator :: "staking_env \<Rightarrow> Validator \<Rightarrow> unit staking" where
  "jailValidator e v =
     (if Jailed v then sfail (ErrStaking ''cannot jail already jailed validator'')
      else let v = v\<lparr>Jailed := True\<rparr> in
        sbind (SetValidator e v) (\<lambda>_. DeleteValidatorByPowerIndex e v))"

definition unjailValidator :: "staking_env \<Rightarrow> Validator \<Rightarrow> unit staking" where
  "unjailValidator e v =
     (if \<not> Jailed v then sfail (ErrStaking ''cannot unjail already unjailed validator'')
      else let v = v\<lparr>Jailed := False\<rparr> in
        sbind (SetValidator e v) (\<lambda>_. SetValidatorByPowerIndex e v))"

definition Jail :: "staking_env \<Rightarrow> string \<Rightarrow> unit staking" where
  "Jail e consAddr = sbind (GetValidatorByConsAddr consAddr) (jailValidator e)"

definition Unjail :: "staking_env \<Rightarrow> string \<Rightarrow> unit staking" where
  "Unjail e consAddr = sbind (GetValidatorByConsAddr consAddr) (unjailValidator e)"

section \<open>Delegations\<close>

definition accAddr :: "staking_env \<Rightarrow> string \<Rightarrow> string staking" where
  "accAddr e str = slift (StringToBytes (SBankEnv e) str)"

definition valAddr :: "staking_env \<Rightarrow> string \<Rightarrow> string staking" where
  "valAddr e str = slift (ValStringToBytes e str)"

definition SetDelegation :: "staking_env \<Rightarrow> Delegation \<Rightarrow> unit staking" where
  "SetDelegation e d =
     sbind (accAddr e (DelegatorAddress d)) (\<lambda>delAddr.
     sbind (valAddr e (ValidatorAddress d)) (\<lambda>val.
       smodify (\<lambda>s. s\<lparr>Delegations := om_set (delAddr, val) d (Delegations s),
         DelegationsByValidator := om_set (val, delAddr) () (DelegationsByValidator s)\<rparr>)))"

definition RemoveDelegation :: "staking_env \<Rightarrow> Delegation \<Rightarrow> unit staking" where
  "RemoveDelegation e d =
     sbind (accAddr e (DelegatorAddress d)) (\<lambda>delAddr.
     sbind (valAddr e (ValidatorAddress d)) (\<lambda>val.
     sbind (call_hook e (BeforeDelegationRemoved delAddr val)) (\<lambda>_.
       smodify (\<lambda>s. s\<lparr>Delegations := om_del (delAddr, val) (Delegations s),
         DelegationsByValidator := om_del (val, delAddr) (DelegationsByValidator s)\<rparr>))))"

text \<open>The delegation of a delegator to a validator, or a new one without shares, with its hook.\<close>

definition delegation_for :: "staking_env \<Rightarrow> string \<Rightarrow> string \<Rightarrow> Validator \<Rightarrow> Delegation staking" where
  "delegation_for e delAddr valbz validator = sbind (sgets Delegations) (\<lambda>ds. case map_of ds (delAddr, valbz) of
     Some d \<Rightarrow> sbind (call_hook e (BeforeDelegationSharesModified delAddr valbz)) (\<lambda>_. sret d)
   | None \<Rightarrow> sbind (slift (BytesToString (SBankEnv e) delAddr)) (\<lambda>delAddrStr.
       sbind (call_hook e (BeforeDelegationCreated delAddr valbz)) (\<lambda>_.
         sret \<lparr> DelegatorAddress = delAddrStr, ValidatorAddress = OperatorAddress validator, Shares = LegacyZeroDec \<rparr>)))"

text \<open>The tokens of a delegation come from the delegator's account, or are already in one of the pools.\<close>

definition fund_delegation :: "staking_env \<Rightarrow> string \<Rightarrow> int \<Rightarrow> BondStatus \<Rightarrow> Validator \<Rightarrow> bool \<Rightarrow> unit staking" where
  "fund_delegation e delAddr bondAmt tokenSrc validator subtractAccount =
     (if subtractAccount then
        if tokenSrc = Bonded then sfail (ErrStaking ''delegation token source cannot be bonded'')
        else if Status validator = Unspecified then sfail (ErrStaking ''invalid validator status'')
        else sbind (bond_coins e bondAmt) (\<lambda>coins.
          in_bank (DelegateCoinsFromAccountToModule (SBankEnv e) delAddr
            (if IsBonded validator then BondedPoolName else NotBondedPoolName) coins))
      else if tokenSrc = Bonded \<and> IsBonded validator then sret ()
      else if (tokenSrc = Unbonded \<or> tokenSrc = Unbonding) \<and> \<not> IsBonded validator then sret ()
      else if (tokenSrc = Unbonded \<or> tokenSrc = Unbonding) \<and> IsBonded validator then notBondedTokensToBonded e bondAmt
      else if tokenSrc = Bonded \<and> \<not> IsBonded validator then bondedTokensToNotBonded e bondAmt
      else sfail (ErrStaking ''unknown token source bond status''))"

definition Delegate :: "staking_env \<Rightarrow> string \<Rightarrow> int \<Rightarrow> BondStatus \<Rightarrow> Validator \<Rightarrow> bool \<Rightarrow> dec staking" where
  "Delegate e delAddr bondAmt tokenSrc validator subtractAccount =
     (if InvalidExRate validator then sfail (ErrStaking ''cannot delegate to validators with invalid (zero) ex-rate'')
      else sbind (valAddr e (OperatorAddress validator)) (\<lambda>valbz.
        sbind (delegation_for e delAddr valbz validator) (\<lambda>delegation.
        sbind (fund_delegation e delAddr bondAmt tokenSrc validator subtractAccount) (\<lambda>_.
        sbind (AddValidatorTokensAndShares e validator bondAmt) (\<lambda>(_, newShares).
        sbind (slift (Dec_Add (Shares delegation) newShares)) (\<lambda>shares.
        sbind (SetDelegation e (delegation\<lparr>Shares := shares\<rparr>)) (\<lambda>_.
        sbind (call_hook e (AfterDelegationModified delAddr valbz)) (\<lambda>_. sret newShares))))))))"

text \<open>Whether a withdrawal leaves the operator with less than the minimum it has pledged.\<close>

definition below_min_self :: "Validator \<Rightarrow> dec \<Rightarrow> bool res" where
  "below_min_self v shares =
     (if Jailed v then Inr False
      else rbind (rbind (TokensFromShares v shares) Dec_TruncateInt) (\<lambda>n. Inr (n < MinSelfDelegation v)))"

definition jail_below_min_self :: "staking_env \<Rightarrow> string \<Rightarrow> Validator \<Rightarrow> dec \<Rightarrow> bool \<Rightarrow> Validator staking" where
  "jail_below_min_self e valbz validator shares isValidatorOperator =
     sbind (if isValidatorOperator then slift (below_min_self validator shares) else sret False) (\<lambda>jail.
       if jail then sbind (jailValidator e validator) (\<lambda>_. GetValidator valbz) else sret validator)"

definition store_lowered :: "staking_env \<Rightarrow> string \<Rightarrow> Delegation \<Rightarrow> unit staking" where
  "store_lowered e delegatorAddress delegation =
     (if Shares delegation = 0 then RemoveDelegation e delegation
      else sbind (SetDelegation e delegation) (\<lambda>_.
        sbind (valAddr e (ValidatorAddress delegation)) (\<lambda>val.
          call_hook e (AfterDelegationModified delegatorAddress val))))"

definition remove_if_empty :: "staking_env \<Rightarrow> string \<Rightarrow> Validator \<Rightarrow> unit staking" where
  "remove_if_empty e valbz validator =
     (if DelegatorShares validator = 0 \<and> IsUnbonded validator then RemoveValidator e valbz else sret ())"

definition Unbond :: "staking_env \<Rightarrow> string \<Rightarrow> string \<Rightarrow> dec \<Rightarrow> int staking" where
  "Unbond e delAddr val shares = sbind (sgets Delegations) (\<lambda>ds. case map_of ds (delAddr, val) of
     None \<Rightarrow> sfail (ErrStaking ''delegator does not contain delegation'')
   | Some delegation \<Rightarrow>
       sbind (call_hook e (BeforeDelegationSharesModified delAddr val)) (\<lambda>_.
       if Shares delegation < shares then sfail (ErrStaking ''not enough delegation shares'')
       else sbind (GetValidator val) (\<lambda>validator.
         sbind (slift (Dec_Sub (Shares delegation) shares)) (\<lambda>rest.
         sbind (accAddr e (DelegatorAddress delegation)) (\<lambda>delegatorAddress.
         sbind (valAddr e (OperatorAddress validator)) (\<lambda>valbz.
         sbind (jail_below_min_self e valbz validator rest (delegatorAddress = valbz)) (\<lambda>validator.
         sbind (store_lowered e delegatorAddress (delegation\<lparr>Shares := rest\<rparr>)) (\<lambda>_.
         sbind (RemoveValidatorTokensAndShares e validator shares) (\<lambda>(validator, amount).
         sbind (remove_if_empty e valbz validator) (\<lambda>_. sret amount))))))))))"

definition ValidateUnbondAmount :: "string \<Rightarrow> string \<Rightarrow> int \<Rightarrow> dec staking" where
  "ValidateUnbondAmount delAddr val n = sbind (GetValidator val) (\<lambda>validator.
     sbind (sgets Delegations) (\<lambda>ds. case map_of ds (delAddr, val) of
       None \<Rightarrow> sfail (Err ''collections: not found'')
     | Some del \<Rightarrow>
         sbind (slift (SharesFromTokens validator n)) (\<lambda>shares.
         sbind (slift (SharesFromTokensTruncated validator n)) (\<lambda>sharesTruncated.
         if sharesTruncated > Shares del then sfail (ErrStaking ''invalid shares amount'')
         else sbind (slift (SharesFromTokens validator 1)) (\<lambda>tolerance.
           sbind (slift (Dec_Sub (Shares del) shares)) (\<lambda>rest.
             sret (if rest < tolerance then Shares del else shares)))))))"

section \<open>Unbonding\<close>

definition GetUnbondingDelegation :: "string \<Rightarrow> string \<Rightarrow> UnbondingDelegation staking" where
  "GetUnbondingDelegation delAddr val = sbind (sgets UnbondingDelegations) (\<lambda>us. case map_of us (delAddr, val) of
     None \<Rightarrow> sfail ErrNoUnbondingDelegation | Some ubd \<Rightarrow> sret ubd)"

definition HasMaxUnbondingDelegationEntries :: "string \<Rightarrow> string \<Rightarrow> bool staking" where
  "HasMaxUnbondingDelegationEntries delAddr val =
     sbind (sgets UnbondingDelegations) (\<lambda>us. sbind staking_Params (\<lambda>p.
       sret ((case map_of us (delAddr, val) of None \<Rightarrow> 0 | Some ubd \<Rightarrow> length (UEntries ubd)) \<ge> MaxEntries p)))"

definition SetUnbondingDelegation :: "staking_env \<Rightarrow> UnbondingDelegation \<Rightarrow> unit staking" where
  "SetUnbondingDelegation e ubd =
     sbind (accAddr e (UDelegatorAddress ubd)) (\<lambda>delAddr.
     sbind (valAddr e (UValidatorAddress ubd)) (\<lambda>val.
       smodify (\<lambda>s. s\<lparr>UnbondingDelegations := om_set (delAddr, val) ubd (UnbondingDelegations s),
         UnbondingDelegationByValIndex := om_set (val, delAddr) () (UnbondingDelegationByValIndex s)\<rparr>)))"

definition RemoveUnbondingDelegation :: "staking_env \<Rightarrow> UnbondingDelegation \<Rightarrow> unit staking" where
  "RemoveUnbondingDelegation e ubd =
     sbind (accAddr e (UDelegatorAddress ubd)) (\<lambda>delAddr.
     sbind (valAddr e (UValidatorAddress ubd)) (\<lambda>val.
       smodify (\<lambda>s. s\<lparr>UnbondingDelegations := om_del (delAddr, val) (UnbondingDelegations s),
         UnbondingDelegationByValIndex := om_del (val, delAddr) (UnbondingDelegationByValIndex s)\<rparr>)))"

definition NewUnbondingDelegation :: "staking_env \<Rightarrow> string \<Rightarrow> string \<Rightarrow> int \<Rightarrow> int \<Rightarrow> int \<Rightarrow> UnbondingDelegation res" where
  "NewUnbondingDelegation e delAddr val creationHeight minTime balance =
     rbind (must (ValBytesToString e val)) (\<lambda>valStr.
     rbind (must (BytesToString (SBankEnv e) delAddr)) (\<lambda>delStr.
       Inr \<lparr> UDelegatorAddress = delStr, UValidatorAddress = valStr,
         UEntries = [NewUnbondingDelegationEntry creationHeight minTime balance] \<rparr>))"

definition SetUnbondingDelegationEntry :: "staking_env \<Rightarrow> string \<Rightarrow> string \<Rightarrow> int \<Rightarrow> int \<Rightarrow> int \<Rightarrow> UnbondingDelegation staking" where
  "SetUnbondingDelegationEntry e delAddr val creationHeight minTime balance =
     sbind (sgets UnbondingDelegations) (\<lambda>us.
     sbind (slift (case map_of us (delAddr, val) of
         Some ubd \<Rightarrow> ubd_AddEntry ubd creationHeight minTime balance
       | None \<Rightarrow> NewUnbondingDelegation e delAddr val creationHeight minTime balance)) (\<lambda>ubd.
     sbind (SetUnbondingDelegation e ubd) (\<lambda>_. sret ubd)))"

definition InsertUBDQueue :: "UnbondingDelegation \<Rightarrow> int \<Rightarrow> unit staking" where
  "InsertUBDQueue ubd completionTime = smodify (\<lambda>s.
     let timeSlice = (case map_of (UnbondingQueue s) completionTime of None \<Rightarrow> [] | Some ps \<Rightarrow> ps) in
     s\<lparr>UnbondingQueue := om_set completionTime (timeSlice @ [(UDelegatorAddress ubd, UValidatorAddress ubd)]) (UnbondingQueue s)\<rparr>)"

definition DequeueAllMatureUBDQueue :: "int \<Rightarrow> (string \<times> string) list staking" where
  "DequeueAllMatureUBDQueue currTime = sbind (sgets UnbondingQueue) (\<lambda>q.
     sbind (smodify (\<lambda>s. s\<lparr>UnbondingQueue := filter (\<lambda>x. \<not> fst x \<le> currTime) q\<rparr>)) (\<lambda>_.
       sret (concat (map snd (filter (\<lambda>x. fst x \<le> currTime) q)))))"

definition Undelegate :: "staking_env \<Rightarrow> string \<Rightarrow> string \<Rightarrow> dec \<Rightarrow> (int \<times> int) staking" where
  "Undelegate e delAddr val sharesAmount = sbind (GetValidator val) (\<lambda>validator.
     sbind (HasMaxUnbondingDelegationEntries delAddr val) (\<lambda>hasMaxEntries.
     if hasMaxEntries then sfail (ErrStaking ''too many unbonding delegation entries'')
     else sbind (Unbond e delAddr val sharesAmount) (\<lambda>returnAmount.
       sbind (if IsBonded validator then bondedTokensToNotBonded e returnAmount else sret ()) (\<lambda>_.
       sbind staking_Params (\<lambda>p.
       sbind (sgets id) (\<lambda>s.
       let completionTime = STime s + UnbondingPeriod p in
       sbind (SetUnbondingDelegationEntry e delAddr val (SHeight s) completionTime returnAmount) (\<lambda>ubd.
       sbind (InsertUBDQueue ubd completionTime) (\<lambda>_. sret (completionTime, returnAmount)))))))))"

definition pay_entry :: "staking_env \<Rightarrow> string \<Rightarrow> string \<Rightarrow> UnbondingDelegationEntry \<Rightarrow> Coin list \<Rightarrow> Coin list staking" where
  "pay_entry e bondDenom delegator entry balances =
     sbind (slift (NewCoin (validDenom (SBankEnv e)) bondDenom (Balance entry))) (\<lambda>c.
     sbind (slift (NewCoins (validDenom (SBankEnv e)) [c])) (\<lambda>coins.
     sbind (in_bank (UndelegateCoinsFromModuleToAccount (SBankEnv e) NotBondedPoolName delegator coins)) (\<lambda>_.
       slift (Coins_Add balances [c]))))"

text \<open>
  The loop over the entries.  A mature entry is removed and the index stays; every round shortens the part of
  the list that is still to be visited.
\<close>

function complete_entries ::
  "staking_env \<Rightarrow> string \<Rightarrow> string \<Rightarrow> int \<Rightarrow> nat \<Rightarrow> UnbondingDelegation \<Rightarrow> Coin list \<Rightarrow> staking_state \<Rightarrow>
     (UnbondingDelegation \<times> Coin list) res \<times> staking_state" where
  "complete_entries e bondDenom delegator ctxTime i ubd balances s =
     (if i < length (UEntries ubd) then
        let entry = UEntries ubd ! i in
        if IsMature entry ctxTime then
          if Balance entry \<noteq> 0 then
            case pay_entry e bondDenom delegator entry balances s of
              (Inl f, t) \<Rightarrow> (Inl f, t)
            | (Inr balances', t) \<Rightarrow> complete_entries e bondDenom delegator ctxTime i (ubd_RemoveEntry ubd i) balances' t
          else complete_entries e bondDenom delegator ctxTime i (ubd_RemoveEntry ubd i) balances s
        else complete_entries e bondDenom delegator ctxTime (i + 1) ubd balances s
      else (Inr (ubd, balances), s))"
  by auto

termination
  by (relation "measure (\<lambda>(_, _, _, _, i, ubd, _, _). length (UEntries ubd) - i)")
    (auto simp: ubd_RemoveEntry_def remove_at_def)

declare complete_entries.simps [simp del]

definition CompleteUnbonding :: "staking_env \<Rightarrow> string \<Rightarrow> string \<Rightarrow> Coin list staking" where
  "CompleteUnbonding e delAddr val =
     sbind (GetUnbondingDelegation delAddr val) (\<lambda>ubd.
     sbind staking_Params (\<lambda>p.
     sbind (sgets STime) (\<lambda>ctxTime.
     sbind (accAddr e (UDelegatorAddress ubd)) (\<lambda>delegatorAddress.
     sbind (complete_entries e (BondDenom p) delegatorAddress ctxTime 0 ubd []) (\<lambda>(ubd, balances).
     sbind (if UEntries ubd = [] then RemoveUnbondingDelegation e ubd else SetUnbondingDelegation e ubd) (\<lambda>_.
       sret balances))))))"

section \<open>Redelegation\<close>

definition HasReceivingRedelegation :: "string \<Rightarrow> string \<Rightarrow> bool staking" where
  "HasReceivingRedelegation delAddr valDstAddr = sgets (\<lambda>s.
     \<exists>x \<in> set (RedelegationsByValDst s). fst (fst x) = valDstAddr \<and> fst (snd (fst x)) = delAddr)"

definition HasMaxRedelegationEntries :: "string \<Rightarrow> string \<Rightarrow> string \<Rightarrow> bool staking" where
  "HasMaxRedelegationEntries delAddr valSrcAddr valDstAddr =
     sbind (sgets Redelegations) (\<lambda>rs. case map_of rs (delAddr, valSrcAddr, valDstAddr) of
       None \<Rightarrow> sret False
     | Some red \<Rightarrow> sbind staking_Params (\<lambda>p. sret (length (REntries red) \<ge> MaxEntries p)))"

definition SetRedelegation :: "staking_env \<Rightarrow> Redelegation \<Rightarrow> unit staking" where
  "SetRedelegation e red =
     sbind (accAddr e (RDelegatorAddress red)) (\<lambda>del.
     sbind (valAddr e (ValidatorSrcAddress red)) (\<lambda>src.
     sbind (valAddr e (ValidatorDstAddress red)) (\<lambda>dst.
       smodify (\<lambda>s. s\<lparr>Redelegations := om_set (del, src, dst) red (Redelegations s),
         RedelegationsByValSrc := om_set (src, del, dst) () (RedelegationsByValSrc s),
         RedelegationsByValDst := om_set (dst, del, src) () (RedelegationsByValDst s)\<rparr>))))"

definition RemoveRedelegation :: "staking_env \<Rightarrow> Redelegation \<Rightarrow> unit staking" where
  "RemoveRedelegation e red =
     sbind (accAddr e (RDelegatorAddress red)) (\<lambda>del.
     sbind (valAddr e (ValidatorSrcAddress red)) (\<lambda>src.
     sbind (valAddr e (ValidatorDstAddress red)) (\<lambda>dst.
       smodify (\<lambda>s. s\<lparr>Redelegations := om_del (del, src, dst) (Redelegations s),
         RedelegationsByValSrc := om_del (src, del, dst) (RedelegationsByValSrc s),
         RedelegationsByValDst := om_del (dst, del, src) (RedelegationsByValDst s)\<rparr>))))"

definition NewRedelegation ::
  "staking_env \<Rightarrow> string \<Rightarrow> string \<Rightarrow> string \<Rightarrow> int \<Rightarrow> int \<Rightarrow> int \<Rightarrow> dec \<Rightarrow> Redelegation res" where
  "NewRedelegation e delAddr src dst creationHeight minTime balance sharesDst =
     rbind (must (ValBytesToString e src)) (\<lambda>srcStr.
     rbind (must (ValBytesToString e dst)) (\<lambda>dstStr.
     rbind (must (BytesToString (SBankEnv e) delAddr)) (\<lambda>delStr.
       Inr \<lparr> RDelegatorAddress = delStr, ValidatorSrcAddress = srcStr, ValidatorDstAddress = dstStr,
         REntries = [NewRedelegationEntry creationHeight minTime balance sharesDst] \<rparr>)))"

definition SetRedelegationEntry ::
  "staking_env \<Rightarrow> string \<Rightarrow> string \<Rightarrow> string \<Rightarrow> int \<Rightarrow> int \<Rightarrow> int \<Rightarrow> dec \<Rightarrow> Redelegation staking" where
  "SetRedelegationEntry e delAddr src dst creationHeight minTime balance sharesDst =
     sbind (sgets Redelegations) (\<lambda>rs.
     sbind (slift (case map_of rs (delAddr, src, dst) of
         Some red \<Rightarrow> Inr (red_AddEntry red creationHeight minTime balance sharesDst)
       | None \<Rightarrow> NewRedelegation e delAddr src dst creationHeight minTime balance sharesDst)) (\<lambda>red.
     sbind (SetRedelegation e red) (\<lambda>_. sret red)))"

definition InsertRedelegationQueue :: "Redelegation \<Rightarrow> int \<Rightarrow> unit staking" where
  "InsertRedelegationQueue red completionTime = smodify (\<lambda>s.
     let timeSlice = (case map_of (RedelegationQueue s) completionTime of None \<Rightarrow> [] | Some ts \<Rightarrow> ts) in
     s\<lparr>RedelegationQueue := om_set completionTime
       (timeSlice @ [(RDelegatorAddress red, ValidatorSrcAddress red, ValidatorDstAddress red)]) (RedelegationQueue s)\<rparr>)"

definition DequeueAllMatureRedelegationQueue :: "(string \<times> string \<times> string) list staking" where
  "DequeueAllMatureRedelegationQueue = sbind (sgets id) (\<lambda>s.
     sbind (smodify (\<lambda>s. s\<lparr>RedelegationQueue := filter (\<lambda>x. \<not> fst x \<le> STime s) (RedelegationQueue s)\<rparr>)) (\<lambda>_.
       sret (concat (map snd (filter (\<lambda>x. fst x \<le> STime s) (RedelegationQueue s))))))"

definition getBeginInfo :: "string \<Rightarrow> (int \<times> int \<times> bool) staking" where
  "getBeginInfo valSrcAddr = sbind (sgets id) (\<lambda>s. case map_of (Validators s) valSrcAddr of
     None \<Rightarrow> sret (time_zero, 0, False)
   | Some validator \<Rightarrow> sbind staking_Params (\<lambda>p. case Status validator of
       Bonded \<Rightarrow> sret (STime s + UnbondingPeriod p, SHeight s, False)
     | Unbonded \<Rightarrow> sret (time_zero, 0, True)
     | Unbonding \<Rightarrow> sret (UnbondingTime validator, UnbondingHeight validator, False)
     | Unspecified \<Rightarrow> sfail (ErrStaking ''unknown validator status'')))"

definition BeginRedelegation :: "staking_env \<Rightarrow> string \<Rightarrow> string \<Rightarrow> string \<Rightarrow> dec \<Rightarrow> int staking" where
  "BeginRedelegation e delAddr src dst sharesAmount =
     (if src = dst then sfail (ErrStaking ''cannot redelegate to the same validator'')
      else sbind (sgets Validators) (\<lambda>vs. case (map_of vs dst, map_of vs src) of
        (None, _) \<Rightarrow> sfail (ErrStaking ''redelegation destination validator not found'')
      | (Some _, None) \<Rightarrow> sfail (ErrStaking ''redelegation source validator not found'')
      | (Some dstValidator, Some srcValidator) \<Rightarrow>
          sbind (HasReceivingRedelegation delAddr src) (\<lambda>hasRecRedel.
          if hasRecRedel then sfail (ErrStaking ''redelegation to this validator already in progress'')
          else sbind (HasMaxRedelegationEntries delAddr src dst) (\<lambda>hasMaxRedels.
          if hasMaxRedels then sfail (ErrStaking ''too many redelegation entries'')
          else sbind (Unbond e delAddr src sharesAmount) (\<lambda>returnAmount.
          if returnAmount = 0 then sfail (ErrStaking ''too few tokens to redelegate'')
          else sbind (Delegate e delAddr returnAmount (Status srcValidator) dstValidator False) (\<lambda>sharesCreated.
            sbind (getBeginInfo src) (\<lambda>(completionTime, height, completeNow).
            if completeNow then sret completionTime
            else sbind (SetRedelegationEntry e delAddr src dst height completionTime returnAmount sharesCreated) (\<lambda>red.
              sbind (InsertRedelegationQueue red completionTime) (\<lambda>_. sret completionTime)))))))))"

text \<open>The loop over the entries; the sum of the completed balances is only reported.\<close>

function complete_redelegations ::
  "(string \<Rightarrow> bool) \<Rightarrow> string \<Rightarrow> int \<Rightarrow> nat \<Rightarrow> Redelegation \<Rightarrow> Coin list \<Rightarrow> (Redelegation \<times> Coin list) res" where
  "complete_redelegations vd bondDenom ctxTime i red balances =
     (if i < length (REntries red) then
        let entry = REntries red ! i in
        if red_IsMature entry ctxTime then
          if RInitialBalance entry \<noteq> 0 then
            case rbind (NewCoin vd bondDenom (RInitialBalance entry)) (\<lambda>c. Coins_Add balances [c]) of
              Inl f \<Rightarrow> Inl f
            | Inr balances' \<Rightarrow> complete_redelegations vd bondDenom ctxTime i (red_RemoveEntry red i) balances'
          else complete_redelegations vd bondDenom ctxTime i (red_RemoveEntry red i) balances
        else complete_redelegations vd bondDenom ctxTime (i + 1) red balances
      else Inr (red, balances))"
  by auto

termination
  by (relation "measure (\<lambda>(_, _, _, i, red, _). length (REntries red) - i)")
    (auto simp: red_RemoveEntry_def remove_at_def)

declare complete_redelegations.simps [simp del]

definition CompleteRedelegation :: "staking_env \<Rightarrow> string \<Rightarrow> string \<Rightarrow> string \<Rightarrow> Coin list staking" where
  "CompleteRedelegation e delAddr src dst = sbind (sgets Redelegations) (\<lambda>rs. case map_of rs (delAddr, src, dst) of
     None \<Rightarrow> sfail (Err ''collections: not found'')
   | Some red \<Rightarrow>
       sbind staking_Params (\<lambda>p.
       sbind (sgets STime) (\<lambda>ctxTime.
       sbind (slift (complete_redelegations (validDenom (SBankEnv e)) (BondDenom p) ctxTime 0 red [])) (\<lambda>(red, balances).
       sbind (if REntries red = [] then RemoveRedelegation e red else SetRedelegation e red) (\<lambda>_. sret balances)))))"

section \<open>Slashing\<close>

text \<open>The round of \<open>SlashUnbondingDelegation\<close> for the entry at an index.\<close>

definition slash_unbonding_entry ::
  "staking_env \<Rightarrow> int \<Rightarrow> dec \<Rightarrow> int \<Rightarrow> UnbondingDelegation \<times> int \<times> int \<Rightarrow> nat \<Rightarrow> (UnbondingDelegation \<times> int \<times> int) staking" where
  "slash_unbonding_entry e infractionHeight slashFactor now = (\<lambda>(ubd, totalSlashAmount, burnedAmount) i.
     let entry = UEntries ubd ! i in
     if CreationHeight entry < infractionHeight then sret (ubd, totalSlashAmount, burnedAmount)
     else if IsMature entry now then sret (ubd, totalSlashAmount, burnedAmount)
     else sbind (slift (rbind (Dec_MulInt slashFactor (InitialBalance entry)) Dec_TruncateInt)) (\<lambda>slashAmount.
       sbind (slift (Int_Add totalSlashAmount slashAmount)) (\<lambda>totalSlashAmount.
       let unbondingSlashAmount = MinInt slashAmount (Balance entry) in
       if unbondingSlashAmount = 0 then sret (ubd, totalSlashAmount, burnedAmount)
       else sbind (slift (Int_Add burnedAmount unbondingSlashAmount)) (\<lambda>burnedAmount.
         sbind (slift (Int_Sub (Balance entry) unbondingSlashAmount)) (\<lambda>b.
         let ubd = ubd\<lparr>UEntries := (UEntries ubd)[i := entry\<lparr>Balance := b\<rparr>]\<rparr> in
         sbind (SetUnbondingDelegation e ubd) (\<lambda>_. sret (ubd, totalSlashAmount, burnedAmount)))))))"

definition SlashUnbondingDelegation :: "staking_env \<Rightarrow> UnbondingDelegation \<Rightarrow> int \<Rightarrow> dec \<Rightarrow> int staking" where
  "SlashUnbondingDelegation e ubd infractionHeight slashFactor = sbind (sgets STime) (\<lambda>now.
     sbind (sfold (slash_unbonding_entry e infractionHeight slashFactor now) (ubd, 0, 0) [0..<length (UEntries ubd)])
       (\<lambda>(_, totalSlashAmount, burnedAmount).
     sbind (burnNotBondedTokens e burnedAmount) (\<lambda>_. sret totalSlashAmount)))"

text \<open>The inner round of \<open>SlashRedelegation\<close>: an entry of the delegator's unbonding delegation from the destination.\<close>

definition slash_moved_unbonding ::
  "staking_env \<Rightarrow> int \<Rightarrow> int \<Rightarrow> UnbondingDelegation \<times> int \<times> int \<Rightarrow> nat \<Rightarrow> (UnbondingDelegation \<times> int \<times> int) staking" where
  "slash_moved_unbonding e infractionHeight now = (\<lambda>(ubd, slashAmount, notBondedBurnedAmount) i.
     let entry = UEntries ubd ! i; unbondingSlashAmount = MinInt slashAmount (Balance entry) in
     if unbondingSlashAmount = 0 \<or> CreationHeight entry < infractionHeight \<or> IsMature entry now
     then sret (ubd, slashAmount, notBondedBurnedAmount)
     else sbind (slift (Int_Sub slashAmount unbondingSlashAmount)) (\<lambda>slashAmount.
       sbind (slift (Int_Add notBondedBurnedAmount unbondingSlashAmount)) (\<lambda>notBondedBurnedAmount.
       sbind (slift (Int_Sub (Balance entry) unbondingSlashAmount)) (\<lambda>b.
       let ubd = ubd\<lparr>UEntries := (UEntries ubd)[i := entry\<lparr>Balance := b\<rparr>]\<rparr> in
       sbind (SetUnbondingDelegation e ubd) (\<lambda>_. sret (ubd, slashAmount, notBondedBurnedAmount))))))"

definition charge_pool :: "Validator option \<Rightarrow> int \<Rightarrow> int \<times> int \<Rightarrow> (int \<times> int) res" where
  "charge_pool dstValidator tokensToBurn = (\<lambda>(bondedBurnedAmount, notBondedBurnedAmount). case dstValidator of
     None \<Rightarrow> rbind (Int_Add notBondedBurnedAmount tokensToBurn) (\<lambda>n. Inr (bondedBurnedAmount, n))
   | Some v \<Rightarrow>
       if IsBonded v then rbind (Int_Add bondedBurnedAmount tokensToBurn) (\<lambda>b. Inr (b, notBondedBurnedAmount))
       else if IsUnbonded v \<or> IsUnbonding v then rbind (Int_Add notBondedBurnedAmount tokensToBurn) (\<lambda>n. Inr (bondedBurnedAmount, n))
       else Inl (ErrStaking ''unknown validator status''))"

definition unbond_moved :: "staking_env \<Rightarrow> string \<Rightarrow> string \<Rightarrow> dec \<Rightarrow> int \<times> int \<Rightarrow> (int \<times> int) staking" where
  "unbond_moved e del dst sharesToUnbond burned =
     (if sharesToUnbond = 0 then sret burned
      else sbind (sgets Delegations) (\<lambda>ds. case map_of ds (del, dst) of
        None \<Rightarrow> sret burned
      | Some delegation \<Rightarrow>
          sbind (Unbond e del dst (if sharesToUnbond > Shares delegation then Shares delegation else sharesToUnbond)) (\<lambda>tokensToBurn.
          sbind (sgets Validators) (\<lambda>vs. slift (charge_pool (map_of vs dst) tokensToBurn burned)))))"

definition slash_moved_delegation ::
  "staking_env \<Rightarrow> string \<Rightarrow> string \<Rightarrow> int \<Rightarrow> int \<times> int \<Rightarrow> (int \<times> int) staking" where
  "slash_moved_delegation e del dst slashAmount burned =
     (if slashAmount = 0 then sret burned
      else sbind (GetValidator dst) (\<lambda>dstVal.
        case SharesFromTokensTruncated dstVal slashAmount of
          Inl (Err _) \<Rightarrow> sret burned
        | Inl (Panic p) \<Rightarrow> sfail (Panic p)
        | Inr sharesToUnbond \<Rightarrow> unbond_moved e del dst sharesToUnbond burned))"

definition slash_redelegation_entry ::
  "staking_env \<Rightarrow> string \<Rightarrow> string \<Rightarrow> int \<Rightarrow> dec \<Rightarrow> int \<Rightarrow> int \<times> int \<times> int \<Rightarrow> RedelegationEntry \<Rightarrow> (int \<times> int \<times> int) staking" where
  "slash_redelegation_entry e del dst infractionHeight slashFactor now = (\<lambda>(totalSlashAmount, bonded, notBonded) entry.
     if RCreationHeight entry < infractionHeight then sret (totalSlashAmount, bonded, notBonded)
     else if red_IsMature entry now \<and> \<not> OnHold entry then sret (totalSlashAmount, bonded, notBonded)
     else sbind (slift (rbind (Dec_MulInt slashFactor (RInitialBalance entry)) Dec_TruncateInt)) (\<lambda>slashAmount.
       sbind (slift (Int_Add totalSlashAmount slashAmount)) (\<lambda>totalSlashAmount.
       sbind (sgets UnbondingDelegations) (\<lambda>us.
       sbind (case map_of us (del, dst) of
           None \<Rightarrow> sret (slashAmount, notBonded)
         | Some ubd \<Rightarrow> sbind (sfold (slash_moved_unbonding e infractionHeight now) (ubd, slashAmount, notBonded)
             [0..<length (UEntries ubd)]) (\<lambda>(_, slashAmount, notBonded). sret (slashAmount, notBonded))) (\<lambda>(slashAmount, notBonded).
       sbind (slash_moved_delegation e del dst slashAmount (bonded, notBonded)) (\<lambda>(bonded, notBonded).
         sret (totalSlashAmount, bonded, notBonded)))))))"

definition SlashRedelegation :: "staking_env \<Rightarrow> Redelegation \<Rightarrow> int \<Rightarrow> dec \<Rightarrow> int staking" where
  "SlashRedelegation e red infractionHeight slashFactor = sbind (sgets STime) (\<lambda>now.
     sbind (valAddr e (ValidatorDstAddress red)) (\<lambda>dst.
     sbind (accAddr e (RDelegatorAddress red)) (\<lambda>del.
     sbind (sfold (slash_redelegation_entry e del dst infractionHeight slashFactor now) (0, 0, 0) (REntries red))
       (\<lambda>(totalSlashAmount, bondedBurnedAmount, notBondedBurnedAmount).
     sbind (burnBondedTokens e bondedBurnedAmount) (\<lambda>_.
     sbind (burnNotBondedTokens e notBondedBurnedAmount) (\<lambda>_. sret totalSlashAmount))))))"

definition GetUnbondingDelegationsFromValidator :: "string \<Rightarrow> UnbondingDelegation list staking" where
  "GetUnbondingDelegationsFromValidator val = sgets (\<lambda>s.
     map (\<lambda>x. case map_of (UnbondingDelegations s) (snd (fst x), val) of
         None \<Rightarrow> \<lparr> UDelegatorAddress = [], UValidatorAddress = [], UEntries = [] \<rparr> | Some ubd \<Rightarrow> ubd)
       (filter (\<lambda>x. fst (fst x) = val) (UnbondingDelegationByValIndex s)))"

definition GetRedelegationsFromSrcValidator :: "string \<Rightarrow> Redelegation list staking" where
  "GetRedelegationsFromSrcValidator val = sbind (sgets id) (\<lambda>s.
     slift (rmap (\<lambda>x. case map_of (Redelegations s) (fst (snd (fst x)), val, snd (snd (fst x))) of
         None \<Rightarrow> Inl (Err ''collections: not found'') | Some red \<Rightarrow> Inr red)
       (filter (\<lambda>x. fst (fst x) = val) (RedelegationsByValSrc s))))"

text \<open>Slashing what has left the validator since the infraction reduces the amount that is still to be slashed.\<close>

definition slash_all :: "('a \<Rightarrow> int staking) \<Rightarrow> int \<Rightarrow> 'a list \<Rightarrow> int staking" where
  "slash_all slash = sfold (\<lambda>remaining x. sbind (slash x) (\<lambda>amountSlashed.
     if amountSlashed = 0 then sret remaining else slift (Int_Sub remaining amountSlashed)))"

definition slash_departed :: "staking_env \<Rightarrow> string \<Rightarrow> int \<Rightarrow> dec \<Rightarrow> int \<Rightarrow> int staking" where
  "slash_departed e operatorAddress infractionHeight slashFactor slashAmount = sbind (sgets SHeight) (\<lambda>height.
     if infractionHeight > height then sfail (ErrStaking ''impossible attempt to slash future infraction'')
     else if infractionHeight = height then sret slashAmount
     else sbind (GetUnbondingDelegationsFromValidator operatorAddress) (\<lambda>ubds.
       sbind (slash_all (\<lambda>ubd. SlashUnbondingDelegation e ubd infractionHeight slashFactor) slashAmount ubds) (\<lambda>remaining.
       sbind (GetRedelegationsFromSrcValidator operatorAddress) (\<lambda>reds.
         slash_all (\<lambda>red. SlashRedelegation e red infractionHeight slashFactor) remaining reds))))"

definition slash_hook :: "staking_env \<Rightarrow> string \<Rightarrow> Validator \<Rightarrow> int \<Rightarrow> unit staking" where
  "slash_hook e operatorAddress validator tokensToBurn =
     (if Tokens validator > 0 then
        sbind (slift (Dec_QuoRoundUp (LegacyNewDecFromInt tokensToBurn) (LegacyNewDecFromInt (Tokens validator)))) (\<lambda>fraction.
          call_hook e (BeforeValidatorSlashed operatorAddress (if fraction > LegacyOneDec then LegacyOneDec else fraction)))
      else sret ())"

definition Slash :: "staking_env \<Rightarrow> string \<Rightarrow> int \<Rightarrow> int \<Rightarrow> dec \<Rightarrow> int staking" where
  "Slash e consAddr infractionHeight pow slashFactor =
     (if slashFactor < 0 then sfail (ErrStaking ''attempted to slash with a negative slash factor'')
      else sbind (slift (TokensFromConsensusPower pow DefaultPowerReduction)) (\<lambda>amount.
        sbind (slift (rbind (Dec_Mul (LegacyNewDecFromInt amount) slashFactor) Dec_TruncateInt)) (\<lambda>slashAmount.
        sbind (sgets id) (\<lambda>s. case fst (GetValidatorByConsAddr consAddr s) of
          Inl _ \<Rightarrow> sbind (slift (ConsBytesToString e consAddr)) (\<lambda>_. sret 0)
        | Inr validator \<Rightarrow>
            if IsUnbonded validator then sfail (ErrStaking ''should not be slashing unbonded validator'')
            else sbind (valAddr e (OperatorAddress validator)) (\<lambda>operatorAddress.
              sbind (call_hook e (BeforeValidatorModified operatorAddress)) (\<lambda>_.
              sbind (slash_departed e operatorAddress infractionHeight slashFactor slashAmount) (\<lambda>remainingSlashAmount.
              let tokensToBurn = MaxInt (MinInt remainingSlashAmount (Tokens validator)) 0 in
              if tokensToBurn = 0 then sret 0
              else sbind (slash_hook e operatorAddress validator tokensToBurn) (\<lambda>_.
                sbind (RemoveValidatorTokens e validator tokensToBurn) (\<lambda>validator.
                sbind (case Status validator of
                    Bonded \<Rightarrow> burnBondedTokens e tokensToBurn
                  | Unbonding \<Rightarrow> burnNotBondedTokens e tokensToBurn
                  | Unbonded \<Rightarrow> burnNotBondedTokens e tokensToBurn
                  | Unspecified \<Rightarrow> sfail (ErrStaking ''invalid validator status'')) (\<lambda>_.
                  sret tokensToBurn))))))))))"

section \<open>Rotation of consensus keys\<close>

definition maxRotations :: nat where
  "maxRotations = 1"

definition GetBlockConsPubKeyRotationHistory :: "ConsPubKeyRotationHistory list staking" where
  "GetBlockConsPubKeyRotationHistory = sgets (\<lambda>s.
     filter (\<lambda>h. HHeight h = SHeight s mod 2 ^ 64) (map snd (RotationHistory s)))"

definition GetValidatorConsPubKeyRotationHistory :: "string \<Rightarrow> ConsPubKeyRotationHistory list staking" where
  "GetValidatorConsPubKeyRotationHistory operatorAddress = sgets (\<lambda>s.
     map snd (filter (\<lambda>x. fst (fst x) = operatorAddress) (RotationHistory s)))"

definition setConsKeyQueue :: "int \<Rightarrow> string \<Rightarrow> unit staking" where
  "setConsKeyQueue ts val = smodify (\<lambda>s.
     let addrs = (case map_of (ConsKeyRotationRecordQueue s) ts of None \<Rightarrow> [] | Some xs \<Rightarrow> xs) in
     s\<lparr>ConsKeyRotationRecordQueue := om_set ts (if List.member addrs val then addrs else addrs @ [val]) (ConsKeyRotationRecordQueue s)\<rparr>)"

definition setConsPubKeyRotationHistory :: "string \<Rightarrow> string \<Rightarrow> string \<Rightarrow> Coin \<Rightarrow> unit staking" where
  "setConsPubKeyRotationHistory val oldPubKey newPubKey fee =
     sbind (sgets id) (\<lambda>s.
     sbind GetBlockConsPubKeyRotationHistory (\<lambda>allRotations.
     if list_ex (\<lambda>r. NewConsPubkey r = newPubKey) allRotations then sfail (ErrStaking ''validator already exist for this pubkey'')
     else let height = SHeight s mod 2 ^ 64 in
       sbind (smodify (\<lambda>s. s\<lparr>RotationHistory := om_set (val, height)
         \<lparr> HOperatorAddress = val, OldConsPubkey = oldPubKey, NewConsPubkey = newPubKey, HHeight = height, HFee = fee \<rparr>
         (RotationHistory s)\<rparr>)) (\<lambda>_.
       sbind staking_Params (\<lambda>p.
       let queueTime = STime s + UnbondingPeriod p in
       sbind (smodify (\<lambda>s. s\<lparr>ConsKeyRotationRecordIndexKey := om_set (val, queueTime) () (ConsKeyRotationRecordIndexKey s)\<rparr>)) (\<lambda>_.
         setConsKeyQueue queueTime val)))))"

definition setConsAddrToValidatorIdentifierMap :: "string \<Rightarrow> string \<Rightarrow> unit staking" where
  "setConsAddrToValidatorIdentifierMap oldConsAddr newConsAddr = smodify (\<lambda>s.
     let ident = (case map_of (ConsAddrToValidatorIdentifierMap s) oldConsAddr of None \<Rightarrow> oldConsAddr | Some a \<Rightarrow> a) in
     s\<lparr>ConsAddrToValidatorIdentifierMap := om_set newConsAddr ident (ConsAddrToValidatorIdentifierMap s)\<rparr>)"

definition ValidatorIdentifier :: "string \<Rightarrow> string option staking" where
  "ValidatorIdentifier newPk = sgets (\<lambda>s. map_of (ConsAddrToValidatorIdentifierMap s) newPk)"

definition updateToNewPubkey :: "staking_env \<Rightarrow> Validator \<Rightarrow> string \<Rightarrow> string \<Rightarrow> Coin \<Rightarrow> unit staking" where
  "updateToNewPubkey e val oldPubKey newPubKey fee =
     sbind (smodify (\<lambda>s. s\<lparr>ValidatorByConsensusAddress := om_del (ConsAddr val) (ValidatorByConsensusAddress s)\<rparr>)) (\<lambda>_.
     sbind (DeleteValidatorByPowerIndex e val) (\<lambda>_.
     let val = val\<lparr>ConsAddr := newPubKey\<rparr> in
     sbind (SetValidator e val) (\<lambda>_.
     sbind (SetValidatorByConsAddr e val) (\<lambda>_.
     sbind (SetValidatorByPowerIndex e val) (\<lambda>_.
     sbind (smodify (\<lambda>s. s\<lparr>OldToNewConsAddrMap := om_set oldPubKey newPubKey (OldToNewConsAddrMap s)\<rparr>)) (\<lambda>_.
     sbind (setConsAddrToValidatorIdentifierMap oldPubKey newPubKey) (\<lambda>_.
       call_hook e (AfterConsensusPubKeyUpdate oldPubKey newPubKey fee))))))))"

definition ExceedsMaxRotations :: "string \<Rightarrow> unit staking" where
  "ExceedsMaxRotations val = sbind (sgets ConsKeyRotationRecordIndexKey) (\<lambda>ks.
     if length (filter (\<lambda>x. fst (fst x) = val) ks) \<ge> maxRotations then sfail (ErrStaking ''exceeding maximum consensus pubkey rotations'')
     else sret ())"

definition getAndRemoveAllMaturedRotatedKeys :: "int \<Rightarrow> string list staking" where
  "getAndRemoveAllMaturedRotatedKeys matureTime = sbind (sgets ConsKeyRotationRecordQueue) (\<lambda>q.
     sbind (smodify (\<lambda>s. s\<lparr>ConsKeyRotationRecordQueue := filter (\<lambda>x. \<not> fst x \<le> matureTime) q\<rparr>)) (\<lambda>_.
       sret (concat (map snd (filter (\<lambda>x. fst x \<le> matureTime) q)))))"

definition deleteConsKeyIndexKey :: "string \<Rightarrow> int \<Rightarrow> unit staking" where
  "deleteConsKeyIndexKey val ts = smodify (\<lambda>s. s\<lparr>ConsKeyRotationRecordIndexKey :=
     filter (\<lambda>x. \<not> (fst (fst x) = val \<and> time_zero \<le> snd (fst x) \<and> snd (fst x) \<le> ts)) (ConsKeyRotationRecordIndexKey s)\<rparr>)"

definition PurgeAllMaturedConsKeyRotatedKeys :: "int \<Rightarrow> unit staking" where
  "PurgeAllMaturedConsKeyRotatedKeys maturedTime = sbind (getAndRemoveAllMaturedRotatedKeys maturedTime) (\<lambda>addrs.
     sforeach (\<lambda>val. deleteConsKeyIndexKey val maturedTime) addrs)"

definition checkConsKeyAlreadyUsed :: "string \<Rightarrow> unit staking" where
  "checkConsKeyAlreadyUsed newConsAddr =
     sbind (sgets id) (\<lambda>s.
     if map_of (ConsAddrToValidatorIdentifierMap s) newConsAddr \<noteq> None then sfail (ErrStaking ''public key was already used'')
     else sbind GetBlockConsPubKeyRotationHistory (\<lambda>rotationHistory.
     if list_ex (\<lambda>r. NewConsPubkey r = newConsAddr) rotationHistory then sfail (ErrStaking ''public key was already used'')
     else case fst (GetValidatorByConsAddr newConsAddr s) of
         Inr _ \<Rightarrow> sfail (ErrStaking ''validator already exist for this pubkey'') | Inl _ \<Rightarrow> sret ()))"

section \<open>The end of a block\<close>

definition GetUnbondingValidators :: "int \<Rightarrow> int \<Rightarrow> string list staking" where
  "GetUnbondingValidators endTime endHeight = sgets (\<lambda>s.
     case map_of (ValidatorQueue s) (endTime, endHeight) of None \<Rightarrow> [] | Some addrs \<Rightarrow> addrs)"

definition SetUnbondingValidatorsQueue :: "int \<Rightarrow> int \<Rightarrow> string list \<Rightarrow> unit staking" where
  "SetUnbondingValidatorsQueue endTime endHeight addrs = smodify (\<lambda>s.
     s\<lparr>ValidatorQueue := om_set (endTime, endHeight) addrs (ValidatorQueue s)\<rparr>)"

definition InsertUnbondingValidatorQueue :: "Validator \<Rightarrow> unit staking" where
  "InsertUnbondingValidatorQueue v = sbind (GetUnbondingValidators (UnbondingTime v) (UnbondingHeight v)) (\<lambda>addrs.
     SetUnbondingValidatorsQueue (UnbondingTime v) (UnbondingHeight v) (addrs @ [OperatorAddress v]))"

definition DeleteValidatorQueue :: "staking_env \<Rightarrow> Validator \<Rightarrow> unit staking" where
  "DeleteValidatorQueue e v = sbind (GetUnbondingValidators (UnbondingTime v) (UnbondingHeight v)) (\<lambda>addrs.
     sbind (valAddr e (OperatorAddress v)) (\<lambda>deletingAddr.
     sbind (slift (rmap (ValStringToBytes e) addrs)) (\<lambda>stored.
     let newAddrs = map fst (filter (\<lambda>x. snd x \<noteq> deletingAddr) (zip addrs stored)) in
     if newAddrs = [] then smodify (\<lambda>s. s\<lparr>ValidatorQueue := om_del (UnbondingTime v, UnbondingHeight v) (ValidatorQueue s)\<rparr>)
     else SetUnbondingValidatorsQueue (UnbondingTime v) (UnbondingHeight v) newAddrs)))"

definition bondValidator :: "staking_env \<Rightarrow> Validator \<Rightarrow> Validator staking" where
  "bondValidator e v =
     sbind (DeleteValidatorByPowerIndex e v) (\<lambda>_.
     let v = UpdateStatus v Bonded in
     sbind (SetValidator e v) (\<lambda>_.
     sbind (SetValidatorByPowerIndex e v) (\<lambda>_.
     sbind (DeleteValidatorQueue e v) (\<lambda>_.
     sbind (valAddr e (OperatorAddress v)) (\<lambda>str.
     sbind (call_hook e (AfterValidatorBonded (ConsAddr v) str)) (\<lambda>_. sret v))))))"

definition BeginUnbondingValidator :: "staking_env \<Rightarrow> Validator \<Rightarrow> Validator staking" where
  "BeginUnbondingValidator e v = sbind staking_Params (\<lambda>p.
     sbind (DeleteValidatorByPowerIndex e v) (\<lambda>_.
     if Status v \<noteq> Bonded then sfail (ErrStaking ''should not already be unbonded or unbonding'')
     else sbind (sgets id) (\<lambda>s.
       let v = (UpdateStatus v Unbonding)\<lparr>UnbondingTime := STime s + UnbondingPeriod p, UnbondingHeight := SHeight s\<rparr> in
       sbind (SetValidator e v) (\<lambda>_.
       sbind (SetValidatorByPowerIndex e v) (\<lambda>_.
       sbind (InsertUnbondingValidatorQueue v) (\<lambda>_.
       sbind (valAddr e (OperatorAddress v)) (\<lambda>str.
       sbind (call_hook e (AfterValidatorBeginUnbonding (ConsAddr v) str)) (\<lambda>_. sret v))))))))"

definition completeUnbondingValidator :: "staking_env \<Rightarrow> Validator \<Rightarrow> Validator staking" where
  "completeUnbondingValidator e v =
     (let v = UpdateStatus v Unbonded in sbind (SetValidator e v) (\<lambda>_. sret v))"

definition bondedToUnbonding :: "staking_env \<Rightarrow> Validator \<Rightarrow> Validator staking" where
  "bondedToUnbonding e v =
     (if \<not> IsBonded v then sfail (ErrStaking ''bad state transition bondedToUnbonding'') else BeginUnbondingValidator e v)"

definition unbondingToBonded :: "staking_env \<Rightarrow> Validator \<Rightarrow> Validator staking" where
  "unbondingToBonded e v =
     (if \<not> IsUnbonding v then sfail (ErrStaking ''bad state transition unbondingToBonded'') else bondValidator e v)"

definition unbondedToBonded :: "staking_env \<Rightarrow> Validator \<Rightarrow> Validator staking" where
  "unbondedToBonded e v =
     (if \<not> IsUnbonded v then sfail (ErrStaking ''bad state transition unbondedToBonded'') else bondValidator e v)"

definition UnbondingToUnbonded :: "staking_env \<Rightarrow> Validator \<Rightarrow> Validator staking" where
  "UnbondingToUnbonded e v =
     (if \<not> IsUnbonding v then sfail (ErrStaking ''bad state transition unbondingToUnbonded'')
      else completeUnbondingValidator e v)"

definition unbond_mature_validator :: "staking_env \<Rightarrow> string \<Rightarrow> unit staking" where
  "unbond_mature_validator e valStr =
     sbind (valAddr e valStr) (\<lambda>addr.
     sbind (GetValidator addr) (\<lambda>val.
     if \<not> IsUnbonding val then sfail (ErrStaking ''unexpected validator in unbonding queue'')
     else sbind (UnbondingToUnbonded e val) (\<lambda>val.
       sbind (if DelegatorShares val = 0 then sbind (valAddr e (OperatorAddress val)) (RemoveValidator e) else sret ()) (\<lambda>_.
         DeleteValidatorQueue e val))))"

definition unbondMatureValidators :: "staking_env \<Rightarrow> int \<Rightarrow> int \<Rightarrow> (int \<times> int) \<times> string list \<Rightarrow> unit staking" where
  "unbondMatureValidators e blockHeight blockTime = (\<lambda>((keyTime, keyHeight), addrs).
     if keyHeight > blockHeight \<or> keyTime > blockTime then sret ()
     else sforeach (unbond_mature_validator e) addrs)"

definition UnbondAllMatureValidators :: "staking_env \<Rightarrow> unit staking" where
  "UnbondAllMatureValidators e = sbind (sgets id) (\<lambda>s.
     sforeach (unbondMatureValidators e (SHeight s) (STime s)) (filter (\<lambda>x. fst x \<le> (STime s, SHeight s)) (ValidatorQueue s)))"

text \<open>
  The loop over the validators in the order of their power.  It carries the last powers of the validators not yet
  met, the updates for the consensus engine, the total power and the tokens that become bonded.
\<close>

type_synonym ranking = "(string \<times> int) list \<times> (string \<times> int) list \<times> int \<times> int"

definition make_bonded :: "staking_env \<Rightarrow> Validator \<Rightarrow> (Validator \<times> int) staking" where
  "make_bonded e v = (case Status v of
     Unbonded \<Rightarrow> sbind (unbondedToBonded e v) (\<lambda>v. sret (v, Tokens v))
   | Unbonding \<Rightarrow> sbind (unbondingToBonded e v) (\<lambda>v. sret (v, Tokens v))
   | Bonded \<Rightarrow> sret (v, 0)
   | Unspecified \<Rightarrow> sfail (ErrStaking ''unexpected validator status''))"

definition update_power ::
  "staking_env \<Rightarrow> string \<Rightarrow> Validator \<Rightarrow> (string \<times> int) list \<Rightarrow> (string \<times> int) list \<Rightarrow>
     ((string \<times> int) list \<times> (string \<times> int) list \<times> int) staking" where
  "update_power e val v prev updates =
     sbind (slift (ValBytesToString e val)) (\<lambda>valAddrStr.
     sbind (slift (ConsensusPower v DefaultPowerReduction)) (\<lambda>newPower.
     sbind (if map_of prev valAddrStr \<noteq> Some newPower
         then smodify (\<lambda>s. s\<lparr>LastValidatorPower := om_set val newPower (LastValidatorPower s)\<rparr>) else sret ()) (\<lambda>_.
       sret (om_del valAddrStr prev,
         if map_of prev valAddrStr \<noteq> Some newPower then updates @ [(ConsAddr v, newPower)] else updates, newPower))))"

fun apply_ranking :: "staking_env \<Rightarrow> nat \<Rightarrow> string list \<Rightarrow> ranking \<Rightarrow> ranking staking" where
  "apply_ranking e 0 vals acc = sret acc"
| "apply_ranking e n [] acc = sret acc"
| "apply_ranking e (Suc n) (val # vals) (prev, updates, totalPower, toBonded) =
     sbind (GetValidator val) (\<lambda>v.
     if Jailed v then sfail (ErrStaking ''should never retrieve a jailed validator from the power store'')
     else sbind (slift (PotentialConsensusPower v DefaultPowerReduction)) (\<lambda>pow.
     if pow = 0 then sret (prev, updates, totalPower, toBonded)
     else sbind (make_bonded e v) (\<lambda>(v, bonded).
       sbind (slift (Int_Add toBonded bonded)) (\<lambda>toBonded.
       sbind (update_power e val v prev updates) (\<lambda>(prev, updates, newPower).
       sbind (slift (Int_Add totalPower newPower)) (\<lambda>totalPower.
         apply_ranking e n vals (prev, updates, totalPower, toBonded)))))))"

definition getLastValidatorsByAddr :: "staking_env \<Rightarrow> (string \<times> int) list staking" where
  "getLastValidatorsByAddr e = sbind (sgets LastValidatorPower) (\<lambda>ps.
     slift (rfold (\<lambda>prev (key, pow). rbind (ValBytesToString e key) (\<lambda>str. Inr (om_set str pow prev))) [] ps))"

definition sortNoLongerBonded :: "staking_env \<Rightarrow> (string \<times> int) list \<Rightarrow> string list res" where
  "sortNoLongerBonded e prev = rbind (rmap (\<lambda>x. ValStringToBytes e (fst x)) prev) (\<lambda>addrs. Inr (sort addrs))"

definition drop_validator :: "staking_env \<Rightarrow> (string \<times> int) list \<times> int \<Rightarrow> string \<Rightarrow> ((string \<times> int) list \<times> int) staking" where
  "drop_validator e = (\<lambda>(updates, toNotBonded) val.
     sbind (GetValidator val) (\<lambda>v.
     sbind (bondedToUnbonding e v) (\<lambda>v.
     sbind (valAddr e (OperatorAddress v)) (\<lambda>str.
     sbind (slift (Int_Add toNotBonded (Tokens v))) (\<lambda>toNotBonded.
     sbind (smodify (\<lambda>s. s\<lparr>LastValidatorPower := om_del str (LastValidatorPower s)\<rparr>)) (\<lambda>_.
       sret (updates @ [(ConsAddr v, 0)], toNotBonded)))))))"

text \<open>A rotation of the current block: the old key loses its power and the new key takes it.\<close>

definition rotate_key :: "staking_env \<Rightarrow> (string \<times> int) list \<Rightarrow> ConsPubKeyRotationHistory \<Rightarrow> (string \<times> int) list staking" where
  "rotate_key e updates history = sbind (GetValidator (HOperatorAddress history)) (\<lambda>v.
     if Jailed v \<or> Status v \<noteq> Bonded then sret updates
     else sbind (slift (ConsensusPower v DefaultPowerReduction)) (\<lambda>pow.
       sbind (updateToNewPubkey e v (OldConsPubkey history) (NewConsPubkey history) (HFee history)) (\<lambda>_.
         sret (updates @ [(OldConsPubkey history, 0), (NewConsPubkey history, pow)]))))"

definition ApplyAndReturnValidatorSetUpdates :: "staking_env \<Rightarrow> (string \<times> int) list staking" where
  "ApplyAndReturnValidatorSetUpdates e =
     sbind staking_Params (\<lambda>p.
     sbind (getLastValidatorsByAddr e) (\<lambda>prev.
     sbind (sgets (\<lambda>s. map snd (rev (ValidatorsByPowerIndex s)))) (\<lambda>vals.
     sbind (apply_ranking e (MaxValidators p) vals (prev, [], 0, 0)) (\<lambda>(prev, updates, totalPower, toBonded).
     sbind (slift (sortNoLongerBonded e prev)) (\<lambda>noLongerBonded.
     sbind (sfold (drop_validator e) (updates, 0) noLongerBonded) (\<lambda>(updates, toNotBonded).
     sbind GetBlockConsPubKeyRotationHistory (\<lambda>historyObjects.
     sbind (sfold (rotate_key e) updates historyObjects) (\<lambda>updates.
     sbind (if toBonded > toNotBonded then sbind (slift (Int_Sub toBonded toNotBonded)) (notBondedTokensToBonded e)
         else if toBonded < toNotBonded then sbind (slift (Int_Sub toNotBonded toBonded)) (bondedTokensToNotBonded e)
         else sret ()) (\<lambda>_.
     sbind (if updates = [] then sret () else smodify (\<lambda>s. s\<lparr>LastTotalPower := totalPower\<rparr>)) (\<lambda>_.
       sret updates))))))))))"

definition BlockValidatorUpdates :: "staking_env \<Rightarrow> (string \<times> int) list staking" where
  "BlockValidatorUpdates e =
     sbind (ApplyAndReturnValidatorSetUpdates e) (\<lambda>updates.
     sbind (UnbondAllMatureValidators e) (\<lambda>_.
     sbind (sgets STime) (\<lambda>time.
     sbind (DequeueAllMatureUBDQueue time) (\<lambda>matureUnbonds.
     sbind (sforeach (\<lambda>(delStr, valStr).
         sbind (valAddr e valStr) (\<lambda>val. sbind (accAddr e delStr) (\<lambda>del.
           ignore_error (CompleteUnbonding e del val)))) matureUnbonds) (\<lambda>_.
     sbind DequeueAllMatureRedelegationQueue (\<lambda>matureRedelegations.
     sbind (sforeach (\<lambda>(delStr, srcStr, dstStr).
         sbind (valAddr e srcStr) (\<lambda>src. sbind (valAddr e dstStr) (\<lambda>dst. sbind (accAddr e delStr) (\<lambda>del.
           ignore_error (CompleteRedelegation e del src dst))))) matureRedelegations) (\<lambda>_.
     sbind (PurgeAllMaturedConsKeyRotatedKeys time) (\<lambda>_.
       sret updates))))))))"

section \<open>Messages\<close>

definition valid_amount :: "staking_env \<Rightarrow> Coin \<Rightarrow> unit staking" where
  "valid_amount e c =
     (if \<not> Coin_IsValid (validDenom (SBankEnv e)) c \<or> \<not> Amount c > 0 then sfail (ErrStaking ''invalid amount'') else sret ())"

definition bond_denom_only :: "Coin \<Rightarrow> unit staking" where
  "bond_denom_only c = sbind staking_Params (\<lambda>p.
     if Denom c \<noteq> BondDenom p then sfail (ErrStaking ''invalid coin denomination'') else sret ())"

definition NewValidator :: "string \<Rightarrow> string \<Rightarrow> Description \<Rightarrow> Validator" where
  "NewValidator operator consAddr description =
     \<lparr> OperatorAddress = operator, ConsAddr = consAddr, Jailed = False, Status = Unbonded, Tokens = 0,
       DelegatorShares = LegacyZeroDec, ValDescription = description, UnbondingHeight = 0, UnbondingTime = 0,
       ValCommission = \<lparr> Rate = LegacyZeroDec, MaxRate = LegacyZeroDec, MaxChangeRate = LegacyZeroDec, UpdateTime = 0 \<rparr>,
       MinSelfDelegation = 1 \<rparr>"

record MsgCreateValidator =
  CDescription :: Description
  CCommission :: Commission
  CMinSelfDelegation :: int
  CValidatorAddress :: string
  CPubkey :: string
  CValue :: Coin

definition MsgCreateValidator_Validate :: "staking_env \<Rightarrow> MsgCreateValidator \<Rightarrow> unit staking" where
  "MsgCreateValidator_Validate e msg =
     sbind (valAddr e (CValidatorAddress msg)) (\<lambda>_.
     sbind (valid_amount e (CValue msg)) (\<lambda>_.
     if Description_IsEmpty (CDescription msg) then sfail (ErrStaking ''empty description'')
     else sbind (slift (CommissionRates_Validate (CCommission msg))) (\<lambda>_.
     if \<not> CMinSelfDelegation msg > 0 then sfail (ErrStaking ''minimum self delegation must be a positive integer'')
     else if Amount (CValue msg) < CMinSelfDelegation msg then sfail (ErrStaking ''self delegation is below minimum'')
     else sret ())))"

definition register_validator :: "staking_env \<Rightarrow> Validator \<Rightarrow> string \<Rightarrow> unit staking" where
  "register_validator e v val =
     sbind (SetValidator e v) (\<lambda>_.
     sbind (SetValidatorByConsAddr e v) (\<lambda>_.
     sbind (SetNewValidatorByPowerIndex e v) (\<lambda>_.
       call_hook e (AfterValidatorCreated val))))"

definition msg_CreateValidator :: "staking_env \<Rightarrow> MsgCreateValidator \<Rightarrow> unit staking" where
  "msg_CreateValidator e msg =
     sbind (valAddr e (CValidatorAddress msg)) (\<lambda>val.
     sbind (MsgCreateValidator_Validate e msg) (\<lambda>_.
     sbind staking_Params (\<lambda>p.
     if Rate (CCommission msg) < MinCommissionRate p then sfail (ErrStaking ''commission below the minimum rate'')
     else sbind (sgets id) (\<lambda>s.
     if map_of (Validators s) val \<noteq> None then sfail (ErrStaking ''validator already exist for this operator address'')
     else sbind (slift (KeyAccepted e (CPubkey msg))) (\<lambda>_.
       sbind (checkConsKeyAlreadyUsed (CPubkey msg)) (\<lambda>_.
       sbind (bond_denom_only (CValue msg)) (\<lambda>_.
       sbind (slift (Description_Validate (ValidURI e) (CDescription msg))) (\<lambda>_.
       sbind (slift (SetInitialCommission (NewValidator (CValidatorAddress msg) (CPubkey msg) (CDescription msg))
         ((CCommission msg)\<lparr>UpdateTime := STime s\<rparr>))) (\<lambda>v.
       let v = v\<lparr>MinSelfDelegation := CMinSelfDelegation msg\<rparr> in
       sbind (register_validator e v val) (\<lambda>_.
       sbind (Delegate e val (Amount (CValue msg)) Unbonded v True) (\<lambda>_. sret ())))))))))))"

text \<open>The parts of \<open>EditValidator\<close> for the commission and for the pledge of the operator.\<close>

definition edit_rate_allowed :: "dec option \<Rightarrow> unit staking" where
  "edit_rate_allowed commissionRate = (case commissionRate of
     None \<Rightarrow> sret ()
   | Some r \<Rightarrow> if r > LegacyOneDec \<or> r < 0 then sfail (ErrStaking ''commission rate must be between 0 and 1 (inclusive)'')
       else sbind staking_Params (\<lambda>p.
         if r < MinCommissionRate p then sfail (ErrStaking ''commission below the minimum rate'') else sret ()))"

definition edit_rate :: "staking_env \<Rightarrow> string \<Rightarrow> dec option \<Rightarrow> Validator \<Rightarrow> Validator staking" where
  "edit_rate e val commissionRate v = (case commissionRate of
     None \<Rightarrow> sret v
   | Some r \<Rightarrow> sbind (UpdateValidatorCommission v r) (\<lambda>commission.
       sbind (call_hook e (BeforeValidatorModified val)) (\<lambda>_. sret (v\<lparr>ValCommission := commission\<rparr>))))"

definition edit_pledge :: "int option \<Rightarrow> Validator \<Rightarrow> Validator res" where
  "edit_pledge minSelfDelegation v = (case minSelfDelegation of
     None \<Rightarrow> Inr v
   | Some m \<Rightarrow> if \<not> m > MinSelfDelegation v then Inl (ErrStaking ''minimum self delegation cannot be decrease'')
       else if m > Tokens v then Inl (ErrStaking ''self delegation is below minimum'')
       else Inr (v\<lparr>MinSelfDelegation := m\<rparr>))"

definition msg_EditValidator :: "staking_env \<Rightarrow> string \<Rightarrow> Description \<Rightarrow> dec option \<Rightarrow> int option \<Rightarrow> unit staking" where
  "msg_EditValidator e valStr description commissionRate minSelfDelegation =
     sbind (valAddr e valStr) (\<lambda>val.
     if Description_IsEmpty description then sfail (ErrStaking ''empty description'')
     else if (case minSelfDelegation of None \<Rightarrow> False | Some m \<Rightarrow> \<not> m > 0)
     then sfail (ErrStaking ''minimum self delegation must be a positive integer'')
     else sbind (edit_rate_allowed commissionRate) (\<lambda>_.
     sbind (GetValidator val) (\<lambda>v.
     sbind (slift (UpdateDescription (ValidURI e) (ValDescription v) description)) (\<lambda>d.
     sbind (edit_rate e val commissionRate (v\<lparr>ValDescription := d\<rparr>)) (\<lambda>v.
     sbind (slift (edit_pledge minSelfDelegation v)) (SetValidator e))))))"

definition msg_Delegate :: "staking_env \<Rightarrow> string \<Rightarrow> string \<Rightarrow> Coin \<Rightarrow> unit staking" where
  "msg_Delegate e delStr valStr amount =
     sbind (valAddr e valStr) (\<lambda>val.
     sbind (accAddr e delStr) (\<lambda>del.
     sbind (valid_amount e amount) (\<lambda>_.
     sbind (GetValidator val) (\<lambda>validator.
     sbind (bond_denom_only amount) (\<lambda>_.
     sbind (Delegate e del (Amount amount) Unbonded validator True) (\<lambda>_. sret ()))))))"

definition msg_BeginRedelegate :: "staking_env \<Rightarrow> string \<Rightarrow> string \<Rightarrow> string \<Rightarrow> Coin \<Rightarrow> int staking" where
  "msg_BeginRedelegate e delStr srcStr dstStr amount =
     sbind (valAddr e srcStr) (\<lambda>src.
     sbind (valAddr e dstStr) (\<lambda>dst.
     sbind (accAddr e delStr) (\<lambda>del.
     sbind (valid_amount e amount) (\<lambda>_.
     sbind (ValidateUnbondAmount del src (Amount amount)) (\<lambda>shares.
     sbind (bond_denom_only amount) (\<lambda>_. BeginRedelegation e del src dst shares))))))"

definition msg_Undelegate :: "staking_env \<Rightarrow> string \<Rightarrow> string \<Rightarrow> Coin \<Rightarrow> (int \<times> Coin) staking" where
  "msg_Undelegate e delStr valStr amount =
     sbind (valAddr e valStr) (\<lambda>val.
     sbind (accAddr e delStr) (\<lambda>del.
     sbind (valid_amount e amount) (\<lambda>_.
     sbind (ValidateUnbondAmount del val (Amount amount)) (\<lambda>shares.
     sbind (bond_denom_only amount) (\<lambda>_.
     sbind (Undelegate e del val shares) (\<lambda>(completionTime, undelegatedAmt).
     sbind (slift (NewCoin (validDenom (SBankEnv e)) (Denom amount) undelegatedAmt)) (\<lambda>coin. sret (completionTime, coin))))))))"

fun find_height :: "int \<Rightarrow> UnbondingDelegationEntry list \<Rightarrow> nat option" where
  "find_height h [] = None"
| "find_height h (x # xs) = (if CreationHeight x = h then Some 0 else map_option Suc (find_height h xs))"

definition cancel_entry :: "UnbondingDelegation \<Rightarrow> nat \<Rightarrow> int \<Rightarrow> UnbondingDelegation res" where
  "cancel_entry ubd i n = (let entry = UEntries ubd ! i in
     rbind (Int_Sub (Balance entry) n) (\<lambda>amount.
       if amount = 0 then Inr (ubd_RemoveEntry ubd i)
       else rbind (Int_Sub (InitialBalance entry) n) (\<lambda>ib.
         Inr (ubd\<lparr>UEntries := (UEntries ubd)[i := entry\<lparr>Balance := amount, InitialBalance := ib\<rparr>]\<rparr>))))"

definition msg_CancelUnbondingDelegation :: "staking_env \<Rightarrow> string \<Rightarrow> string \<Rightarrow> Coin \<Rightarrow> int \<Rightarrow> unit staking" where
  "msg_CancelUnbondingDelegation e delStr valStr amount creationHeight =
     sbind (valAddr e valStr) (\<lambda>val.
     sbind (accAddr e delStr) (\<lambda>del.
     sbind (valid_amount e amount) (\<lambda>_.
     if creationHeight \<le> 0 then sfail (ErrStaking ''invalid height'')
     else sbind (bond_denom_only amount) (\<lambda>_.
     sbind (GetValidator val) (\<lambda>validator.
     if InvalidExRate validator then sfail (ErrStaking ''cannot delegate to validators with invalid (zero) ex-rate'')
     else if Jailed validator then sfail (ErrStaking ''validator already jailed'')
     else sbind (GetUnbondingDelegation del val) (\<lambda>ubd.
     case find_height creationHeight (UEntries ubd) of
       None \<Rightarrow> sfail (ErrStaking ''unbonding delegation entry is not found'')
     | Some i \<Rightarrow>
         if Balance (UEntries ubd ! i) < Amount amount then sfail (ErrStaking ''amount is greater than the entry balance'')
         else sbind (sgets STime) (\<lambda>now.
         if CompletionTime (UEntries ubd ! i) < now then sfail (ErrStaking ''unbonding delegation is already processed'')
         else sbind (Delegate e del (Amount amount) Unbonding validator False) (\<lambda>_.
           sbind (slift (cancel_entry ubd i (Amount amount))) (\<lambda>ubd.
             if UEntries ubd = [] then RemoveUnbondingDelegation e ubd else SetUnbondingDelegation e ubd)))))))))"

section \<open>Queries\<close>

text \<open>The two loops that fill an array of \<open>maxRetrieve\<close> elements: by index, and by appending.\<close>

fun fill_slots :: "nat \<Rightarrow> nat \<Rightarrow> 'a list \<Rightarrow> 'a list \<Rightarrow> 'a list \<times> nat" where
  "fill_slots maxRetrieve i slots [] = (slots, i)"
| "fill_slots maxRetrieve i slots (x # xs) =
     (if i \<ge> maxRetrieve then (slots, i) else fill_slots maxRetrieve (i + 1) (slots[i := x]) xs)"

fun append_slots :: "nat \<Rightarrow> nat \<Rightarrow> 'a list \<Rightarrow> 'a list \<Rightarrow> 'a list \<times> nat" where
  "append_slots maxRetrieve i slots [] = (slots, i)"
| "append_slots maxRetrieve i slots (x # xs) =
     (if i + 1 \<ge> maxRetrieve then (slots @ [x], i + 1) else append_slots maxRetrieve (i + 1) (slots @ [x]) xs)"

definition no_delegation :: Delegation where
  "no_delegation = \<lparr> DelegatorAddress = [], ValidatorAddress = [], Shares = 0 \<rparr>"

definition no_unbonding :: UnbondingDelegation where
  "no_unbonding = \<lparr> UDelegatorAddress = [], UValidatorAddress = [], UEntries = [] \<rparr>"

definition no_redelegation :: Redelegation where
  "no_redelegation = \<lparr> RDelegatorAddress = [], ValidatorSrcAddress = [], ValidatorDstAddress = [], REntries = [] \<rparr>"

definition GetAllDelegations :: "Delegation list staking" where
  "GetAllDelegations = sgets (\<lambda>s. map snd (Delegations s))"

definition GetValidatorDelegations :: "string \<Rightarrow> Delegation list staking" where
  "GetValidatorDelegations val = sbind (sgets id) (\<lambda>s.
     slift (rmap (\<lambda>x. case map_of (Delegations s) (snd (fst x), val) of
         None \<Rightarrow> Inl (Err ''collections: not found'') | Some d \<Rightarrow> Inr d)
       (filter (\<lambda>x. fst (fst x) = val) (DelegationsByValidator s))))"

definition GetDelegatorDelegations :: "string \<Rightarrow> nat \<Rightarrow> Delegation list staking" where
  "GetDelegatorDelegations delegator maxRetrieve = sgets (\<lambda>s.
     let (ds, i) = fill_slots maxRetrieve 0 (replicate maxRetrieve no_delegation)
       (map snd (filter (\<lambda>x. fst (fst x) = delegator) (Delegations s))) in take i ds)"

definition GetUnbondingDelegations :: "string \<Rightarrow> nat \<Rightarrow> UnbondingDelegation list staking" where
  "GetUnbondingDelegations delegator maxRetrieve = sgets (\<lambda>s.
     let (us, i) = append_slots maxRetrieve 0 (replicate maxRetrieve no_unbonding)
       (map snd (filter (\<lambda>x. fst (fst x) = delegator) (UnbondingDelegations s))) in take i us)"

definition GetRedelegations :: "string \<Rightarrow> nat \<Rightarrow> Redelegation list staking" where
  "GetRedelegations delegator maxRetrieve = sgets (\<lambda>s.
     let (rs, i) = fill_slots maxRetrieve 0 (replicate maxRetrieve no_redelegation)
       (map snd (filter (\<lambda>x. fst (fst x) = delegator) (Redelegations s))) in take i rs)"

definition GetDelegatorUnbonding :: "string \<Rightarrow> int staking" where
  "GetDelegatorUnbonding delegator = sbind (sgets UnbondingDelegations) (\<lambda>us.
     slift (rfold (\<lambda>unbonding x. rfold (\<lambda>unbonding entry. Int_Add unbonding (Balance entry)) unbonding (UEntries (snd x))) 0
       (filter (\<lambda>x. fst (fst x) = delegator) us)))"

definition GetDelegatorBonded :: "staking_env \<Rightarrow> string \<Rightarrow> int staking" where
  "GetDelegatorBonded e delegator = sbind (sgets id) (\<lambda>s.
     slift (rbind (rfold (\<lambda>bonded x.
         rbind (ValStringToBytes e (ValidatorAddress (snd x))) (\<lambda>val. case map_of (Validators s) val of
           None \<Rightarrow> Inr bonded
         | Some v \<Rightarrow> rbind (TokensFromSharesTruncated v (Shares (snd x))) (Dec_Add bonded))) LegacyZeroDec
       (filter (\<lambda>x. fst (fst x) = delegator) (Delegations s))) Dec_RoundInt))"

section \<open>Parameters and key rotation\<close>

definition is_space :: "char \<Rightarrow> bool" where
  "is_space c \<longleftrightarrow> (of_char c :: nat) \<in> {9, 10, 11, 12, 13, 32}"

definition validateKeyRotationFee :: "(string \<Rightarrow> bool) \<Rightarrow> string \<Rightarrow> Coin \<Rightarrow> unit res" where
  "validateKeyRotationFee vd bondDenom coin =
     rbind (NewCoin vd bondDenom 0) (\<lambda>zero.
     rbind (Coin_IsLTE coin zero) (\<lambda>le.
       if le then Inl (ErrStaking ''cons pubkey rotation fee cannot be negative or zero'') else Inr ()))"

definition StakingParams_Validate :: "(string \<Rightarrow> bool) \<Rightarrow> StakingParams \<Rightarrow> unit res" where
  "StakingParams_Validate vd p =
     (if UnbondingPeriod p < 0 then Inl (ErrStaking ''unbonding time must not be negative'')
      else if MaxValidators p = 0 then Inl (ErrStaking ''max validators must be positive'')
      else if MaxEntries p = 0 then Inl (ErrStaking ''max entries must be positive'')
      else if list_all is_space (BondDenom p) then Inl (ErrStaking ''bond denom cannot be blank'')
      else if \<not> vd (BondDenom p) then Inl (ErrStaking ''invalid denom'')
      else if MinCommissionRate p < 0 then Inl (ErrStaking ''minimum commission rate cannot be negative'')
      else if MinCommissionRate p > LegacyOneDec then Inl (ErrStaking ''minimum commission rate cannot be greater than 100%'')
      else validateKeyRotationFee vd (BondDenom p) (KeyRotationFee p))"

definition raise_commission :: "staking_env \<Rightarrow> dec \<Rightarrow> Validator \<Rightarrow> unit staking" where
  "raise_commission e minRate v =
     (if Rate (ValCommission v) < minRate then sbind (sgets STime) (\<lambda>now.
        SetValidator e (v\<lparr>ValCommission := (ValCommission v)\<lparr>Rate := minRate,
          MaxRate := (if MaxRate (ValCommission v) < minRate then minRate else MaxRate (ValCommission v)), UpdateTime := now\<rparr>\<rparr>))
      else sret ())"

definition msg_UpdateStakingParams :: "staking_env \<Rightarrow> string \<Rightarrow> StakingParams \<Rightarrow> unit staking" where
  "msg_UpdateStakingParams e auth params =
     (if StakingAuthority e \<noteq> auth then sfail (ErrStaking ''invalid authority'')
      else sbind (slift (StakingParams_Validate (validDenom (SBankEnv e)) params)) (\<lambda>_.
        sbind staking_Params (\<lambda>previousParams.
        sbind (smodify (\<lambda>s. s\<lparr>SParams := Some params\<rparr>)) (\<lambda>_.
        if MinCommissionRate previousParams = MinCommissionRate params then sret ()
        else sbind (sgets (\<lambda>s. map snd (Validators s))) (sforeach (raise_commission e (MinCommissionRate params)))))))"

definition PoolModuleName :: string where
  "PoolModuleName = ''protocolpool''"

definition msg_RotateConsPubKey :: "staking_env \<Rightarrow> string \<Rightarrow> string \<Rightarrow> unit staking" where
  "msg_RotateConsPubKey e valStr newPubkey =
     sbind (slift (KeyAccepted e newPubkey)) (\<lambda>_.
     sbind (checkConsKeyAlreadyUsed newPubkey) (\<lambda>_.
     sbind (valAddr e valStr) (\<lambda>val.
     sbind (GetValidator val) (\<lambda>v.
     if OperatorAddress v = [] then sfail ErrNoValidatorFound
     else if Status v \<noteq> Bonded then sfail (ErrStaking ''validator status is not bonded'')
     else sbind (ExceedsMaxRotations val) (\<lambda>_.
       sbind staking_Params (\<lambda>p.
       sbind (slift (NewCoins (validDenom (SBankEnv e)) [KeyRotationFee p])) (\<lambda>fee.
       sbind (in_bank (SendCoinsFromAccountToModule (SBankEnv e) val PoolModuleName fee)) (\<lambda>_.
         setConsPubKeyRotationHistory val (ConsAddr v) newPubkey (KeyRotationFee p)))))))))"

end
