(* ===== verification/StakingInv.thy ===== *)
theory StakingInv
  imports Staking
begin

text \<open>
  The books of \<open>x/staking\<close>: the shares of a validator are the sum of its delegations, and the two pools of the
  module hold at least the tokens of the validators and the balances of the unbonding delegations.
\<close>

section \<open>What an operation leaves alone\<close>

definition keeps :: "('s \<Rightarrow> 'b) \<Rightarrow> ('s, 'a) sm \<Rightarrow> bool" where
  "keeps f m \<longleftrightarrow> (\<forall>s. f (snd (m s)) = f s)"

named_theorems keeps_intros "composition rules for the parts of the state that an operation leaves alone"

lemma keepsD: "keeps f m \<Longrightarrow> m s = (r, t) \<Longrightarrow> f t = f s"
  unfolding keeps_def by (metis snd_conv)

lemma keeps_prim [keeps_intros]:
  "keeps f (sret x)" "keeps f (sfail err)" "keeps f (sgets g)" "keeps f (slift r)"
  by (simp_all add: keeps_def sm_run)

lemma keeps_modify [keeps_intros]: "(\<And>s. f (g s) = f s) \<Longrightarrow> keeps f (smodify g)"
  by (simp add: keeps_def sm_run)

lemma keeps_sbind [keeps_intros]: "keeps f m \<Longrightarrow> (\<And>x. keeps f (k x)) \<Longrightarrow> keeps f (sbind m k)"
  by (auto simp: keeps_def sbind_def split: prod.splits sum.splits) (metis snd_conv)+

lemma keeps_cases [keeps_intros]:
  "(b \<Longrightarrow> keeps f m) \<Longrightarrow> (\<not> b \<Longrightarrow> keeps f n) \<Longrightarrow> keeps f (if b then m else n)"
  "keeps f m' \<Longrightarrow> (\<And>x. keeps f (k' x)) \<Longrightarrow> keeps f (case o' of None \<Rightarrow> m' | Some x \<Rightarrow> k' x)"
  "(\<And>x y. keeps f (h x y)) \<Longrightarrow> keeps f (case p of (x, y) \<Rightarrow> h x y)"
  "keeps f m1 \<Longrightarrow> keeps f m2 \<Longrightarrow> keeps f m3 \<Longrightarrow> keeps f m4 \<Longrightarrow>
     keeps f (case status of Unspecified \<Rightarrow> m1 | Unbonded \<Rightarrow> m2 | Unbonding \<Rightarrow> m3 | Bonded \<Rightarrow> m4)"
  "(\<And>x. keeps f (j x)) \<Longrightarrow> (\<And>y. keeps f (j' y)) \<Longrightarrow> keeps f (case r of Inl x \<Rightarrow> j x | Inr y \<Rightarrow> j' y)"
  by (auto split: option.splits prod.splits BondStatus.splits sum.splits)

lemma keeps_in_bank [keeps_intros]: "(\<And>s b. f (s\<lparr>SBank := b\<rparr>) = f s) \<Longrightarrow> keeps f (in_bank m)"
  by (auto simp: keeps_def in_bank_def Let_def split: prod.splits)

section \<open>The books\<close>

definition bonded_tokens :: "Validator \<Rightarrow> int" where
  "bonded_tokens v = (if Status v = Bonded then Tokens v else 0)"

definition other_tokens :: "Validator \<Rightarrow> int" where
  "other_tokens v = (if Status v = Bonded then 0 else Tokens v)"

definition entries_sum :: "UnbondingDelegation \<Rightarrow> int" where
  "entries_sum u = (\<Sum>x\<leftarrow>UEntries u. Balance x)"

definition bonded_owed :: "staking_state \<Rightarrow> int" where
  "bonded_owed s = (\<Sum>x\<leftarrow>Validators s. bonded_tokens (snd x))"

definition not_bonded_owed :: "staking_state \<Rightarrow> int" where
  "not_bonded_owed s = (\<Sum>x\<leftarrow>Validators s. other_tokens (snd x)) + (\<Sum>x\<leftarrow>UnbondingDelegations s. entries_sum (snd x))"

definition pool_addr :: "staking_env \<Rightarrow> string \<Rightarrow> string" where
  "pool_addr e name = (case GetModuleAddress (SBankEnv e) name of None \<Rightarrow> [] | Some a \<Rightarrow> a)"

definition bond_denom :: "staking_state \<Rightarrow> string" where
  "bond_denom s = (case SParams s of None \<Rightarrow> [] | Some p \<Rightarrow> BondDenom p)"

definition bonded_slack :: "staking_env \<Rightarrow> staking_state \<Rightarrow> int" where
  "bonded_slack e s = bal (SBank s) (pool_addr e BondedPoolName) (bond_denom s) - bonded_owed s"

definition not_bonded_slack :: "staking_env \<Rightarrow> staking_state \<Rightarrow> int" where
  "not_bonded_slack e s = bal (SBank s) (pool_addr e NotBondedPoolName) (bond_denom s) - not_bonded_owed s"

definition delegated :: "staking_state \<Rightarrow> string \<Rightarrow> dec" where
  "delegated s a = (\<Sum>x\<leftarrow>Delegations s. if snd (fst x) = a then Shares (snd x) else 0)"

definition shares_of :: "staking_state \<Rightarrow> string \<Rightarrow> dec" where
  "shares_of s a = (case map_of (Validators s) a of None \<Rightarrow> 0 | Some v \<Rightarrow> DelegatorShares v)"

definition val_ok :: "staking_env \<Rightarrow> string \<Rightarrow> Validator \<Rightarrow> bool" where
  "val_ok e a v \<longleftrightarrow> ValStringToBytes e (OperatorAddress v) = Inr a \<and> 0 \<le> Tokens v \<and> int256 (Tokens v) \<and> 0 \<le> DelegatorShares v"

definition del_ok :: "staking_env \<Rightarrow> string \<times> string \<Rightarrow> Delegation \<Rightarrow> bool" where
  "del_ok e k d \<longleftrightarrow> StringToBytes (SBankEnv e) (DelegatorAddress d) = Inr (fst k) \<and>
     ValStringToBytes e (ValidatorAddress d) = Inr (snd k) \<and> 0 \<le> Shares d"

definition entry_ok :: "UnbondingDelegationEntry \<Rightarrow> bool" where
  "entry_ok x \<longleftrightarrow> 0 \<le> Balance x \<and> Balance x \<le> InitialBalance x \<and> int256 (Balance x)"

definition ubd_ok :: "staking_env \<Rightarrow> string \<times> string \<Rightarrow> UnbondingDelegation \<Rightarrow> bool" where
  "ubd_ok e k u \<longleftrightarrow> StringToBytes (SBankEnv e) (UDelegatorAddress u) = Inr (fst k) \<and>
     ValStringToBytes e (UValidatorAddress u) = Inr (snd k) \<and> (\<forall>x \<in> set (UEntries u). entry_ok x)"

definition red_ok :: "staking_env \<Rightarrow> string \<times> string \<times> string \<Rightarrow> Redelegation \<Rightarrow> bool" where
  "red_ok e k r \<longleftrightarrow> StringToBytes (SBankEnv e) (RDelegatorAddress r) = Inr (fst k) \<and>
     ValStringToBytes e (ValidatorSrcAddress r) = Inr (fst (snd k)) \<and>
     ValStringToBytes e (ValidatorDstAddress r) = Inr (snd (snd k)) \<and> fst (snd k) \<noteq> snd (snd k) \<and>
     (\<forall>x \<in> set (REntries r). 0 \<le> RInitialBalance x)"

text \<open>
  Well-formedness, with a discrepancy \<open>D\<close> between the shares of a validator and the sum of its delegations: it is
  zero between operations, and different from zero while an operation has changed one and not yet the other.
\<close>

definition wf :: "staking_env \<Rightarrow> (string \<Rightarrow> dec) \<Rightarrow> staking_state \<Rightarrow> bool" where
  "wf e D s \<longleftrightarrow> bank_ok (SBankEnv e) (SBank s) \<and> (\<exists>p. SParams s = Some p \<and> int256 (Amount (KeyRotationFee p))) \<and>
     om_ok (Validators s) \<and> om_ok (Delegations s) \<and> om_ok (UnbondingDelegations s) \<and> om_ok (Redelegations s) \<and>
     (\<forall>a v. map_of (Validators s) a = Some v \<longrightarrow> val_ok e a v) \<and>
     (\<forall>k d. map_of (Delegations s) k = Some d \<longrightarrow> del_ok e k d) \<and>
     (\<forall>k u. map_of (UnbondingDelegations s) k = Some u \<longrightarrow> ubd_ok e k u) \<and>
     (\<forall>k r. map_of (Redelegations s) k = Some r \<longrightarrow> red_ok e k r) \<and>
     om_ok (UnbondingDelegationByValIndex s) \<and>
     (\<forall>a b. map_of (UnbondingDelegationByValIndex s) (b, a) = None \<longleftrightarrow> map_of (UnbondingDelegations s) (a, b) = None) \<and>
     (\<forall>a. shares_of s a = delegated s a + D a)"

definition staking_ok :: "staking_env \<Rightarrow> staking_state \<Rightarrow> bool" where
  "staking_ok e s \<longleftrightarrow> wf e (\<lambda>_. 0) s \<and> bonded_owed s \<le> bal (SBank s) (pool_addr e BondedPoolName) (bond_denom s) \<and>
     not_bonded_owed s \<le> bal (SBank s) (pool_addr e NotBondedPoolName) (bond_denom s)"

text \<open>
  What is assumed of the environment: the pools are two module accounts and no send restriction diverts a
  transfer between them; decoding a printed address gives the address; and a hook that succeeds keeps the
  invariant of the bank and takes nothing out of the pools.
\<close>

definition env_ok :: "staking_env \<Rightarrow> bool" where
  "env_ok e \<longleftrightarrow>
     GetModuleAddress (SBankEnv e) BondedPoolName \<noteq> None \<and> GetModuleAddress (SBankEnv e) NotBondedPoolName \<noteq> None \<and>
     pool_addr e BondedPoolName \<noteq> pool_addr e NotBondedPoolName \<and>
     (\<forall>cs r. sendRestriction_apply (SBankEnv e) (pool_addr e BondedPoolName) (pool_addr e NotBondedPoolName) cs = Inr r \<longrightarrow>
        r = pool_addr e NotBondedPoolName) \<and>
     (\<forall>cs r. sendRestriction_apply (SBankEnv e) (pool_addr e NotBondedPoolName) (pool_addr e BondedPoolName) cs = Inr r \<longrightarrow>
        r = pool_addr e BondedPoolName) \<and>
     (\<forall>a str. BytesToString (SBankEnv e) a = Inr str \<longrightarrow> StringToBytes (SBankEnv e) str = Inr a) \<and>
     (\<forall>a str. ValBytesToString e a = Inr str \<longrightarrow> ValStringToBytes e str = Inr a) \<and>
     (\<forall>h b b' d. bank_ok (SBankEnv e) b \<and> Hook e h b = (Inr (), b') \<longrightarrow> bank_ok (SBankEnv e) b' \<and>
        bal b (pool_addr e BondedPoolName) d \<le> bal b' (pool_addr e BondedPoolName) d \<and>
        bal b (pool_addr e NotBondedPoolName) d \<le> bal b' (pool_addr e NotBondedPoolName) d)"

text \<open>An effect on the books: the discrepancy afterwards and the least change of the slack of both pools.\<close>

definition reaches :: "staking_env \<Rightarrow> (string \<Rightarrow> dec) \<Rightarrow> int \<Rightarrow> int \<Rightarrow> staking_state \<Rightarrow> staking_state \<Rightarrow> bool" where
  "reaches e D x y s t \<longleftrightarrow> wf e D t \<and> SParams t = SParams s \<and>
     bonded_slack e s + x \<le> bonded_slack e t \<and> not_bonded_slack e s + y \<le> not_bonded_slack e t"

lemma reaches_trans: "reaches e D x y s t \<Longrightarrow> reaches e D' x' y' t u \<Longrightarrow> reaches e D' (x + x') (y + y') s u"
  by (auto simp: reaches_def)

lemma reaches_refl: "wf e D s \<Longrightarrow> reaches e D 0 0 s s"
  by (simp add: reaches_def)

lemma reaches_wf: "reaches e D x y s t \<Longrightarrow> wf e D t"
  by (simp add: reaches_def)

lemma staking_ok_slack: "staking_ok e s \<longleftrightarrow> wf e (\<lambda>_. 0) s \<and> 0 \<le> bonded_slack e s \<and> 0 \<le> not_bonded_slack e s"
  by (auto simp: staking_ok_def bonded_slack_def not_bonded_slack_def)

lemma reaches_ok: "staking_ok e s \<Longrightarrow> reaches e (\<lambda>_. 0) x y s t \<Longrightarrow> 0 \<le> x \<Longrightarrow> 0 \<le> y \<Longrightarrow> staking_ok e t"
  by (auto simp: staking_ok_slack reaches_def)

lemma wfD:
  assumes "wf e D s"
  shows "bank_ok (SBankEnv e) (SBank s)" "om_ok (Validators s)" "om_ok (Delegations s)" "om_ok (UnbondingDelegations s)"
    "map_of (Validators s) a = Some v \<Longrightarrow> val_ok e a v" "map_of (Delegations s) k = Some d \<Longrightarrow> del_ok e k d"
    "map_of (UnbondingDelegations s) k = Some u \<Longrightarrow> ubd_ok e k u" "map_of (Redelegations s) k' = Some r \<Longrightarrow> red_ok e k' r"
    "shares_of s a = delegated s a + D a" "om_ok (UnbondingDelegationByValIndex s)"
    "map_of (UnbondingDelegationByValIndex s) (b, a) = None \<longleftrightarrow> map_of (UnbondingDelegations s) (a, b) = None"
  using assms unfolding wf_def by blast+

subsection \<open>Single writes\<close>

lemma bank_step:
  assumes "wf e D s" "bank_ok (SBankEnv e) b"
    and "\<And>d. bal (SBank s) (pool_addr e BondedPoolName) d + (if d = bond_denom s then x else 0) \<le> bal b (pool_addr e BondedPoolName) d"
    and "\<And>d. bal (SBank s) (pool_addr e NotBondedPoolName) d + (if d = bond_denom s then y else 0) \<le> bal b (pool_addr e NotBondedPoolName) d"
  shows "reaches e D x y s (s\<lparr>SBank := b\<rparr>)"
  using assms(1,2) assms(3) [of "bond_denom s"] assms(4) [of "bond_denom s"]
  by (auto simp: reaches_def wf_def bonded_slack_def not_bonded_slack_def bonded_owed_def not_bonded_owed_def bond_denom_def
      shares_of_def delegated_def)

lemma validator_step:
  assumes "wf e D s" "val_ok e a v"
  shows "reaches e (D(a := D a + DelegatorShares v - shares_of s a))
    ((case map_of (Validators s) a of None \<Rightarrow> 0 | Some w \<Rightarrow> bonded_tokens w) - bonded_tokens v)
    ((case map_of (Validators s) a of None \<Rightarrow> 0 | Some w \<Rightarrow> other_tokens w) - other_tokens v)
    s (s\<lparr>Validators := om_set a v (Validators s)\<rparr>)"
  using assms wfD(9) [OF assms(1), of a] om_set_sum [OF wfD(2) [OF assms(1)], of "\<lambda>x. bonded_tokens (snd x)" a v]
    om_set_sum [OF wfD(2) [OF assms(1)], of "\<lambda>x. other_tokens (snd x)" a v]
  by (cases "map_of (Validators s) a") (auto simp: reaches_def wf_def bonded_slack_def not_bonded_slack_def bonded_owed_def not_bonded_owed_def bond_denom_def
      shares_of_def delegated_def om_simps)

lemma validator_del_step:
  assumes "wf e D s" "map_of (Validators s) a = Some v"
  shows "reaches e (D(a := D a - DelegatorShares v)) (bonded_tokens v) (other_tokens v)
    s (s\<lparr>Validators := om_del a (Validators s)\<rparr>)"
  using assms wfD(9) [OF assms(1), of a] om_del_sum [OF wfD(2) [OF assms(1)], of "\<lambda>x. bonded_tokens (snd x)" a]
    om_del_sum [OF wfD(2) [OF assms(1)], of "\<lambda>x. other_tokens (snd x)" a]
  by (auto simp: reaches_def wf_def bonded_slack_def not_bonded_slack_def bonded_owed_def not_bonded_owed_def bond_denom_def
      shares_of_def delegated_def om_simps split: if_splits)

definition shares_at :: "staking_state \<Rightarrow> string \<times> string \<Rightarrow> dec" where
  "shares_at s k = (case map_of (Delegations s) k of None \<Rightarrow> 0 | Some d \<Rightarrow> Shares d)"

lemma delegation_step:
  assumes "wf e D s" "del_ok e k d"
  shows "reaches e (D(snd k := D (snd k) - (Shares d - shares_at s k))) 0 0 s (s\<lparr>Delegations := om_set k d (Delegations s)\<rparr>)"
proof -
  have "delegated (s\<lparr>Delegations := om_set k d (Delegations s)\<rparr>) a =
      delegated s a + (if snd k = a then Shares d - shares_at s k else 0)" for a
    using om_set_sum [OF wfD(3) [OF assms(1)], of "\<lambda>x. if snd (fst x) = a then Shares (snd x) else 0" k d]
    by (auto simp: delegated_def shares_at_def split: option.splits)
  with assms show ?thesis
    by (auto simp: reaches_def wf_def bonded_slack_def not_bonded_slack_def bonded_owed_def not_bonded_owed_def bond_denom_def
        shares_of_def om_simps)
qed

lemma delegation_del_step:
  assumes "wf e D s"
  shows "reaches e (D(snd k := D (snd k) + shares_at s k)) 0 0 s (s\<lparr>Delegations := om_del k (Delegations s)\<rparr>)"
proof -
  have "delegated (s\<lparr>Delegations := om_del k (Delegations s)\<rparr>) a =
      delegated s a - (if snd k = a then shares_at s k else 0)" for a
    using om_del_sum [OF wfD(3) [OF assms(1)], of "\<lambda>x. if snd (fst x) = a then Shares (snd x) else 0" k]
    by (auto simp: delegated_def shares_at_def split: option.splits)
  with assms show ?thesis
    by (auto simp: reaches_def wf_def bonded_slack_def not_bonded_slack_def bonded_owed_def not_bonded_owed_def bond_denom_def
        shares_of_def om_simps split: if_splits)
qed

definition unbonding_at :: "staking_state \<Rightarrow> string \<times> string \<Rightarrow> int" where
  "unbonding_at s k = (case map_of (UnbondingDelegations s) k of None \<Rightarrow> 0 | Some u \<Rightarrow> entries_sum u)"

lemma unbonding_step:
  assumes "wf e D s" "ubd_ok e k u"
  shows "reaches e D 0 (unbonding_at s k - entries_sum u) s
    (s\<lparr>UnbondingDelegations := om_set k u (UnbondingDelegations s),
       UnbondingDelegationByValIndex := om_set (snd k, fst k) () (UnbondingDelegationByValIndex s)\<rparr>)"
  using assms om_set_sum [OF wfD(4) [OF assms(1)], of "\<lambda>x. entries_sum (snd x)" k u]
  by (cases "map_of (UnbondingDelegations s) k") (auto simp: reaches_def wf_def bonded_slack_def not_bonded_slack_def bonded_owed_def not_bonded_owed_def bond_denom_def
      shares_of_def delegated_def unbonding_at_def om_simps)

lemma unbonding_del_step:
  assumes "wf e D s"
  shows "reaches e D 0 (unbonding_at s k) s
    (s\<lparr>UnbondingDelegations := om_del k (UnbondingDelegations s),
       UnbondingDelegationByValIndex := om_del (snd k, fst k) (UnbondingDelegationByValIndex s)\<rparr>)"
  using assms om_del_sum [OF wfD(4) [OF assms(1)], of "\<lambda>x. entries_sum (snd x)" k]
  by (cases "map_of (UnbondingDelegations s) k") (auto simp: reaches_def wf_def bonded_slack_def not_bonded_slack_def bonded_owed_def not_bonded_owed_def bond_denom_def
      shares_of_def delegated_def unbonding_at_def om_simps split: if_splits)

text \<open>The other collections are not part of the books.\<close>

definition books :: "staking_state \<Rightarrow> bank_state \<times> StakingParams option \<times> (string \<times> Validator) list \<times>
    ((string \<times> string) \<times> Delegation) list \<times> ((string \<times> string) \<times> UnbondingDelegation) list \<times>
    ((string \<times> string \<times> string) \<times> Redelegation) list \<times> ((string \<times> string) \<times> unit) list" where
  "books s = (SBank s, SParams s, Validators s, Delegations s, UnbondingDelegations s, Redelegations s, UnbondingDelegationByValIndex s)"

lemma reaches_books: "books u = books t \<Longrightarrow> reaches e D x y s t \<longleftrightarrow> reaches e D x y s u"
  "books u = books t \<Longrightarrow> wf e D t \<longleftrightarrow> wf e D u"
  by (simp_all add: books_def reaches_def wf_def bonded_slack_def not_bonded_slack_def bonded_owed_def not_bonded_owed_def
      bond_denom_def shares_of_def delegated_def)

lemma redelegation_step:
  assumes "wf e D s" "red_ok e k r"
  shows "reaches e D 0 0 s (s\<lparr>Redelegations := om_set k r (Redelegations s)\<rparr>)"
    "reaches e D 0 0 s (s\<lparr>Redelegations := om_del k (Redelegations s)\<rparr>)"
  using assms
  by (auto simp: reaches_def wf_def bonded_slack_def not_bonded_slack_def bonded_owed_def not_bonded_owed_def bond_denom_def
      shares_of_def delegated_def om_simps split: if_splits)

section \<open>The pools\<close>

lemma in_bank_Inr: "in_bank m s = (Inr x, t) \<longleftrightarrow> (\<exists>b. m (SBank s) = (Inr x, b) \<and> t = s\<lparr>SBank := b\<rparr>)"
  by (auto simp: in_bank_def Let_def split: prod.splits)

lemma staking_Params_run: "wf e D s \<Longrightarrow> staking_Params s = (Inr (the (SParams s)), s)"
  by (auto simp: staking_Params_def sm_run wf_def)

lemma sbind_Params: "wf e D s \<Longrightarrow> sbind staking_Params f s = f (the (SParams s)) s"
  by (simp add: sbind_def staking_Params_run)

lemma bond_denom_the: "wf e D s \<Longrightarrow> BondDenom (the (SParams s)) = bond_denom s"
  by (auto simp: bond_denom_def wf_def)

text \<open>Coins of the bond denomination.\<close>

definition bond_only :: "staking_state \<Rightarrow> int \<Rightarrow> Coin list \<Rightarrow> bool" where
  "bond_only s n cs \<longleftrightarrow> 0 \<le> n \<and> (\<forall>c \<in> set cs. int256 (Amount c)) \<and> (\<forall>d. camt cs d = (if d = bond_denom s then n else 0))"

lemma NewCoins_single:
  assumes "NewCoins vd [\<lparr> Denom = d, Amount = n \<rparr>] = Inr cs" "int256 n"
  shows "(\<forall>c \<in> set cs. int256 (Amount c)) \<and> (\<forall>x. camt cs x = (if x = d then n else 0))"
proof -
  have cs: "cs = sanitizeCoins [\<lparr> Denom = d, Amount = n \<rparr>]" using assms(1) by (simp add: NewCoins_Inr)
  have "set cs \<subseteq> {\<lparr> Denom = d, Amount = n \<rparr>}"
    by (simp add: cs sanitizeCoins_def removeZeroCoins_def Coins_Sort_def Let_def)
  moreover have "camt cs x = (if x = d then n else 0)" for x unfolding cs camt_sanitize by simp
  ultimately show ?thesis using assms(2) by auto
qed

lemma bond_coins_success:
  assumes "wf e D s" "int256 n" "bond_coins e n s = (Inr cs, t)"
  shows "t = s" "bond_only s n cs"
proof -
  have r: "rbind (NewCoin (validDenom (SBankEnv e)) (bond_denom s) n) (\<lambda>c. NewCoins (validDenom (SBankEnv e)) [c]) = Inr cs" "s = t"
    using assms(3) unfolding bond_coins_def sbind_Params [OF assms(1)] bond_denom_the [OF assms(1)] sm_run prod.inject by blast+
  from r(1) obtain c where c: "NewCoin (validDenom (SBankEnv e)) (bond_denom s) n = Inr c"
    "NewCoins (validDenom (SBankEnv e)) [c] = Inr cs" unfolding rbind_Inr_iff by blast
  from r(2) show "t = s" by simp
  from c NewCoins_single [of _ "bond_denom s" n cs] assms(2) show "bond_only s n cs" by (auto simp: bond_only_def NewCoin_Inr)
qed

lemma hook_step:
  assumes "env_ok e" "wf e D s" "call_hook e h s = (Inr u, t)"
  shows "reaches e D 0 0 s t" "t = s\<lparr>SBank := SBank t\<rparr>"
proof -
  from assms(3) obtain b where b: "Hook e h (SBank s) = (Inr (), b)" "t = s\<lparr>SBank := b\<rparr>"
    by (auto simp: call_hook_def in_bank_Inr)
  show "t = s\<lparr>SBank := SBank t\<rparr>" by (simp add: b(2))
  have "bank_ok (SBankEnv e) b \<and> bal (SBank s) (pool_addr e BondedPoolName) d \<le> bal b (pool_addr e BondedPoolName) d \<and>
      bal (SBank s) (pool_addr e NotBondedPoolName) d \<le> bal b (pool_addr e NotBondedPoolName) d" for d
    using assms(1) wfD(1) [OF assms(2)] b(1) unfolding env_ok_def by blast
  then show "reaches e D 0 0 s t" unfolding b(2) by (intro bank_step [OF assms(2)]) auto
qed

lemma env_pools:
  assumes "env_ok e"
  shows "GetModuleAddress (SBankEnv e) BondedPoolName = Some (pool_addr e BondedPoolName)"
    "GetModuleAddress (SBankEnv e) NotBondedPoolName = Some (pool_addr e NotBondedPoolName)"
    "pool_addr e BondedPoolName \<noteq> pool_addr e NotBondedPoolName" "pool_addr e NotBondedPoolName \<noteq> pool_addr e BondedPoolName"
  using assms by (auto simp: env_ok_def pool_addr_def)

text \<open>A transfer from a module to another whose address the send restriction does not change.\<close>

lemma module_transfer:
  assumes "bank_ok b s" "\<forall>c \<in> set cs. int256 (Amount c)" "SendCoinsFromModuleToModule b m m' cs s = (Inr u, t)"
    and "GetModuleAddress b m = Some x" "GetModuleAddress b m' = Some y"
    and "\<And>r. sendRestriction_apply b x y cs = Inr r \<Longrightarrow> r = y"
  shows "ledger_update b (pay x y cs) (\<lambda>_. 0) s t"
proof -
  from assms(3,4) obtain acc w where w: "GetModuleAccount b m' s = (Inr (Some acc), w)" "SendCoins b x (GetAddress acc) cs w = (Inr u, t)"
    by (auto simp: SendCoinsFromModuleToModule_def sm_simps split: option.splits)
  note l = GetModuleAccount_bank [OF assms(1) w(1)]
  then have y: "GetAddress acc = y" using assms(5) by simp
  have "bank_ok b w" using l by (simp add: ledger_update_def)
  from SendCoins_success [OF this assms(2) w(2)] y assms(6) have "transferred b x y cs w t" by blast
  from ledger_update_trans [OF conjunct1 [OF l] transferred_update [OF this]] show ?thesis by simp
qed

lemma ledger_step_pools:
  assumes "wf e D s" "ledger_update (SBankEnv e) f g (SBank s) b"
    and "\<And>d. (if d = bond_denom s then x else 0) \<le> f (pool_addr e BondedPoolName) d"
    and "\<And>d. (if d = bond_denom s then y else 0) \<le> f (pool_addr e NotBondedPoolName) d"
  shows "reaches e D x y s (s\<lparr>SBank := b\<rparr>)"
  by (rule bank_step [OF assms(1)]) (use assms(2-4) in \<open>auto simp: ledger_update_def simp del: if_split split del: if_split\<close>)

lemma to_not_bonded:
  assumes "env_ok e" "wf e D s" "int256 n" "bondedTokensToNotBonded e n s = (Inr u, t)"
  shows "0 \<le> n" "reaches e D (- n) n s t" "t = s\<lparr>SBank := SBank t\<rparr>"
proof -
  from assms(4) obtain cs w where w: "bond_coins e n s = (Inr cs, w)"
    "in_bank (SendCoinsFromModuleToModule (SBankEnv e) BondedPoolName NotBondedPoolName cs) w = (Inr u, t)"
    by (auto simp: bondedTokensToNotBonded_def sm_simps)
  note c = bond_coins_success [OF assms(2,3) w(1)]
  note p = env_pools [OF assms(1)]
  from w(2) c(1) obtain b where b: "SendCoinsFromModuleToModule (SBankEnv e) BondedPoolName NotBondedPoolName cs (SBank s) = (Inr u, b)"
    "t = s\<lparr>SBank := b\<rparr>" by (auto simp: in_bank_Inr)
  have "ledger_update (SBankEnv e) (pay (pool_addr e BondedPoolName) (pool_addr e NotBondedPoolName) cs) (\<lambda>_. 0) (SBank s) b"
    using c(2) assms(1) by (intro module_transfer [OF wfD(1) [OF assms(2)] _ b(1) p(1,2)]) (auto simp: bond_only_def env_ok_def)
  then show "reaches e D (- n) n s t" unfolding b(2)
    by (rule ledger_step_pools [OF assms(2)]) (use c(2) p(3,4) in \<open>auto simp: pay_def bond_only_def\<close>)
  show "0 \<le> n" using c(2) by (simp add: bond_only_def)
  show "t = s\<lparr>SBank := SBank t\<rparr>" by (simp add: b(2))
qed

lemma to_bonded:
  assumes "env_ok e" "wf e D s" "int256 n" "notBondedTokensToBonded e n s = (Inr u, t)"
  shows "0 \<le> n" "reaches e D n (- n) s t" "t = s\<lparr>SBank := SBank t\<rparr>"
proof -
  from assms(4) obtain cs w where w: "bond_coins e n s = (Inr cs, w)"
    "in_bank (SendCoinsFromModuleToModule (SBankEnv e) NotBondedPoolName BondedPoolName cs) w = (Inr u, t)"
    by (auto simp: notBondedTokensToBonded_def sm_simps)
  note c = bond_coins_success [OF assms(2,3) w(1)]
  note p = env_pools [OF assms(1)]
  from w(2) c(1) obtain b where b: "SendCoinsFromModuleToModule (SBankEnv e) NotBondedPoolName BondedPoolName cs (SBank s) = (Inr u, b)"
    "t = s\<lparr>SBank := b\<rparr>" by (auto simp: in_bank_Inr)
  have "ledger_update (SBankEnv e) (pay (pool_addr e NotBondedPoolName) (pool_addr e BondedPoolName) cs) (\<lambda>_. 0) (SBank s) b"
    using c(2) assms(1) by (intro module_transfer [OF wfD(1) [OF assms(2)] _ b(1) p(2,1)]) (auto simp: bond_only_def env_ok_def)
  then show "reaches e D n (- n) s t" unfolding b(2)
    by (rule ledger_step_pools [OF assms(2)]) (use c(2) p(3,4) in \<open>auto simp: pay_def bond_only_def\<close>)
  show "0 \<le> n" using c(2) by (simp add: bond_only_def)
  show "t = s\<lparr>SBank := SBank t\<rparr>" by (simp add: b(2))
qed

lemma burn_pool_step:
  assumes "wf e D s" "bond_only s n cs" "burn_pool e pool cs s = (Inr u, t)"
  shows "pool = BondedPoolName \<Longrightarrow> env_ok e \<Longrightarrow> reaches e D (- n) 0 s t"
    "pool = NotBondedPoolName \<Longrightarrow> env_ok e \<Longrightarrow> reaches e D 0 (- n) s t" "t = s\<lparr>SBank := SBank t\<rparr>"
proof -
  from assms(3) obtain b where b: "BurnCoins (SBankEnv e) (pool_addr e pool) cs (SBank s) = (Inr u, b)" "t = s\<lparr>SBank := b\<rparr>"
    by (auto simp: burn_pool_def in_bank_Inr pool_addr_def)
  show "t = s\<lparr>SBank := SBank t\<rparr>" by (simp add: b(2))
  have l: "ledger_update (SBankEnv e) (\<lambda>x d. - credit (pool_addr e pool) cs x d) (\<lambda>d. - camt cs d) (SBank s) b"
    using BurnCoins_success [OF wfD(1) [OF assms(1)] _ b(1)] assms(2) by (auto simp: bond_only_def)
  show "reaches e D (- n) 0 s t" if "pool = BondedPoolName" "env_ok e"
    unfolding b(2) using l by (rule ledger_step_pools [OF assms(1)])
      (use assms(2) that env_pools(3,4) [OF that(2)] in \<open>auto simp: credit_def bond_only_def\<close>)
  show "reaches e D 0 (- n) s t" if "pool = NotBondedPoolName" "env_ok e"
    unfolding b(2) using l by (rule ledger_step_pools [OF assms(1)])
      (use assms(2) that env_pools(3,4) [OF that(2)] in \<open>auto simp: credit_def bond_only_def\<close>)
qed

lemma burn_bonded:
  assumes "env_ok e" "wf e D s" "int256 n" "0 \<le> n" "burnBondedTokens e n s = (Inr u, t)"
  shows "reaches e D (- n) 0 s t" "t = s\<lparr>SBank := SBank t\<rparr>"
proof -
  have "reaches e D (- n) 0 s t \<and> t = s\<lparr>SBank := SBank t\<rparr>"
  proof (cases "n = 0")
    case True
    with assms(2,5) show ?thesis by (simp add: burnBondedTokens_def sm_run reaches_refl)
  next
    case False
    with assms(4,5) obtain cs w where w: "bond_coins e n s = (Inr cs, w)" "burn_pool e BondedPoolName cs w = (Inr u, t)"
      by (auto simp: burnBondedTokens_def sm_simps split: if_splits)
    note c = bond_coins_success [OF assms(2,3) w(1)]
    from burn_pool_step [OF assms(2) c(2) w(2) [unfolded c(1)]] assms(1) show ?thesis by blast
  qed
  then show "reaches e D (- n) 0 s t" "t = s\<lparr>SBank := SBank t\<rparr>" by auto
qed

lemma burn_not_bonded:
  assumes "env_ok e" "wf e D s" "int256 n" "0 \<le> n" "burnNotBondedTokens e n s = (Inr u, t)"
  shows "reaches e D 0 (- n) s t" "t = s\<lparr>SBank := SBank t\<rparr>"
proof -
  have "reaches e D 0 (- n) s t \<and> t = s\<lparr>SBank := SBank t\<rparr>"
  proof (cases "n = 0")
    case True
    with assms(2,5) show ?thesis by (simp add: burnNotBondedTokens_def sm_run reaches_refl)
  next
    case False
    with assms(4,5) obtain cs w where w: "bond_coins e n s = (Inr cs, w)" "burn_pool e NotBondedPoolName cs w = (Inr u, t)"
      by (auto simp: burnNotBondedTokens_def sm_simps split: if_splits)
    note c = bond_coins_success [OF assms(2,3) w(1)]
    from burn_pool_step [OF assms(2) c(2) w(2) [unfolded c(1)]] assms(1) show ?thesis by blast
  qed
  then show "reaches e D 0 (- n) s t" "t = s\<lparr>SBank := SBank t\<rparr>" by auto
qed

section \<open>Validators\<close>

lemma power_index_books [keeps_intros]:
  "keeps books (DeleteValidatorByPowerIndex e v)" "keeps books (SetValidatorByPowerIndex e v)"
  "keeps books (SetNewValidatorByPowerIndex e v)" "keeps books (SetValidatorByConsAddr e v)"
  unfolding DeleteValidatorByPowerIndex_def SetValidatorByPowerIndex_def SetNewValidatorByPowerIndex_def SetValidatorByConsAddr_def
  by (intro keeps_intros; simp add: books_def)+

lemma SetValidator_run:
  "ValStringToBytes e (OperatorAddress v) = Inr a \<Longrightarrow> SetValidator e v s = (Inr (), s\<lparr>Validators := om_set a v (Validators s)\<rparr>)"
  by (simp add: SetValidator_def sm_run)

lemma books_validators:
  "books t = books s \<Longrightarrow> books (t\<lparr>Validators := om_set a v (Validators t)\<rparr>) = books (s\<lparr>Validators := om_set a v (Validators s)\<rparr>)"
  by (simp add: books_def)

text \<open>Replacing a validator and its key in the index by power.\<close>

lemma replace_validator:
  assumes "DeleteValidatorByPowerIndex e v s = (Inr x, t1)" "SetValidator e v' t1 = (Inr y, t2)"
    and "SetValidatorByPowerIndex e v' t2 = (Inr z, t)" "ValStringToBytes e (OperatorAddress v') = Inr a"
  shows "books t = books (s\<lparr>Validators := om_set a v' (Validators s)\<rparr>)"
proof -
  have "books t = books t2" "books t1 = books s"
    using keepsD [OF power_index_books(1) assms(1)] keepsD [OF power_index_books(2) assms(3)] by simp_all
  moreover have "t2 = t1\<lparr>Validators := om_set a v' (Validators t1)\<rparr>" using assms(2) by (simp add: SetValidator_run [OF assms(4)])
  ultimately show ?thesis using books_validators by metis
qed

lemma validator_change:
  assumes "wf e D s" "map_of (Validators s) a = Some v" "val_ok e a v'" "Status v' = Status v"
    and "books t = books (s\<lparr>Validators := om_set a v' (Validators s)\<rparr>)"
  shows "reaches e (D(a := D a + (DelegatorShares v' - DelegatorShares v)))
    (if IsBonded v then Tokens v - Tokens v' else 0) (if IsBonded v then 0 else Tokens v - Tokens v') s t"
proof -
  have x: "D a + DelegatorShares v' - DelegatorShares v = D a + (DelegatorShares v' - DelegatorShares v)" by simp
  from validator_step [OF assms(1,3)] show ?thesis
    unfolding reaches_books(1) [OF assms(5), symmetric] using assms(2,4)
    by (simp add: shares_of_def IsBonded_def bonded_tokens_def other_tokens_def x split: if_splits)
qed

lemma stored_ok:
  "wf e D s \<Longrightarrow> map_of (Validators s) a = Some v \<Longrightarrow> ValStringToBytes e (OperatorAddress v) = Inr a \<and>
     0 \<le> Tokens v \<and> int256 (Tokens v) \<and> 0 \<le> DelegatorShares v"
  using wfD(5) [of e D s a v] by (simp add: val_ok_def)

lemma int256_within: "0 \<le> x \<Longrightarrow> x \<le> y \<Longrightarrow> int256 y \<Longrightarrow> int256 x"
  by (auto simp: int256_def)

lemma AddValidatorTokensAndShares_success:
  assumes "wf e D s" "map_of (Validators s) a = Some v" "0 \<le> n"
    and "AddValidatorTokensAndShares e v n s = (Inr (w, sh), t)"
  shows "w = v\<lparr>Tokens := Tokens v + n, DelegatorShares := DelegatorShares v + sh\<rparr>" "0 \<le> sh"
    "books t = books (s\<lparr>Validators := om_set a w (Validators s)\<rparr>)"
    "reaches e (D(a := D a + sh)) (if IsBonded v then - n else 0) (if IsBonded v then 0 else - n) s t"
proof -
  note v = stored_ok [OF assms(1,2)]
  from assms(4) obtain x t1 y t2 z where r: "DeleteValidatorByPowerIndex e v s = (Inr x, t1)" "AddTokensFromDel v n = Inr (w, sh)"
    "SetValidator e w t1 = (Inr y, t2)" "SetValidatorByPowerIndex e w t2 = (Inr z, t)"
    unfolding AddValidatorTokensAndShares_def sbind_Inr_iff by (auto simp: sm_run sbind_Inr_iff)
  note a = AddTokensFromDel_success [OF r(2) assms(3)]
  show w: "w = v\<lparr>Tokens := Tokens v + n, DelegatorShares := DelegatorShares v + sh\<rparr>" and sh: "0 \<le> sh" using a(1,3) v by auto
  then have ok: "val_ok e a w" using v a(5) assms(3) by (simp add: val_ok_def)
  show b: "books t = books (s\<lparr>Validators := om_set a w (Validators s)\<rparr>)"
    using v w by (intro replace_validator [OF r(1,3,4)]) simp
  from validator_change [OF assms(1,2) ok _ b] w show
    "reaches e (D(a := D a + sh)) (if IsBonded v then - n else 0) (if IsBonded v then 0 else - n) s t"
    by (simp cong: if_cong)
qed

lemma RemoveValidatorTokensAndShares_success:
  assumes "wf e D s" "map_of (Validators s) a = Some v" "0 \<le> d" "d \<le> DelegatorShares v"
    and "RemoveValidatorTokensAndShares e v d s = (Inr (w, n), t)"
  shows "w = v\<lparr>Tokens := Tokens v - n, DelegatorShares := DelegatorShares v - d\<rparr>" "0 \<le> n" "n \<le> Tokens v"
    "books t = books (s\<lparr>Validators := om_set a w (Validators s)\<rparr>)"
    "reaches e (D(a := D a - d)) (if IsBonded v then n else 0) (if IsBonded v then 0 else n) s t"
proof -
  note v = stored_ok [OF assms(1,2)]
  from assms(5) obtain x t1 y t2 z where r: "DeleteValidatorByPowerIndex e v s = (Inr x, t1)" "RemoveDelShares v d = Inr (w, n)"
    "SetValidator e w t1 = (Inr y, t2)" "SetValidatorByPowerIndex e w t2 = (Inr z, t)"
    unfolding RemoveValidatorTokensAndShares_def sbind_Inr_iff by (auto simp: sm_run sbind_Inr_iff)
  note a = RemoveDelShares_success [OF r(2) assms(3,4)]
  show w: "w = v\<lparr>Tokens := Tokens v - n, DelegatorShares := DelegatorShares v - d\<rparr>" and n: "0 \<le> n" "n \<le> Tokens v"
    using a(1,3,4) v by auto
  then have ok: "val_ok e a w" using v assms(3,4) int256_within [of "Tokens v - n" "Tokens v"] by (simp add: val_ok_def)
  show b: "books t = books (s\<lparr>Validators := om_set a w (Validators s)\<rparr>)"
    using v w by (intro replace_validator [OF r(1,3,4)]) simp
  from validator_change [OF assms(1,2) ok _ b] w show
    "reaches e (D(a := D a - d)) (if IsBonded v then n else 0) (if IsBonded v then 0 else n) s t"
    by (simp cong: if_cong)
qed

lemma RemoveValidatorTokens_success:
  assumes "wf e D s" "map_of (Validators s) a = Some v" "RemoveValidatorTokens e v n s = (Inr w, t)"
  shows "w = v\<lparr>Tokens := Tokens v - n\<rparr>" "0 \<le> n" "n \<le> Tokens v"
    "books t = books (s\<lparr>Validators := om_set a w (Validators s)\<rparr>)"
    "reaches e D (if IsBonded v then n else 0) (if IsBonded v then 0 else n) s t"
proof -
  note v = stored_ok [OF assms(1,2)]
  from assms(3) obtain x t1 y t2 z where r: "DeleteValidatorByPowerIndex e v s = (Inr x, t1)" "RemoveTokens v n = Inr w"
    "SetValidator e w t1 = (Inr y, t2)" "SetValidatorByPowerIndex e w t2 = (Inr z, t)"
    unfolding RemoveValidatorTokens_def sbind_Inr_iff by (auto simp: sm_run sbind_Inr_iff)
  from r(2) show w: "w = v\<lparr>Tokens := Tokens v - n\<rparr>" and n: "0 \<le> n" "n \<le> Tokens v"
    by (auto simp: RemoveTokens_def rbind_Inr_iff Int_arith_eq split: if_splits)
  then have ok: "val_ok e a w" using v int256_within [of "Tokens v - n" "Tokens v"] by (simp add: val_ok_def)
  show b: "books t = books (s\<lparr>Validators := om_set a w (Validators s)\<rparr>)"
    using v w by (intro replace_validator [OF r(1,3,4)]) simp
  from validator_change [OF assms(1,2) ok _ b] w show
    "reaches e D (if IsBonded v then n else 0) (if IsBonded v then 0 else n) s t"
    by (simp cong: if_cong)
qed

text \<open>A change of a validator that concerns neither tokens nor shares nor status.\<close>

lemma same_books_validator:
  assumes "wf e D s" "map_of (Validators s) a = Some v" "Tokens w = Tokens v" "DelegatorShares w = DelegatorShares v"
    "Status w = Status v" "OperatorAddress w = OperatorAddress v" "books t = books (s\<lparr>Validators := om_set a w (Validators s)\<rparr>)"
  shows "reaches e D 0 0 s t"
  using validator_change [OF assms(1,2) _ assms(5,7)] stored_ok [OF assms(1,2)] assms(3-6)
  by (simp add: val_ok_def cong: if_cong)

lemma jailValidator_success:
  assumes "wf e D s" "map_of (Validators s) a = Some v" "jailValidator e v s = (Inr u, t)"
  shows "reaches e D 0 0 s t" "books t = books (s\<lparr>Validators := om_set a (v\<lparr>Jailed := True\<rparr>) (Validators s)\<rparr>)"
proof -
  note v = stored_ok [OF assms(1,2)]
  let ?w = "v\<lparr>Jailed := True\<rparr>"
  from assms(3) have "DeleteValidatorByPowerIndex e ?w (s\<lparr>Validators := om_set a ?w (Validators s)\<rparr>) = (Inr u, t)"
    using v SetValidator_run [of e ?w a] by (auto simp: jailValidator_def Let_def sbind_def sfail_def split: if_splits)
  from keepsD [OF power_index_books(1) this] show b: "books t = books (s\<lparr>Validators := om_set a ?w (Validators s)\<rparr>)" .
  show "reaches e D 0 0 s t" by (rule same_books_validator [OF assms(1,2) _ _ _ _ b]) simp_all
qed

lemma unjailValidator_success:
  assumes "wf e D s" "map_of (Validators s) a = Some v" "unjailValidator e v s = (Inr u, t)"
  shows "reaches e D 0 0 s t"
proof -
  note v = stored_ok [OF assms(1,2)]
  let ?w = "v\<lparr>Jailed := False\<rparr>"
  from assms(3) have "SetValidatorByPowerIndex e ?w (s\<lparr>Validators := om_set a ?w (Validators s)\<rparr>) = (Inr u, t)"
    using v SetValidator_run [of e ?w a] by (auto simp: unjailValidator_def Let_def sbind_def sfail_def split: if_splits)
  from same_books_validator [OF assms(1,2) _ _ _ _ keepsD [OF power_index_books(2) this]] show ?thesis by simp
qed

text \<open>The parts of the books outside the bank.\<close>

definition sheets :: "staking_state \<Rightarrow> StakingParams option \<times> (string \<times> Validator) list \<times>
    ((string \<times> string) \<times> Delegation) list \<times> ((string \<times> string) \<times> UnbondingDelegation) list \<times>
    ((string \<times> string \<times> string) \<times> Redelegation) list" where
  "sheets s = (SParams s, Validators s, Delegations s, UnbondingDelegations s, Redelegations s)"

lemma books_sheets: "books s = books t \<Longrightarrow> sheets s = sheets t"
  by (simp add: books_def sheets_def)

lemma sheets_bank [simp]: "sheets (s\<lparr>SBank := b\<rparr>) = sheets s"
  by (simp add: sheets_def)

lemma hook_sheets: "call_hook e h s = (Inr u, t) \<Longrightarrow> sheets t = sheets s"
  by (auto simp: call_hook_def in_bank_Inr)

lemma RemoveValidator_success:
  assumes "env_ok e" "wf e D s" "map_of (Validators s) a = Some v" "DelegatorShares v = 0" "RemoveValidator e a s = (Inr u, t)"
  shows "reaches e D 0 0 s t" "Status v = Unbonded" "sheets t = sheets (s\<lparr>Validators := om_del a (Validators s)\<rparr>)"
proof -
  note v = stored_ok [OF assms(2,3)]
  let ?s = "s\<lparr>Validators := om_del a (Validators s), ValidatorByConsensusAddress := om_del (ConsAddr v) (ValidatorByConsensusAddress s)\<rparr>"
  let ?w = "s\<lparr>Validators := om_del a (Validators s)\<rparr>"
  from assms(3,5) obtain x t1 where u: "IsUnbonded v" "\<not> Tokens v > 0"
    and r: "DeleteValidatorByPowerIndex e v ?s = (Inr x, t1)" "call_hook e (AfterValidatorRemoved (ConsAddr v) a) t1 = (Inr u, t)"
    using v by (auto simp: RemoveValidator_def sm_run sbind_Inr_iff split: if_splits)
  have "books t1 = books ?s" by (rule keepsD [OF power_index_books(1) r(1)])
  then have b: "books t1 = books ?w" by (simp add: books_def)
  have zero: "Tokens v = 0" using u(2) v by simp
  have "reaches e D 0 0 s t1"
    using validator_del_step [OF assms(2,3)] zero assms(4) by (simp add: bonded_tokens_def other_tokens_def reaches_books(1) [OF b] cong: if_cong)
  from reaches_trans [OF this hook_step(1) [OF assms(1) reaches_wf [OF this] r(2)]] show "reaches e D 0 0 s t" by simp
  show "Status v = Unbonded" using u(1) by (simp add: IsUnbonded_def)
  show "sheets t = sheets ?w" using hook_sheets [OF r(2)] books_sheets [OF b] by simp
qed

section \<open>Delegations\<close>

lemma Dec_add_sub: "Dec_Add x y = Inr z \<Longrightarrow> z = x + y" "Dec_Sub x y = Inr z \<Longrightarrow> z = x - y"
  by (simp_all add: Dec_Add_def Dec_Sub_def assertInValidRange_def split: if_splits)

lemma sheetsD:
  assumes "sheets t = sheets s"
  shows "SParams t = SParams s" "Validators t = Validators s" "Delegations t = Delegations s"
    "UnbondingDelegations t = UnbondingDelegations s" "Redelegations t = Redelegations s" "shares_at t k = shares_at s k"
  using assms by (simp_all add: sheets_def shares_at_def)

lemma env_codec:
  assumes "env_ok e"
  shows "BytesToString (SBankEnv e) a = Inr str \<Longrightarrow> StringToBytes (SBankEnv e) str = Inr a"
    "ValBytesToString e b = Inr str \<Longrightarrow> ValStringToBytes e str = Inr b"
  using assms unfolding env_ok_def by blast+

lemma delegation_for_success:
  assumes "env_ok e" "wf e D s" "ValStringToBytes e (OperatorAddress v) = Inr a"
    and "delegation_for e del a v s = (Inr d, t)"
  shows "reaches e D 0 0 s t" "del_ok e (del, a) d" "Shares d = shares_at s (del, a)" "sheets t = sheets s"
proof -
  have "\<exists>h u. call_hook e h s = (Inr u, t) \<and> del_ok e (del, a) d \<and> Shares d = shares_at s (del, a)"
  proof (cases "map_of (Delegations s) (del, a)")
    case None
    then show ?thesis using assms(3,4) env_codec(1) [OF assms(1)]
      by (auto simp: delegation_for_def sm_simps shares_at_def del_ok_def LegacyZeroDec_def)
  next
    case (Some x)
    then show ?thesis using assms(4) wfD(6) [OF assms(2) Some]
      by (auto simp: delegation_for_def sm_simps shares_at_def)
  qed
  then obtain h u where h: "call_hook e h s = (Inr u, t)" "del_ok e (del, a) d" "Shares d = shares_at s (del, a)" by blast
  show "reaches e D 0 0 s t" by (rule hook_step(1) [OF assms(1,2) h(1)])
  show "del_ok e (del, a) d" "Shares d = shares_at s (del, a)" by (rule h)+
  show "sheets t = sheets s" by (rule hook_sheets [OF h(1)])
qed

lemma SetDelegation_success:
  assumes "wf e D s" "del_ok e (del, a) d" "SetDelegation e d s = (Inr u, t)"
  shows "reaches e (D(a := D a - (Shares d - shares_at s (del, a)))) 0 0 s t" "Validators t = Validators s"
proof -
  have t: "t = s\<lparr>Delegations := om_set (del, a) d (Delegations s), DelegationsByValidator := om_set (a, del) () (DelegationsByValidator s)\<rparr>"
    using assms(2,3) by (auto simp: SetDelegation_def accAddr_def valAddr_def sm_run del_ok_def)
  have b: "books t = books (s\<lparr>Delegations := om_set (del, a) d (Delegations s)\<rparr>)" by (simp add: t books_def)
  show "reaches e (D(a := D a - (Shares d - shares_at s (del, a)))) 0 0 s t"
    using delegation_step [OF assms(1,2)] by (simp add: reaches_books(1) [OF b])
  show "Validators t = Validators s" by (simp add: t)
qed

lemma RemoveDelegation_success:
  assumes "env_ok e" "wf e D s" "del_ok e (del, a) d" "RemoveDelegation e d s = (Inr u, t)"
  shows "reaches e (D(a := D a + shares_at s (del, a))) 0 0 s t" "Validators t = Validators s"
proof -
  from assms(3,4) obtain w where h: "call_hook e (BeforeDelegationRemoved del a) s = (Inr (), w)"
    and t: "t = w\<lparr>Delegations := om_del (del, a) (Delegations w), DelegationsByValidator := om_del (a, del) (DelegationsByValidator w)\<rparr>"
    by (auto simp: RemoveDelegation_def accAddr_def valAddr_def sm_simps del_ok_def)
  note r = hook_step(1) [OF assms(1,2) h]
  have b: "books t = books (w\<lparr>Delegations := om_del (del, a) (Delegations w)\<rparr>)" by (simp add: t books_def)
  have "reaches e (D(a := D a + shares_at s (del, a))) 0 0 w t"
    using delegation_del_step [OF reaches_wf [OF r], of "(del, a)"] 
    unfolding reaches_books(1) [OF b] sheetsD(6) [OF hook_sheets [OF h]] by simp
  from reaches_trans [OF r this] show "reaches e (D(a := D a + shares_at s (del, a))) 0 0 s t" by simp
  show "Validators t = Validators s" using sheetsD(2) [OF hook_sheets [OF h]] by (simp add: t)
qed

text \<open>An account that is neither of the pools.\<close>

definition outside :: "staking_env \<Rightarrow> string \<Rightarrow> bool" where
  "outside e a \<longleftrightarrow> a \<noteq> pool_addr e BondedPoolName \<and> a \<noteq> pool_addr e NotBondedPoolName"

lemma from_account:
  assumes "env_ok e" "wf e D s" "bond_only s n cs" "outside e del" "pool = BondedPoolName \<or> pool = NotBondedPoolName"
    and "in_bank (DelegateCoinsFromAccountToModule (SBankEnv e) del pool cs) s = (Inr u, t)"
  shows "reaches e D (if pool = BondedPoolName then n else 0) (if pool = BondedPoolName then 0 else n) s t"
proof -
  from assms(6) obtain acc w b where w: "GetModuleAccount (SBankEnv e) pool (SBank s) = (Inr (Some acc), w)"
    "DelegateCoins (SBankEnv e) del (GetAddress acc) cs w = (Inr u, b)" and t: "t = s\<lparr>SBank := b\<rparr>"
    by (auto simp: in_bank_Inr DelegateCoinsFromAccountToModule_def sm_simps split: option.splits if_splits)
  note l = GetModuleAccount_bank [OF wfD(1) [OF assms(2)] w(1)]
  then have y: "GetAddress acc = pool_addr e pool" by (simp add: pool_addr_def)
  have "bank_ok (SBankEnv e) w" using l by (simp add: ledger_update_def)
  from DelegateCoins_success [OF this _ w(2)] assms(3) y
  have "ledger_update (SBankEnv e) (pay del (pool_addr e pool) cs) (\<lambda>_. 0) w b" by (simp add: bond_only_def)
  from ledger_update_trans [OF conjunct1 [OF l] this]
  have "ledger_update (SBankEnv e) (pay del (pool_addr e pool) cs) (\<lambda>_. 0) (SBank s) b" by simp
  then show ?thesis unfolding t
    by (rule ledger_step_pools [OF assms(2)])
      (use assms(3-5) env_pools(3,4) [OF assms(1)] in \<open>auto simp: pay_def bond_only_def outside_def BondedPoolName_def NotBondedPoolName_def\<close>)
qed

lemma fund_delegation_success:
  assumes "env_ok e" "wf e D s" "int256 n" "0 \<le> n" "sub \<longrightarrow> outside e del" "fund_delegation e del n src v sub s = (Inr u, t)"
  shows "reaches e D ((if IsBonded v then n else 0) - (if \<not> sub \<and> src = Bonded then n else 0))
    ((if IsBonded v then 0 else n) - (if \<not> sub \<and> src \<noteq> Bonded then n else 0)) s t" "sheets t = sheets s"
proof -
  have "reaches e D ((if IsBonded v then n else 0) - (if \<not> sub \<and> src = Bonded then n else 0))
    ((if IsBonded v then 0 else n) - (if \<not> sub \<and> src \<noteq> Bonded then n else 0)) s t \<and> sheets t = sheets s"
  proof (cases sub)
    case True
    with assms(6) obtain cs w where w: "bond_coins e n s = (Inr cs, w)"
      "in_bank (DelegateCoinsFromAccountToModule (SBankEnv e) del (if IsBonded v then BondedPoolName else NotBondedPoolName) cs) w = (Inr u, t)"
      by (auto simp: fund_delegation_def sm_simps split: if_splits)
    note c = bond_coins_success [OF assms(2,3) w(1)]
    have "sheets t = sheets s" using w(2) c(1) by (auto simp: in_bank_Inr)
    with from_account [OF assms(1,2) c(2) _ _ w(2) [unfolded c(1)]] True assms(5) show ?thesis
      by (auto simp: BondedPoolName_def NotBondedPoolName_def split: if_splits)
  next
    case False
    then consider "src = Bonded \<longleftrightarrow> IsBonded v" "t = s" | "src \<noteq> Bonded" "IsBonded v" "notBondedTokensToBonded e n s = (Inr (), t)"
      | "src = Bonded" "\<not> IsBonded v" "bondedTokensToNotBonded e n s = (Inr (), t)"
      using assms(6) by (auto simp: fund_delegation_def sm_simps split: if_splits)
    then show ?thesis
    proof cases
      case 1
      with False show ?thesis by (simp add: reaches_refl [OF assms(2)])
    next
      case 2
      from arg_cong [OF to_bonded(3) [OF assms(1-3) 2(3)], of sheets] have "sheets t = sheets s" by simp
      with to_bonded(2) [OF assms(1-3) 2(3)] 2(1,2) False show ?thesis by simp
    next
      case 3
      from arg_cong [OF to_not_bonded(3) [OF assms(1-3) 3(3)], of sheets] have "sheets t = sheets s" by simp
      with to_not_bonded(2) [OF assms(1-3) 3(3)] 3(1,2) False show ?thesis by simp
    qed
  qed
  then show "reaches e D ((if IsBonded v then n else 0) - (if \<not> sub \<and> src = Bonded then n else 0))
    ((if IsBonded v then 0 else n) - (if \<not> sub \<and> src \<noteq> Bonded then n else 0)) s t" "sheets t = sheets s" by blast+
qed

lemma Delegate_success:
  assumes "env_ok e" "wf e D s" "map_of (Validators s) a = Some v" "int256 n" "0 \<le> n" "sub \<longrightarrow> outside e del"
    and "Delegate e del n src v sub s = (Inr sh, t)"
  shows "reaches e D (- (if \<not> sub \<and> src = Bonded then n else 0)) (- (if \<not> sub \<and> src \<noteq> Bonded then n else 0)) s t"
proof -
  note v = stored_ok [OF assms(2,3)]
  from assms(7) v obtain d t1 u2 t2 v' t3 shares u4 t4 u5 where
    r: "delegation_for e del a v s = (Inr d, t1)" "fund_delegation e del n src v sub t1 = (Inr u2, t2)"
      "AddValidatorTokensAndShares e v n t2 = (Inr (v', sh), t3)" "Dec_Add (Shares d) sh = Inr shares"
      "SetDelegation e (d\<lparr>Shares := shares\<rparr>) t3 = (Inr u4, t4)" "call_hook e (AfterDelegationModified del a) t4 = (Inr u5, t)"
    unfolding Delegate_def valAddr_def by (auto simp: sm_simps split: if_splits)
  note d = delegation_for_success [OF assms(1,2) conjunct1 [OF v] r(1)]
  note f = fund_delegation_success [OF assms(1) reaches_wf [OF d(1)] assms(4-6) r(2)]
  have st: "map_of (Validators t2) a = Some v" "shares_at t2 (del, a) = Shares d"
    using assms(3) d(3) sheetsD [OF f(2)] sheetsD [OF d(4)] by simp_all
  note g = AddValidatorTokensAndShares_success [OF reaches_wf [OF f(1)] st(1) assms(5) r(3)]
  have "shares_at t3 (del, a) = Shares d" using st(2) g(3) by (simp add: books_def shares_at_def)
  moreover have "shares = Shares d + sh" using r(4) by (simp add: Dec_add_sub)
  moreover have ok: "del_ok e (del, a) (d\<lparr>Shares := shares\<rparr>)" using d(2) g(2) calculation by (simp add: del_ok_def)
  ultimately have "reaches e D 0 0 t3 t4"
    using SetDelegation_success(1) [OF reaches_wf [OF g(4)] ok r(5)] by simp
  then have "reaches e D 0 0 t3 t" using reaches_trans [OF _ hook_step(1) [OF assms(1) reaches_wf r(6)]] by fastforce
  from reaches_trans [OF reaches_trans [OF d(1) f(1)] reaches_trans [OF g(4) this]] show ?thesis
    by (cases sub; cases "src = Bonded"; cases "IsBonded v") simp_all
qed

lemma delegated_nonneg:
  assumes "wf e D s"
  shows "0 \<le> delegated s a"
proof -
  have "0 \<le> Shares d" if "(k, d) \<in> set (Delegations s)" for k d
    using that wfD(6) [OF assms, of k d] wfD(3) [OF assms] by (simp add: om_in_set del_ok_def)
  then show ?thesis unfolding delegated_def by (intro sum_list_nonneg) auto
qed

lemma GetValidator_run: "GetValidator a s = (Inr v, t) \<longleftrightarrow> map_of (Validators s) a = Some v \<and> t = s"
  by (auto simp: GetValidator_def sm_simps split: option.splits)

lemma jail_below_min_self_success:
  assumes "wf e D s" "map_of (Validators s) a = Some v" "jail_below_min_self e a v shares op s = (Inr w, t)"
  shows "reaches e D 0 0 s t" "map_of (Validators t) a = Some w" "Tokens w = Tokens v" "DelegatorShares w = DelegatorShares v"
    "Status w = Status v" "Delegations t = Delegations s" "\<And>b. b \<noteq> a \<Longrightarrow> map_of (Validators t) b = map_of (Validators s) b"
proof -
  consider "t = s" "w = v" | u where "jailValidator e v s = (Inr u, t)" "map_of (Validators t) a = Some w"
    using assms(3) by (auto simp: jail_below_min_self_def sm_simps GetValidator_run split: if_splits)
  then have "reaches e D 0 0 s t \<and> map_of (Validators t) a = Some w \<and> Tokens w = Tokens v \<and> DelegatorShares w = DelegatorShares v \<and>
    Status w = Status v \<and> Delegations t = Delegations s \<and> (\<forall>b. b \<noteq> a \<longrightarrow> map_of (Validators t) b = map_of (Validators s) b)"
  proof cases
    case 1
    with assms(1,2) show ?thesis by (simp add: reaches_refl)
  next
    case 2
    note j = jailValidator_success [OF assms(1,2) 2(1)]
    then have "Validators t = om_set a (v\<lparr>Jailed := True\<rparr>) (Validators s)" "Delegations t = Delegations s" by (simp_all add: books_def)
    with j(1) 2(2) wfD(2) [OF assms(1)] show ?thesis by (auto simp: om_simps)
  qed
  then show "reaches e D 0 0 s t" "map_of (Validators t) a = Some w" "Tokens w = Tokens v" "DelegatorShares w = DelegatorShares v"
    "Status w = Status v" "Delegations t = Delegations s" "\<And>b. b \<noteq> a \<Longrightarrow> map_of (Validators t) b = map_of (Validators s) b" by blast+
qed

lemma store_lowered_success:
  assumes "env_ok e" "wf e D s" "del_ok e (del, a) d" "0 \<le> Shares d"
    and "store_lowered e del' d s = (Inr u, t)"
  shows "reaches e (D(a := D a + (shares_at s (del, a) - Shares d))) 0 0 s t" "Validators t = Validators s"
proof -
  have "reaches e (D(a := D a + (shares_at s (del, a) - Shares d))) 0 0 s t \<and> Validators t = Validators s"
  proof (cases "Shares d = 0")
    case True
    with RemoveDelegation_success [OF assms(1-3)] assms(5) show ?thesis by (simp add: store_lowered_def)
  next
    case False
    with assms(5) obtain u' w h where r: "SetDelegation e d s = (Inr u', w)" "call_hook e h w = (Inr u, t)"
      by (auto simp: store_lowered_def valAddr_def sm_simps)
    note g = SetDelegation_success [OF assms(2,3) r(1)]
    from reaches_trans [OF g(1) hook_step(1) [OF assms(1) reaches_wf [OF g(1)] r(2)]] g(2) sheetsD(2) [OF hook_sheets [OF r(2)]]
    show ?thesis by (simp add: algebra_simps)
  qed
  then show "reaches e (D(a := D a + (shares_at s (del, a) - Shares d))) 0 0 s t" "Validators t = Validators s" by blast+
qed

definition left_pool :: "Validator \<Rightarrow> int \<Rightarrow> staking_env \<Rightarrow> staking_state \<Rightarrow> staking_state \<Rightarrow> bool" where
  "left_pool v n e s t \<longleftrightarrow> reaches e (\<lambda>_. 0) (if IsBonded v then n else 0) (if IsBonded v then 0 else n) s t"

lemma Unbond_success:
  assumes "env_ok e" "wf e (\<lambda>_. 0) s" "0 \<le> shares" "Unbond e del a shares s = (Inr n, t)"
  obtains v where "map_of (Validators s) a = Some v" "0 \<le> n" "n \<le> Tokens v" "left_pool v n e s t"
    "\<forall>b. b \<noteq> a \<longrightarrow> map_of (Validators t) b = map_of (Validators s) b"
    "\<forall>w. map_of (Validators t) a = Some w \<longrightarrow> Status w = Status v" "map_of (Validators t) a = None \<longrightarrow> Status v = Unbonded"
proof -
  from assms(4) obtain d u1 t1 v rest del' b w t2 u3 t3 w' t4 u5 where d: "map_of (Delegations s) (del, a) = Some d"
    and r: "call_hook e (BeforeDelegationSharesModified del a) s = (Inr u1, t1)" "\<not> Shares d < shares" "map_of (Validators t1) a = Some v"
      "Dec_Sub (Shares d) shares = Inr rest" "StringToBytes (SBankEnv e) (DelegatorAddress d) = Inr del'"
      "ValStringToBytes e (OperatorAddress v) = Inr b" "jail_below_min_self e b v rest (del' = b) t1 = (Inr w, t2)"
      "store_lowered e del' (d\<lparr>Shares := rest\<rparr>) t2 = (Inr u3, t3)"
      "RemoveValidatorTokensAndShares e w shares t3 = (Inr (w', n), t4)" "remove_if_empty e b w' t4 = (Inr u5, t)"
    unfolding Unbond_def accAddr_def valAddr_def
    by (auto simp: sbind_Inr_iff sm_run GetValidator_run split: option.splits if_split_asm)
  note h = hook_step(1) [OF assms(1,2) r(1)] sheetsD [OF hook_sheets [OF r(1)]]
  have b: "b = a" using stored_ok [OF reaches_wf [OF h(1)] r(3)] r(6) by simp
  note j = jail_below_min_self_success [OF reaches_wf [OF h(1)] r(3) r(7) [unfolded b]]
  have rest: "rest = Shares d - shares" using r(4) by (simp add: Dec_add_sub)
  have dk: "del_ok e (del, a) (d\<lparr>Shares := rest\<rparr>)" using wfD(6) [OF assms(2) d] r(2) rest by (simp add: del_ok_def)
  have at: "shares_at t2 (del, a) = Shares d" using d j(6) h(4) by (simp add: shares_at_def)
  note l = store_lowered_success [OF assms(1) reaches_wf [OF j(1)] dk _ r(8)]
  have l1: "reaches e ((\<lambda>_. 0)(a := shares)) 0 0 t2 t3" using l(1) dk at rest by (simp add: del_ok_def)
  have l2: "Validators t3 = Validators t2" using l(2) dk by (simp add: del_ok_def)
  have st: "map_of (Validators t3) a = Some w" using j(2) l2 by simp
  have le: "shares \<le> DelegatorShares w"
    using wfD(9) [OF reaches_wf [OF l1], of a] delegated_nonneg [OF reaches_wf [OF l1], of a] st by (simp add: shares_of_def)
  note g = RemoveValidatorTokensAndShares_success [OF reaches_wf [OF l1] st assms(3) le r(9)]
  have g5: "reaches e (\<lambda>_. 0) (if IsBonded v then n else 0) (if IsBonded v then 0 else n) t3 t4"
    using g(5) j(5) by (simp add: IsBonded_def fun_upd_idem cong: if_cong)
  have vt4: "Validators t4 = om_set a w' (Validators t3)" using g(4) by (simp add: books_def)
  have t4: "map_of (Validators t4) x = (if x = a then Some w' else map_of (Validators s) x)" for x
    using wfD(2) [OF reaches_wf [OF l1]] j(7) l2 h(3) by (simp add: vt4 om_simps)
  have e: "reaches e (\<lambda>_. 0) 0 0 t4 t \<and> (\<forall>x. x \<noteq> a \<longrightarrow> map_of (Validators t) x = map_of (Validators t4) x) \<and>
      (\<forall>x. map_of (Validators t) a = Some x \<longrightarrow> x = w') \<and> (map_of (Validators t) a = None \<longrightarrow> Status w' = Unbonded)"
  proof (cases "DelegatorShares w' = 0 \<and> IsUnbonded w'")
    case True
    with r(10) b have x: "RemoveValidator e a t4 = (Inr u5, t)" by (simp add: remove_if_empty_def)
    have "map_of (Validators t4) a = Some w'" by (simp add: t4)
    note x = RemoveValidator_success [OF assms(1) reaches_wf [OF g5] this _ x]
    have "Validators t = om_del a (Validators t4)" using x(3) True by (simp add: sheets_def)
    then show ?thesis using x True wfD(2) [OF reaches_wf [OF g5]] by (simp add: om_simps)
  next
    case False
    with r(10) have "t = t4" by (auto simp: remove_if_empty_def sm_run)
    with t4 show ?thesis by (simp add: reaches_refl [OF reaches_wf [OF g5]])
  qed
  note chain = reaches_trans [OF reaches_trans [OF h(1) j(1)] reaches_trans [OF l1 reaches_trans [OF g5 conjunct1 [OF e]]]]
  have status: "Status w' = Status v" using g(1) j(5) by simp
  show ?thesis
  proof (rule that)
    show "map_of (Validators s) a = Some v" using r(3) h(3) by simp
    show "left_pool v n e s t" unfolding left_pool_def using chain by simp
    show "0 \<le> n" "n \<le> Tokens v" using g(2,3) j(3) by simp_all
    show "\<forall>x. x \<noteq> a \<longrightarrow> map_of (Validators t) x = map_of (Validators s) x" using e t4 by simp
    show "\<forall>x. map_of (Validators t) a = Some x \<longrightarrow> Status x = Status v" using e status by blast
    show "map_of (Validators t) a = None \<longrightarrow> Status v = Unbonded" using e status by simp
  qed
qed

section \<open>Unbonding delegations\<close>

lemma entries_update:
  "i < length xs \<Longrightarrow> (\<Sum>x\<leftarrow>xs[i := y]. Balance x) = (\<Sum>x\<leftarrow>xs. Balance x) - Balance (xs ! i) + Balance y"
  by (induction xs arbitrary: i) (auto split: nat.splits)

lemma entries_remove:
  "i < length xs \<Longrightarrow> (\<Sum>x\<leftarrow>remove_at i xs. Balance x) = (\<Sum>x\<leftarrow>xs. Balance x) - Balance (xs ! i)"
proof (induction xs arbitrary: i)
  case (Cons x xs)
  then show ?case by (cases i) (auto simp: remove_at_def)
qed simp

lemma set_remove_at: "set (remove_at i xs) \<subseteq> set xs"
  by (auto simp: remove_at_def dest: in_set_takeD in_set_dropD)

lemma find_entry_bound: "find_entry h t xs = Some i \<Longrightarrow> i < length xs"
  by (induction xs arbitrary: i) (auto split: if_splits)

lemma find_height_bound: "find_height h xs = Some i \<Longrightarrow> i < length xs"
  by (induction xs arbitrary: i) (auto split: if_splits)

lemma SetUnbondingDelegation_success:
  assumes "wf e D s" "ubd_ok e k ubd" "SetUnbondingDelegation e ubd s = (Inr u, t)"
  shows "reaches e D 0 (unbonding_at s k - entries_sum ubd) s t"
    "books t = books (s\<lparr>UnbondingDelegations := om_set k ubd (UnbondingDelegations s),
       UnbondingDelegationByValIndex := om_set (snd k, fst k) () (UnbondingDelegationByValIndex s)\<rparr>)"
proof -
  show b: "books t = books (s\<lparr>UnbondingDelegations := om_set k ubd (UnbondingDelegations s),
      UnbondingDelegationByValIndex := om_set (snd k, fst k) () (UnbondingDelegationByValIndex s)\<rparr>)"
    using assms(2,3) by (auto simp: SetUnbondingDelegation_def accAddr_def valAddr_def sm_run ubd_ok_def books_def)
  show "reaches e D 0 (unbonding_at s k - entries_sum ubd) s t"
    using unbonding_step [OF assms(1,2)] by (simp only: reaches_books(1) [OF b])
qed

lemma RemoveUnbondingDelegation_success:
  assumes "wf e D s" "ubd_ok e k ubd" "RemoveUnbondingDelegation e ubd s = (Inr u, t)"
  shows "reaches e D 0 (unbonding_at s k) s t"
proof -
  have b: "books t = books
    (s\<lparr>UnbondingDelegations := om_del k (UnbondingDelegations s),
       UnbondingDelegationByValIndex := om_del (snd k, fst k) (UnbondingDelegationByValIndex s)\<rparr>)"
    using assms(2,3) by (auto simp: RemoveUnbondingDelegation_def accAddr_def valAddr_def sm_run ubd_ok_def books_def)
  show ?thesis using unbonding_del_step [OF assms(1), of k] by (simp only: reaches_books(1) [OF b])
qed

lemma store_unbonding:
  assumes "wf e D s" "ubd_ok e k ubd"
    and "(if UEntries ubd = [] then RemoveUnbondingDelegation e ubd else SetUnbondingDelegation e ubd) s = (Inr u, t)"
  shows "reaches e D 0 (unbonding_at s k - entries_sum ubd) s t"
  using SetUnbondingDelegation_success(1) [OF assms(1,2)] RemoveUnbondingDelegation_success [OF assms(1,2)] assms(3)
  by (auto simp: entries_sum_def split: if_splits)

lemma entries_ok_update:
  "\<forall>x \<in> set xs. P x \<Longrightarrow> P y \<Longrightarrow> \<forall>x \<in> set (xs[i := y]). P x"
  using set_update_subset_insert [of xs i y] by blast

lemma ubd_AddEntry_success:
  assumes "ubd_ok e k ubd" "0 \<le> n" "int256 n" "ubd_AddEntry ubd h time n = Inr ubd'"
  shows "ubd_ok e k ubd'" "entries_sum ubd' = entries_sum ubd + n"
proof -
  have "ubd_ok e k ubd' \<and> entries_sum ubd' = entries_sum ubd + n"
  proof (cases "find_entry h time (UEntries ubd)")
    case None
    with assms show ?thesis by (auto simp: ubd_AddEntry_def ubd_ok_def entry_ok_def entries_sum_def NewUnbondingDelegationEntry_def)
  next
    case (Some i)
    let ?x = "UEntries ubd ! i"
    let ?y = "?x\<lparr>Balance := Balance ?x + n, InitialBalance := InitialBalance ?x + n\<rparr>"
    from Some assms(4) have int: "int256 (Balance ?x + n)"
      and u: "ubd' = ubd\<lparr>UEntries := (UEntries ubd)[i := ?y]\<rparr>"
      by (auto simp: ubd_AddEntry_def Let_def rbind_Inr_iff Int_arith_eq split: if_splits)
    have b: "i < length (UEntries ubd)" by (rule find_entry_bound [OF Some])
    have nonneg: "entry_ok ?x" using b assms(1) by (simp add: ubd_ok_def)
    have "\<forall>x \<in> set ((UEntries ubd)[i := ?y]). entry_ok x"
      by (rule entries_ok_update) (use assms(1,2) nonneg int in \<open>simp_all add: ubd_ok_def entry_ok_def\<close>)
    with assms(1) have "ubd_ok e k ubd'" unfolding ubd_ok_def u by simp
    moreover have "entries_sum ubd' = entries_sum ubd + n" unfolding entries_sum_def u by (simp add: entries_update [OF b])
    ultimately show ?thesis ..
  qed
  then show "ubd_ok e k ubd'" "entries_sum ubd' = entries_sum ubd + n" by blast+
qed

lemma SetUnbondingDelegationEntry_success:
  assumes "env_ok e" "wf e D s" "0 \<le> n" "int256 n" "SetUnbondingDelegationEntry e del a h time n s = (Inr ubd, t)"
  shows "reaches e D 0 (- n) s t"
proof -
  from assms(5) obtain u where r: "(case map_of (UnbondingDelegations s) (del, a) of
        Some ubd \<Rightarrow> ubd_AddEntry ubd h time n | None \<Rightarrow> NewUnbondingDelegation e del a h time n) = Inr ubd"
    "SetUnbondingDelegation e ubd s = (Inr u, t)"
    by (auto simp: SetUnbondingDelegationEntry_def sm_simps)
  have "ubd_ok e (del, a) ubd \<and> entries_sum ubd = unbonding_at s (del, a) + n"
  proof (cases "map_of (UnbondingDelegations s) (del, a)")
    case None
    with r(1) assms(3,4) env_codec [OF assms(1)] show ?thesis
      by (auto simp: NewUnbondingDelegation_def rbind_Inr_iff must_Inr_iff ubd_ok_def entry_ok_def entries_sum_def unbonding_at_def NewUnbondingDelegationEntry_def)
  next
    case (Some u)
    with r(1) ubd_AddEntry_success [OF wfD(7) [OF assms(2) Some] assms(3,4)] show ?thesis by (simp add: unbonding_at_def)
  qed
  with SetUnbondingDelegation_success(1) [OF assms(2) _ r(2), of "(del, a)"] show ?thesis by simp
qed

lemma guard_Inr: "(if b then sfail f else m) s = (Inr x, t) \<longleftrightarrow> \<not> b \<and> m s = (Inr x, t)"
  by (simp add: sm_run)

lemma lookup_params [keeps_intros]: "keeps f staking_Params" "keeps f (GetValidator a)"
  unfolding staking_Params_def GetValidator_def by (intro keeps_intros)+

lemma lookups_keep:
  "keeps f (HasMaxUnbondingDelegationEntries del a)" "keeps f (HasReceivingRedelegation del a)"
  "keeps f (HasMaxRedelegationEntries del a b)" "keeps f (getBeginInfo a)" "keeps f (bond_denom_only c)" "keeps f (valid_amount e c)"
  "keeps f (ValidateUnbondAmount del a n)" "keeps f (checkConsKeyAlreadyUsed pk)" "keeps f (edit_rate_allowed rate)"
  subgoal unfolding HasMaxUnbondingDelegationEntries_def by (intro keeps_intros)
  subgoal unfolding HasReceivingRedelegation_def by (intro keeps_intros)
  subgoal unfolding HasMaxRedelegationEntries_def by (intro keeps_intros)
  subgoal unfolding getBeginInfo_def by (intro keeps_intros)
  subgoal unfolding bond_denom_only_def by (intro keeps_intros)
  subgoal unfolding valid_amount_def by (intro keeps_intros)
  subgoal unfolding ValidateUnbondAmount_def by (intro keeps_intros)
  subgoal unfolding checkConsKeyAlreadyUsed_def GetBlockConsPubKeyRotationHistory_def by (intro keeps_intros)
  subgoal unfolding edit_rate_allowed_def by (intro keeps_intros)
  done

lemma lookup_run: "keeps id m \<Longrightarrow> m s = (r, t) \<Longrightarrow> t = s"
  using keepsD [of id m s r t] by simp

lemmas lookups_run = lookups_keep [THEN lookup_run]

lemma InsertUBDQueue_books [keeps_intros]: "keeps books (InsertUBDQueue ubd time)"
  unfolding InsertUBDQueue_def by (intro keeps_intros) (simp add: books_def Let_def)

lemma Undelegate_success:
  assumes "env_ok e" "wf e (\<lambda>_. 0) s" "0 \<le> shares" "Undelegate e del a shares s = (Inr r, t)"
  shows "reaches e (\<lambda>_. 0) 0 0 s t"
proof -
  from assms(4) obtain v w m u n t1 t2 ubd h time t3 u4 where v: "map_of (Validators s) a = Some v"
    and r: "HasMaxUnbondingDelegationEntries del a s = (Inr m, u)" "Unbond e del a shares u = (Inr n, t1)"
      "(if IsBonded v then bondedTokensToNotBonded e n else sret ()) t1 = (Inr w, t2)"
      "SetUnbondingDelegationEntry e del a h time n t2 = (Inr ubd, t3)" "InsertUBDQueue ubd time t3 = (Inr u4, t)"
    unfolding Undelegate_def Let_def
    by (auto simp: sbind_Inr_iff guard_Inr GetValidator_run staking_Params_def sm_run split: option.splits)
  have u: "u = s" by (rule lookups_run(1) [OF r(1)])
  from r(2) u v obtain b: "0 \<le> n" "n \<le> Tokens v" "left_pool v n e s t1"
    by (auto elim!: Unbond_success [OF assms(1-3)])
  have n: "int256 n" using int256_within [OF b(1,2)] stored_ok [OF assms(2) v] by blast
  have wf1: "wf e (\<lambda>_. 0) t1" using b(3) by (simp add: left_pool_def reaches_def)
  have "reaches e (\<lambda>_. 0) (if IsBonded v then - n else 0) (if IsBonded v then n else 0) t1 t2"
    using r(3) to_not_bonded(2) [OF assms(1) wf1 n] reaches_refl [OF wf1] by (auto simp: sm_run split: if_splits)
  from reaches_trans [OF b(3) [unfolded left_pool_def] this] have "reaches e (\<lambda>_. 0) 0 n s t2" by (auto split: if_splits)
  from reaches_trans [OF this SetUnbondingDelegationEntry_success [OF assms(1) reaches_wf [OF this] b(1) n r(4)]]
  show ?thesis using reaches_books(1) [OF keepsD [OF InsertUBDQueue_books r(5)]] by simp
qed

subsection \<open>Completion\<close>

text \<open>A payment of \<open>n\<close> tokens of a denomination out of the pool of the tokens that are not bonded.\<close>

definition paid :: "staking_env \<Rightarrow> string \<Rightarrow> string \<Rightarrow> int \<Rightarrow> bank_state \<Rightarrow> bank_state \<Rightarrow> bool" where
  "paid e d del n = ledger_update (SBankEnv e) (\<lambda>a x. if x = d
     then (if a = del then n else 0) - (if a = pool_addr e NotBondedPoolName then n else 0) else 0) (\<lambda>_. 0)"

lemma paid_trans: "paid e d del m b c \<Longrightarrow> paid e d del n c x \<Longrightarrow> paid e d del (m + n) b x"
  unfolding paid_def ledger_update_def by auto

lemma paid_refl: "bank_ok (SBankEnv e) b \<Longrightarrow> paid e d del 0 b b"
  by (simp add: paid_def ledger_update_def)

lemma paid_ok: "paid e d del n b c \<Longrightarrow> bank_ok (SBankEnv e) c"
  by (simp add: paid_def ledger_update_def)

lemma pay_entry_success:
  assumes "env_ok e" "bank_ok (SBankEnv e) (SBank s)" "int256 (Balance x)" "pay_entry e d del x cs s = (Inr cs', t)"
  shows "paid e d del (Balance x) (SBank s) (SBank t)" "t = s\<lparr>SBank := SBank t\<rparr>"
proof -
  from assms(4) obtain c coins acc w b u where c: "NewCoin (validDenom (SBankEnv e)) d (Balance x) = Inr c"
    "NewCoins (validDenom (SBankEnv e)) [c] = Inr coins" and w: "GetModuleAccount (SBankEnv e) NotBondedPoolName (SBank s) = (Inr (Some acc), w)"
    "UndelegateCoins (SBankEnv e) (GetAddress acc) del coins w = (Inr u, b)" and t: "t = s\<lparr>SBank := b\<rparr>"
    by (auto simp: pay_entry_def sm_simps in_bank_Inr UndelegateCoinsFromModuleToAccount_def split: option.splits if_splits)
  show "t = s\<lparr>SBank := SBank t\<rparr>" by (simp add: t)
  have amt: "(\<forall>c \<in> set coins. int256 (Amount c)) \<and> (\<forall>y. camt coins y = (if y = d then Balance x else 0))"
    using c assms(3) by (intro NewCoins_single) (auto simp: NewCoin_Inr)
  note l = GetModuleAccount_bank [OF assms(2) w(1)]
  then have y: "GetAddress acc = pool_addr e NotBondedPoolName" by (simp add: pool_addr_def)
  have "bank_ok (SBankEnv e) w" using l by (simp add: ledger_update_def)
  with UndelegateCoins_success [OF _ _ w(2)] amt y
  have "ledger_update (SBankEnv e) (pay (pool_addr e NotBondedPoolName) del coins) (\<lambda>_. 0) w b" by simp
  from ledger_update_trans [OF conjunct1 [OF l] this] amt show "paid e d del (Balance x) (SBank s) (SBank t)"
    by (simp add: paid_def t ledger_update_def pay_def)
qed

definition mature_sum :: "int \<Rightarrow> UnbondingDelegationEntry list \<Rightarrow> int" where
  "mature_sum now es = (\<Sum>x\<leftarrow>filter (\<lambda>x. IsMature x now) es. Balance x)"

lemma remaining_at:
  assumes "i < length es"
  shows "IsMature (es ! i) now \<Longrightarrow> take i (remove_at i es) @ filter (\<lambda>x. \<not> IsMature x now) (drop i (remove_at i es)) =
      take i es @ filter (\<lambda>x. \<not> IsMature x now) (drop i es)"
    "IsMature (es ! i) now \<Longrightarrow> mature_sum now (drop i es) = Balance (es ! i) + mature_sum now (drop i (remove_at i es))"
    "\<not> IsMature (es ! i) now \<Longrightarrow> take (Suc i) es @ filter (\<lambda>x. \<not> IsMature x now) (drop (Suc i) es) =
      take i es @ filter (\<lambda>x. \<not> IsMature x now) (drop i es)"
    "\<not> IsMature (es ! i) now \<Longrightarrow> mature_sum now (drop i es) = mature_sum now (drop (Suc i) es)"
  using assms by (simp_all add: remove_at_def mature_sum_def Cons_nth_drop_Suc [symmetric] take_Suc_conv_app_nth)

text \<open>
  The loop pays the mature entries from the index on and leaves the others, in their order.
\<close>

lemma complete_entries_success:
  assumes "env_ok e" "bank_ok (SBankEnv e) (SBank s)" "\<forall>x \<in> set (UEntries ubd). int256 (Balance x)"
    and "complete_entries e d del now i ubd cs s = (Inr (ubd', cs'), t)"
  shows "ubd' = ubd\<lparr>UEntries := take i (UEntries ubd) @ filter (\<lambda>x. \<not> IsMature x now) (drop i (UEntries ubd))\<rparr> \<and>
    paid e d del (mature_sum now (drop i (UEntries ubd))) (SBank s) (SBank t) \<and> t = s\<lparr>SBank := SBank t\<rparr>"
  using assms
proof (induction e d del now i ubd cs s rule: complete_entries.induct)
  case (1 e d del now i ubd cs s)
  let ?es = "UEntries ubd" and ?x = "UEntries ubd ! i"
  have rem: "\<forall>x \<in> set (UEntries (ubd_RemoveEntry ubd i)). int256 (Balance x)"
    using 1(6) set_remove_at [of i ?es] by (auto simp: ubd_RemoveEntry_def)
  show ?case
  proof (cases "i < length ?es")
    case False
    with 1(5,7) show ?thesis by (simp add: complete_entries.simps [of e d del now i] mature_sum_def paid_refl)
  next
    case i: True
    consider "\<not> IsMature ?x now" | "IsMature ?x now" "Balance ?x = 0" | "IsMature ?x now" "Balance ?x \<noteq> 0" by blast
    then show ?thesis
    proof cases
      case 1
      with "1.IH"(3) [OF i refl 1 "1.prems"(1-3)] "1.prems"(4) i remaining_at(3,4) [OF i 1] show ?thesis
        by (simp add: complete_entries.simps [of e d del now i])
    next
      case 2
      with "1.IH"(2) [OF i refl 2(1) _ "1.prems"(1,2) rem] "1.prems"(4) i remaining_at(1,2) [OF i 2(1)] show ?thesis
        by (simp add: complete_entries.simps [of e d del now i] ubd_RemoveEntry_def)
    next
      case 3
      with "1.prems"(4) i obtain cs1 w where r: "pay_entry e d del ?x cs s = (Inr cs1, w)"
        "complete_entries e d del now i (ubd_RemoveEntry ubd i) cs1 w = (Inr (ubd', cs'), t)"
        by (auto simp: complete_entries.simps [of e d del now i ubd] Let_def split: prod.splits sum.splits)
      have "int256 (Balance ?x)" using i "1.prems"(3) by simp
      note p = pay_entry_success [OF "1.prems"(1,2) this r(1)]
      from "1.IH"(1) [OF i refl 3 r(1) [symmetric] refl "1.prems"(1) paid_ok [OF p(1)] rem r(2)]
      have ih: "ubd' = (ubd_RemoveEntry ubd i)\<lparr>UEntries := take i (UEntries (ubd_RemoveEntry ubd i)) @
          filter (\<lambda>x. \<not> IsMature x now) (drop i (UEntries (ubd_RemoveEntry ubd i)))\<rparr>"
        "paid e d del (mature_sum now (drop i (UEntries (ubd_RemoveEntry ubd i)))) (SBank w) (SBank t)" "t = w\<lparr>SBank := SBank t\<rparr>" by blast+
      have "t = s\<lparr>SBank := SBank t\<rparr>" by (subst ih(3), subst p(2)) simp
      with ih(1) paid_trans [OF p(1) ih(2)] remaining_at(1,2) [OF i 3(1)] show ?thesis by (simp add: ubd_RemoveEntry_def)
    qed
  qed
qed

lemma mature_split:
  "(\<Sum>x\<leftarrow>es. Balance x) = mature_sum now es + (\<Sum>x\<leftarrow>filter (\<lambda>x. \<not> IsMature x now) es. Balance x)"
  by (induction es) (auto simp: mature_sum_def)

lemma paid_pools:
  assumes "env_ok e" "wf e D s" "paid e (bond_denom s) del n (SBank s) b" "0 \<le> n"
  shows "reaches e D 0 (- n) s (s\<lparr>SBank := b\<rparr>)"
  by (rule ledger_step_pools [OF assms(2) assms(3) [unfolded paid_def]]) (use assms(4) env_pools(3,4) [OF assms(1)] in auto)

lemma mature_nonneg: "\<forall>x \<in> set es. 0 \<le> Balance x \<Longrightarrow> 0 \<le> mature_sum now es"
  unfolding mature_sum_def by (intro sum_list_nonneg) auto

lemma CompleteUnbonding_parts:
  assumes "env_ok e" "wf e D s" "CompleteUnbonding e del a s = (Inr cs, t)"
  obtains ubd w u where "map_of (UnbondingDelegations s) (del, a) = Some ubd" "ubd_ok e (del, a) ubd"
    "paid e (bond_denom s) del (mature_sum (STime s) (UEntries ubd)) (SBank s) (SBank w)" "w = s\<lparr>SBank := SBank w\<rparr>"
    "(let ubd' = ubd\<lparr>UEntries := filter (\<lambda>x. \<not> IsMature x (STime s)) (UEntries ubd)\<rparr> in
      if UEntries ubd' = [] then RemoveUnbondingDelegation e ubd' else SetUnbondingDelegation e ubd') w = (Inr u, t)"
proof -
  from assms(3) obtain ubd del' ubd' cs' w u where r: "map_of (UnbondingDelegations s) (del, a) = Some ubd"
      "StringToBytes (SBankEnv e) (UDelegatorAddress ubd) = Inr del'"
      "complete_entries e (BondDenom (the (SParams s))) del' (STime s) 0 ubd [] s = (Inr (ubd', cs'), w)"
      "(if UEntries ubd' = [] then RemoveUnbondingDelegation e ubd' else SetUnbondingDelegation e ubd') w = (Inr u, t)"
    unfolding CompleteUnbonding_def GetUnbondingDelegation_def accAddr_def
    by (auto simp: sbind_Inr_iff sm_run staking_Params_run [OF assms(2)] split: option.splits)
  note ok = wfD(7) [OF assms(2) r(1)]
  have del': "del' = del" using ok r(2) by (simp add: ubd_ok_def)
  have "\<forall>x \<in> set (UEntries ubd). int256 (Balance x)" using ok by (simp add: ubd_ok_def entry_ok_def)
  from complete_entries_success [OF assms(1) wfD(1) [OF assms(2)] this r(3)] del' bond_denom_the [OF assms(2)]
  have c: "ubd' = ubd\<lparr>UEntries := filter (\<lambda>x. \<not> IsMature x (STime s)) (UEntries ubd)\<rparr>"
    "paid e (bond_denom s) del (mature_sum (STime s) (UEntries ubd)) (SBank s) (SBank w)" "w = s\<lparr>SBank := SBank w\<rparr>" by simp_all
  from r(4) show ?thesis by (intro that [of ubd w u] r(1) ok c(2,3)) (simp only: Let_def c(1))
qed

lemma CompleteUnbonding_success:
  assumes "env_ok e" "wf e D s" "CompleteUnbonding e del a s = (Inr cs, t)"
  shows "reaches e D 0 0 s t"
proof -
  from CompleteUnbonding_parts [OF assms] obtain ubd w u where r: "map_of (UnbondingDelegations s) (del, a) = Some ubd" "ubd_ok e (del, a) ubd"
    "paid e (bond_denom s) del (mature_sum (STime s) (UEntries ubd)) (SBank s) (SBank w)" "w = s\<lparr>SBank := SBank w\<rparr>"
    "(let ubd' = ubd\<lparr>UEntries := filter (\<lambda>x. \<not> IsMature x (STime s)) (UEntries ubd)\<rparr> in
      if UEntries ubd' = [] then RemoveUnbondingDelegation e ubd' else SetUnbondingDelegation e ubd') w = (Inr u, t)" .
  let ?u = "ubd\<lparr>UEntries := filter (\<lambda>x. \<not> IsMature x (STime s)) (UEntries ubd)\<rparr>"
  have n: "0 \<le> mature_sum (STime s) (UEntries ubd)" using r(2) by (intro mature_nonneg) (simp add: ubd_ok_def entry_ok_def)
  have p: "reaches e D 0 (- mature_sum (STime s) (UEntries ubd)) s w" by (subst r(4)) (rule paid_pools [OF assms(1,2) r(3) n])
  have ok: "ubd_ok e (del, a) ?u" using r(2) by (simp add: ubd_ok_def)
  have at: "unbonding_at w (del, a) = entries_sum ubd" by (subst r(4)) (simp add: unbonding_at_def r(1))
  note g = store_unbonding [OF reaches_wf [OF p] ok r(5) [unfolded Let_def]]
  from reaches_trans [OF p g] at mature_split [of "UEntries ubd" "STime s"] show ?thesis by (simp add: entries_sum_def)
qed

section \<open>Redelegations\<close>

lemma SetRedelegation_success:
  assumes "wf e D s" "red_ok e k red"
  shows "SetRedelegation e red s = (Inr u, t) \<Longrightarrow> reaches e D 0 0 s t" "RemoveRedelegation e red s = (Inr u, t) \<Longrightarrow> reaches e D 0 0 s t"
proof -
  show "reaches e D 0 0 s t" if "SetRedelegation e red s = (Inr u, t)"
  proof -
    have b: "books t = books (s\<lparr>Redelegations := om_set k red (Redelegations s)\<rparr>)"
      using that assms(2) by (auto simp: SetRedelegation_def accAddr_def valAddr_def sm_run red_ok_def books_def)
    from redelegation_step(1) [OF assms] show ?thesis by (simp only: reaches_books(1) [OF b])
  qed
  show "reaches e D 0 0 s t" if "RemoveRedelegation e red s = (Inr u, t)"
  proof -
    have b: "books t = books (s\<lparr>Redelegations := om_del k (Redelegations s)\<rparr>)"
      using that assms(2) by (auto simp: RemoveRedelegation_def accAddr_def valAddr_def sm_run red_ok_def books_def)
    from redelegation_step(2) [OF assms] show ?thesis by (simp only: reaches_books(1) [OF b])
  qed
qed

lemma SetRedelegationEntry_success:
  assumes "env_ok e" "wf e D s" "a \<noteq> b" "0 \<le> n" "SetRedelegationEntry e del a b h time n sh s = (Inr red, t)"
  shows "reaches e D 0 0 s t"
proof -
  from assms(5) obtain u where r: "(case map_of (Redelegations s) (del, a, b) of
        Some red \<Rightarrow> Inr (red_AddEntry red h time n sh) | None \<Rightarrow> NewRedelegation e del a b h time n sh) = Inr red"
    "SetRedelegation e red s = (Inr u, t)"
    by (auto simp: SetRedelegationEntry_def sm_simps)
  have "red_ok e (del, a, b) red"
  proof (cases "map_of (Redelegations s) (del, a, b)")
    case None
    with r(1) assms(3,4) env_codec [OF assms(1)] show ?thesis by (auto simp: NewRedelegation_def rbind_Inr_iff must_Inr_iff red_ok_def NewRedelegationEntry_def)
  next
    case (Some x)
    with r(1) assms(4) wfD(8) [OF assms(2) Some] show ?thesis by (auto simp: red_AddEntry_def red_ok_def NewRedelegationEntry_def)
  qed
  from SetRedelegation_success(1) [OF assms(2) this r(2)] show ?thesis .
qed

lemma InsertRedelegationQueue_books [keeps_intros]: "keeps books (InsertRedelegationQueue red time)"
  unfolding InsertRedelegationQueue_def by (intro keeps_intros) (simp add: books_def Let_def)

lemma BeginRedelegation_success:
  assumes "env_ok e" "wf e (\<lambda>_. 0) s" "0 \<le> shares" "BeginRedelegation e del a b shares s = (Inr r, t)"
  shows "reaches e (\<lambda>_. 0) 0 0 s t"
proof -
  have ne: "a \<noteq> b" using assms(4) by (auto simp: BeginRedelegation_def sm_run)
  from assms(4) obtain v w where v: "map_of (Validators s) a = Some v" "map_of (Validators s) b = Some w"
    by (auto simp: BeginRedelegation_def sm_simps split: option.splits if_splits)
  from assms(4) ne v obtain x t0 y t1 n t2 sh t3 time h now t4 where r: "HasReceivingRedelegation del a s = (Inr x, t0)"
      "HasMaxRedelegationEntries del a b t0 = (Inr y, t1)" "Unbond e del a shares t1 = (Inr n, t2)"
      "Delegate e del n (Status v) w False t2 = (Inr sh, t3)" "getBeginInfo a t3 = (Inr (time, h, now), t4)"
      "(if now then sret time
        else sbind (SetRedelegationEntry e del a b h time n sh) (\<lambda>red. sbind (InsertRedelegationQueue red time) (\<lambda>_. sret time))) t4 = (Inr r, t)"
    unfolding BeginRedelegation_def by (clarsimp simp: sbind_Inr_iff guard_Inr sm_run)
  have t: "t0 = s" "t1 = t0" "t4 = t3" using lookups_run(2) [OF r(1)] lookups_run(3) [OF r(2)] lookups_run(4) [OF r(5)] .
  from r(3) t v(1) ne obtain u: "0 \<le> n" "n \<le> Tokens v" "left_pool v n e s t2" "map_of (Validators t2) b = Some w"
    using v(2) by (auto elim!: Unbond_success [OF assms(1-3)])
  have n: "int256 n" using int256_within [OF u(1,2)] stored_ok [OF assms(2) v(1)] by blast
  have wf2: "wf e (\<lambda>_. 0) t2" using u(3) by (simp add: left_pool_def reaches_def)
  from reaches_trans [OF u(3) [unfolded left_pool_def] Delegate_success [OF assms(1) wf2 u(4) n u(1) _ r(4)]]
  have d: "reaches e (\<lambda>_. 0) 0 0 s t3" by (simp add: IsBonded_def split: if_splits)
  have "reaches e (\<lambda>_. 0) 0 0 t3 t"
  proof (cases now)
    case True
    with r(6) t reaches_refl [OF reaches_wf [OF d]] show ?thesis by (simp add: sm_run)
  next
    case False
    with r(6) t obtain red t5 q where f: "SetRedelegationEntry e del a b h time n sh t3 = (Inr red, t5)"
      "InsertRedelegationQueue red time t5 = (Inr q, t)" by (auto simp: sm_simps)
    from SetRedelegationEntry_success [OF assms(1) reaches_wf [OF d] ne u(1) f(1)] show ?thesis
      by (simp only: reaches_books(1) [OF keepsD [OF InsertRedelegationQueue_books f(2)]])
  qed
  from reaches_trans [OF d this] show ?thesis by simp
qed

lemma complete_redelegations_keys:
  "complete_redelegations vd d now i red cs = Inr (red', cs') \<Longrightarrow> red_ok e k red \<Longrightarrow> red_ok e k red'"
proof (induction vd d now i red cs rule: complete_redelegations.induct)
  case (1 vd d now i red cs)
  have "red_ok e k (red_RemoveEntry red i)" using 1(5) set_remove_at [of i "REntries red"]
    by (auto simp: red_ok_def red_RemoveEntry_def)
  with 1 show ?case
    by (subst (asm) (4) complete_redelegations.simps) (auto simp: Let_def split: if_splits sum.splits)
qed

lemma CompleteRedelegation_success:
  assumes "wf e D s" "CompleteRedelegation e del a b s = (Inr cs, t)"
  shows "reaches e D 0 0 s t"
proof -
  from assms(2) obtain red red' cs' u where r: "map_of (Redelegations s) (del, a, b) = Some red"
    "complete_redelegations (validDenom (SBankEnv e)) (BondDenom (the (SParams s))) (STime s) 0 red [] = Inr (red', cs')"
    "(if REntries red' = [] then RemoveRedelegation e red' else SetRedelegation e red') s = (Inr u, t)"
    unfolding CompleteRedelegation_def by (auto simp: sbind_Inr_iff sm_run staking_Params_run [OF assms(1)] split: option.splits)
  from SetRedelegation_success [OF assms(1) complete_redelegations_keys [OF r(2) wfD(8) [OF assms(1) r(1)]]] r(3)
  show ?thesis by (auto split: if_splits)
qed

lemma cancel_entry_success:
  assumes "ubd_ok e k ubd" "i < length (UEntries ubd)" "0 \<le> n" "n \<le> Balance (UEntries ubd ! i)" "cancel_entry ubd i n = Inr ubd'"
  shows "ubd_ok e k ubd'" "entries_sum ubd' = entries_sum ubd - n"
proof -
  let ?x = "UEntries ubd ! i"
  have x: "entry_ok ?x" using assms(1,2) by (simp add: ubd_ok_def)
  have "ubd_ok e k ubd' \<and> entries_sum ubd' = entries_sum ubd - n"
  proof (cases "n = Balance ?x")
    case True
    with assms(5) have "ubd' = ubd_RemoveEntry ubd i" by (simp add: cancel_entry_def Let_def Int_arith_eq int256_def)
    with assms(1) True set_remove_at [of i "UEntries ubd"] entries_remove [OF assms(2)] show ?thesis
      by (auto simp: ubd_RemoveEntry_def ubd_ok_def entries_sum_def)
  next
    case False
    let ?y = "?x\<lparr>Balance := Balance ?x - n, InitialBalance := InitialBalance ?x - n\<rparr>"
    from False assms(5) have int: "int256 (Balance ?x - n)"
      and u: "ubd' = ubd\<lparr>UEntries := (UEntries ubd)[i := ?y]\<rparr>"
      by (auto simp: cancel_entry_def Let_def rbind_Inr_iff Int_arith_eq split: if_splits)
    have "\<forall>x \<in> set ((UEntries ubd)[i := ?y]). entry_ok x"
      by (rule entries_ok_update) (use assms(1,4) x int in \<open>simp_all add: ubd_ok_def entry_ok_def\<close>)
    with assms(1) have "ubd_ok e k ubd'" unfolding ubd_ok_def u by simp
    moreover have "entries_sum ubd' = entries_sum ubd - n" unfolding entries_sum_def u by (simp add: entries_update [OF assms(2)])
    ultimately show ?thesis ..
  qed
  then show "ubd_ok e k ubd'" "entries_sum ubd' = entries_sum ubd - n" by blast+
qed

lemma Delegate_unbondings: "keeps UnbondingDelegations (Delegate e del n src v sub)"
  unfolding Delegate_def valAddr_def delegation_for_def call_hook_def fund_delegation_def bond_coins_def notBondedTokensToBonded_def
    bondedTokensToNotBonded_def AddValidatorTokensAndShares_def SetValidator_def DeleteValidatorByPowerIndex_def
    SetValidatorByPowerIndex_def SetDelegation_def accAddr_def
  by (intro keeps_intros) simp_all

lemma CancelUnbondingDelegation_success:
  assumes "env_ok e" "wf e (\<lambda>_. 0) s" "int256 (Amount c)" "msg_CancelUnbondingDelegation e delStr valStr c h s = (Inr u, t)"
  shows "reaches e (\<lambda>_. 0) 0 0 s t"
proof -
  from assms(4) obtain a del x1 s1 x2 s2 v ubd i sh s3 ubd' where r: "valid_amount e c s = (Inr x1, s1)" "bond_denom_only c s1 = (Inr x2, s2)"
      "map_of (Validators s2) a = Some v" "map_of (UnbondingDelegations s2) (del, a) = Some ubd" "find_height h (UEntries ubd) = Some i"
      "\<not> Balance (UEntries ubd ! i) < Amount c" "Delegate e del (Amount c) Unbonding v False s2 = (Inr sh, s3)"
      "cancel_entry ubd i (Amount c) = Inr ubd'"
      "(if UEntries ubd' = [] then RemoveUnbondingDelegation e ubd' else SetUnbondingDelegation e ubd') s3 = (Inr u, t)"
    unfolding msg_CancelUnbondingDelegation_def accAddr_def valAddr_def GetUnbondingDelegation_def
    by (clarsimp simp: sbind_Inr_iff guard_Inr sm_run GetValidator_run split: option.splits)
  have s: "s2 = s" using lookups_run(6) [OF r(1)] lookups_run(5) [OF r(2)] by simp
  have pos: "0 \<le> Amount c" using r(1) by (auto simp: valid_amount_def sm_run split: if_splits)
  note d = Delegate_success [OF assms(1,2) r(3) [unfolded s] assms(3) pos _ r(7) [unfolded s]]
  have d: "reaches e (\<lambda>_. 0) 0 (- Amount c) s s3" using d by simp
  note c = cancel_entry_success [OF wfD(7) [OF assms(2) r(4) [unfolded s]] find_height_bound [OF r(5)] pos _ r(8)]
  have at: "unbonding_at s3 (del, a) = entries_sum ubd"
    using keepsD [OF Delegate_unbondings r(7)] r(4) s by (simp add: unbonding_at_def)
  have "reaches e (\<lambda>_. 0) 0 (Amount c) s3 t"
    using store_unbonding [OF reaches_wf [OF d] _ r(9), of "(del, a)"] c r(6) at by simp
  from reaches_trans [OF d this] show ?thesis by simp
qed

section \<open>Messages\<close>

lemma SharesFromTokens_nonneg:
  "0 \<le> DelegatorShares v \<Longrightarrow> 0 \<le> Tokens v \<Longrightarrow> 0 \<le> n \<Longrightarrow> SharesFromTokens v n = Inr sh \<Longrightarrow> 0 \<le> sh"
  by (auto simp: SharesFromTokens_def Dec_MulInt_def Dec_QuoInt_def assertInValidRange_def rbind_Inr_iff sdiv_nonneg_eq pos_imp_zdiv_nonneg_iff split: if_splits)

lemma ValidateUnbondAmount_nonneg:
  assumes "wf e D s" "0 \<le> n" "ValidateUnbondAmount del a n s = (Inr sh, t)"
  shows "0 \<le> sh"
proof -
  from assms(3) obtain v d x where r: "map_of (Validators s) a = Some v" "map_of (Delegations s) (del, a) = Some d"
    "SharesFromTokens v n = Inr x" "sh = Shares d \<or> sh = x"
    unfolding ValidateUnbondAmount_def by (auto simp: sbind_Inr_iff guard_Inr sm_run GetValidator_run split: option.splits)
  have "0 \<le> x" using stored_ok [OF assms(1) r(1)] assms(2) by (intro SharesFromTokens_nonneg [OF _ _ _ r(3)]) simp_all
  with wfD(6) [OF assms(1) r(2)] r(4) show ?thesis by (auto simp: del_ok_def)
qed

lemma valid_amount_pos: "valid_amount e c s = (Inr x, t) \<Longrightarrow> 0 \<le> Amount c"
  by (auto simp: valid_amount_def sm_run split: if_splits)

lemma msg_Undelegate_success:
  assumes "env_ok e" "wf e (\<lambda>_. 0) s" "msg_Undelegate e delStr valStr c s = (Inr r, t)"
  shows "reaches e (\<lambda>_. 0) 0 0 s t"
proof -
  from assms(3) obtain a del x1 s1 sh s2 x3 s3 y where r: "valid_amount e c s = (Inr x1, s1)" "ValidateUnbondAmount del a (Amount c) s1 = (Inr sh, s2)"
    "bond_denom_only c s2 = (Inr x3, s3)" "Undelegate e del a sh s3 = (Inr y, t)"
    unfolding msg_Undelegate_def accAddr_def valAddr_def by (clarsimp simp: sbind_Inr_iff sm_run)
  have s: "s1 = s" "s2 = s1" "s3 = s2" using lookups_run(6) [OF r(1)] lookups_run(7) [OF r(2)] lookups_run(5) [OF r(3)] .
  have "0 \<le> sh" using ValidateUnbondAmount_nonneg [OF assms(2) valid_amount_pos [OF r(1)]] r(2) s by blast
  from Undelegate_success [OF assms(1,2) this] r(4) s show ?thesis by blast
qed

lemma msg_BeginRedelegate_success:
  assumes "env_ok e" "wf e (\<lambda>_. 0) s" "msg_BeginRedelegate e delStr srcStr dstStr c s = (Inr r, t)"
  shows "reaches e (\<lambda>_. 0) 0 0 s t"
proof -
  from assms(3) obtain a b del x1 s1 sh s2 x3 s3 where r: "valid_amount e c s = (Inr x1, s1)" "ValidateUnbondAmount del a (Amount c) s1 = (Inr sh, s2)"
    "bond_denom_only c s2 = (Inr x3, s3)" "BeginRedelegation e del a b sh s3 = (Inr r, t)"
    unfolding msg_BeginRedelegate_def accAddr_def valAddr_def by (clarsimp simp: sbind_Inr_iff sm_run)
  have s: "s1 = s" "s2 = s1" "s3 = s2" using lookups_run(6) [OF r(1)] lookups_run(7) [OF r(2)] lookups_run(5) [OF r(3)] .
  have "0 \<le> sh" using ValidateUnbondAmount_nonneg [OF assms(2) valid_amount_pos [OF r(1)]] r(2) s by blast
  from BeginRedelegation_success [OF assms(1,2) this] r(4) s show ?thesis by blast
qed

lemma msg_Delegate_success:
  assumes "env_ok e" "wf e (\<lambda>_. 0) s" "int256 (Amount c)" "\<And>a. StringToBytes (SBankEnv e) delStr = Inr a \<Longrightarrow> outside e a"
    and "msg_Delegate e delStr valStr c s = (Inr r, t)"
  shows "reaches e (\<lambda>_. 0) 0 0 s t"
proof -
  from assms(5) obtain a del x1 s1 v x2 s2 sh where r: "StringToBytes (SBankEnv e) delStr = Inr del" "valid_amount e c s = (Inr x1, s1)"
    "map_of (Validators s1) a = Some v" "bond_denom_only c s1 = (Inr x2, s2)" "Delegate e del (Amount c) Unbonded v True s2 = (Inr sh, t)"
    unfolding msg_Delegate_def accAddr_def valAddr_def by (clarsimp simp: sbind_Inr_iff sm_run GetValidator_run)
  have s: "s1 = s" "s2 = s1" using lookups_run(6) [OF r(2)] lookups_run(5) [OF r(4)] .
  from Delegate_success [OF assms(1,2) r(3) [unfolded s] assms(3) valid_amount_pos [OF r(2)] _ r(5) [unfolded s]] assms(4) [OF r(1)]
  show ?thesis by simp
qed

lemma new_validator_step:
  assumes "wf e D s" "map_of (Validators s) a = None" "ValStringToBytes e (OperatorAddress v) = Inr a" "Tokens v = 0" "DelegatorShares v = 0"
    and "books t = books (s\<lparr>Validators := om_set a v (Validators s)\<rparr>)"
  shows "reaches e D 0 0 s t"
  using validator_step [OF assms(1), of a v] assms(2-5)
  unfolding reaches_books(1) [OF assms(6), symmetric] by (simp add: val_ok_def shares_of_def bonded_tokens_def other_tokens_def int256_def cong: if_cong)

lemma MsgCreateValidator_Validate_run:
  assumes "MsgCreateValidator_Validate e msg s = (Inr x, t)"
  shows "t = s" "0 \<le> Amount (CValue msg)"
proof -
  from assms obtain y u where r: "valid_amount e (CValue msg) s = (Inr y, u)" "t = u"
    unfolding MsgCreateValidator_Validate_def valAddr_def by (clarsimp simp: sbind_Inr_iff guard_Inr sm_run)
  show "t = s" using lookups_run(6) [OF r(1)] r(2) by simp
  show "0 \<le> Amount (CValue msg)" by (rule valid_amount_pos [OF r(1)])
qed

lemma msg_CreateValidator_success:
  assumes "env_ok e" "wf e (\<lambda>_. 0) s" "int256 (Amount (CValue msg))"
    and "\<And>a. ValStringToBytes e (CValidatorAddress msg) = Inr a \<Longrightarrow> outside e a" "msg_CreateValidator e msg s = (Inr r, t)"
  shows "reaches e (\<lambda>_. 0) 0 0 s t"
proof -
  from assms(5) obtain a x1 s1 x2 s2 x3 s3 v' x4 s4 sh v where r: "ValStringToBytes e (CValidatorAddress msg) = Inr a"
    "MsgCreateValidator_Validate e msg s = (Inr x1, s1)" "map_of (Validators s1) a = None"
    "checkConsKeyAlreadyUsed (CPubkey msg) s1 = (Inr x2, s2)" "bond_denom_only (CValue msg) s2 = (Inr x3, s3)"
    "SetInitialCommission (NewValidator (CValidatorAddress msg) (CPubkey msg) (CDescription msg))
       ((CCommission msg)\<lparr>UpdateTime := STime s1\<rparr>) = Inr v'" "v = v'\<lparr>MinSelfDelegation := CMinSelfDelegation msg\<rparr>"
    "register_validator e v a s3 = (Inr x4, s4)" "Delegate e a (Amount (CValue msg)) Unbonded v True s4 = (Inr sh, t)"
    unfolding msg_CreateValidator_def valAddr_def Let_def
    by (clarsimp simp: sbind_Inr_iff guard_Inr sm_run staking_Params_def split: option.splits)
  note a = MsgCreateValidator_Validate_run [OF r(2)]
  have s: "s1 = s" "s3 = s" using a(1) lookups_run(8) [OF r(4)] lookups_run(5) [OF r(5)] by simp_all
  have v: "OperatorAddress v = CValidatorAddress msg" "Tokens v = 0" "DelegatorShares v = 0"
    using r(6,7) by (auto simp: SetInitialCommission_def rbind_Inr_iff NewValidator_def LegacyZeroDec_def)
  from r(8) s obtain y1 w1 y2 w2 y3 w3 where g: "SetValidator e v s = (Inr y1, w1)" "SetValidatorByConsAddr e v w1 = (Inr y2, w2)"
    "SetNewValidatorByPowerIndex e v w2 = (Inr y3, w3)" "call_hook e (AfterValidatorCreated a) w3 = (Inr x4, s4)"
    by (auto simp: register_validator_def sbind_Inr_iff)
  have "w1 = s\<lparr>Validators := om_set a v (Validators s)\<rparr>" using g(1) SetValidator_run [of e v a s] r(1) v(1) by simp
  then have b: "books w3 = books (s\<lparr>Validators := om_set a v (Validators s)\<rparr>)"
    using keepsD [OF power_index_books(4) g(2)] keepsD [OF power_index_books(3) g(3)] by simp
  have n: "reaches e (\<lambda>_. 0) 0 0 s w3" by (rule new_validator_step [OF assms(2) _ _ v(2,3) b]) (use r(1,3) s v(1) in simp_all)
  note h = reaches_trans [OF n hook_step(1) [OF assms(1) reaches_wf [OF n] g(4)]]
  have "Validators s4 = om_set a v (Validators s)" using sheetsD(2) [OF hook_sheets [OF g(4)]] b by (simp add: books_def)
  then have "map_of (Validators s4) a = Some v" by (simp add: om_simps)
  from reaches_trans [OF h Delegate_success [OF assms(1) reaches_wf [OF h] this assms(3) a(2) _ r(9)]] assms(4) [OF r(1)]
  show ?thesis by simp
qed

lemma edit_rate_success:
  assumes "env_ok e" "wf e D s" "edit_rate e a rate v s = (Inr w, t)"
  shows "reaches e D 0 0 s t" "Validators t = Validators s" "\<exists>x. w = v\<lparr>ValCommission := x\<rparr>"
proof -
  have "reaches e D 0 0 s t \<and> Validators t = Validators s \<and> (\<exists>x. w = v\<lparr>ValCommission := x\<rparr>)"
  proof (cases rate)
    case None
    with assms(2,3) show ?thesis by (auto simp: edit_rate_def sm_run reaches_refl intro: exI [of _ "ValCommission w"])
  next
    case (Some q)
    with assms(3) obtain x s0 u where r: "UpdateValidatorCommission v q s = (Inr x, s0)" "call_hook e (BeforeValidatorModified a) s0 = (Inr u, t)"
      "w = v\<lparr>ValCommission := x\<rparr>" by (auto simp: edit_rate_def sm_simps)
    have "keeps id (UpdateValidatorCommission v q)" unfolding UpdateValidatorCommission_def by (intro keeps_intros)
    from lookup_run [OF this r(1)] have "s0 = s" .
    with hook_step(1) [OF assms(1,2)] sheetsD(2) [OF hook_sheets] r show ?thesis by blast
  qed
  then show "reaches e D 0 0 s t" "Validators t = Validators s" "\<exists>x. w = v\<lparr>ValCommission := x\<rparr>" by blast+
qed

lemma msg_EditValidator_success:
  assumes "env_ok e" "wf e D s" "msg_EditValidator e valStr d rate m s = (Inr r, t)"
  shows "reaches e D 0 0 s t"
proof -
  from assms(3) obtain a x1 s1 v d' w s2 w' where r: "edit_rate_allowed rate s = (Inr x1, s1)" "map_of (Validators s1) a = Some v"
    "edit_rate e a rate (v\<lparr>ValDescription := d'\<rparr>) s1 = (Inr w, s2)" "edit_pledge m w = Inr w'" "SetValidator e w' s2 = (Inr r, t)"
    unfolding msg_EditValidator_def valAddr_def by (clarsimp simp: sbind_Inr_iff guard_Inr sm_run GetValidator_run)
  have s1: "s1 = s" by (rule lookups_run(9) [OF r(1)])
  note c = edit_rate_success [OF assms(1) assms(2) r(3) [unfolded s1]]
  from r(4) have "\<exists>x. w' = w\<lparr>MinSelfDelegation := x\<rparr>"
    by (auto simp: edit_pledge_def split: option.splits if_splits intro: exI [of _ "MinSelfDelegation w"])
  with c(3) obtain y z where w': "w' = v\<lparr>ValDescription := d', ValCommission := y, MinSelfDelegation := z\<rparr>" by auto
  have st: "map_of (Validators s2) a = Some v" using c(2) r(2) s1 by simp
  have t: "t = s2\<lparr>Validators := om_set a w' (Validators s2)\<rparr>"
    using r(5) SetValidator_run [of e w' a s2] stored_ok [OF assms(2) r(2) [unfolded s1]] w' by simp
  have "reaches e D 0 0 s2 t"
    by (rule same_books_validator [OF reaches_wf [OF c(1)] st, of w']) (simp_all add: w' t)
  from reaches_trans [OF c(1) this] show ?thesis by simp
qed

lemma Jail_success:
  assumes "wf e D s"
  shows "Jail e cons s = (Inr r, t) \<Longrightarrow> reaches e D 0 0 s t" "Unjail e cons s = (Inr r, t) \<Longrightarrow> reaches e D 0 0 s t"
proof -
  have g: "\<exists>a. map_of (Validators s) a = Some v \<and> u = s" if "GetValidatorByConsAddr cons s = (Inr v, u)" for v u
    using that by (auto simp: GetValidatorByConsAddr_def sm_simps GetValidator_run split: option.splits)
  show "reaches e D 0 0 s t" if j: "Jail e cons s = (Inr r, t)"
  proof -
    from j obtain v u where r: "GetValidatorByConsAddr cons s = (Inr v, u)" "jailValidator e v u = (Inr r, t)"
      by (auto simp: Jail_def sbind_Inr_iff)
    with g [OF r(1)] jailValidator_success(1) [OF assms] show ?thesis by blast
  qed
  show "reaches e D 0 0 s t" if j: "Unjail e cons s = (Inr r, t)"
  proof -
    from j obtain v u where r: "GetValidatorByConsAddr cons s = (Inr v, u)" "unjailValidator e v u = (Inr r, t)"
      by (auto simp: Unjail_def sbind_Inr_iff)
    with g [OF r(1)] unjailValidator_success [OF assms] show ?thesis by blast
  qed
qed

end
