(* ===== verification/StakingSlash.thy ===== *)
theory StakingSlash
  imports StakingInv
begin

text \<open>
  Slashing keeps the books of \<open>x/staking\<close>: what \<open>Slash\<close> takes from the unbonding delegations, the redelegated shares
  and the validator itself is what it burns from the pools.
\<close>

lemma sfold_invariant:
  assumes "sfold f acc xs s = (Inr acc', s')" "I acc s"
    and "\<And>x a t a' t'. x \<in> set xs \<Longrightarrow> I a t \<Longrightarrow> f a x t = (Inr a', t') \<Longrightarrow> I a' t'"
  shows "I acc' s'"
  using assms
proof (induction xs arbitrary: acc s)
  case Nil
  then show ?case by (simp add: sm_run)
next
  case (Cons x xs)
  from Cons(2) obtain a t where r: "f acc x s = (Inr a, t)" "sfold f a xs t = (Inr acc', s')" by (auto simp: sbind_Inr_iff)
  have "I a t" by (rule Cons.prems(3) [OF _ Cons.prems(2) r(1)]) simp
  from Cons.IH [OF r(2) this] Cons.prems(3) show ?case by (meson list.set_intros(2))
qed

section \<open>Unbonding delegations\<close>

text \<open>All but one unbonding delegation, and the validators, are as they were.\<close>

definition only_unbonding :: "string \<times> string \<Rightarrow> staking_state \<Rightarrow> staking_state \<Rightarrow> bool" where
  "only_unbonding k s t \<longleftrightarrow> Validators t = Validators s \<and>
     (\<forall>k'. k' \<noteq> k \<longrightarrow> map_of (UnbondingDelegations t) k' = map_of (UnbondingDelegations s) k')"

lemma only_unbonding_trans: "only_unbonding k s t \<Longrightarrow> only_unbonding k t u \<Longrightarrow> only_unbonding k s u"
  by (auto simp: only_unbonding_def)

lemma lower_entry:
  assumes "wf e D s" "map_of (UnbondingDelegations s) k = Some ubd" "i < length (UEntries ubd)" "0 \<le> m" "m \<le> Balance (UEntries ubd ! i)"
    and "ubd' = ubd\<lparr>UEntries := (UEntries ubd)[i := (UEntries ubd ! i)\<lparr>Balance := Balance (UEntries ubd ! i) - m\<rparr>]\<rparr>"
    and "SetUnbondingDelegation e ubd' s = (Inr u, t)"
  shows "map_of (UnbondingDelegations t) k = Some ubd'" "reaches e D 0 m s t" "only_unbonding k s t"
    "length (UEntries ubd') = length (UEntries ubd)"
proof -
  note ok = wfD(7) [OF assms(1,2)]
  let ?x = "UEntries ubd ! i" and ?y = "(UEntries ubd ! i)\<lparr>Balance := Balance (UEntries ubd ! i) - m\<rparr>"
  have x: "entry_ok ?x" using ok assms(3) by (simp add: ubd_ok_def)
  then have y: "entry_ok ?y" using assms(4,5) int256_within [of "Balance ?x - m" "Balance ?x"] by (simp add: entry_ok_def)
  have "\<forall>x \<in> set ((UEntries ubd)[i := ?y]). entry_ok x"
    by (rule entries_ok_update) (use ok y in \<open>simp_all add: ubd_ok_def\<close>)
  with ok have ok': "ubd_ok e k ubd'" unfolding ubd_ok_def assms(6) by simp
  have sum: "entries_sum ubd' = entries_sum ubd - m" unfolding entries_sum_def assms(6) by (simp add: entries_update [OF assms(3)])
  note g = SetUnbondingDelegation_success [OF assms(1) ok' assms(7)]
  show "reaches e D 0 m s t" using g(1) sum assms(2) by (simp add: unbonding_at_def)
  have "UnbondingDelegations t = om_set k ubd' (UnbondingDelegations s)" "Validators t = Validators s" using g(2) by (simp_all add: books_def)
  then show "map_of (UnbondingDelegations t) k = Some ubd'" "only_unbonding k s t" by (simp_all add: om_simps only_unbonding_def)
  show "length (UEntries ubd') = length (UEntries ubd)" by (simp add: assms(6))
qed

lemma slash_amount_nonneg:
  "0 \<le> f \<Longrightarrow> 0 \<le> n \<Longrightarrow> rbind (Dec_MulInt f n) Dec_TruncateInt = Inr x \<Longrightarrow> 0 \<le> x"
  by (auto simp: rbind_Inr_iff Dec_MulInt_def assertInValidRange_def Dec_TruncateInt_def chopPrecisionAndTruncate_def sdkint
      sdiv_nonneg_eq precisionReuse_def pos_imp_zdiv_nonneg_iff split: if_splits)

lemma MinInt_eq: "MinInt a b = min a b"
  by (auto simp: MinInt_def)

definition unbonding_round :: "staking_env \<Rightarrow> (string \<times> string) \<Rightarrow> nat \<Rightarrow> staking_state \<Rightarrow> int \<Rightarrow> UnbondingDelegation \<Rightarrow> int \<Rightarrow> staking_state \<Rightarrow> bool" where
  "unbonding_round e k n s0 burned0 ubd burned s \<longleftrightarrow> map_of (UnbondingDelegations s) k = Some ubd \<and> length (UEntries ubd) = n \<and>
     reaches e (\<lambda>_. 0) 0 (burned - burned0) s0 s \<and> burned0 \<le> burned \<and> int256 burned \<and> only_unbonding k s0 s"

lemma unbonding_round_lower:
  assumes "unbonding_round e k n s0 b0 ubd b s" "i < n" "0 \<le> m" "m \<le> Balance (UEntries ubd ! i)"
    and "Int_Add b m = Inr b'" "Int_Sub (Balance (UEntries ubd ! i)) m = Inr x"
    and "SetUnbondingDelegation e (ubd\<lparr>UEntries := (UEntries ubd)[i := (UEntries ubd ! i)\<lparr>Balance := x\<rparr>]\<rparr>) s = (Inr u, t)"
  shows "unbonding_round e k n s0 b0 (ubd\<lparr>UEntries := (UEntries ubd)[i := (UEntries ubd ! i)\<lparr>Balance := x\<rparr>]\<rparr>) b' t"
proof -
  note r = assms(1) [unfolded unbonding_round_def]
  have x: "x = Balance (UEntries ubd ! i) - m" "b' = b + m" "int256 b'" using assms(5,6) by (auto simp: Int_arith_eq split: if_splits)
  have i: "i < length (UEntries ubd)" using r assms(2) by simp
  have w: "wf e (\<lambda>_. 0) s" using r reaches_wf by blast
  note l = lower_entry [OF w _ i assms(3,4) refl assms(7) [unfolded x(1)]]
  have l: "map_of (UnbondingDelegations t) k = Some (ubd\<lparr>UEntries := (UEntries ubd)[i := (UEntries ubd ! i)\<lparr>Balance := x\<rparr>]\<rparr>)"
    "reaches e (\<lambda>_. 0) 0 m s t" "only_unbonding k s t"
    unfolding x(1) using r by (auto intro: l)
  have "reaches e (\<lambda>_. 0) 0 (b - b0) s0 s" using r by blast
  from reaches_trans [OF this l(2)] have "reaches e (\<lambda>_. 0) 0 (b' - b0) s0 t" by (simp add: x(2) algebra_simps)
  with l(1,3) r x(2,3) assms(3) only_unbonding_trans [of k s0 s t] show ?thesis by (simp add: unbonding_round_def)
qed

lemma slash_unbonding_entry_round:
  assumes "unbonding_round e k n s0 0 ubd b s" "0 \<le> f" "i < n" "slash_unbonding_entry e h f now (ubd, tot, b) i s = (Inr (ubd', tot', b'), t)"
  shows "unbonding_round e k n s0 0 ubd' b' t"
proof -
  let ?x = "UEntries ubd ! i"
  have ok: "entry_ok ?x"
    using assms(1,3) wfD(7) [of e "\<lambda>_. 0" s k ubd] by (auto simp: unbonding_round_def ubd_ok_def dest: reaches_wf)
  have d: "(ubd' = ubd \<and> b' = b \<and> t = s) \<or> (\<exists>m x u. rbind (Dec_MulInt f (InitialBalance ?x)) Dec_TruncateInt = Inr m \<and>
      Int_Add b (MinInt m (Balance ?x)) = Inr b' \<and> Int_Sub (Balance ?x) (MinInt m (Balance ?x)) = Inr x \<and>
      ubd' = ubd\<lparr>UEntries := (UEntries ubd)[i := ?x\<lparr>Balance := x\<rparr>]\<rparr> \<and> SetUnbondingDelegation e ubd' s = (Inr u, t))"
  proof (cases "CreationHeight ?x < h \<or> IsMature ?x now")
    case True
    then have "slash_unbonding_entry e h f now (ubd, tot, b) i s = (Inr (ubd, tot, b), s)"
      by (auto simp: slash_unbonding_entry_def Let_def sm_run)
    with assms(4) show ?thesis by simp
  next
    case False
    from False assms(4) obtain m where m: "rbind (Dec_MulInt f (InitialBalance ?x)) Dec_TruncateInt = Inr m"
      by (auto simp: slash_unbonding_entry_def Let_def sbind_Inr_iff sm_run)
    with False assms(4) show ?thesis
      by (cases "MinInt m (Balance ?x) = 0") (auto simp: slash_unbonding_entry_def Let_def sbind_Inr_iff sm_run)
  qed
  then consider "t = s" "ubd' = ubd" "b' = b" | m x u where "rbind (Dec_MulInt f (InitialBalance ?x)) Dec_TruncateInt = Inr m"
      "Int_Add b (MinInt m (Balance ?x)) = Inr b'" "Int_Sub (Balance ?x) (MinInt m (Balance ?x)) = Inr x"
      "ubd' = ubd\<lparr>UEntries := (UEntries ubd)[i := ?x\<lparr>Balance := x\<rparr>]\<rparr>" "SetUnbondingDelegation e ubd' s = (Inr u, t)" by blast
  then show ?thesis
  proof cases
    case 1
    with assms(1) show ?thesis by simp
  next
    case 2
    have "0 \<le> m" using ok by (intro slash_amount_nonneg [OF assms(2) _ 2(1)]) (simp add: entry_ok_def)
    then show ?thesis unfolding 2(4) using ok
      by (intro unbonding_round_lower [OF assms(1,3) _ _ 2(2,3) 2(5) [unfolded 2(4)]]) (simp_all add: MinInt_eq entry_ok_def)
  qed
qed

lemma SlashUnbondingDelegation_success:
  assumes "env_ok e" "wf e (\<lambda>_. 0) s" "map_of (UnbondingDelegations s) k = Some ubd" "0 \<le> f"
    and "SlashUnbondingDelegation e ubd h f s = (Inr r, t)"
  shows "reaches e (\<lambda>_. 0) 0 0 s t" "only_unbonding k s t"
proof -
  from assms(5) obtain ubd' tot b w u where r:
    "sfold (slash_unbonding_entry e h f (STime s)) (ubd, 0, 0) [0..<length (UEntries ubd)] s = (Inr (ubd', tot, b), w)"
    "burnNotBondedTokens e b w = (Inr u, t)"
    unfolding SlashUnbondingDelegation_def by (auto simp: sbind_Inr_iff sm_run)
  have "case (ubd', tot, b) of (ubd', tot, b) \<Rightarrow> unbonding_round e k (length (UEntries ubd)) s 0 ubd' b w"
    using r(1)
  proof (rule sfold_invariant)
    show "case (ubd, 0 :: int, 0) of (ubd', tot, b) \<Rightarrow> unbonding_round e k (length (UEntries ubd)) s 0 ubd' b s"
      using assms(2,3) by (simp add: unbonding_round_def reaches_refl only_unbonding_def int256_def)
  next
    fix i acc u acc' u'
    assume "i \<in> set [0..<length (UEntries ubd)]"
      "case acc of (ubd', tot, b) \<Rightarrow> unbonding_round e k (length (UEntries ubd)) s 0 ubd' b u"
      "slash_unbonding_entry e h f (STime s) acc i u = (Inr acc', u')"
    then show "case acc' of (ubd', tot, b) \<Rightarrow> unbonding_round e k (length (UEntries ubd)) s 0 ubd' b u'"
      by (cases acc, cases acc') (auto intro: slash_unbonding_entry_round [OF _ assms(4)])
  qed
  then have l: "reaches e (\<lambda>_. 0) 0 b s w" "0 \<le> b" "int256 b" "only_unbonding k s w" by (simp_all add: unbonding_round_def)
  note n = burn_not_bonded [OF assms(1) reaches_wf [OF l(1)] l(3,2) r(2)]
  from reaches_trans [OF l(1) n(1)] show "reaches e (\<lambda>_. 0) 0 0 s t" by simp
  have "sheets t = sheets w" by (subst n(2)) simp
  from sheetsD(2,4) [OF this] l(4) show "only_unbonding k s t" by (simp add: only_unbonding_def)
qed

section \<open>Redelegations\<close>

lemma slash_moved_unbonding_round:
  assumes "unbonding_round e k n s0 b0 ubd b s" "0 \<le> m" "i < n"
    and "slash_moved_unbonding e h now (ubd, m, b) i s = (Inr (ubd', m', b'), t)"
  shows "unbonding_round e k n s0 b0 ubd' b' t" "0 \<le> m'"
proof -
  let ?x = "UEntries ubd ! i"
  let ?q = "MinInt m (Balance ?x)"
  have ok: "entry_ok ?x"
    using assms(1,3) wfD(7) [of e "\<lambda>_. 0" s k ubd] by (auto simp: unbonding_round_def ubd_ok_def dest: reaches_wf)
  have "unbonding_round e k n s0 b0 ubd' b' t \<and> 0 \<le> m'"
  proof (cases "?q = 0 \<or> CreationHeight ?x < h \<or> IsMature ?x now")
    case True
    then have "slash_moved_unbonding e h now (ubd, m, b) i s = (Inr (ubd, m, b), s)"
      by (auto simp: slash_moved_unbonding_def Let_def sm_run)
    with assms show ?thesis by simp
  next
    case False
    with assms(4) obtain x u where r: "Int_Sub m ?q = Inr m'" "Int_Add b ?q = Inr b'" "Int_Sub (Balance ?x) ?q = Inr x"
      "ubd' = ubd\<lparr>UEntries := (UEntries ubd)[i := ?x\<lparr>Balance := x\<rparr>]\<rparr>" "SetUnbondingDelegation e ubd' s = (Inr u, t)"
      by (auto simp: slash_moved_unbonding_def Let_def sbind_Inr_iff sm_run)
    have "0 \<le> m'" using r(1) by (auto simp: Int_arith_eq MinInt_eq split: if_splits)
    moreover have "unbonding_round e k n s0 b0 ubd' b' t" unfolding r(4) using ok assms(2)
      by (intro unbonding_round_lower [OF assms(1,3) _ _ r(2,3) r(5) [unfolded r(4)]]) (simp_all add: MinInt_eq entry_ok_def)
    ultimately show ?thesis by simp
  qed
  then show "unbonding_round e k n s0 b0 ubd' b' t" "0 \<le> m'" by blast+
qed

lemma slash_moved_unbondings:
  assumes "wf e (\<lambda>_. 0) s" "map_of (UnbondingDelegations s) k = Some ubd" "0 \<le> m" "int256 b"
    and "sfold (slash_moved_unbonding e h now) (ubd, m, b) [0..<length (UEntries ubd)] s = (Inr (ubd', m', b'), t)"
  shows "reaches e (\<lambda>_. 0) 0 (b' - b) s t" "b \<le> b'" "int256 b'" "0 \<le> m'" "Validators t = Validators s"
proof -
  have "case (ubd', m', b') of (ubd', m', b') \<Rightarrow> unbonding_round e k (length (UEntries ubd)) s b ubd' b' t \<and> 0 \<le> m'"
    using assms(5)
  proof (rule sfold_invariant)
    show "case (ubd, m, b) of (ubd', m', b') \<Rightarrow> unbonding_round e k (length (UEntries ubd)) s b ubd' b' s \<and> 0 \<le> m'"
      using assms(1-4) by (simp add: unbonding_round_def reaches_refl only_unbonding_def)
  next
    fix i acc u acc' u'
    assume "i \<in> set [0..<length (UEntries ubd)]"
      "case acc of (ubd', m', b') \<Rightarrow> unbonding_round e k (length (UEntries ubd)) s b ubd' b' u \<and> 0 \<le> m'"
      "slash_moved_unbonding e h now acc i u = (Inr acc', u')"
    then show "case acc' of (ubd', m', b') \<Rightarrow> unbonding_round e k (length (UEntries ubd)) s b ubd' b' u' \<and> 0 \<le> m'"
      by (cases acc, cases acc') (auto intro: slash_moved_unbonding_round)
  qed
  then show "reaches e (\<lambda>_. 0) 0 (b' - b) s t" "b \<le> b'" "int256 b'" "0 \<le> m'" "Validators t = Validators s"
    by (simp_all add: unbonding_round_def only_unbonding_def)
qed

lemma SharesFromTokensTruncated_nonneg:
  "0 \<le> DelegatorShares v \<Longrightarrow> 0 \<le> Tokens v \<Longrightarrow> 0 \<le> n \<Longrightarrow> SharesFromTokensTruncated v n = Inr sh \<Longrightarrow> 0 \<le> sh"
  by (auto simp: SharesFromTokensTruncated_def Dec_MulInt_def Dec_QuoTruncate_def assertInValidRange_def rbind_Inr_iff
      LegacyNewDecFromInt_def sdiv_nonneg_eq precisionReuse_def pos_imp_zdiv_nonneg_iff split: if_splits)

text \<open>The burned amounts so far, with the slack the pools have gained by them.\<close>

definition burn_round :: "staking_env \<Rightarrow> string \<Rightarrow> staking_state \<Rightarrow> int \<Rightarrow> int \<Rightarrow> staking_state \<Rightarrow> bool" where
  "burn_round e dst s0 b n s \<longleftrightarrow> reaches e (\<lambda>_. 0) b n s0 s \<and> 0 \<le> b \<and> 0 \<le> n \<and> int256 b \<and> int256 n \<and>
     (\<forall>a. a \<noteq> dst \<longrightarrow> map_of (Validators s) a = map_of (Validators s0) a)"

lemma burn_round_unbond:
  assumes "env_ok e" "burn_round e dst s0 b n s" "0 \<le> sh" "Unbond e del dst sh s = (Inr tokens, t)"
    and "charge_pool (map_of (Validators t) dst) tokens (b, n) = Inr (b', n')"
  shows "burn_round e dst s0 b' n' t"
proof -
  note i = assms(2) [unfolded burn_round_def]
  have w: "wf e (\<lambda>_. 0) s" using i reaches_wf by blast
  obtain v where "map_of (Validators s) dst = Some v" "0 \<le> tokens" "tokens \<le> Tokens v" "left_pool v tokens e s t"
    "\<forall>b. b \<noteq> dst \<longrightarrow> map_of (Validators t) b = map_of (Validators s) b"
    "\<forall>w. map_of (Validators t) dst = Some w \<longrightarrow> Status w = Status v" "map_of (Validators t) dst = None \<longrightarrow> Status v = Unbonded"
    by (rule Unbond_success [OF assms(1) w assms(3,4)])
  note v = this(2,4,5) this(6) [rule_format] this(7) [rule_format]
  have "(b', n') = (if IsBonded v then (b + tokens, n) else (b, n + tokens)) \<and> int256 b' \<and> int256 n'"
  proof (cases "map_of (Validators t) dst")
    case None
    with v(5) assms(5) i show ?thesis by (auto simp: charge_pool_def rbind_Inr_iff Int_arith_eq IsBonded_def split: if_splits)
  next
    case (Some w)
    with v(4) [OF Some] assms(5) i show ?thesis
      by (auto simp: charge_pool_def rbind_Inr_iff Int_arith_eq IsBonded_def split: if_splits)
  qed
  then have u: "b' = (if IsBonded v then b + tokens else b)" "n' = (if IsBonded v then n else n + tokens)" "int256 b'" "int256 n'"
    by (auto split: if_splits)
  from reaches_trans [OF conjunct1 [OF i] v(2) [unfolded left_pool_def]] have "reaches e (\<lambda>_. 0) b' n' s0 t"
    unfolding u(1,2) by (auto split: if_splits)
  with i v(1,3) u show ?thesis by (auto simp: burn_round_def)
qed

lemma unbond_moved_round:
  assumes "env_ok e" "burn_round e dst s0 b n s" "0 \<le> sh" "unbond_moved e del dst sh (b, n) s = (Inr (b', n'), t)"
  shows "burn_round e dst s0 b' n' t"
proof (cases "sh = 0 \<or> map_of (Delegations s) (del, dst) = None")
  case True
  then have "unbond_moved e del dst sh (b, n) s = (Inr (b, n), s)" by (auto simp: unbond_moved_def sm_run)
  with assms(2,4) show ?thesis by simp
next
  case False
  then obtain d where d: "map_of (Delegations s) (del, dst) = Some d" by blast
  have w: "wf e (\<lambda>_. 0) s" using assms(2) reaches_wf by (auto simp: burn_round_def)
  let ?q = "if sh > Shares d then Shares d else sh"
  have q: "0 \<le> ?q" using assms(3) wfD(6) [OF w d] by (simp add: del_ok_def)
  from assms(4) False d obtain tokens where "Unbond e del dst ?q s = (Inr tokens, t)"
    "charge_pool (map_of (Validators t) dst) tokens (b, n) = Inr (b', n')"
    by (auto simp: unbond_moved_def sbind_Inr_iff sm_run)
  from burn_round_unbond [OF assms(1,2) q this] show ?thesis .
qed

lemma slash_moved_delegation_round:
  assumes "env_ok e" "burn_round e dst s0 b n s" "0 \<le> m" "slash_moved_delegation e del dst m (b, n) s = (Inr (b', n'), t)"
  shows "burn_round e dst s0 b' n' t"
proof (cases "m = 0")
  case True
  with assms(2,4) show ?thesis by (simp add: slash_moved_delegation_def sm_run)
next
  case False
  have w: "wf e (\<lambda>_. 0) s" using assms(2) reaches_wf by (auto simp: burn_round_def)
  from assms(4) False obtain v where v: "map_of (Validators s) dst = Some v"
    by (auto simp: slash_moved_delegation_def sbind_Inr_iff GetValidator_run)
  consider sh where "SharesFromTokensTruncated v m = Inr sh" "unbond_moved e del dst sh (b, n) s = (Inr (b', n'), t)"
    | x where "SharesFromTokensTruncated v m = Inl x" "b' = b" "n' = n" "t = s"
    using assms(4) False v by (auto simp: slash_moved_delegation_def sbind_Inr_iff GetValidator_run sm_run split: sum.splits fault.splits)
  then show ?thesis
  proof cases
    case 1
    have "0 \<le> sh" using stored_ok [OF w v] assms(3) by (intro SharesFromTokensTruncated_nonneg [OF _ _ _ 1(1)]) simp_all
    from unbond_moved_round [OF assms(1,2) this 1(2)] show ?thesis .
  next
    case 2
    with assms(2) show ?thesis by simp
  qed
qed

definition moved_round :: "staking_env \<Rightarrow> string \<Rightarrow> staking_state \<Rightarrow> int \<times> int \<times> int \<Rightarrow> staking_state \<Rightarrow> bool" where
  "moved_round e dst s0 = (\<lambda>(_, b, n) s. burn_round e dst s0 b n s)"

lemma slash_redelegation_entry_round:
  assumes "env_ok e" "0 \<le> f" "0 \<le> RInitialBalance x" "moved_round e dst s0 acc s"
    and "slash_redelegation_entry e del dst h f now acc x s = (Inr acc', t)"
  shows "moved_round e dst s0 acc' t"
proof -
  obtain tot b n where acc: "acc = (tot, b, n)" by (cases acc)
  have b: "burn_round e dst s0 b n s" using assms(4) by (simp add: acc moved_round_def)
  show ?thesis
  proof (cases "RCreationHeight x < h \<or> (red_IsMature x now \<and> \<not> OnHold x)")
    case True
    then have "slash_redelegation_entry e del dst h f now acc x s = (Inr acc, s)"
      by (auto simp: acc slash_redelegation_entry_def sm_run)
    with assms(4,5) show ?thesis by simp
  next
    case False
    then have c: "(RCreationHeight x < h) = False" "(red_IsMature x now \<and> \<not> OnHold x) = False" by blast+
    from assms(5) obtain m tot' m' n' u b2 n2 where r: "rbind (Dec_MulInt f (RInitialBalance x)) Dec_TruncateInt = Inr m"
      "(case map_of (UnbondingDelegations s) (del, dst) of
           None \<Rightarrow> sret (m, n)
         | Some ubd \<Rightarrow> sbind (sfold (slash_moved_unbonding e h now) (ubd, m, n)
             [0..<length (UEntries ubd)]) (\<lambda>(_, slashAmount, notBonded). sret (slashAmount, notBonded))) s = (Inr (m', n'), u)"
      "slash_moved_delegation e del dst m' (b, n') u = (Inr (b2, n2), t)" "acc' = (tot', b2, n2)"
      unfolding acc slash_redelegation_entry_def c if_False split_conv by (clarsimp simp: sbind_Inr_iff sm_run)
    have m: "0 \<le> m" by (rule slash_amount_nonneg [OF assms(2,3) r(1)])
    have "burn_round e dst s0 b n' u \<and> 0 \<le> m'"
    proof (cases "map_of (UnbondingDelegations s) (del, dst)")
      case None
      with r(2) b m show ?thesis by (simp add: sm_run)
    next
      case (Some ubd)
      with r(2) obtain ubd' where l: "sfold (slash_moved_unbonding e h now) (ubd, m, n) [0..<length (UEntries ubd)] s = (Inr (ubd', m', n'), u)"
        by (auto simp: sbind_Inr_iff sm_run)
      note i = b [unfolded burn_round_def]
      have w: "wf e (\<lambda>_. 0) s" "int256 n" using i reaches_wf by blast+
      note g = slash_moved_unbondings [OF w(1) Some m w(2) l]
      from reaches_trans [OF conjunct1 [OF i] g(1)] i g show ?thesis by (auto simp: burn_round_def)
    qed
    then have "burn_round e dst s0 b2 n2 t" using slash_moved_delegation_round [OF assms(1) _ _ r(3)] by blast
    then show ?thesis by (simp add: r(4) moved_round_def)
  qed
qed

lemma SlashRedelegation_success:
  assumes "env_ok e" "wf e (\<lambda>_. 0) s" "red_ok e (del, src, dst) red" "0 \<le> f" "SlashRedelegation e red h f s = (Inr r, t)"
  shows "reaches e (\<lambda>_. 0) 0 0 s t" "map_of (Validators t) src = map_of (Validators s) src"
proof -
  from assms(3,5) obtain tot b n w u v x where r:
    "sfold (slash_redelegation_entry e del dst h f (STime s)) (0, 0, 0) (REntries red) s = (Inr (tot, b, n), w)"
    "burnBondedTokens e b w = (Inr x, u)" "burnNotBondedTokens e n u = (Inr v, t)"
    unfolding SlashRedelegation_def accAddr_def valAddr_def by (auto simp: sbind_Inr_iff sm_run red_ok_def)
  have "moved_round e dst s (tot, b, n) w"
    using r(1)
  proof (rule sfold_invariant)
    show "moved_round e dst s (0, 0, 0) s" using assms(2) by (simp add: moved_round_def burn_round_def reaches_refl int256_def)
  next
    fix x acc u acc' u'
    assume x: "x \<in> set (REntries red)" and m: "moved_round e dst s acc u"
      and r: "slash_redelegation_entry e del dst h f (STime s) acc x u = (Inr acc', u')"
    have "0 \<le> RInitialBalance x" using assms(3) x by (simp add: red_ok_def)
    then show "moved_round e dst s acc' u'" by (rule slash_redelegation_entry_round [OF assms(1,4) _ m r])
  qed
  then have l: "reaches e (\<lambda>_. 0) b n s w" "0 \<le> b" "0 \<le> n" "int256 b" "int256 n"
    "\<And>a. a \<noteq> dst \<Longrightarrow> map_of (Validators w) a = map_of (Validators s) a" by (auto simp: moved_round_def burn_round_def)
  note x = burn_bonded [OF assms(1) reaches_wf [OF l(1)] l(4,2) r(2)]
  note y = burn_not_bonded [OF assms(1) reaches_wf [OF x(1)] l(5,3) r(3)]
  from reaches_trans [OF l(1) reaches_trans [OF x(1) y(1)]] show "reaches e (\<lambda>_. 0) 0 0 s t" by simp
  have "Validators t = Validators w" by (subst y(2), subst x(2)) simp
  with l(6) [of src] assms(3) show "map_of (Validators t) src = map_of (Validators s) src" by (simp add: red_ok_def)
qed

section \<open>Slashing a validator\<close>

definition stored_unbonding :: "staking_state \<Rightarrow> string \<times> string \<Rightarrow> UnbondingDelegation" where
  "stored_unbonding s k = (case map_of (UnbondingDelegations s) k of
     None \<Rightarrow> \<lparr> UDelegatorAddress = [], UValidatorAddress = [], UEntries = [] \<rparr> | Some ubd \<Rightarrow> ubd)"

lemma slash_all_unbonding:
  assumes "env_ok e" "0 \<le> f" "distinct ks" "wf e (\<lambda>_. 0) s"
    and "slash_all (\<lambda>ubd. SlashUnbondingDelegation e ubd h f) m (map (stored_unbonding s) ks) s = (Inr m', t)"
  shows "reaches e (\<lambda>_. 0) 0 0 s t \<and> Validators t = Validators s"
  using assms(3-5)
proof (induction ks arbitrary: s m)
  case Nil
  then show ?case by (simp add: slash_all_def sm_run reaches_refl)
next
  case (Cons k ks)
  from Cons.prems(3) obtain x u m1 where r: "SlashUnbondingDelegation e (stored_unbonding s k) h f s = (Inr x, u)"
    "slash_all (\<lambda>ubd. SlashUnbondingDelegation e ubd h f) m1 (map (stored_unbonding s) ks) u = (Inr m', t)"
    unfolding slash_all_def by (auto simp: sbind_Inr_iff sm_run split: if_splits)
  have g: "reaches e (\<lambda>_. 0) 0 0 s u \<and> only_unbonding k s u"
  proof (cases "map_of (UnbondingDelegations s) k")
    case None
    with r(1) have "u = s" by (auto simp: stored_unbonding_def SlashUnbondingDelegation_def burnNotBondedTokens_def sbind_Inr_iff sm_run)
    then show ?thesis by (simp add: reaches_refl [OF Cons.prems(2)] only_unbonding_def)
  next
    case (Some ubd)
    with SlashUnbondingDelegation_success [OF assms(1) Cons.prems(2) Some assms(2)] r(1) show ?thesis by (simp add: stored_unbonding_def)
  qed
  have "map (stored_unbonding s) ks = map (stored_unbonding u) ks" 
  proof (rule map_cong [OF refl])
    fix k' assume "k' \<in> set ks"
    with Cons.prems(1) have "k' \<noteq> k" by auto
    with g have "map_of (UnbondingDelegations u) k' = map_of (UnbondingDelegations s) k'" unfolding only_unbonding_def by blast
    then show "stored_unbonding s k' = stored_unbonding u k'" by (simp only: stored_unbonding_def)
  qed
  then have "slash_all (\<lambda>ubd. SlashUnbondingDelegation e ubd h f) m1 (map (stored_unbonding u) ks) u = (Inr m', t)" using r(2) by (simp only:)
  from Cons.IH [OF _ reaches_wf [OF conjunct1 [OF g]] this] Cons.prems(1)
  have ih: "reaches e (\<lambda>_. 0) 0 0 u t \<and> Validators t = Validators u" by simp
  from reaches_trans [OF conjunct1 [OF g] conjunct1 [OF ih]] ih g show ?case by (simp add: only_unbonding_def)
qed

lemma slash_all_redelegations:
  assumes "env_ok e" "0 \<le> f" "\<forall>red \<in> set reds. \<exists>del dst. red_ok e (del, src, dst) red" "wf e (\<lambda>_. 0) s"
    and "slash_all (\<lambda>red. SlashRedelegation e red h f) m reds s = (Inr m', t)"
  shows "reaches e (\<lambda>_. 0) 0 0 s t \<and> map_of (Validators t) src = map_of (Validators s) src"
  using assms(3-5)
proof (induction reds arbitrary: s m)
  case Nil
  then show ?case by (simp add: slash_all_def sm_run reaches_refl)
next
  case (Cons red reds)
  from Cons.prems(3) obtain x u m1 where r: "SlashRedelegation e red h f s = (Inr x, u)"
    "slash_all (\<lambda>red. SlashRedelegation e red h f) m1 reds u = (Inr m', t)"
    unfolding slash_all_def by (auto simp: sbind_Inr_iff sm_run split: if_splits)
  from Cons.prems(1) obtain del dst where ok: "red_ok e (del, src, dst) red" by auto
  note g = SlashRedelegation_success [OF assms(1) Cons.prems(2) ok assms(2) r(1)]
  from Cons.IH [OF _ reaches_wf [OF g(1)] r(2)] Cons.prems(1)
  have ih: "reaches e (\<lambda>_. 0) 0 0 u t" "map_of (Validators t) src = map_of (Validators u) src" by simp_all
  from reaches_trans [OF g(1) ih(1)] ih(2) g(2) show ?case by simp
qed

lemma index_distinct:
  "distinct (map fst xs) \<Longrightarrow> distinct (map (\<lambda>x. (snd (fst x), a)) (filter (\<lambda>x. fst (fst x) = a) xs))"
  by (induction xs) (auto simp: image_iff)

lemma slash_departed_success:
  assumes "env_ok e" "wf e (\<lambda>_. 0) s" "0 \<le> f" "slash_departed e a h f m s = (Inr m', t)"
  shows "reaches e (\<lambda>_. 0) 0 0 s t \<and> map_of (Validators t) a = map_of (Validators s) a"
proof (cases "h = SHeight s")
  case True
  with assms(2,4) show ?thesis by (auto simp: slash_departed_def sm_run reaches_refl)
next
  case False
  let ?ks = "map (\<lambda>x. (snd (fst x), a)) (filter (\<lambda>x. fst (fst x) = a) (UnbondingDelegationByValIndex s))"
  from False assms(4) obtain m1 u reds where r:
    "slash_all (\<lambda>ubd. SlashUnbondingDelegation e ubd h f) m (map (stored_unbonding s) ?ks) s = (Inr m1, u)"
    "GetRedelegationsFromSrcValidator a u = (Inr reds, u)" "slash_all (\<lambda>red. SlashRedelegation e red h f) m1 reds u = (Inr m', t)"
    by (auto simp: slash_departed_def sbind_Inr_iff guard_Inr sm_run GetUnbondingDelegationsFromValidator_def
        GetRedelegationsFromSrcValidator_def stored_unbonding_def comp_def)
  have d: "distinct ?ks" by (rule index_distinct [OF om_ok_distinct [OF wfD(10) [OF assms(2)]]])
  note g = slash_all_unbonding [OF assms(1,3) d assms(2) r(1)]
  have w: "wf e (\<lambda>_. 0) u" using g reaches_wf by blast
  have "\<exists>del dst. red_ok e (del, a, dst) red" if "red \<in> set reds" for red
  proof -
    let ?get = "\<lambda>x. case map_of (Redelegations u) (fst (snd (fst x)), a, snd (snd (fst x))) of
      None \<Rightarrow> Inl (Err ''collections: not found'') | Some red \<Rightarrow> Inr red"
    from r(2) have "rmap ?get (filter (\<lambda>x. fst (fst x) = a) (RedelegationsByValSrc u)) = Inr reds"
      by (simp add: GetRedelegationsFromSrcValidator_def sbind_Inr_iff sm_run)
    with that obtain x where "?get x = Inr red"
      by (auto simp: rmap_Inr_iff list_all2_conv_all_nth in_set_conv_nth)
    then have "map_of (Redelegations u) (fst (snd (fst x)), a, snd (snd (fst x))) = Some red" by (auto split: option.splits)
    from wfD(8) [OF w this] show ?thesis by blast
  qed
  then have ok: "\<forall>red \<in> set reds. \<exists>del dst. red_ok e (del, a, dst) red" by blast
  note z = slash_all_redelegations [OF assms(1,3) ok w r(3)]
  from reaches_trans [OF conjunct1 [OF g] conjunct1 [OF z]] g z show ?thesis by simp
qed

lemma slash_hook_success:
  assumes "env_ok e" "wf e D s" "slash_hook e a v n s = (Inr u, t)"
  shows "reaches e D 0 0 s t" "Validators t = Validators s"
proof -
  have "t = s \<or> (\<exists>h. call_hook e h s = (Inr u, t))"
    using assms(3) by (auto simp: slash_hook_def sbind_Inr_iff sm_run split: if_splits)
  then have "reaches e D 0 0 s t \<and> Validators t = Validators s"
    using hook_step(1) [OF assms(1,2)] sheetsD(2) [OF hook_sheets] reaches_refl [OF assms(2)] by blast
  then show "reaches e D 0 0 s t" "Validators t = Validators s" by blast+
qed

lemma GetValidatorByConsAddr_stored:
  "fst (GetValidatorByConsAddr c s) = Inr v \<Longrightarrow> \<exists>a. map_of (Validators s) a = Some v"
  by (auto simp: GetValidatorByConsAddr_def GetValidator_def sbind_def sm_run split: option.splits)

lemma slash_tokens_success:
  assumes "env_ok e" "wf e (\<lambda>_. 0) s" "map_of (Validators s) a = Some v" "0 < n" "n \<le> Tokens v"
    and "RemoveValidatorTokens e v n s = (Inr w, u)"
    and "(case Status w of Bonded \<Rightarrow> burnBondedTokens e n | Unbonding \<Rightarrow> burnNotBondedTokens e n
      | Unbonded \<Rightarrow> burnNotBondedTokens e n | Unspecified \<Rightarrow> sfail err) u = (Inr x, t)"
  shows "reaches e (\<lambda>_. 0) 0 0 s t"
proof -
  note g = RemoveValidatorTokens_success [OF assms(2,3,6)]
  have n: "int256 n" using int256_within [of n "Tokens v"] stored_ok [OF assms(2,3)] assms(4,5) by simp
  have st: "Status w = Status v" using g(1) by simp
  have "reaches e (\<lambda>_. 0) (if IsBonded v then - n else 0) (if IsBonded v then 0 else - n) u t"
    using assms(4,7) st burn_bonded(1) [OF assms(1) reaches_wf [OF g(5)] n] burn_not_bonded(1) [OF assms(1) reaches_wf [OF g(5)] n]
    by (cases "Status v") (auto simp: IsBonded_def sm_run)
  from reaches_trans [OF g(5) this] show ?thesis by (cases "IsBonded v") simp_all
qed

lemma Slash_success:
  assumes "env_ok e" "wf e (\<lambda>_. 0) s" "Slash e c h pow f s = (Inr r, t)"
  shows "reaches e (\<lambda>_. 0) 0 0 s t"
proof (cases "fst (GetValidatorByConsAddr c s)")
  case (Inl x)
  with assms(2,3) show ?thesis
    by (auto simp: Slash_def guard_Inr sbind_Inr_iff sm_run reaches_refl)
next
  case (Inr v)
  from assms(3) Inr have f: "0 \<le> f" by (auto simp: Slash_def sm_run split: if_splits)
  from GetValidatorByConsAddr_stored [OF Inr] obtain a where a: "map_of (Validators s) a = Some v" by blast
  note v = stored_ok [OF assms(2) a]
  define n where "n rest = MaxInt (MinInt rest (Tokens v)) 0" for rest
  from assms(3) Inr v obtain x m s1 rest s2 where r: "call_hook e (BeforeValidatorModified a) s = (Inr x, s1)"
    "slash_departed e a h f m s1 = (Inr rest, s2)"
    "(if n rest = 0 then sret 0 else sbind (slash_hook e a v (n rest)) (\<lambda>_. sbind (RemoveValidatorTokens e v (n rest)) (\<lambda>w.
       sbind (case Status w of Bonded \<Rightarrow> burnBondedTokens e (n rest) | Unbonding \<Rightarrow> burnNotBondedTokens e (n rest)
         | Unbonded \<Rightarrow> burnNotBondedTokens e (n rest) | Unspecified \<Rightarrow> sfail (ErrStaking ''invalid validator status'')) (\<lambda>_. sret (n rest))))) s2
       = (Inr r, t)"
    unfolding Slash_def valAddr_def Let_def n_def by (clarsimp simp: guard_Inr sbind_Inr_iff sm_run)
  note h = hook_step(1) [OF assms(1,2) r(1)]
  have d: "reaches e (\<lambda>_. 0) 0 0 s1 s2" "map_of (Validators s2) a = Some v"
    using slash_departed_success [OF assms(1) reaches_wf [OF h] f r(2)] a sheetsD(2) [OF hook_sheets [OF r(1)]] by simp_all
  have "reaches e (\<lambda>_. 0) 0 0 s2 t"
  proof (cases "n rest = 0")
    case True
    with r(3) reaches_refl [OF reaches_wf [OF d(1)]] show ?thesis by (simp add: sm_run)
  next
    case False
    then have n: "0 < n rest" "n rest \<le> Tokens v" using v by (auto simp: n_def MinInt_def MaxInt_def split: if_splits)
    from r(3) False obtain y s3 w s4 z where q: "slash_hook e a v (n rest) s2 = (Inr y, s3)" "RemoveValidatorTokens e v (n rest) s3 = (Inr w, s4)"
      "(case Status w of Bonded \<Rightarrow> burnBondedTokens e (n rest) | Unbonding \<Rightarrow> burnNotBondedTokens e (n rest)
         | Unbonded \<Rightarrow> burnNotBondedTokens e (n rest) | Unspecified \<Rightarrow> sfail (ErrStaking ''invalid validator status'')) s4 = (Inr z, t)"
      by (clarsimp simp: sbind_Inr_iff sm_run)
    note k = slash_hook_success [OF assms(1) reaches_wf [OF d(1)] q(1)]
    have "map_of (Validators s3) a = Some v" using k(2) d(2) by simp
    from reaches_trans [OF k(1) slash_tokens_success [OF assms(1) reaches_wf [OF k(1)] this n q(2,3)]] show ?thesis by simp
  qed
  from reaches_trans [OF h reaches_trans [OF d(1) this]] show ?thesis by simp
qed

end
