(* ===== verification/StakingBlocks.thy ===== *)
theory StakingBlocks
  imports StakingSlash
begin

text \<open>
  The end of a block keeps the books of \<open>x/staking\<close>: validators enter and leave the active set and their tokens move
  between the pools; so do the rotation of consensus keys and a change of the parameters.
\<close>

section \<open>Changes of status\<close>

lemma status_change:
  assumes "wf e D s" "map_of (Validators s) a = Some v" "Tokens w = Tokens v" "DelegatorShares w = DelegatorShares v"
    "OperatorAddress w = OperatorAddress v" "books t = books (s\<lparr>Validators := om_set a w (Validators s)\<rparr>)"
  shows "reaches e D (bonded_tokens v - bonded_tokens w) (other_tokens v - other_tokens w) s t"
proof -
  have "val_ok e a w" using stored_ok [OF assms(1,2)] assms(3-5) by (simp add: val_ok_def)
  from validator_step [OF assms(1) this] assms(2,4) show ?thesis
    by (simp add: shares_of_def reaches_books(1) [OF assms(6)])
qed

lemma queue_books [keeps_intros]:
  "keeps books (DeleteValidatorQueue e v)" "keeps books (InsertUnbondingValidatorQueue v)"
  unfolding DeleteValidatorQueue_def InsertUnbondingValidatorQueue_def GetUnbondingValidators_def SetUnbondingValidatorsQueue_def
    valAddr_def Let_def
  by (intro keeps_intros; simp add: books_def)+

lemma bondValidator_success:
  assumes "env_ok e" "wf e D s" "map_of (Validators s) a = Some v" "\<not> IsBonded v" "bondValidator e v s = (Inr w, t)"
  shows "reaches e D (- Tokens v) (Tokens v) s t" "Tokens w = Tokens v"
proof -
  note v = stored_ok [OF assms(2,3)]
  let ?w = "UpdateStatus v Bonded"
  from assms(5) v obtain x1 s1 x2 s2 x3 s3 x4 s4 x5 b where r: "DeleteValidatorByPowerIndex e v s = (Inr x1, s1)" "SetValidator e ?w s1 = (Inr x2, s2)"
    "SetValidatorByPowerIndex e ?w s2 = (Inr x3, s3)" "DeleteValidatorQueue e ?w s3 = (Inr x4, s4)"
    "call_hook e (AfterValidatorBonded (ConsAddr v) b) s4 = (Inr x5, t)" "w = ?w"
    by (auto simp: bondValidator_def Let_def sbind_Inr_iff sm_run valAddr_def UpdateStatus_def)
  have b: "books s4 = books (s\<lparr>Validators := om_set a ?w (Validators s)\<rparr>)"
    using replace_validator [OF r(1-3)] v keepsD [OF queue_books(1) r(4)] by (simp add: UpdateStatus_def)
  have "reaches e D (bonded_tokens v - bonded_tokens ?w) (other_tokens v - other_tokens ?w) s s4"
    by (rule status_change [OF assms(2,3) _ _ _ b]) (simp_all add: UpdateStatus_def)
  then have c: "reaches e D (- Tokens v) (Tokens v) s s4"
    using assms(4) by (simp add: UpdateStatus_def IsBonded_def bonded_tokens_def other_tokens_def)
  from reaches_trans [OF c hook_step(1) [OF assms(1) reaches_wf [OF c] r(5)]] show "reaches e D (- Tokens v) (Tokens v) s t" by simp
  show "Tokens w = Tokens v" by (simp add: r(6) UpdateStatus_def)
qed

lemma BeginUnbondingValidator_success:
  assumes "env_ok e" "wf e D s" "map_of (Validators s) a = Some v" "BeginUnbondingValidator e v s = (Inr w, t)"
  shows "reaches e D (Tokens v) (- Tokens v) s t" "Tokens w = Tokens v"
proof -
  note v = stored_ok [OF assms(2,3)]
  from assms(4) v obtain x1 s1 tm h x2 s2 x3 s3 x4 s4 x5 b where st: "Status v = Bonded"
    and r: "DeleteValidatorByPowerIndex e v s = (Inr x1, s1)" "w = (UpdateStatus v Unbonding)\<lparr>UnbondingTime := tm, UnbondingHeight := h\<rparr>"
    "SetValidator e w s1 = (Inr x2, s2)" "SetValidatorByPowerIndex e w s2 = (Inr x3, s3)" "InsertUnbondingValidatorQueue w s3 = (Inr x4, s4)"
    "call_hook e (AfterValidatorBeginUnbonding (ConsAddr v) b) s4 = (Inr x5, t)"
    by (auto simp: BeginUnbondingValidator_def Let_def sbind_Inr_iff guard_Inr sm_run valAddr_def UpdateStatus_def
        staking_Params_run [OF assms(2)])
  have b: "books s4 = books (s\<lparr>Validators := om_set a w (Validators s)\<rparr>)"
    using replace_validator [OF r(1,3,4)] v keepsD [OF queue_books(2) r(5)] by (simp add: r(2) UpdateStatus_def)
  have "reaches e D (bonded_tokens v - bonded_tokens w) (other_tokens v - other_tokens w) s s4"
    by (rule status_change [OF assms(2,3) _ _ _ b]) (simp_all add: r(2) UpdateStatus_def)
  then have c: "reaches e D (Tokens v) (- Tokens v) s s4"
    using st by (simp add: r(2) UpdateStatus_def bonded_tokens_def other_tokens_def)
  from reaches_trans [OF c hook_step(1) [OF assms(1) reaches_wf [OF c] r(6)]] show "reaches e D (Tokens v) (- Tokens v) s t" by simp
  show "Tokens w = Tokens v" by (simp add: r(2) UpdateStatus_def)
qed

lemma unbond_mature_validator_success:
  assumes "env_ok e" "wf e D s" "unbond_mature_validator e str s = (Inr r, t)"
  shows "reaches e D 0 0 s t"
proof -
  from assms(3) obtain a v w s1 x2 s2 x3 where r: "map_of (Validators s) a = Some v" "IsUnbonding v" "UnbondingToUnbonded e v s = (Inr w, s1)"
    "(if DelegatorShares w = 0 then sbind (valAddr e (OperatorAddress w)) (RemoveValidator e) else sret ()) s1 = (Inr x2, s2)"
    "DeleteValidatorQueue e w s2 = (Inr x3, t)"
    unfolding unbond_mature_validator_def valAddr_def by (clarsimp simp: sbind_Inr_iff guard_Inr sm_run GetValidator_run)
  note v = stored_ok [OF assms(2) r(1)]
  have w: "w = UpdateStatus v Unbonded" "s1 = s\<lparr>Validators := om_set a w (Validators s)\<rparr>"
    using r(2,3) v SetValidator_run [of e "UpdateStatus v Unbonded" a s]
    by (auto simp: UnbondingToUnbonded_def completeUnbondingValidator_def Let_def sbind_Inr_iff sm_run UpdateStatus_def)
  have "reaches e D (bonded_tokens v - bonded_tokens w) (other_tokens v - other_tokens w) s s1"
    by (rule status_change [OF assms(2) r(1)]) (simp_all add: w UpdateStatus_def)
  then have c: "reaches e D 0 0 s s1"
    using r(2) by (simp add: w(1) UpdateStatus_def IsUnbonding_def bonded_tokens_def other_tokens_def)
  have st: "map_of (Validators s1) a = Some w" by (simp add: w(2) om_simps)
  have "reaches e D 0 0 s1 s2"
  proof (cases "DelegatorShares w = 0")
    case True
    moreover have "ValStringToBytes e (OperatorAddress w) = Inr a" using v by (simp add: w(1) UpdateStatus_def)
    ultimately have "RemoveValidator e a s1 = (Inr x2, s2)" using r(4) by (simp add: valAddr_def sbind_Inr_iff sm_run)
    from RemoveValidator_success(1) [OF assms(1) reaches_wf [OF c] st True this] show ?thesis .
  next
    case False
    with r(4) reaches_refl [OF reaches_wf [OF c]] show ?thesis by (simp add: sm_run)
  qed
  then have "reaches e D 0 0 s1 t" by (simp only: reaches_books(1) [OF keepsD [OF queue_books(1) r(5)]])
  from reaches_trans [OF c this] show ?thesis by simp
qed

text \<open>A loop whose rounds keep the books keeps the books.\<close>

lemma sforeach_reaches:
  assumes "\<And>x s r t. x \<in> set xs \<Longrightarrow> wf e D s \<Longrightarrow> f x s = (Inr r, t) \<Longrightarrow> reaches e D 0 0 s t"
    and "wf e D s" "sforeach f xs s = (Inr r, t)"
  shows "reaches e D 0 0 s t"
  using assms
proof (induction xs arbitrary: s)
  case Nil
  then show ?case by (simp add: sm_run reaches_refl)
next
  case (Cons x xs)
  from Cons.prems(3) obtain y u where r: "f x s = (Inr y, u)" "sforeach f xs u = (Inr r, t)" by (auto simp: sbind_Inr_iff)
  have c: "reaches e D 0 0 s u" by (rule Cons.prems(1) [OF _ Cons.prems(2) r(1)]) simp
  have "reaches e D 0 0 u t" by (rule Cons.IH [OF Cons.prems(1) reaches_wf [OF c] r(2)]) simp_all
  from reaches_trans [OF c this] show ?case by simp
qed

lemma UnbondAllMatureValidators_success:
  assumes "env_ok e" "wf e D s" "UnbondAllMatureValidators e s = (Inr r, t)"
  shows "reaches e D 0 0 s t"
proof -
  from assms(3) have l: "sforeach (unbondMatureValidators e (SHeight s) (STime s)) (filter (\<lambda>x. fst x \<le> (STime s, SHeight s)) (ValidatorQueue s)) s = (Inr r, t)"
    by (simp add: UnbondAllMatureValidators_def sbind_Inr_iff sm_run)
  have round: "reaches e D 0 0 s' t'" if w: "wf e D s'" and r: "unbondMatureValidators e (SHeight s) (STime s) x s' = (Inr r', t')" for x s' r' t'
  proof -
    obtain kt kh addrs where x: "x = ((kt, kh), addrs)" by (metis surj_pair)
    show ?thesis
    proof (cases "kh > SHeight s \<or> kt > STime s")
      case True
      with r x reaches_refl [OF w] show ?thesis by (simp add: unbondMatureValidators_def sm_run)
    next
      case False
      with r x have "sforeach (unbond_mature_validator e) addrs s' = (Inr r', t')" by (simp add: unbondMatureValidators_def)
      with w show ?thesis by (rule sforeach_reaches [rotated]) (rule unbond_mature_validator_success [OF assms(1)])
    qed
  qed
  from assms(2) l show ?thesis by (rule sforeach_reaches [rotated]) (rule round)
qed

section \<open>The active set\<close>

lemma make_bonded_success:
  assumes "env_ok e" "wf e D s" "map_of (Validators s) a = Some v" "make_bonded e v s = (Inr (w, n), t)"
  shows "reaches e D (- n) n s t" "0 \<le> n"
proof -
  have "reaches e D (- n) n s t \<and> 0 \<le> n"
  proof (cases "IsBonded v")
    case True
    with assms(2,4) show ?thesis by (simp add: make_bonded_def IsBonded_def sm_run reaches_refl)
  next
    case False
    with assms(4) have "bondValidator e v s = (Inr w, t)" "n = Tokens w"
      by (auto simp: make_bonded_def IsBonded_def IsUnbonded_def IsUnbonding_def unbondedToBonded_def unbondingToBonded_def sbind_Inr_iff sm_run
          split: BondStatus.splits)
    with bondValidator_success [OF assms(1-3) False] stored_ok [OF assms(2,3)] show ?thesis by simp
  qed
  then show "reaches e D (- n) n s t" "0 \<le> n" by blast+
qed

lemma update_power_books [keeps_intros]: "keeps books (update_power e a v prev upd)"
  unfolding update_power_def by (intro keeps_intros) (simp add: books_def)

lemma apply_ranking_success:
  assumes "env_ok e" "wf e D s" "apply_ranking e k vals (prev, upd, p, b) s = (Inr (prev', upd', p', b'), t)"
  shows "reaches e D (- (b' - b)) (b' - b) s t"
  using assms(2,3)
proof (induction vals arbitrary: k prev upd p b s)
  case Nil
  then show ?case by (cases k) (simp_all add: sm_run reaches_refl)
next
  case (Cons val vals)
  show ?case
  proof (cases k)
    case 0
    with Cons.prems show ?thesis by (simp add: sm_run reaches_refl)
  next
    case (Suc j)
    with Cons.prems(2) obtain v pow where v: "map_of (Validators s) val = Some v" "PotentialConsensusPower v DefaultPowerReduction = Inr pow"
      by (auto simp: sbind_Inr_iff guard_Inr GetValidator_run sm_run)
    show ?thesis
    proof (cases "pow = 0")
      case True
      with Suc Cons.prems v show ?thesis by (auto simp: sbind_Inr_iff guard_Inr GetValidator_run sm_run reaches_refl)
    next
      case False
      with Suc Cons.prems(2) v obtain w n s1 b1 prev1 upd1 q s2 p1 where r: "make_bonded e v s = (Inr (w, n), s1)" "Int_Add b n = Inr b1"
        "update_power e val w prev upd s1 = (Inr (prev1, upd1, q), s2)"
        "apply_ranking e j vals (prev1, upd1, p1, b1) s2 = (Inr (prev', upd', p', b'), t)"
        by (auto simp: sbind_Inr_iff guard_Inr GetValidator_run sm_run)
      note m = make_bonded_success(1) [OF assms(1) Cons.prems(1) v(1) r(1)]
      have m2: "reaches e D (- n) n s s2" using m by (simp only: reaches_books(1) [OF keepsD [OF update_power_books r(3)]])
      have "b1 = b + n" using r(2) by (auto simp: Int_arith_eq split: if_splits)
      with reaches_trans [OF m2 Cons.IH [OF reaches_wf [OF m2] r(4)]] show ?thesis by simp
    qed
  qed
qed

lemma drop_validator_success:
  assumes "env_ok e" "wf e D s" "drop_validator e (upd, n) val s = (Inr (upd', n'), t)"
  shows "reaches e D (n' - n) (- (n' - n)) s t"
proof -
  from assms(3) obtain v w s1 a where r: "map_of (Validators s) val = Some v" "BeginUnbondingValidator e v s = (Inr w, s1)"
    "Int_Add n (Tokens w) = Inr n'" "t = s1\<lparr>LastValidatorPower := om_del a (LastValidatorPower s1)\<rparr>"
    by (auto simp: drop_validator_def bondedToUnbonding_def valAddr_def sbind_Inr_iff guard_Inr GetValidator_run sm_run)
  note g = BeginUnbondingValidator_success [OF assms(1,2) r(1,2)]
  have b: "books t = books s1" by (simp add: r(4) books_def)
  have n': "n' - n = Tokens v" using r(3) g(2) by (auto simp: Int_arith_eq split: if_splits)
  from g(1) show ?thesis unfolding n' by (simp only: reaches_books(1) [OF b])
qed

lemma drop_validators_success:
  assumes "env_ok e" "wf e D s" "sfold (drop_validator e) (upd, n) vals s = (Inr (upd', n'), t)"
  shows "reaches e D (n' - n) (- (n' - n)) s t"
  using assms(2,3)
proof (induction vals arbitrary: upd n s)
  case Nil
  then show ?case by (simp add: sm_run reaches_refl)
next
  case (Cons val vals)
  from Cons.prems(2) obtain upd1 n1 s1 where r: "drop_validator e (upd, n) val s = (Inr (upd1, n1), s1)"
    "sfold (drop_validator e) (upd1, n1) vals s1 = (Inr (upd', n'), t)" by (auto simp: sbind_Inr_iff)
  note g = drop_validator_success [OF assms(1) Cons.prems(1) r(1)]
  from reaches_trans [OF g Cons.IH [OF reaches_wf [OF g] r(2)]] show ?case by simp
qed

lemma updateToNewPubkey_success:
  assumes "env_ok e" "wf e D s" "map_of (Validators s) a = Some v" "updateToNewPubkey e v old new fee s = (Inr r, t)"
  shows "reaches e D 0 0 s t"
proof -
  note v = stored_ok [OF assms(2,3)]
  let ?w = "v\<lparr>ConsAddr := new\<rparr>"
  let ?s = "s\<lparr>ValidatorByConsensusAddress := om_del (ConsAddr v) (ValidatorByConsensusAddress s)\<rparr>"
  from assms(4) obtain x1 s1 x2 s2 x3 s3 x4 s4 x5 s5 where r: "DeleteValidatorByPowerIndex e v ?s = (Inr x1, s1)" "SetValidator e ?w s1 = (Inr x2, s2)"
    "SetValidatorByConsAddr e ?w s2 = (Inr x3, s3)" "SetValidatorByPowerIndex e ?w s3 = (Inr x4, s4)"
    "setConsAddrToValidatorIdentifierMap old new (s4\<lparr>OldToNewConsAddrMap := om_set old new (OldToNewConsAddrMap s4)\<rparr>) = (Inr x5, s5)"
    "call_hook e (AfterConsensusPubKeyUpdate old new fee) s5 = (Inr r, t)"
    by (auto simp: updateToNewPubkey_def Let_def sbind_Inr_iff sm_run)
  have "books s1 = books ?s" by (rule keepsD [OF power_index_books(1) r(1)])
  then have b1: "books s1 = books s" by (simp add: books_def)
  have "s2 = s1\<lparr>Validators := om_set a ?w (Validators s1)\<rparr>" using r(2) SetValidator_run [of e ?w a s1] v by simp
  then have "books s2 = books (s\<lparr>Validators := om_set a ?w (Validators s)\<rparr>)" using books_validators [OF b1] by simp
  moreover have "books s5 = books s4" using r(5) by (auto simp: setConsAddrToValidatorIdentifierMap_def sm_run books_def Let_def)
  ultimately have b: "books s5 = books (s\<lparr>Validators := om_set a ?w (Validators s)\<rparr>)"
    using keepsD [OF power_index_books(4) r(3)] keepsD [OF power_index_books(2) r(4)] by simp
  have c: "reaches e D 0 0 s s5" by (rule same_books_validator [OF assms(2,3) _ _ _ _ b]) simp_all
  from reaches_trans [OF c hook_step(1) [OF assms(1) reaches_wf [OF c] r(6)]] show ?thesis by simp
qed

lemma rotate_key_success:
  assumes "env_ok e" "wf e D s" "rotate_key e upd h s = (Inr upd', t)"
  shows "reaches e D 0 0 s t"
proof -
  from assms(3) obtain v where v: "map_of (Validators s) (HOperatorAddress h) = Some v" by (auto simp: rotate_key_def sbind_Inr_iff GetValidator_run)
  consider "t = s" | x where "updateToNewPubkey e v (OldConsPubkey h) (NewConsPubkey h) (HFee h) s = (Inr x, t)"
    using assms(3) v by (auto simp: rotate_key_def sbind_Inr_iff GetValidator_run sm_run split: if_splits)
  then show ?thesis
  proof cases
    case 1
    then show ?thesis by (simp add: reaches_refl [OF assms(2)])
  next
    case 2
    from updateToNewPubkey_success [OF assms(1,2) v 2] show ?thesis .
  qed
qed

lemma ApplyAndReturnValidatorSetUpdates_success:
  assumes "env_ok e" "wf e D s" "ApplyAndReturnValidatorSetUpdates e s = (Inr r, t)"
  shows "reaches e D 0 0 s t"
proof -
  from assms(3) obtain prev vals prev1 upd1 p b s1 drops upd2 n s2 hs upd3 s3 x s4 y where r:
    "apply_ranking e (MaxValidators (the (SParams s))) vals (prev, [], 0, 0) s = (Inr (prev1, upd1, p, b), s1)"
    "sfold (drop_validator e) (upd1, 0) drops s1 = (Inr (upd2, n), s2)" "sfold (rotate_key e) upd2 hs s2 = (Inr upd3, s3)"
    "(if b > n then sbind (slift (Int_Sub b n)) (notBondedTokensToBonded e)
      else if b < n then sbind (slift (Int_Sub n b)) (bondedTokensToNotBonded e) else sret ()) s3 = (Inr x, s4)"
    "(if upd3 = [] then sret () else smodify (\<lambda>s. s\<lparr>LastTotalPower := p\<rparr>)) s4 = (Inr y, t)"
    unfolding ApplyAndReturnValidatorSetUpdates_def getLastValidatorsByAddr_def GetBlockConsPubKeyRotationHistory_def
    by (clarsimp simp: sbind_Inr_iff sm_run staking_Params_run [OF assms(2)])
  note a = apply_ranking_success [OF assms(1,2) r(1)]
  note d = drop_validators_success [OF assms(1) reaches_wf [OF a] r(2)]
  have k: "reaches e D 0 0 s2 s3"
  proof -
    have "wf e D s3 \<and> reaches e D 0 0 s2 s3" using r(3)
    proof (rule sfold_invariant [where I = "\<lambda>_ u. wf e D u \<and> reaches e D 0 0 s2 u"])
      show "wf e D s2 \<and> reaches e D 0 0 s2 s2" using reaches_wf [OF d] reaches_refl by blast
    next
      fix h acc u acc' u' assume u: "wf e D u \<and> reaches e D 0 0 s2 u" and h: "rotate_key e acc h u = (Inr acc', u')"
      from rotate_key_success [OF assms(1) _ h] u reaches_trans [of e D 0 0 s2 u D 0 0 u'] reaches_wf
      show "wf e D u' \<and> reaches e D 0 0 s2 u'" by fastforce
    qed
    then show ?thesis ..
  qed
  have m: "reaches e D (b - n) (n - b) s3 s4"
  proof -
    consider "b = n" "s4 = s3" | "n < b" "int256 (b - n)" "notBondedTokensToBonded e (b - n) s3 = (Inr x, s4)"
      | "b < n" "int256 (n - b)" "bondedTokensToNotBonded e (n - b) s3 = (Inr x, s4)"
      using r(4) by (auto simp: sbind_Inr_iff sm_run Int_arith_eq split: if_splits)
    then show ?thesis
    proof cases
      case 1
      then show ?thesis by (simp add: reaches_refl [OF reaches_wf [OF k]])
    next
      case 2
      from to_bonded(2) [OF assms(1) reaches_wf [OF k] 2(2,3)] show ?thesis by simp
    next
      case 3
      from to_not_bonded(2) [OF assms(1) reaches_wf [OF k] 3(2,3)] show ?thesis by simp
    qed
  qed
  have b: "books t = books s4" using r(5) by (auto simp: sm_run books_def split: if_splits)
  have "reaches e D (b - n) (n - b) s3 t" using m by (simp only: reaches_books(1) [OF b])
  from reaches_trans [OF reaches_trans [OF a d] reaches_trans [OF k this]] show ?thesis by simp
qed

section \<open>Queues\<close>

lemma dequeue_books [keeps_intros]:
  "keeps books (DequeueAllMatureUBDQueue now)" "keeps books DequeueAllMatureRedelegationQueue"
  unfolding DequeueAllMatureUBDQueue_def DequeueAllMatureRedelegationQueue_def
  by (intro keeps_intros; simp add: books_def)+

lemma keeps_sforeach [keeps_intros]: "(\<And>x. keeps f (g x)) \<Longrightarrow> keeps f (sforeach g xs)"
  by (induction xs) (auto intro: keeps_intros)

lemma purge_books [keeps_intros]: "keeps books (PurgeAllMaturedConsKeyRotatedKeys now)"
  unfolding PurgeAllMaturedConsKeyRotatedKeys_def getAndRemoveAllMaturedRotatedKeys_def deleteConsKeyIndexKey_def
  by (intro keeps_intros; simp add: books_def)

section \<open>Key rotation and parameters\<close>

lemma record_rotation_books: "keeps books (setConsPubKeyRotationHistory val old new fee)"
  unfolding setConsPubKeyRotationHistory_def GetBlockConsPubKeyRotationHistory_def setConsKeyQueue_def Let_def
  by (intro keeps_intros; simp add: books_def)

lemma pay_fee_success:
  assumes "wf e D s" "outside e a" "\<forall>c \<in> set cs. int256 (Amount c)"
    and "in_bank (SendCoinsFromAccountToModule (SBankEnv e) a m cs) s = (Inr r, t)"
  shows "reaches e D 0 0 s t"
proof -
  from assms(4) obtain acc w b where w: "GetModuleAccount (SBankEnv e) m (SBank s) = (Inr (Some acc), w)"
    "SendCoins (SBankEnv e) a (GetAddress acc) cs w = (Inr r, b)" and t: "t = s\<lparr>SBank := b\<rparr>"
    by (auto simp: in_bank_Inr SendCoinsFromAccountToModule_def sm_simps split: option.splits)
  note l = GetModuleAccount_bank [OF wfD(1) [OF assms(1)] w(1)]
  have "bank_ok (SBankEnv e) w" using l by (simp add: ledger_update_def)
  from SendCoins_success [OF this assms(3) w(2)] obtain x where x: "coins_ok (validDenom (SBankEnv e)) cs" "transferred (SBankEnv e) a x cs w b" by blast
  from ledger_update_trans [OF conjunct1 [OF l] transferred_update [OF x(2)]]
  have "ledger_update (SBankEnv e) (pay a x cs) (\<lambda>_. 0) (SBank s) b" by simp
  then show ?thesis unfolding t
    by (rule ledger_step_pools [OF assms(1)]) (use assms(2) coins_ok_nonneg [OF x(1)] in \<open>auto simp: pay_def outside_def\<close>)
qed

lemma rotation_lookups: "keeps f (ExceedsMaxRotations val)"
  unfolding ExceedsMaxRotations_def by (intro keeps_intros)

lemma msg_RotateConsPubKey_success:
  assumes "wf e D s" "\<And>a. ValStringToBytes e valStr = Inr a \<Longrightarrow> outside e a" "msg_RotateConsPubKey e valStr new s = (Inr r, t)"
  shows "reaches e D 0 0 s t"
proof -
  let ?fee = "KeyRotationFee (the (SParams s))"
  from assms(3) obtain x1 s1 a v x2 s2 where q: "checkConsKeyAlreadyUsed new s = (Inr x1, s1)" "ValStringToBytes e valStr = Inr a"
    "ExceedsMaxRotations a s1 = (Inr x2, s2)"
    by (auto simp: msg_RotateConsPubKey_def valAddr_def sbind_Inr_iff guard_Inr sm_run GetValidator_run)
  have s: "s2 = s" "s1 = s" using lookups_run(8) [OF q(1)] lookup_run [OF rotation_lookups q(3)] by simp_all
  from assms(3) q s obtain old cs x3 s3 where r: "NewCoins (validDenom (SBankEnv e)) [?fee] = Inr cs"
    "in_bank (SendCoinsFromAccountToModule (SBankEnv e) a PoolModuleName cs) s = (Inr x3, s3)"
    "setConsPubKeyRotationHistory a old new ?fee s3 = (Inr r, t)"
    by (auto simp: msg_RotateConsPubKey_def valAddr_def sbind_Inr_iff guard_Inr sm_run GetValidator_run staking_Params_run [OF assms(1)])
  have fee: "int256 (Amount ?fee)" using assms(1) by (auto simp: wf_def)
  have "\<forall>c \<in> set cs. int256 (Amount c)"
    using NewCoins_single [of "validDenom (SBankEnv e)" "Denom ?fee" "Amount ?fee" cs] r(1) fee by (cases ?fee) simp
  from pay_fee_success [OF assms(1) assms(2) [OF q(2)] this r(2)] have "reaches e D 0 0 s s3" .
  then show ?thesis by (simp only: reaches_books(1) [OF keepsD [OF record_rotation_books r(3)]])
qed

lemma raise_all:
  assumes "wf e D s" "distinct (map fst xs)" "\<forall>x \<in> set xs. map_of (Validators s) (fst x) = Some (snd x)"
    and "sforeach (raise_commission e m) (map snd xs) s = (Inr r, t)"
  shows "reaches e D 0 0 s t"
  using assms
proof (induction xs arbitrary: s)
  case Nil
  then show ?case by (simp add: sm_run reaches_refl)
next
  case (Cons x xs)
  from Cons.prems(4) obtain y u where r: "raise_commission e m (snd x) s = (Inr y, u)" "sforeach (raise_commission e m) (map snd xs) u = (Inr r, t)"
    by (auto simp: sbind_Inr_iff)
  have st: "map_of (Validators s) (fst x) = Some (snd x)" using Cons.prems(3) by simp
  have g: "reaches e D 0 0 s u \<and> (\<forall>a. a \<noteq> fst x \<longrightarrow> map_of (Validators u) a = map_of (Validators s) a)"
  proof (cases "Rate (ValCommission (snd x)) < m")
    case True
    with r(1) obtain w where w: "SetValidator e w s = (Inr y, u)" "Tokens w = Tokens (snd x)" "DelegatorShares w = DelegatorShares (snd x)"
      "Status w = Status (snd x)" "OperatorAddress w = OperatorAddress (snd x)"
      by (auto simp: raise_commission_def sbind_Inr_iff sm_run)
    have u: "u = s\<lparr>Validators := om_set (fst x) w (Validators s)\<rparr>"
      using w(1,5) SetValidator_run [of e w "fst x" s] stored_ok [OF Cons.prems(1) st] by simp
    have "reaches e D 0 0 s u" by (rule same_books_validator [OF Cons.prems(1) st w(2-5)]) (simp add: u)
    then show ?thesis by (simp add: u om_simps)
  next
    case False
    with r(1) reaches_refl [OF Cons.prems(1)] show ?thesis by (simp add: raise_commission_def sm_run)
  qed
  have "reaches e D 0 0 u t"
  proof (rule Cons.IH [OF reaches_wf [OF conjunct1 [OF g]] _ _ r(2)])
    show "distinct (map fst xs)" using Cons.prems(2) by simp
    show "\<forall>y \<in> set xs. map_of (Validators u) (fst y) = Some (snd y)"
    proof
      fix y assume "y \<in> set xs"
      with Cons.prems(2,3) have "fst y \<noteq> fst x" "map_of (Validators s) (fst y) = Some (snd y)" by (auto simp: image_iff)
      with g show "map_of (Validators u) (fst y) = Some (snd y)" by metis
    qed
  qed
  from reaches_trans [OF conjunct1 [OF g] this] show ?case by simp
qed

lemma msg_UpdateStakingParams_success:
  assumes "staking_ok e s" "int256 (Amount (KeyRotationFee p))" "BondDenom p = bond_denom s"
    and "msg_UpdateStakingParams e auth p s = (Inr r, t)"
  shows "staking_ok e t"
proof -
  let ?s = "s\<lparr>SParams := Some p\<rparr>"
  have ok: "staking_ok e ?s"
    using assms(1-3) by (auto simp: staking_ok_def wf_def bonded_owed_def not_bonded_owed_def bond_denom_def shares_of_def delegated_def)
  then have w: "wf e (\<lambda>_. 0) ?s" by (simp add: staking_ok_def)
  have "reaches e (\<lambda>_. 0) 0 0 ?s t"
  proof (cases "t = ?s")
    case True
    then show ?thesis using reaches_refl [OF w] by simp
  next
    case False
    with assms(4) have "sforeach (raise_commission e (MinCommissionRate p)) (map snd (Validators s)) ?s = (Inr r, t)"
      by (auto simp: msg_UpdateStakingParams_def sbind_Inr_iff guard_Inr sm_run staking_Params_def split: option.splits if_splits)
    then show ?thesis
      by (intro raise_all [OF w, of "Validators s"]) (use wfD(2) [OF w] in \<open>auto simp: om_ok_distinct om_in_set [symmetric]\<close>)
  qed
  from reaches_ok [OF ok this] show ?thesis by simp
qed

end
