(* ===== verification/StakingSolvency.thy ===== *)
theory StakingSolvency
  imports StakingBlocks BankMsgs
begin

text \<open>
  The runs of \<open>x/staking\<close>: the messages, the interface used by the slashing and evidence modules and the steps of
  the end of a block, in any order, between changes of the bank that leave the pools alone.  The properties of the
  module are stated here, for the runs and for the operations of unbonding and redelegation.
\<close>

section \<open>Runs\<close>

text \<open>
  The steps.  An amount in a message is a \<open>math.Int\<close>, which the decoder keeps within 256 bits; the signer of a message is an
  account with a key, so not a pool; governance keeps the bond denomination.  A completion at the end of a block is a
  step when it succeeds: the error of one that fails is dropped by \<open>BlockValidatorUpdates\<close>, with what it has written.
\<close>

inductive staking_step :: "staking_env \<Rightarrow> staking_state \<Rightarrow> staking_state \<Rightarrow> bool" for e where
  create: "int256 (Amount (CValue msg)) \<Longrightarrow> (\<forall>a. ValStringToBytes e (CValidatorAddress msg) = Inr a \<longrightarrow> outside e a) \<Longrightarrow>
    msg_CreateValidator e msg s = (Inr (), t) \<Longrightarrow> staking_step e s t"
| edit: "msg_EditValidator e val d rate m s = (Inr (), t) \<Longrightarrow> staking_step e s t"
| delegate: "int256 (Amount c) \<Longrightarrow> (\<forall>a. StringToBytes (SBankEnv e) del = Inr a \<longrightarrow> outside e a) \<Longrightarrow>
    msg_Delegate e del val c s = (Inr (), t) \<Longrightarrow> staking_step e s t"
| redelegate: "msg_BeginRedelegate e del src dst c s = (Inr r, t) \<Longrightarrow> staking_step e s t"
| undelegate: "msg_Undelegate e del val c s = (Inr r, t) \<Longrightarrow> staking_step e s t"
| cancel: "int256 (Amount c) \<Longrightarrow> msg_CancelUnbondingDelegation e del val c h s = (Inr (), t) \<Longrightarrow> staking_step e s t"
| rotate: "(\<forall>a. ValStringToBytes e val = Inr a \<longrightarrow> outside e a) \<Longrightarrow> msg_RotateConsPubKey e val key s = (Inr (), t) \<Longrightarrow> staking_step e s t"
| params: "int256 (Amount (KeyRotationFee p)) \<Longrightarrow> BondDenom p = bond_denom s \<Longrightarrow>
    msg_UpdateStakingParams e auth p s = (Inr (), t) \<Longrightarrow> staking_step e s t"
| jail: "Jail e cons s = (Inr (), t) \<Longrightarrow> staking_step e s t"
| unjail: "Unjail e cons s = (Inr (), t) \<Longrightarrow> staking_step e s t"
| slash: "Slash e cons h pow f s = (Inr r, t) \<Longrightarrow> staking_step e s t"
| validator_set: "ApplyAndReturnValidatorSetUpdates e s = (Inr upd, t) \<Longrightarrow> staking_step e s t"
| mature_validators: "UnbondAllMatureValidators e s = (Inr (), t) \<Longrightarrow> staking_step e s t"
| mature_unbondings: "DequeueAllMatureUBDQueue now s = (Inr ps, t) \<Longrightarrow> staking_step e s t"
| complete_unbonding: "CompleteUnbonding e del val s = (Inr cs, t) \<Longrightarrow> staking_step e s t"
| mature_redelegations: "DequeueAllMatureRedelegationQueue s = (Inr ts, t) \<Longrightarrow> staking_step e s t"
| complete_redelegation: "CompleteRedelegation e del src dst s = (Inr cs, t) \<Longrightarrow> staking_step e s t"
| purge: "PurgeAllMaturedConsKeyRotatedKeys now s = (Inr (), t) \<Longrightarrow> staking_step e s t"
| new_block: "staking_step e s (s\<lparr>SHeight := h, STime := now\<rparr>)"
| bank: "bank_ok (SBankEnv e) b \<Longrightarrow> (\<forall>d. bal (SBank s) (pool_addr e BondedPoolName) d \<le> bal b (pool_addr e BondedPoolName) d) \<Longrightarrow>
    (\<forall>d. bal (SBank s) (pool_addr e NotBondedPoolName) d \<le> bal b (pool_addr e NotBondedPoolName) d) \<Longrightarrow> staking_step e s (s\<lparr>SBank := b\<rparr>)"

lemma step_ok:
  assumes "env_ok e" "staking_ok e s" "staking_step e s t"
  shows "staking_ok e t"
proof -
  have w: "wf e (\<lambda>_. 0) s" using assms(2) by (simp add: staking_ok_def)
  have fin: "staking_ok e t" if "reaches e (\<lambda>_. 0) 0 0 s t" using reaches_ok [OF assms(2) that] by simp
  have same: "staking_ok e t" if "books t = books s"
    using fin reaches_refl [OF w] by (simp only: reaches_books(1) [OF that])
  show ?thesis using assms(3)
  proof cases
    case (create msg)
    show ?thesis by (rule fin, rule msg_CreateValidator_success [OF assms(1) w create(1) _ create(3)]) (use create(2) in blast)
  next
    case (edit val d rate m)
    show ?thesis by (rule fin, rule msg_EditValidator_success [OF assms(1) w edit])
  next
    case (delegate c del val)
    show ?thesis by (rule fin, rule msg_Delegate_success [OF assms(1) w delegate(1) _ delegate(3)]) (use delegate(2) in blast)
  next
    case (redelegate del src dst c r)
    show ?thesis by (rule fin, rule msg_BeginRedelegate_success [OF assms(1) w redelegate])
  next
    case (undelegate del val c r)
    show ?thesis by (rule fin, rule msg_Undelegate_success [OF assms(1) w undelegate])
  next
    case (cancel c del val h)
    show ?thesis by (rule fin, rule CancelUnbondingDelegation_success [OF assms(1) w cancel])
  next
    case (rotate val key)
    show ?thesis by (rule fin, rule msg_RotateConsPubKey_success [OF w _ rotate(2)]) (use rotate(1) in blast)
  next
    case (params p auth)
    show ?thesis by (rule msg_UpdateStakingParams_success [OF assms(2) params])
  next
    case (jail cons)
    show ?thesis by (rule fin, rule Jail_success(1) [OF w jail])
  next
    case (unjail cons)
    show ?thesis by (rule fin, rule Jail_success(2) [OF w unjail])
  next
    case (slash cons h pow f r)
    show ?thesis by (rule fin, rule Slash_success [OF assms(1) w slash])
  next
    case (validator_set upd)
    show ?thesis by (rule fin, rule ApplyAndReturnValidatorSetUpdates_success [OF assms(1) w validator_set])
  next
    case mature_validators
    show ?thesis by (rule fin, rule UnbondAllMatureValidators_success [OF assms(1) w mature_validators])
  next
    case (mature_unbondings now ps)
    show ?thesis by (rule same, rule keepsD [OF dequeue_books(1) mature_unbondings])
  next
    case (complete_unbonding del val cs)
    show ?thesis by (rule fin, rule CompleteUnbonding_success [OF assms(1) w complete_unbonding])
  next
    case (mature_redelegations ts)
    show ?thesis by (rule same, rule keepsD [OF dequeue_books(2) mature_redelegations])
  next
    case (complete_redelegation del src dst cs)
    show ?thesis by (rule fin, rule CompleteRedelegation_success [OF w complete_redelegation])
  next
    case (purge now)
    show ?thesis by (rule same, rule keepsD [OF purge_books purge])
  next
    case (new_block h now)
    show ?thesis by (rule same) (simp add: new_block books_def)
  next
    case (bank b)
    have "reaches e (\<lambda>_. 0) 0 0 s (s\<lparr>SBank := b\<rparr>)" by (rule bank_step [OF w bank(2)]) (use bank(3,4) in auto)
    with fin bank(1) show ?thesis by simp
  qed
qed

lemma run_ok:
  assumes "(staking_step e)\<^sup>*\<^sup>* s t" "env_ok e" "staking_ok e s"
  shows "staking_ok e t"
  using assms by (induction rule: rtranclp_induct) (auto intro: step_ok)

section \<open>Completion\<close>

definition red_sum :: "int \<Rightarrow> RedelegationEntry list \<Rightarrow> int" where
  "red_sum now es = (\<Sum>x\<leftarrow>filter (\<lambda>x. red_IsMature x now) es. RInitialBalance x)"

lemma red_remaining_at:
  assumes "i < length es"
  shows "red_IsMature (es ! i) now \<Longrightarrow> take i (remove_at i es) @ filter (\<lambda>x. \<not> red_IsMature x now) (drop i (remove_at i es)) =
      take i es @ filter (\<lambda>x. \<not> red_IsMature x now) (drop i es)"
    "red_IsMature (es ! i) now \<Longrightarrow> red_sum now (drop i es) = RInitialBalance (es ! i) + red_sum now (drop i (remove_at i es))"
    "\<not> red_IsMature (es ! i) now \<Longrightarrow> take (Suc i) es @ filter (\<lambda>x. \<not> red_IsMature x now) (drop (Suc i) es) =
      take i es @ filter (\<lambda>x. \<not> red_IsMature x now) (drop i es)"
    "\<not> red_IsMature (es ! i) now \<Longrightarrow> red_sum now (drop i es) = red_sum now (drop (Suc i) es)"
  using assms by (simp_all add: remove_at_def red_sum_def Cons_nth_drop_Suc [symmetric] take_Suc_conv_app_nth)

lemma red_sum_nonneg: "\<forall>x \<in> set es. 0 \<le> RInitialBalance x \<Longrightarrow> 0 \<le> red_sum now es"
  unfolding red_sum_def by (intro sum_list_nonneg) auto

lemma add_bond_coin:
  assumes "vd d" "coins_ok vd cs" "\<forall>x. x \<noteq> d \<longrightarrow> camt cs x = 0" "0 < n" "int256 (camt cs d + n)"
  obtains cs' where "rbind (NewCoin vd d n) (\<lambda>c. Coins_Add cs [c]) = Inr cs'" "coins_ok vd cs'"
    "\<forall>x. camt cs' x = camt cs x + (if x = d then n else 0)"
proof -
  have n: "int256 n" using assms(4,5) coins_ok_nonneg [OF assms(2), of d] int256_within [of n "camt cs d + n"] by simp
  have one: "coins_ok vd [\<lparr> Denom = d, Amount = n \<rparr>]" using assms(1,4) n by (simp add: coins_ok_iff)
  have "int256 (camt cs x + camt [\<lparr> Denom = d, Amount = n \<rparr>] x)" for x
    using assms(3,5) by (cases "x = d") (auto simp: int256_def)
  from Coins_Add_total [OF assms(2) one this] obtain cs' where c: "Coins_Add cs [\<lparr> Denom = d, Amount = n \<rparr>] = Inr cs'" by blast
  from Coins_Add_ok [OF assms(2) one c] that [of cs'] c show ?thesis
    using assms(1,4) by (simp add: NewCoin_ok)
qed

lemma complete_redelegations_total:
  assumes "vd d" "coins_ok vd cs" "\<forall>x. x \<noteq> d \<longrightarrow> camt cs x = 0" "\<forall>x \<in> set (REntries red). 0 \<le> RInitialBalance x"
    and "int256 (camt cs d + red_sum now (drop i (REntries red)))"
  shows "\<exists>cs'. complete_redelegations vd d now i red cs =
      Inr (red\<lparr>REntries := take i (REntries red) @ filter (\<lambda>x. \<not> red_IsMature x now) (drop i (REntries red))\<rparr>, cs') \<and>
    camt cs' d = camt cs d + red_sum now (drop i (REntries red))"
  using assms
proof (induction vd d now i red cs rule: complete_redelegations.induct)
  case (1 vd d now i red cs)
  let ?es = "REntries red" and ?x = "REntries red ! i"
  note step = complete_redelegations.simps [of vd d now i red cs]
  have rem: "\<forall>x \<in> set (REntries (red_RemoveEntry red i)). 0 \<le> RInitialBalance x"
    using "1.prems"(4) set_remove_at [of i ?es] by (auto simp: red_RemoveEntry_def)
  show ?case
  proof (cases "i < length ?es")
    case False
    then show ?thesis by (simp add: step red_sum_def)
  next
    case i: True
    have x: "0 \<le> RInitialBalance ?x" using i "1.prems"(4) by simp
    consider "\<not> red_IsMature ?x now" | "red_IsMature ?x now" "RInitialBalance ?x = 0" | "red_IsMature ?x now" "RInitialBalance ?x \<noteq> 0" by blast
    then show ?thesis
    proof cases
      case 1
      with "1.IH"(3) [OF i refl 1 "1.prems"(1-4)] "1.prems"(5) i red_remaining_at(3,4) [OF i 1] show ?thesis by (simp add: step)
    next
      case 2
      with "1.IH"(2) [OF i refl 2(1) _ "1.prems"(1-3) rem] "1.prems"(5) i red_remaining_at(1,2) [OF i 2(1)] show ?thesis
        by (simp add: step red_RemoveEntry_def)
    next
      case 3
      note q = red_remaining_at(1,2) [OF i 3(1)]
      have pos: "0 < RInitialBalance ?x" using x 3(2) by simp
      have tail: "0 \<le> red_sum now (drop i (remove_at i ?es))"
        using rem by (intro red_sum_nonneg) (auto simp: red_RemoveEntry_def dest: in_set_dropD)
      have "int256 (camt cs d + RInitialBalance ?x)"
        using "1.prems"(5) q(2) tail pos coins_ok_nonneg [OF "1.prems"(2), of d]
          int256_within [of "camt cs d + RInitialBalance ?x" "camt cs d + red_sum now (drop i ?es)"] by simp
      from add_bond_coin [OF "1.prems"(1-3) pos this] obtain cs1 where c: "rbind (NewCoin vd d (RInitialBalance ?x)) (\<lambda>c. Coins_Add cs [c]) = Inr cs1"
        "coins_ok vd cs1" "\<forall>x. camt cs1 x = camt cs x + (if x = d then RInitialBalance ?x else 0)" .
      have "\<exists>cs'. complete_redelegations vd d now i (red_RemoveEntry red i) cs1 =
          Inr ((red_RemoveEntry red i)\<lparr>REntries := take i (REntries (red_RemoveEntry red i)) @
            filter (\<lambda>x. \<not> red_IsMature x now) (drop i (REntries (red_RemoveEntry red i)))\<rparr>, cs') \<and>
          camt cs' d = camt cs1 d + red_sum now (drop i (REntries (red_RemoveEntry red i)))"
        by (rule "1.IH"(1) [OF i refl 3 c(1) "1.prems"(1) c(2) _ rem])
          (use c(3) "1.prems"(3,5) q(2) in \<open>simp_all add: red_RemoveEntry_def add.assoc\<close>)
      moreover have "complete_redelegations vd d now i red cs = complete_redelegations vd d now i (red_RemoveEntry red i) cs1"
        unfolding step using i 3 c(1) by (simp add: Let_def)
      ultimately show ?thesis using q c(3) by (simp add: red_RemoveEntry_def add.assoc)
    qed
  qed
qed

section \<open>Arrays of results\<close>

lemma fill_slots_prefix:
  "length slots = m \<Longrightarrow> i \<le> m \<Longrightarrow> (let (ys, j) = fill_slots m i slots xs in take j ys) = take i slots @ take (m - i) xs"
proof (induction m i slots xs rule: fill_slots.induct)
  case (2 m i slots x xs)
  show ?case
  proof (cases "i \<ge> m")
    case True
    with 2 show ?thesis by simp
  next
    case False
    with 2 show ?thesis by (simp add: take_Suc_conv_app_nth Suc_diff_Suc [symmetric])
  qed
qed simp

lemma append_slots_run:
  "i < m \<Longrightarrow> append_slots m i slots xs = (slots @ take (m - i) xs, min (i + length xs) m)"
proof (induction m i slots xs rule: append_slots.induct)
  case (2 m i slots x xs)
  then show ?case by (cases "i + 1 \<ge> m") (auto simp: Suc_diff_Suc [symmetric] take_Suc_Cons)
qed simp

section \<open>Examples\<close>

definition example_staking_env :: staking_env where
  "example_staking_env = \<lparr> SBankEnv = example_env\<lparr>maccPerms := (\<lambda>m. if m = BondedPoolName \<or> m = NotBondedPoolName
       then Some [''burner'', ''staking''] else None)\<rparr>,
     ValStringToBytes = Inr, ValBytesToString = Inr, ConsBytesToString = Inr, KeyAccepted = (\<lambda>_. Inr ()), ValidURI = (\<lambda>_. True),
     StakingAuthority = ''gov'', Hook = (\<lambda>_. sret ()) \<rparr>"

definition example_staking_params :: StakingParams where
  "example_staking_params = \<lparr> UnbondingPeriod = 10, MaxValidators = 2, MaxEntries = 7, BondDenom = ''stake'', MinCommissionRate = 0,
     KeyRotationFee = \<lparr> Denom = ''stake'', Amount = 1 \<rparr> \<rparr>"

definition example_staking :: staking_state where
  "example_staking = \<lparr> SBank = example_bank, SParams = Some example_staking_params, Validators = [], ValidatorByConsensusAddress = [],
     ValidatorsByPowerIndex = [], LastValidatorPower = [], LastTotalPower = 0, ValidatorQueue = [], Delegations = [],
     DelegationsByValidator = [], UnbondingDelegations = [], UnbondingDelegationByValIndex = [], UnbondingQueue = [],
     Redelegations = [], RedelegationsByValSrc = [], RedelegationsByValDst = [], RedelegationQueue = [],
     RotationHistory = [], ConsKeyRotationRecordIndexKey = [], ConsKeyRotationRecordQueue = [],
     OldToNewConsAddrMap = [], ConsAddrToValidatorIdentifierMap = [], SHeight = 3, STime = 100 \<rparr>"

definition example_create :: MsgCreateValidator where
  "example_create = \<lparr> CDescription = \<lparr> Moniker = ''one'', Identity = [], Website = [], SecurityContact = [], Details = [], DescMetadata = None \<rparr>,
     CCommission = \<lparr> Rate = 0, MaxRate = 0, MaxChangeRate = 0, UpdateTime = 0 \<rparr>, CMinSelfDelegation = 1,
     CValidatorAddress = ''alice'', CPubkey = ''key'', CValue = \<lparr> Denom = ''stake'', Amount = 4 \<rparr> \<rparr>"

lemma example_pools: "pool_addr example_staking_env BondedPoolName = BondedPoolName" "pool_addr example_staking_env NotBondedPoolName = NotBondedPoolName"
  by (simp_all add: pool_addr_def GetModuleAddress_def example_staking_env_def example_env_def)

lemma example_env_ok: "env_ok example_staking_env"
  unfolding env_ok_def example_pools
proof (intro conjI)
  show "GetModuleAddress (SBankEnv example_staking_env) BondedPoolName \<noteq> None"
    "GetModuleAddress (SBankEnv example_staking_env) NotBondedPoolName \<noteq> None"
    by (simp_all add: GetModuleAddress_def example_staking_env_def)
qed (auto simp: BondedPoolName_def NotBondedPoolName_def sendRestriction_apply_def example_staking_env_def example_env_def sm_run)

lemma example_bank_staking: "bank_ok (SBankEnv example_staking_env) example_bank"
  using example_bank_ok
  by (simp add: bank_ok_def balances_ok_def supply_ok_def accounts_ok_def vesting_ok_def held_def example_staking_env_def example_env_def)

lemma example_staking_ok: "staking_ok example_staking_env example_staking"
  using example_bank_staking
  by (auto simp: staking_ok_def wf_def example_staking_def example_staking_params_def int256_def shares_of_def delegated_def
      bonded_owed_def not_bonded_owed_def bond_denom_def bal_def example_bank_def)

lemma store_unbonding_run:
  assumes "om_ok (UnbondingDelegations s)" "ubd_ok e k ubd"
    and "(if UEntries ubd = [] then RemoveUnbondingDelegation e ubd else SetUnbondingDelegation e ubd) s = (Inr u, t)"
  shows "map_of (UnbondingDelegations t) x = (if x = k then if UEntries ubd = [] then None else Some ubd else map_of (UnbondingDelegations s) x)"
    "SBank t = SBank s" "Validators t = Validators s" "Delegations t = Delegations s"
proof -
  let ?s = "if UEntries ubd = [] then s\<lparr>UnbondingDelegations := om_del k (UnbondingDelegations s),
         UnbondingDelegationByValIndex := om_del (snd k, fst k) (UnbondingDelegationByValIndex s)\<rparr>
       else s\<lparr>UnbondingDelegations := om_set k ubd (UnbondingDelegations s),
         UnbondingDelegationByValIndex := om_set (snd k, fst k) () (UnbondingDelegationByValIndex s)\<rparr>"
  have t: "t = ?s"
    using assms(2,3) by (auto simp: SetUnbondingDelegation_def RemoveUnbondingDelegation_def accAddr_def valAddr_def sm_run ubd_ok_def split: if_splits)
  show "SBank t = SBank s" "Validators t = Validators s" "Delegations t = Delegations s" by (simp_all add: t)
  show "map_of (UnbondingDelegations t) x = (if x = k then if UEntries ubd = [] then None else Some ubd else map_of (UnbondingDelegations s) x)"
    using assms(1) by (simp add: t om_simps)
qed

lemma store_redelegation_run:
  assumes "red_ok e k red"
  shows "\<exists>t. (if REntries red = [] then RemoveRedelegation e red else SetRedelegation e red) s = (Inr (), t) \<and>
    (om_ok (Redelegations s) \<longrightarrow> (\<forall>x. map_of (Redelegations t) x =
      (if x = k then if REntries red = [] then None else Some red else map_of (Redelegations s) x)))"
  using assms
  by (auto simp: SetRedelegation_def RemoveRedelegation_def accAddr_def valAddr_def sm_run red_ok_def om_simps)

lemma mature_iff: "IsMature x now \<longleftrightarrow> CompletionTime x \<le> now" "red_IsMature y now \<longleftrightarrow> RCompletionTime y \<le> now"
  by (auto simp: IsMature_def red_IsMature_def)

section \<open>Properties\<close>



text \<open>An unbonding delegation and a redelegation of alice at time 100, each with an entry that is mature and one that is not.\<close>

definition leaving_bank :: bank_state where
  "leaving_bank = example_bank\<lparr>Balances := [((''alice'', ''stake''), 2), ((NotBondedPoolName, ''stake''), 8)]\<rparr>"

definition leaving :: staking_state where
  "leaving = example_staking\<lparr>SBank := leaving_bank,
     UnbondingDelegations := [((''alice'', ''val''), \<lparr> UDelegatorAddress = ''alice'', UValidatorAddress = ''val'', UEntries =
       [\<lparr> CreationHeight = 1, CompletionTime = 90, InitialBalance = 5, Balance = 5 \<rparr>,
        \<lparr> CreationHeight = 2, CompletionTime = 110, InitialBalance = 3, Balance = 3 \<rparr>] \<rparr>)],
     UnbondingDelegationByValIndex := [((''val'', ''alice''), ())],
     Redelegations := [((''alice'', ''val'', ''wal''), \<lparr> RDelegatorAddress = ''alice'', ValidatorSrcAddress = ''val'', ValidatorDstAddress = ''wal'',
       REntries = [\<lparr> RCreationHeight = 1, RCompletionTime = 90, RInitialBalance = 6, SharesDst = 0, UnbondingOnHoldRefCount = 0 \<rparr>,
         \<lparr> RCreationHeight = 2, RCompletionTime = 110, RInitialBalance = 2, SharesDst = 0, UnbondingOnHoldRefCount = 0 \<rparr>] \<rparr>)]\<rparr>"

lemma leaving_ok: "staking_ok example_staking_env leaving"
proof -
  have "bank_ok (SBankEnv example_staking_env) leaving_bank"
    by (auto simp: bank_ok_def balances_ok_def supply_ok_def accounts_ok_def vesting_ok_def held_def example_staking_env_def
        leaving_bank_def example_bank_def example_env_def int256_def GetAddress_def NotBondedPoolName_def)
  moreover have "0 \<le> bal leaving_bank BondedPoolName ''stake''" "8 \<le> bal leaving_bank NotBondedPoolName ''stake''" by code_simp+
  moreover have "StringToBytes (SBankEnv example_staking_env) a = Inr a" "ValStringToBytes example_staking_env a = Inr a" for a
    by (simp_all add: example_staking_env_def example_env_def)
  ultimately show ?thesis
    unfolding staking_ok_def example_pools
    by (auto simp: wf_def leaving_def example_staking_def example_staking_params_def int256_def shares_of_def delegated_def
        bonded_owed_def not_bonded_owed_def bond_denom_def entries_sum_def ubd_ok_def red_ok_def entry_ok_def)
qed

text \<open>
  C10: Completing an unbonding.  When it succeeds, the delegator has received exactly the balances of the entries that are
  mature, from the pool of tokens that are not bonded, and no other balance and no supply has changed.  The
  unbonding delegation keeps exactly its other entries, in their order, and is gone when there is none; validators, delegations
  and all other unbonding delegations are as before.
\<close>

theorem unbonding_completes:
  assumes "env_ok e" "staking_ok e s" "CompleteUnbonding e del val s = (Inr cs, t)"
  shows "\<exists>ubd. map_of (UnbondingDelegations s) (del, val) = Some ubd \<and>
    (let n = (\<Sum>x\<leftarrow>filter (\<lambda>x. CompletionTime x \<le> STime s) (UEntries ubd). Balance x);
         rest = filter (\<lambda>x. STime s < CompletionTime x) (UEntries ubd) in
     (\<forall>a d. bal (SBank t) a d = bal (SBank s) a d + (if d = bond_denom s
        then (if a = del then n else 0) - (if a = pool_addr e NotBondedPoolName then n else 0) else 0)) \<and>
     (\<forall>d. sup_of (SBank t) d = sup_of (SBank s) d) \<and>
     (\<forall>k. map_of (UnbondingDelegations t) k = (if k = (del, val)
        then if rest = [] then None else Some (ubd\<lparr>UEntries := rest\<rparr>) else map_of (UnbondingDelegations s) k))) \<and>
    Validators t = Validators s \<and> Delegations t = Delegations s \<and> staking_ok e t"
proof -
  have w0: "wf e (\<lambda>_. 0) s" using assms(2) by (simp add: staking_ok_def)
  from CompleteUnbonding_parts [OF assms(1) w0 assms(3)] obtain ubd w u where r: "map_of (UnbondingDelegations s) (del, val) = Some ubd"
    "ubd_ok e (del, val) ubd" "paid e (bond_denom s) del (mature_sum (STime s) (UEntries ubd)) (SBank s) (SBank w)" "w = s\<lparr>SBank := SBank w\<rparr>"
    "(let ubd' = ubd\<lparr>UEntries := filter (\<lambda>x. \<not> IsMature x (STime s)) (UEntries ubd)\<rparr> in
      if UEntries ubd' = [] then RemoveUnbondingDelegation e ubd' else SetUnbondingDelegation e ubd') w = (Inr u, t)" .
  let ?u = "ubd\<lparr>UEntries := filter (\<lambda>x. \<not> IsMature x (STime s)) (UEntries ubd)\<rparr>"
  have same: "UnbondingDelegations w = UnbondingDelegations s" "Validators w = Validators s" "Delegations w = Delegations s"
    by (subst r(4), simp)+
  have "ubd_ok e (del, val) ?u" using r(2) by (simp add: ubd_ok_def)
  note st = store_unbonding_run [OF _ this r(5) [unfolded Let_def], unfolded same, OF wfD(4) [OF w0]]
  have ok: "staking_ok e t" by (rule step_ok [OF assms(1,2) staking_step.complete_unbonding [OF assms(3)]])
  show ?thesis
    by (rule exI [of _ ubd])
      (use r(1,3) st ok in \<open>simp add: paid_def ledger_update_def mature_sum_def mature_iff not_le\<close>)
qed

theorem unbonding_completes_witness:
  "\<exists>cs t. CompleteUnbonding example_staking_env ''alice'' ''val'' leaving = (Inr cs, t) \<and> bal (SBank t) ''alice'' ''stake'' = 7 \<and>
     bal (SBank t) NotBondedPoolName ''stake'' = 3"
proof -
  let ?run = "CompleteUnbonding example_staking_env ''alice'' ''val'' leaving"
  have "\<not> isl (fst ?run)" by code_simp
  then obtain cs where run: "?run = (Inr cs, snd ?run)" by (metis isl_def sum.exhaust prod.collapse)
  have b: "bal (SBank leaving) ''alice'' ''stake'' = 2" "bal (SBank leaving) NotBondedPoolName ''stake'' = 8" "bond_denom leaving = ''stake''"
    "STime leaving = 100" by code_simp+
  have p: "''alice'' \<noteq> NotBondedPoolName" by (simp add: NotBondedPoolName_def)
  from unbonding_completes [OF example_env_ok leaving_ok run] obtain ubd where u: "map_of (UnbondingDelegations leaving) (''alice'', ''val'') = Some ubd"
    "\<forall>a d. bal (SBank (snd ?run)) a d = bal (SBank leaving) a d + (if d = bond_denom leaving
        then (if a = ''alice'' then \<Sum>x\<leftarrow>filter (\<lambda>x. CompletionTime x \<le> STime leaving) (UEntries ubd). Balance x else 0) -
          (if a = NotBondedPoolName then \<Sum>x\<leftarrow>filter (\<lambda>x. CompletionTime x \<le> STime leaving) (UEntries ubd). Balance x else 0) else 0)"
    unfolding example_pools Let_def by blast
  from u(1) have "(\<Sum>x\<leftarrow>filter (\<lambda>x. CompletionTime x \<le> 100) (UEntries ubd). Balance x) = 5" by (auto simp: leaving_def)
  with run u(2) b p show ?thesis by (intro exI [of _ cs] exI [of _ "snd ?run"]) simp
qed

text \<open>
  Completing a redelegation always ends with a result.  For a stored redelegation whose mature entries add up to a 256-bit
  amount of a valid bond denomination, the call returns that amount, and the redelegation keeps exactly the entries that are not
  mature, in their order, or is removed when there is none.
\<close>

theorem redelegation_completes:
  assumes "env_ok e" "staking_ok e s" "map_of (Redelegations s) (del, src, dst) = Some red"
    and "validDenom (SBankEnv e) (bond_denom s)"
    and "int256 (\<Sum>x\<leftarrow>filter (\<lambda>x. RCompletionTime x \<le> STime s) (REntries red). RInitialBalance x)"
  shows "\<exists>cs t. CompleteRedelegation e del src dst s = (Inr cs, t) \<and> staking_ok e t \<and>
    camt cs (bond_denom s) = (\<Sum>x\<leftarrow>filter (\<lambda>x. RCompletionTime x \<le> STime s) (REntries red). RInitialBalance x) \<and>
    (let rest = filter (\<lambda>x. STime s < RCompletionTime x) (REntries red) in
     \<forall>k. map_of (Redelegations t) k = (if k = (del, src, dst)
        then if rest = [] then None else Some (red\<lparr>REntries := rest\<rparr>) else map_of (Redelegations s) k))"
proof -
  have w: "wf e (\<lambda>_. 0) s" using assms(2) by (simp add: staking_ok_def)
  let ?vd = "validDenom (SBankEnv e)" and ?red = "red\<lparr>REntries := filter (\<lambda>x. \<not> red_IsMature x (STime s)) (REntries red)\<rparr>"
  note ok = wfD(8) [OF w assms(3)]
  have sum: "(\<Sum>x\<leftarrow>filter (\<lambda>x. RCompletionTime x \<le> STime s) (REntries red). RInitialBalance x) = red_sum (STime s) (REntries red)"
    by (simp add: red_sum_def mature_iff)
  have "\<forall>x \<in> set (REntries red). 0 \<le> RInitialBalance x" using ok by (simp add: red_ok_def)
  with complete_redelegations_total [of ?vd "bond_denom s" "[]" red "STime s" 0] assms(4,5) sum obtain cs where
    cs: "complete_redelegations ?vd (bond_denom s) (STime s) 0 red [] = Inr (?red, cs)" "camt cs (bond_denom s) = red_sum (STime s) (REntries red)"
    by (auto simp: coins_ok_iff)
  have "red_ok e (del, src, dst) ?red" using ok by (simp add: red_ok_def)
  moreover have "om_ok (Redelegations s)" using w by (simp add: wf_def)
  ultimately obtain t where
    t: "(if REntries ?red = [] then RemoveRedelegation e ?red else SetRedelegation e ?red) s = (Inr (), t)"
    "\<forall>x. map_of (Redelegations t) x = (if x = (del, src, dst) then if REntries ?red = [] then None else Some ?red else map_of (Redelegations s) x)"
    using store_redelegation_run [of e "(del, src, dst)" ?red s] by blast
  have run: "CompleteRedelegation e del src dst s = (Inr cs, t)"
    using assms(3) cs(1) t(1) unfolding CompleteRedelegation_def
    by (simp add: sbind_def sm_run staking_Params_run [OF w] bond_denom_the [OF w])
  have "staking_ok e t" by (rule step_ok [OF assms(1,2) staking_step.complete_redelegation [OF run]])
  with run t(2) cs(2) show ?thesis
    by (intro exI [of _ cs] exI [of _ t]) (simp add: sum mature_iff not_le)
qed

theorem redelegation_completes_witness:
  "\<exists>cs t. CompleteRedelegation example_staking_env ''alice'' ''val'' ''wal'' leaving = (Inr cs, t) \<and> camt cs ''stake'' = 6"
proof -
  obtain red where red: "map_of (Redelegations leaving) (''alice'', ''val'', ''wal'') = Some red"
    "(\<Sum>x\<leftarrow>filter (\<lambda>x. RCompletionTime x \<le> STime leaving) (REntries red). RInitialBalance x) = 6"
    by (auto simp: leaving_def example_staking_def)
  have b: "bond_denom leaving = ''stake''" "int256 6" by code_simp+
  have "validDenom (SBankEnv example_staking_env) (bond_denom leaving)" by (simp add: example_staking_env_def example_env_def)
  with redelegation_completes [OF example_env_ok leaving_ok red(1)] red(2) b show ?thesis by auto
qed

text \<open>
  C12: The queries of a delegator.  \<open>GetDelegatorDelegations\<close> and \<open>GetRedelegations\<close> return the records of the delegator in
  the order of the store, the first \<open>maxRetrieve\<close> of them.  \<open>GetUnbondingDelegations\<close> returns as many records, but for a positive
  \<open>maxRetrieve\<close> all of them are blank: it appends what it finds to an array that already has \<open>maxRetrieve\<close> blank ones
  and cuts the result after the number of records found.
\<close>

theorem delegator_queries:
  "GetDelegatorDelegations del m s = (Inr (take m (map snd (filter (\<lambda>x. fst (fst x) = del) (Delegations s)))), s) \<and>
   GetRedelegations del m s = (Inr (take m (map snd (filter (\<lambda>x. fst (fst x) = del) (Redelegations s)))), s) \<and>
   (0 < m \<longrightarrow> GetUnbondingDelegations del m s =
      (Inr (replicate (min m (length (filter (\<lambda>x. fst (fst x) = del) (UnbondingDelegations s)))) no_unbonding), s))"
proof -
  have del: "(case fill_slots m 0 (replicate m no_delegation) xs of (ys, j) \<Rightarrow> take j ys) = take m xs"
    and red: "(case fill_slots m 0 (replicate m no_redelegation) rs of (ys, j) \<Rightarrow> take j ys) = take m rs" for xs rs
    using fill_slots_prefix [of "replicate m no_delegation" m 0 xs] fill_slots_prefix [of "replicate m no_redelegation" m 0 rs] by simp_all
  show ?thesis
    by (simp add: GetDelegatorDelegations_def GetRedelegations_def GetUnbondingDelegations_def sm_run del red append_slots_run min.commute)
qed

theorem delegator_queries_witness:
  "fst (GetUnbondingDelegations ''alice'' 10 leaving) = Inr [no_unbonding]"
  using delegator_queries [of "''alice''" 10 leaving] by (simp add: leaving_def)

end
