(* ===== verification/Spec2Isabelle.thy ===== *)
theory Spec2Isabelle
  imports PrefixStore GasKV DecCoins BankGenesis Mint Feegrant StakingSolvency
begin

text \<open>
  A verification of the value-carrying core of the Cosmos SDK: the numbers, the stores a transaction writes to,
  the coin sets, and the modules that move coins.

  \<^bold>\<open>The program.\<close>  The SDK (\<open>src/\<close>) builds blockchains from modules.  A module keeps its state in collections over a
  key-value store; every transaction runs on a branch of that store (\<open>store/cachekv\<close>) seen through a gas meter
  (\<open>store/gaskv\<close>) and a prefix (\<open>store/prefix\<close>), and the branch is written back only if the transaction succeeds.
  Amounts are 256-bit integers and 18-digit decimals (\<open>math/\<close>), gathered in coin sets (\<open>types/coin.go\<close>,
  \<open>types/dec_coin.go\<close>).  \<open>x/bank\<close> holds the balances and the supply and asks \<open>x/auth\<close> for accounts, whose vesting
  schedules lock coins.  \<open>x/staking\<close> keeps the tokens delegated to validators in two pools of the bank, \<open>x/mint\<close> creates
  coins through the bank at the begin of blocks, and \<open>x/feegrant\<close> lets one account pay fees of another up to a limit.

  \<^bold>\<open>Vocabulary.\<close>  \<open>Prelude\<close> has the faults (a Go panic and a returned error are the two constructors of \<open>fault\<close>), the
  result type \<open>res\<close>, the state monad \<open>sm\<close> whose runs keep what was written before a fault, and the named
  collections the proofs use.  \<open>OrderedMap\<close> is the content of a collection or a tree: an association list in
  strictly ascending key order.  \<open>DecimalText\<close> is decimal text as Go's \<open>math/big\<close>, \<open>strings\<close> and
  \<open>strconv\<close> read and print it.

  \<^bold>\<open>Numbers.\<close>  \<open>SdkInt\<close> models \<open>math.Int\<close> and \<open>math.Uint\<close> (\<open>math/int.go\<close>, \<open>math/uint.go\<close>), \<open>LegacyDec\<close> models
  \<open>math.LegacyDec\<close> (\<open>math/legacy_dec.go\<close>): integers with the 256-bit, 315-bit and 64-bit checks the code
  has, each operation with its panics.  Shown: arithmetic is exact or panics, rounding of every
  multiplication and division, powers by squaring end with the exact result, printing and parsing are inverse.
  \<open>QuoRoundUp\<close> is characterised completely and found wrong for negative quotients.

  \<^bold>\<open>Stores.\<close>  \<open>KVStore\<close> has the interface \<open>KVStore\<close> as a record of methods over an explicit state, the locale \<open>kv_store\<close>
  with what a client relies on, and the adapter of a database; the B-tree package, which is not part of
  the sources, is a parameter with the laws of \<open>btree_api\<close>, satisfied by \<open>OrderedMap\<close>.  \<open>MergeIterator\<close> and \<open>CacheKV\<close>
  model \<open>store/cachekv\<close>, \<open>PrefixStore\<close> \<open>store/prefix\<close>, \<open>Gas\<close> and \<open>GasKV\<close> \<open>store/types/gas.go\<close> and \<open>store/gaskv\<close>.  Each is
  a \<open>kv_store\<close> again (by \<open>sublocale\<close>), so branches nest.  Shown: a branch refines a finite map, its commit is
  atomic, iteration is exact in both directions, a prefix isolates, and gas is charged exactly, before the
  access.  Loops of iterators end because every step shortens the rest of the range.

  \<^bold>\<open>Coins.\<close>  \<open>CoinSet\<close> states what a coin set means and the contract \<open>coin_set\<close> of its clients; \<open>Coins\<close>
  (\<open>types/coin.go\<close>) and \<open>DecCoins\<close> (\<open>types/dec_coin.go\<close>) satisfy it.  Shown: the merges and sorts compute pointwise
  sums and differences and panic exactly on overflow or a negative amount, construction is canonical, the binary
  search is a linear one, comparisons decide the pointwise order, truncation loses nothing.

  \<^bold>\<open>Accounts.\<close>  \<open>Vesting\<close> models the four vesting accounts (\<open>x/auth/vesting/types\<close>) and \<open>Accounts\<close> the account store
  (\<open>x/auth/keeper\<close>).  Shown: vested and vesting coins always add up, the vesting part decreases to zero,
  delegation tracking never loses coins.  The totals an account never computes may exceed 256 bits; the lemmas about
  the schedules say which sums are assumed to fit, and examples show what happens otherwise.

  \<^bold>\<open>Bank.\<close>  \<open>Bank\<close> has the keeper (\<open>x/bank/keeper/view.go\<close>, \<open>send.go\<close>, \<open>keeper.go\<close>), \<open>BankLedger\<close> its effects on the ledger,
  \<open>BankMsgs\<close> the message server (\<open>msg_server.go\<close>) and the step relation of the module, \<open>BankGenesis\<close> the
  genesis.  The environment record holds what the keeper is configured with: module permissions, blocked
  addresses, address codec, send and mint restrictions.  Shown: in every reachable state the recorded supply of
  each denomination is the sum of all balances; only minters and burners change it; sends do exactly what they
  announce or fail with nothing written; export and import are inverse.  The contract \<open>bank_ledger\<close> is what other
  modules use of it.

  \<^bold>\<open>Mint.\<close>  \<open>Mint\<close> models \<open>x/mint\<close> and the ratio it reads from \<open>x/staking/keeper/pool.go\<close>.  Shown: what a block provision
  does to supply and balances, the bounds of the inflation rate for the values of \<open>BlocksPerYear\<close> that are
  positive as signed words and the opposite direction for the others, and that a provision which meets the maximal supply
  exactly mints nothing and is paid from what the account of the module holds, or fails.

  \<^bold>\<open>Fee grants.\<close>  \<open>Feegrant\<close> models \<open>x/feegrant\<close>.  Shown: a grant never pays more than its limit over any history, the
  queue of expirations lists exactly the grants that expire so that pruning removes the earliest expired ones up to its limit, and the period limit
  holds for one denomination and is broken for two.

  \<^bold>\<open>Staking.\<close>  \<open>StakingTypes\<close> has the types of \<open>x/staking\<close> with their pure operations (\<open>x/staking/types\<close>), \<open>Staking\<close> the keeper and the
  message server (\<open>x/staking/keeper\<close>: \<open>validator.go\<close>, \<open>delegation.go\<close>, \<open>slash.go\<close>, \<open>pool.go\<close>, \<open>val_state_change.go\<close>,
  \<open>cons_pubkey.go\<close>, \<open>msg_server.go\<close>) over the state of the bank.  \<open>StakingInv\<close> states the invariant and shows it for
  delegating, unbonding and redelegating, \<open>StakingSlash\<close> for slashing, \<open>StakingBlocks\<close> for the changes of the validator
  set and the messages; \<open>StakingSolvency\<close> has the step relation of the module.  Shown: the pools always cover the tokens of the
  validators and the unbonding entries, and shares add up; a delegation never dilutes the others and leaving never pays
  more than the worth of the shares in rounding; a completed unbonding pays exactly its mature entries; what the
  queries of a delegator return.  The hooks of other modules are a parameter, assumed to take nothing out of the pools
  (\<open>env_ok\<close>).  A completion that fails at the end of a block, whose error the code drops, is not a step.

  \<^bold>\<open>Bounds and fuel.\<close>  No definition has fuel; loops are structural recursions or have a termination proof.  Machine words
  are 64-bit words or integers with the bounds written out.  Times are integers (seconds in vesting, nanoseconds
  in fee grants and staking).

  \<^bold>\<open>Not modelled.\<close>  Byte encodings (protobuf, amino, JSON, key encodings of collections), events, telemetry, tracing, paginated
  queries, command line and servers; Merkle trees and their versions, which belong to third-party packages and
  the disk; signatures and key storage; \<open>baseapp\<close>, which routes messages by reflection, and with it the modules
  that execute arbitrary messages (\<open>x/gov\<close>, \<open>x/group\<close>, \<open>x/authz\<close>); the other modules of \<open>x/\<close>.  The syntax of
  denominations and addresses is a parameter.
\<close>

end
